(* ===== verification/Prelude.thy ===== *)
theory Prelude
  imports Main "HOL-Library.Word"
begin

text \<open>
  What every component shares: names for the C integer types, the ways a piece of kernel code
  can go wrong, bounds-checked array access, and general lemmas on words, circular indices
  and lists that the component proofs use.
\<close>

section \<open>Machine types\<close>

type_synonym u8 = "8 word"
type_synonym u16 = "16 word"
type_synonym u32 = "32 word"
type_synonym u64 = "64 word"

text \<open>Flat byte-addressed memory, and a C string or buffer seen through its pointer.\<close>

type_synonym bytemem = "u64 \<Rightarrow> u8"
type_synonym cbuf = "nat \<Rightarrow> u8"

section \<open>Outcomes of kernel code\<close>

text \<open>
  \<open>Out_of_bounds\<close>: the code reads or writes outside an array (undefined in C).
  \<open>Spins\<close>: the code stays in a loop for ever. Everything else is a value.
\<close>

datatype fault = Out_of_bounds | Spins

type_synonym 'a outcome = "fault + 'a"

primrec and_then :: "'a outcome \<Rightarrow> ('a \<Rightarrow> 'b outcome) \<Rightarrow> 'b outcome" where
  "and_then (Inl e) f = Inl e"
| "and_then (Inr x) f = f x"

lemma and_then_Inr_iff:
  "and_then m f = Inr y \<longleftrightarrow> (\<exists>x. m = Inr x \<and> f x = Inr y)"
  by (cases m) auto

definition array_get :: "'a list \<Rightarrow> int \<Rightarrow> 'a outcome" where
  "array_get xs i = (if 0 \<le> i \<and> nat i < length xs then Inr (xs ! nat i) else Inl Out_of_bounds)"

definition array_set :: "'a list \<Rightarrow> int \<Rightarrow> 'a \<Rightarrow> 'a list outcome" where
  "array_set xs i v =
     (if 0 \<le> i \<and> nat i < length xs then Inr (xs[nat i := v]) else Inl Out_of_bounds)"

lemma array_get_nat [simp]: "i < length xs \<Longrightarrow> array_get xs (int i) = Inr (xs ! i)"
  by (simp add: array_get_def)

lemma array_set_nat [simp]: "i < length xs \<Longrightarrow> array_set xs (int i) v = Inr (xs[i := v])"
  by (simp add: array_set_def)

lemma array_get_neg [simp]: "array_get xs (- 1) = Inl Out_of_bounds"
  by (simp add: array_get_def)

text \<open>A loop that stores \<open>v\<close> in the first \<open>n\<close> elements.\<close>

primrec array_fill :: "nat \<Rightarrow> 'a \<Rightarrow> 'a list \<Rightarrow> 'a list" where
  "array_fill 0 v xs = xs"
| "array_fill (Suc n) v xs = (array_fill n v xs)[n := v]"

lemma length_array_fill [simp]: "length (array_fill n v xs) = length xs"
  by (induction n) auto

lemma nth_array_fill:
  "i < length xs \<Longrightarrow> array_fill n v xs ! i = (if i < n then v else xs ! i)"
  by (induction n) (auto simp: nth_list_update less_Suc_eq)

lemma array_fill_all: "length xs = n \<Longrightarrow> array_fill n v xs = replicate n v"
  by (rule nth_equalityI) (auto simp: nth_array_fill)

text \<open>A counting loop that stops at the first index with the property.\<close>

function find_up :: "nat \<Rightarrow> (nat \<Rightarrow> bool) \<Rightarrow> nat \<Rightarrow> nat option" where
  "find_up n P i = (if i < n then if P i then Some i else find_up n P (i + 1) else None)"
  by pat_completeness auto
termination
  by (relation "measure (\<lambda>(n, P, i). n - i)") auto

declare find_up.simps [simp del]

lemma find_up_Some:
  "find_up n P i = Some k \<Longrightarrow> i \<le> k \<and> k < n \<and> P k \<and> (\<forall>j. i \<le> j \<and> j < k \<longrightarrow> \<not> P j)"
proof (induction n P i rule: find_up.induct)
  case (1 n P i)
  show ?case
  proof (cases "i < n \<and> \<not> P i")
    case True
    with 1 have "i + 1 \<le> k \<and> k < n \<and> P k \<and> (\<forall>j. i + 1 \<le> j \<and> j < k \<longrightarrow> \<not> P j)"
      by (simp add: find_up.simps [of n P i])
    with True show ?thesis by (metis Suc_eq_plus1 Suc_leD not_less_eq_eq le_antisym)
  next
    case False
    with "1.prems" show ?thesis by (auto simp: find_up.simps [of n P i] split: if_splits)
  qed
qed

lemma find_up_None: "find_up n P i = None \<longleftrightarrow> (\<forall>j. i \<le> j \<and> j < n \<longrightarrow> \<not> P j)"
proof (induction n P i rule: find_up.induct)
  case (1 n P i)
  show ?case
  proof (cases "i < n \<and> \<not> P i")
    case True
    with 1 have "find_up n P i = None \<longleftrightarrow> (\<forall>j. i + 1 \<le> j \<and> j < n \<longrightarrow> \<not> P j)"
      by (simp add: find_up.simps [of n P i])
    with True show ?thesis by (metis Suc_eq_plus1 not_less_eq_eq le_antisym le_SucI)
  next
    case False
    then show ?thesis by (auto simp: find_up.simps [of n P i])
  qed
qed

lemma find_up_first:
  assumes "i \<le> k" "k < n" "P k" "\<And>j. i \<le> j \<Longrightarrow> j < k \<Longrightarrow> \<not> P j"
  shows "find_up n P i = Some k"
proof (cases "find_up n P i")
  case None
  with assms show ?thesis by (auto simp: find_up_None)
next
  case (Some l)
  with find_up_Some [OF Some] assms show ?thesis by (metis linorder_neqE_nat)
qed

section \<open>Words\<close>

lemma unat64_lt: "unat (w :: u64) < 2 ^ 64"
  using unsigned_less [of w, where ?'a = nat] by simp

lemma unat_add_no_wrap:
  fixes a b :: "'a::len word"
  shows "unat a + unat b < 2 ^ LENGTH('a) \<Longrightarrow> unat (a + b) = unat a + unat b"
  by (simp add: unat_add_lem [THEN iffD1])

lemma unat_diff_of_nat_add:
  fixes a b :: u64
  shows "i < 2 ^ 64 \<Longrightarrow> unat (a + of_nat i - a) = i"
  by (simp add: unat_of_nat take_bit_nat_eq_self)

lemma word_add_of_nat_eq_iff:
  fixes a b :: u64
  assumes "i < 2 ^ 64"
  shows "b = a + of_nat i \<longleftrightarrow> unat (b - a) = i"
proof
  assume "b = a + of_nat i"
  then show "unat (b - a) = i" using assms by (simp add: unat_of_nat take_bit_nat_eq_self)
next
  assume "unat (b - a) = i"
  then have "b - a = of_nat i" using assms
    by (simp add: word_unat_eq_iff unat_of_nat take_bit_nat_eq_self)
  then show "b = a + of_nat i" by (simp add: algebra_simps)
qed

section \<open>Circular buffers\<close>

text \<open>The \<open>n\<close> elements of a circular buffer of capacity \<open>c\<close>, starting at index \<open>h\<close>.\<close>

definition ring_list :: "nat \<Rightarrow> nat \<Rightarrow> nat \<Rightarrow> 'a list \<Rightarrow> 'a list" where
  "ring_list c h n xs = map (\<lambda>i. xs ! ((h + i) mod c)) [0..<n]"

lemma length_ring_list [simp]: "length (ring_list c h n xs) = n"
  by (simp add: ring_list_def)

lemma ring_list_0 [simp]: "ring_list c h 0 xs = []"
  by (simp add: ring_list_def)

lemma ring_list_eq_Nil [simp]: "ring_list c h n xs = [] \<longleftrightarrow> n = 0"
  by (simp add: ring_list_def)

text \<open>Slots \<open>h + i\<close> and \<open>h + n\<close> of a circular buffer differ while \<open>i < n < c\<close>.\<close>

lemma mod_shift_neq:
  fixes h :: nat
  assumes "i < n" "n < c"
  shows "(h + i) mod c \<noteq> (h + n) mod c"
proof
  assume "(h + i) mod c = (h + n) mod c"
  then have "c dvd (h + n) - (h + i)"
    using assms by (intro mod_eq_dvd_iff_nat [THEN iffD1]) auto
  then have "c dvd n - i" by simp
  then show False using assms by (auto dest: dvd_imp_le)
qed

lemma ring_list_snoc:
  assumes "n < c" "length xs = c"
  shows "ring_list c h (Suc n) (xs[(h + n) mod c := x]) = ring_list c h n xs @ [x]"
proof -
  have "0 < c" using assms by simp
  have "map (\<lambda>i. xs[(h + n) mod c := x] ! ((h + i) mod c)) [0..<n]
      = map (\<lambda>i. xs ! ((h + i) mod c)) [0..<n]"
    using mod_shift_neq [OF _ assms(1), of _ h] by (auto intro!: map_cong nth_list_update_neq dest: sym)
  then show ?thesis
    using assms \<open>0 < c\<close> by (simp add: ring_list_def)
qed

lemma ring_list_Cons:
  "0 < n \<Longrightarrow> h < c \<Longrightarrow> ring_list c h n xs = xs ! h # ring_list c ((h + 1) mod c) (n - 1) xs"
proof -
  assume "0 < n" "h < c"
  then obtain m where n: "n = Suc m" by (cases n) auto
  have "[0..<Suc m] = 0 # map Suc [0..<m]" by (simp add: map_Suc_upt upt_conv_Cons del: upt_Suc)
  then show ?thesis
    using \<open>h < c\<close> by (simp add: n ring_list_def o_def mod_add_left_eq del: upt_Suc)
qed

end
