(* ===== verification/Fifo.thy ===== *)
theory Fifo
  imports Prelude
begin

text \<open>
  The interface of a bounded first-in first-out queue in the style of the kernel's queues:
  an enqueue that answers 1 or 0, and a dequeue that answers 1 and stores the element through
  its pointer argument, or answers 0 and leaves that location alone. The kernel has two
  implementations, the character queue of util.c and the thread queue of semaphore.c; what
  their clients need is proved once here.
\<close>

primrec enq_all :: "('q \<Rightarrow> 'a \<Rightarrow> int \<times> 'q) \<Rightarrow> 'q \<Rightarrow> 'a list \<Rightarrow> 'q" where
  "enq_all enq q [] = q"
| "enq_all enq q (x # xs) = enq_all enq (snd (enq q x)) xs"

primrec deq_all :: "('q \<Rightarrow> 'a \<Rightarrow> int \<times> 'a \<times> 'q) \<Rightarrow> 'q \<Rightarrow> 'a list \<Rightarrow> 'a list \<times> 'q" where
  "deq_all deq q [] = ([], q)"
| "deq_all deq q (d # ds) =
     (let (r, x, q') = deq q d; (xs, q'') = deq_all deq q' ds in (x # xs, q''))"

text \<open>
  The abstract queue: a list with room for \<open>cap\<close> elements. A client's calls, and the answers it
  sees with the queue they leave, for any implementation of the two operations.
\<close>

definition list_enq :: "nat \<Rightarrow> 'a list \<Rightarrow> 'a \<Rightarrow> int \<times> 'a list" where
  "list_enq cap xs x = (if length xs < cap then (1, xs @ [x]) else (0, xs))"

primrec list_deq :: "'a list \<Rightarrow> 'a \<Rightarrow> int \<times> 'a \<times> 'a list" where
  "list_deq [] d = (0, d, [])"
| "list_deq (x # xs) d = (1, x, xs)"

datatype 'a fifo_call = Enq 'a | Deq 'a

primrec fifo_calls ::
  "('q \<Rightarrow> 'a \<Rightarrow> int \<times> 'q) \<Rightarrow> ('q \<Rightarrow> 'a \<Rightarrow> int \<times> 'a \<times> 'q) \<Rightarrow> 'q \<Rightarrow> 'a fifo_call list \<Rightarrow> (int \<times> 'a) list \<times> 'q" where
  "fifo_calls enq deq q [] = ([], q)"
| "fifo_calls enq deq q (c # cs) =
     (case c of
        Enq x \<Rightarrow> let (r, q) = enq q x; (as, q) = fifo_calls enq deq q cs in ((r, x) # as, q)
      | Deq d \<Rightarrow> let (r, x, q) = deq q d; (as, q) = fifo_calls enq deq q cs in ((r, x) # as, q))"

locale bounded_fifo =
  fixes enq :: "'q \<Rightarrow> 'a \<Rightarrow> int \<times> 'q"
    and deq :: "'q \<Rightarrow> 'a \<Rightarrow> int \<times> 'a \<times> 'q"
    and contents :: "'q \<Rightarrow> 'a list"
    and ok :: "'q \<Rightarrow> bool"
    and cap :: nat
  assumes enq_room: "ok q \<Longrightarrow> length (contents q) < cap \<Longrightarrow>
      \<exists>q'. enq q x = (1, q') \<and> ok q' \<and> contents q' = contents q @ [x]"
    and enq_full: "ok q \<Longrightarrow> cap \<le> length (contents q) \<Longrightarrow> enq q x = (0, q)"
    and deq_some: "ok q \<Longrightarrow> contents q = y # ys \<Longrightarrow>
      \<exists>q'. deq q d = (1, y, q') \<and> ok q' \<and> contents q' = ys"
    and deq_none: "ok q \<Longrightarrow> contents q = [] \<Longrightarrow> deq q d = (0, d, q)"
    and contents_cap: "ok q \<Longrightarrow> length (contents q) \<le> cap"
begin

lemma enq_answer: "ok q \<Longrightarrow> fst (enq q x) = (if length (contents q) < cap then 1 else 0)"
  using enq_room [of q x] enq_full [of q x] by auto

lemma enq_ok: "ok q \<Longrightarrow> ok (snd (enq q x))"
  using enq_room [of q x] enq_full [of q x] by (cases "length (contents q) < cap") auto

lemma deq_ok: "ok q \<Longrightarrow> ok (snd (snd (deq q d)))"
proof (cases "contents q")
  case Nil
  assume "ok q"
  with Nil show ?thesis by (simp add: deq_none)
next
  case (Cons y ys)
  assume "ok q"
  with Cons show ?thesis using deq_some [of q y ys d] by auto
qed

lemma enq_all_contents:
  "ok q \<Longrightarrow> length (contents q) + length xs \<le> cap \<Longrightarrow>
     ok (enq_all enq q xs) \<and> contents (enq_all enq q xs) = contents q @ xs"
proof (induction xs arbitrary: q)
  case Nil
  then show ?case by simp
next
  case (Cons x xs)
  then obtain q' where "enq q x = (1, q')" "ok q'" "contents q' = contents q @ [x]"
    using enq_room [of q x] by auto
  with Cons show ?case by simp
qed

lemma deq_all_contents:
  "ok q \<Longrightarrow> contents q = xs @ ys \<Longrightarrow> length ds = length xs \<Longrightarrow>
     \<exists>q'. deq_all deq q ds = (xs, q') \<and> ok q' \<and> contents q' = ys"
proof (induction xs arbitrary: q ds)
  case Nil
  then show ?case by simp
next
  case (Cons x xs)
  then obtain d ds' where ds: "ds = d # ds'" by (cases ds) auto
  obtain q' where q': "deq q d = (1, x, q')" "ok q'" "contents q' = xs @ ys"
    using deq_some [of q x "xs @ ys" d] Cons.prems by auto
  obtain q'' where "deq_all deq q' ds' = (xs, q'')" "ok q''" "contents q'' = ys"
    using Cons.IH [OF q'(2,3), of ds'] Cons.prems ds by auto
  with q' ds show ?case by simp
qed

text \<open>What goes in comes out, in the same order, after whatever was already queued.\<close>

lemma fifo_order:
  assumes "ok q" "length (contents q) + length xs \<le> cap"
    and "length ds = length (contents q) + length xs"
  shows "\<exists>q'. deq_all deq (enq_all enq q xs) ds = (contents q @ xs, q') \<and> ok q' \<and> contents q' = []"
  using enq_all_contents [OF assms(1,2)] assms(3)
  by (intro deq_all_contents) auto

text \<open>
  The implementation refines the abstract queue: whatever calls a client makes, in whatever order,
  it gets the same answers and elements, and \<open>contents\<close> maps the queue it leaves to the list.
\<close>

lemma refines_list:
  "ok q \<Longrightarrow> \<exists>q'. fifo_calls enq deq q cs = (fst (fifo_calls (list_enq cap) list_deq (contents q) cs), q') \<and>
     ok q' \<and> contents q' = snd (fifo_calls (list_enq cap) list_deq (contents q) cs)"
proof (induction cs arbitrary: q)
  case Nil
  then show ?case by simp
next
  case (Cons c cs)
  show ?case
  proof (cases c)
    case (Enq x)
    have "fst (enq q x) = fst (list_enq cap (contents q) x) \<and> ok (snd (enq q x)) \<and>
        contents (snd (enq q x)) = snd (list_enq cap (contents q) x)"
      using enq_room [OF Cons.prems, of x] enq_full [OF Cons.prems, of x] Cons.prems
      by (cases "length (contents q) < cap") (auto simp: list_enq_def)
    with Cons.IH [of "snd (enq q x)"] Enq show ?thesis by (auto simp: split_beta)
  next
    case (Deq d)
    have "fst (deq q d) = fst (list_deq (contents q) d) \<and>
        fst (snd (deq q d)) = fst (snd (list_deq (contents q) d)) \<and> ok (snd (snd (deq q d))) \<and>
        contents (snd (snd (deq q d))) = snd (snd (list_deq (contents q) d))"
      using deq_some [OF Cons.prems, of _ _ d] deq_none [OF Cons.prems, of d] Cons.prems
      by (cases "contents q") force+
    with Cons.IH [of "snd (snd (deq q d))"] Deq show ?thesis by (auto simp: split_beta)
  qed
qed

end

end
