(* ===== verification/Util.thy ===== *)
theory Util
  imports Fifo
begin

text \<open>
  kernel/util.c: the interrupt flag primitives, \<open>mypow\<close>, the memory and string routines and
  the character queue \<open>queue_char\<close>.
\<close>

section \<open>The processor state every component shares\<close>

text \<open>
  \<open>int_flag\<close> is RFLAGS.IF, the flag \<open>cli\<close> clears and \<open>sti\<close> sets; \<open>port_out\<close> is the history of
  the bytes written to I/O ports by \<open>io_out8\<close>, oldest first; \<open>comport\<close> is the base port of the
  console UART (device/serial.c). \<open>bytes\<close> is memory read and written as bytes; \<open>gdtr\<close> and \<open>idtr\<close>
  hold base and limit of the descriptor tables, \<open>seg_cs\<close> the code selector, \<open>seg_data\<close> the data
  selectors, \<open>cr3\<close> the page table. Later components extend this record.
\<close>

record cpu =
  int_flag :: bool
  port_out :: "(u16 \<times> u8) list"
  comport :: u16
  bytes :: bytemem
  gdtr :: "u64 \<times> u16"
  idtr :: "u64 \<times> u16"
  seg_cs :: u16
  seg_data :: u16
  cr3 :: u64

text \<open>A processor before any set-up, for the examples: interrupt flag and UART port as given.\<close>

definition cpu0 :: "bool \<Rightarrow> u16 \<Rightarrow> cpu" where
  "cpu0 i p = \<lparr>int_flag = i, port_out = [], comport = p, bytes = \<lambda>_. 0, gdtr = (0, 0), idtr = (0, 0),
     seg_cs = 0, seg_data = 0, cr3 = 0\<rparr>"

lemma cpu0_fields [simp]:
  "int_flag (cpu0 i p) = i" "port_out (cpu0 i p) = []" "comport (cpu0 i p) = p" "bytes (cpu0 i p) = (\<lambda>_. 0)"
  by (simp_all add: cpu0_def)

definition io_out8 :: "u16 \<Rightarrow> u8 \<Rightarrow> 'z cpu_scheme \<Rightarrow> 'z cpu_scheme" where
  "io_out8 port val s = s\<lparr>port_out := port_out s @ [(port, val)]\<rparr>"

definition io_cli :: "'z cpu_scheme \<Rightarrow> 'z cpu_scheme" where
  "io_cli s = s\<lparr>int_flag := False\<rparr>"

definition io_sti :: "'z cpu_scheme \<Rightarrow> 'z cpu_scheme" where
  "io_sti s = s\<lparr>int_flag := True\<rparr>"

text \<open>\<open>halt\<close> and \<open>busy_loop\<close> never come back to their caller.\<close>

definition halt :: "'r outcome" where
  "halt = Inl Spins"

section \<open>mypow\<close>

function mypow_loop :: "u64 \<Rightarrow> u64 \<Rightarrow> u64 \<Rightarrow> u64 \<Rightarrow> u64" where
  "mypow_loop num p i ans = (if i < p then mypow_loop num p (i + 1) (ans * num) else ans)"
  by pat_completeness auto
termination
proof (relation "measure (\<lambda>(num, p, i, ans). unat p - unat i)")
  fix num p i ans :: u64
  assume "i < p"
  then show "((num, p, i + 1, ans * num), (num, p, i, ans))
      \<in> measure (\<lambda>(num, p, i, ans). unat p - unat i)"
    by simp unat_arith
qed simp

declare mypow_loop.simps [simp del]

definition mypow :: "u64 \<Rightarrow> u64 \<Rightarrow> u64" where
  "mypow num p = mypow_loop num p 0 1"

lemma mypow_loop_power: "i \<le> p \<Longrightarrow> mypow_loop num p i ans = ans * num ^ (unat p - unat i)"
proof (induction num p i ans rule: mypow_loop.induct)
  case (1 num p i ans)
  show ?case
  proof (cases "i < p")
    case True
    then have "i + 1 \<le> p" and d: "unat p - unat i = Suc (unat p - unat (i + 1))"
      by unat_arith+
    then have "mypow_loop num p (i + 1) (ans * num) = ans * num * num ^ (unat p - unat (i + 1))"
      using "1.IH" True by blast
    with True d show ?thesis by (simp add: mypow_loop.simps [of num p i] mult.assoc)
  next
    case False
    with "1.prems" have "i = p" by simp
    then show ?thesis by (simp add: mypow_loop.simps [of num p p])
  qed
qed

lemma mypow_power: "mypow num p = num ^ unat p"
  by (simp add: mypow_def mypow_loop_power)

section \<open>memset and memcpy\<close>

text \<open>Both walk upwards one byte at a time; \<open>k\<close> counts the iterations made so far.\<close>

primrec memset_upto :: "bytemem \<Rightarrow> u64 \<Rightarrow> u32 \<Rightarrow> nat \<Rightarrow> bytemem" where
  "memset_upto m buf ch 0 = m"
| "memset_upto m buf ch (Suc k) = (memset_upto m buf ch k)(buf + of_nat k := ucast ch)"

definition memset :: "bytemem \<Rightarrow> u64 \<Rightarrow> u32 \<Rightarrow> u64 \<Rightarrow> bytemem" where
  "memset m buf ch n = memset_upto m buf ch (unat n)"

primrec memcpy_upto :: "bytemem \<Rightarrow> u64 \<Rightarrow> u64 \<Rightarrow> nat \<Rightarrow> bytemem" where
  "memcpy_upto m dst src 0 = m"
| "memcpy_upto m dst src (Suc k) =
     (let m' = memcpy_upto m dst src k in m'(dst + of_nat k := m' (src + of_nat k)))"

definition memcpy :: "bytemem \<Rightarrow> u64 \<Rightarrow> u64 \<Rightarrow> u64 \<Rightarrow> bytemem" where
  "memcpy m dst src n = memcpy_upto m dst src (unat n)"

lemma memset_upto_eq:
  "k \<le> 2 ^ 64 \<Longrightarrow>
     memset_upto m buf ch k a = (if unat (a - buf) < k then ucast ch else m a)"
proof (induction k)
  case 0
  then show ?case by simp
next
  case (Suc k)
  then have "a = buf + of_nat k \<longleftrightarrow> unat (a - buf) = k"
    by (intro word_add_of_nat_eq_iff) simp
  with Suc show ?case by (auto simp: less_Suc_eq)
qed

lemma memset_eq: "memset m buf ch n = (\<lambda>a. if a - buf < n then ucast ch else m a)"
  using unat64_lt [of n]
  by (intro ext) (simp add: memset_def memset_upto_eq word_less_nat_alt)

text \<open>
  The ascending copy is right whenever the destination does not start inside the source: the
  distance \<open>dst - src\<close>, taken modulo \<open>2 ^ 64\<close>, is 0 or at least \<open>n\<close>.
\<close>

lemma memcpy_upto_eq:
  assumes "dst = src \<or> n \<le> unat (dst - src)" "n < 2 ^ 64" "k \<le> n"
  shows "memcpy_upto m dst src k a =
    (if unat (a - dst) < k then m (src + (a - dst)) else m a)"
  using assms(3)
proof (induction k arbitrary: a)
  case 0
  then show ?case by simp
next
  case (Suc k)
  have k64: "k < 2 ^ 64" using Suc.prems assms(2) by simp
  have at: "a = dst + of_nat k \<longleftrightarrow> unat (a - dst) = k"
    using k64 by (rule word_add_of_nat_eq_iff)
  have unchanged: "memcpy_upto m dst src k (src + of_nat k) = m (src + of_nat k)"
  proof (cases "unat (src + of_nat k - dst) < k")
    case False
    then show ?thesis using Suc by simp
  next
    case True
    have "dst \<noteq> src"
    proof
      assume "dst = src"
      then have "unat (src + of_nat k - dst) = k"
        using k64 by (simp add: unat_of_nat take_bit_nat_eq_self)
      with True show False by simp
    qed
    define j where "j = unat (src + of_nat k - dst)"
    have "dst + of_nat j = src + of_nat k"
      using word_add_of_nat_eq_iff [of j "src + of_nat k" dst] True k64 by (simp add: j_def)
    then have "dst - src = of_nat k - of_nat j" by (simp add: algebra_simps)
    also have "\<dots> = of_nat (k - j)" using True by (simp add: j_def of_nat_diff)
    finally have "unat (dst - src) = k - j"
      using k64 by (simp add: unat_of_nat take_bit_nat_eq_self)
    with assms(1) \<open>dst \<noteq> src\<close> Suc.prems show ?thesis by simp
  qed
  show ?case
    using Suc unchanged at by (auto simp: Let_def less_Suc_eq algebra_simps)
qed

lemma memcpy_eq:
  assumes "dst = src \<or> n \<le> dst - src"
  shows "memcpy m dst src n = (\<lambda>a. if a - dst < n then m (src + (a - dst)) else m a)"
proof
  fix a
  show "memcpy m dst src n a = (if a - dst < n then m (src + (a - dst)) else m a)"
    using assms unat64_lt [of n] memcpy_upto_eq [of dst src "unat n" "unat n" m a]
    by (simp add: memcpy_def word_less_nat_alt word_le_nat_alt)
qed

section \<open>init_bss\<close>

text \<open>
  \<open>__bss_start\<close> is declared as a \<open>uint64_t\<close>, so \<open>(&__bss_start)[i] = 0\<close> clears the eight
  bytes at \<open>__bss_start + 8 * i\<close>, for each of the \<open>size\<close> values of \<open>i\<close> below the size in bytes.
\<close>

definition clear64 :: "bytemem \<Rightarrow> u64 \<Rightarrow> bytemem" where
  "clear64 m a = (\<lambda>b. if b - a < 8 then 0 else m b)"

primrec init_bss_upto :: "bytemem \<Rightarrow> u64 \<Rightarrow> nat \<Rightarrow> bytemem" where
  "init_bss_upto m bss_start 0 = m"
| "init_bss_upto m bss_start (Suc k) =
     clear64 (init_bss_upto m bss_start k) (bss_start + 8 * of_nat k)"

definition init_bss :: "bytemem \<Rightarrow> u64 \<Rightarrow> u64 \<Rightarrow> bytemem" where
  "init_bss m bss_start bss_end = init_bss_upto m bss_start (unat (bss_end - bss_start))"

lemma word_in_window:
  fixes d :: u64
  assumes "8 * k + 8 \<le> 2 ^ 64"
  shows "d - 8 * of_nat k < 8 \<longleftrightarrow> 8 * k \<le> unat d \<and> unat d < 8 * k + 8"
proof -
  have k: "unat (8 * of_nat k :: u64) = 8 * k"
    using assms by (simp add: unat_word_ariths unat_of_nat take_bit_nat_eq_self)
  show ?thesis
    using assms unat64_lt [of d] by (auto simp: word_less_nat_alt unat_sub_if' k)
qed

lemma init_bss_upto_eq:
  "8 * k \<le> 2 ^ 64 \<Longrightarrow>
     init_bss_upto m bss_start k a = (if unat (a - bss_start) < 8 * k then 0 else m a)"
proof (induction k)
  case 0
  then show ?case by simp
next
  case (Suc k)
  have "a - (bss_start + 8 * of_nat k) < 8 \<longleftrightarrow>
      8 * k \<le> unat (a - bss_start) \<and> unat (a - bss_start) < 8 * k + 8"
    using word_in_window [of k "a - bss_start"] Suc.prems by (simp add: algebra_simps)
  with Suc show ?case by (auto simp: clear64_def)
qed

section \<open>Strings\<close>

text \<open>
  A \<open>char *\<close> is the function from an index to the byte there; \<open>char\<close> is signed on this target,
  so comparisons read the byte with \<open>sint\<close>. A scan for the terminator need not end.
\<close>

partial_function (option) strlen_from :: "cbuf \<Rightarrow> nat \<Rightarrow> nat option" where
  "strlen_from s i = (if s i = 0 then Some i else strlen_from s (i + 1))"

function strncmp_loop :: "cbuf \<Rightarrow> cbuf \<Rightarrow> nat \<Rightarrow> nat \<Rightarrow> int" where
  "strncmp_loop s1 s2 n i =
     (if i < n then
        (if sint (s1 i) > sint (s2 i) then 1
         else if sint (s1 i) < sint (s2 i) then - 1
         else strncmp_loop s1 s2 n (i + 1))
      else 0)"
  by pat_completeness auto
termination
  by (relation "measure (\<lambda>(s1, s2, n, i). n - i)") auto

declare strncmp_loop.simps [simp del]

definition strncmp :: "cbuf \<Rightarrow> cbuf \<Rightarrow> u64 \<Rightarrow> int" where
  "strncmp s1 s2 n = strncmp_loop s1 s2 (unat n) 0"

definition strcmp :: "cbuf \<Rightarrow> cbuf \<Rightarrow> int option" where
  "strcmp s1 s2 =
     Option.bind (strlen_from s1 0) (\<lambda>s1len.
     Option.bind (strlen_from s2 0) (\<lambda>s2len.
       Some (if s1len = s2len then strncmp s1 s2 (of_nat s1len)
             else if s1len > s2len then 1 else - 1)))"

partial_function (option) strcpy_from :: "cbuf \<Rightarrow> cbuf \<Rightarrow> nat \<Rightarrow> cbuf option" where
  "strcpy_from s1 s2 i =
     (if s2 i = 0 then Some (s1(i := s2 i)) else strcpy_from (s1(i := s2 i)) s2 (i + 1))"

definition strcpy :: "cbuf \<Rightarrow> cbuf \<Rightarrow> cbuf option" where
  "strcpy s1 s2 = strcpy_from s1 s2 0"

text \<open>The buffer \<open>s\<close> holds the string \<open>xs\<close> and its terminator.\<close>

definition holds_str :: "cbuf \<Rightarrow> u8 list \<Rightarrow> bool" where
  "holds_str s xs \<longleftrightarrow> (\<forall>i<length xs. s i = xs ! i) \<and> s (length xs) = 0 \<and> 0 \<notin> set xs"

definition str_buf :: "u8 list \<Rightarrow> cbuf" where
  "str_buf xs = (\<lambda>i. if i < length xs then xs ! i else 0)"

lemma holds_str_buf: "0 \<notin> set xs \<Longrightarrow> holds_str (str_buf xs) xs"
  by (simp add: holds_str_def str_buf_def)

lemma holds_str_nonzero: "holds_str s xs \<Longrightarrow> i < length xs \<Longrightarrow> s i \<noteq> 0"
  unfolding holds_str_def by (metis nth_mem)

lemma strlen_from_eq: "holds_str s xs \<Longrightarrow> i \<le> length xs \<Longrightarrow> strlen_from s i = Some (length xs)"
proof (induction "length xs - i" arbitrary: i)
  case 0
  then show ?case by (simp add: strlen_from.simps holds_str_def)
next
  case (Suc d)
  then have "i < length xs" by simp
  with Suc show ?case
    by (simp add: strlen_from.simps [of s i] holds_str_nonzero)
qed

definition bytes_signed :: "u8 list \<Rightarrow> int list" where
  "bytes_signed xs = map sint xs"

text \<open>The sign of the lexicographic comparison of two integer lists of the same length.\<close>

fun lex_sign :: "int list \<Rightarrow> int list \<Rightarrow> int" where
  "lex_sign (x # xs) (y # ys) = (if x > y then 1 else if x < y then - 1 else lex_sign xs ys)"
| "lex_sign _ _ = 0"

lemma strncmp_loop_lex:
  assumes "holds_str s1 xs" "holds_str s2 ys" "length xs = length ys" "i \<le> length xs"
  shows "strncmp_loop s1 s2 (length xs) i =
    lex_sign (bytes_signed (drop i xs)) (bytes_signed (drop i ys))"
  using assms(4)
proof (induction "length xs - i" arbitrary: i)
  case 0
  then show ?case by (simp add: strncmp_loop.simps bytes_signed_def)
next
  case (Suc d)
  then have i: "i < length xs" "i < length ys" using assms(3) by simp_all
  then have "s1 i = xs ! i" "s2 i = ys ! i" using assms(1,2) by (auto simp: holds_str_def)
  moreover have "drop i xs = xs ! i # drop (i + 1) xs" "drop i ys = ys ! i # drop (i + 1) ys"
    using i by (simp_all add: Cons_nth_drop_Suc)
  ultimately show ?case
    using Suc i by (simp add: strncmp_loop.simps [of s1 s2 _ i] bytes_signed_def)
qed

lemma lex_sign_eq_0: "length xs = length ys \<Longrightarrow> lex_sign xs ys = 0 \<longleftrightarrow> xs = ys"
  by (induction xs ys rule: lex_sign.induct) auto

lemma bytes_signed_inject [simp]: "bytes_signed xs = bytes_signed ys \<longleftrightarrow> xs = ys"
proof -
  have "inj (sint :: u8 \<Rightarrow> int)" by (rule injI) (simp add: signed_word_eqI)
  then show ?thesis unfolding bytes_signed_def by (simp add: inj_map_eq_map)
qed

lemma strcpy_from_eq:
  "holds_str s2 xs \<Longrightarrow> i \<le> length xs \<Longrightarrow>
     strcpy_from s1 s2 i = Some (\<lambda>j. if i \<le> j \<and> j \<le> length xs then s2 j else s1 j)"
proof (induction "length xs - i" arbitrary: i s1)
  case 0
  then show ?case by (auto simp: strcpy_from.simps [of s1 s2 i] holds_str_def fun_eq_iff)
next
  case (Suc d)
  then have i: "i < length xs" "i + 1 \<le> length xs" by simp_all
  have "strcpy_from (s1(i := s2 i)) s2 (i + 1)
      = Some (\<lambda>j. if i + 1 \<le> j \<and> j \<le> length xs then s2 j else (s1(i := s2 i)) j)"
    using Suc i by (intro Suc.hyps) auto
  then show ?case
    using i Suc.prems by (auto simp: strcpy_from.simps [of s1 s2 i] holds_str_nonzero)
qed

section \<open>The character queue\<close>

definition QUEUE_SIZE :: nat where "QUEUE_SIZE = 1600"

record queue_char =
  qc_head :: nat
  qc_num :: nat
  qc_data :: "u8 list"

definition flush_queue_char :: "queue_char \<Rightarrow> queue_char" where
  "flush_queue_char que =
     que\<lparr>qc_data := array_fill QUEUE_SIZE 0 (qc_data que), qc_head := 0, qc_num := 0\<rparr>"

definition queue_char_isempty :: "queue_char \<Rightarrow> int" where
  "queue_char_isempty que = (if qc_num que = 0 then 1 else 0)"

definition queue_char_isfull :: "queue_char \<Rightarrow> int" where
  "queue_char_isfull que = (if qc_num que = QUEUE_SIZE then 1 else 0)"

definition queue_char_head :: "queue_char \<Rightarrow> u8" where
  "queue_char_head que = qc_data que ! qc_head que"

definition enqueue_char :: "queue_char \<Rightarrow> u8 \<Rightarrow> int \<times> queue_char" where
  "enqueue_char que c =
     (if qc_num que < QUEUE_SIZE
      then (1, que\<lparr>qc_data := (qc_data que)[(qc_head que + qc_num que) mod QUEUE_SIZE := c],
                   qc_num := qc_num que + 1\<rparr>)
      else (0, que))"

text \<open>The second component is what \<open>*c\<close> holds afterwards; \<open>c0\<close> is what it held before.\<close>

definition dequeue_char :: "queue_char \<Rightarrow> u8 \<Rightarrow> int \<times> u8 \<times> queue_char" where
  "dequeue_char que c0 =
     (if qc_num que > 0
      then (1, qc_data que ! qc_head que,
            que\<lparr>qc_head := (qc_head que + 1) mod QUEUE_SIZE, qc_num := qc_num que - 1\<rparr>)
      else (0, c0, que))"

text \<open>\<open>enqueue_str\<close> stops at the terminator, which it enqueues too, or at a full queue.\<close>

function enqueue_str_from :: "queue_char \<Rightarrow> cbuf \<Rightarrow> nat \<Rightarrow> int \<times> queue_char" where
  "enqueue_str_from que s i =
     (if s i \<noteq> 0 then
        (if fst (enqueue_char que (s i)) = 0 then (0, snd (enqueue_char que (s i)))
         else enqueue_str_from (snd (enqueue_char que (s i))) s (i + 1))
      else
        (if fst (enqueue_char que (s i)) = 0 then (0, snd (enqueue_char que (s i)))
         else (1, snd (enqueue_char que (s i)))))"
  by pat_completeness auto
termination
  by (relation "measure (\<lambda>(que, s, i). QUEUE_SIZE - qc_num que)")
     (auto simp: enqueue_char_def split: if_splits)

declare enqueue_str_from.simps [simp del]

definition enqueue_str :: "queue_char \<Rightarrow> cbuf \<Rightarrow> int \<times> queue_char" where
  "enqueue_str que s = enqueue_str_from que s 0"

text \<open>
  \<open>dequeue_str\<close> first drops leading zeros: that loop tests the byte at the head index, not
  whether the queue is empty. Then it copies to \<open>buf\<close> up to and including a zero.
\<close>

partial_function (option) skip_zeros :: "queue_char \<Rightarrow> u8 \<Rightarrow> queue_char option" where
  "skip_zeros que dust =
     (if queue_char_head que = 0
      then skip_zeros (snd (snd (dequeue_char que dust))) (fst (snd (dequeue_char que dust)))
      else Some que)"

function dequeue_str_from :: "queue_char \<Rightarrow> cbuf \<Rightarrow> nat \<Rightarrow> int \<times> cbuf \<times> queue_char" where
  "dequeue_str_from que buf i =
     (if fst (dequeue_char que (buf i)) = 0 then (0, buf, que)
      else let c = fst (snd (dequeue_char que (buf i)));
               que' = snd (snd (dequeue_char que (buf i)));
               buf' = buf(i := c)
           in if c \<noteq> 0 then dequeue_str_from que' buf' (i + 1) else (1, buf', que'))"
  by pat_completeness auto
termination
  by (relation "measure (\<lambda>(que, buf, i). qc_num que)")
     (auto simp: dequeue_char_def split: if_splits)

declare dequeue_str_from.simps [simp del]

definition dequeue_str :: "queue_char \<Rightarrow> cbuf \<Rightarrow> u8 \<Rightarrow> (int \<times> cbuf \<times> queue_char) option" where
  "dequeue_str que buf dust = Option.bind (skip_zeros que dust) (\<lambda>q. Some (dequeue_str_from q buf 0))"

subsection \<open>The queue is a bounded FIFO\<close>

definition queue_char_ok :: "queue_char \<Rightarrow> bool" where
  "queue_char_ok que \<longleftrightarrow>
     qc_head que < QUEUE_SIZE \<and> qc_num que \<le> QUEUE_SIZE \<and> length (qc_data que) = QUEUE_SIZE"

definition queue_char_list :: "queue_char \<Rightarrow> u8 list" where
  "queue_char_list que = ring_list QUEUE_SIZE (qc_head que) (qc_num que) (qc_data que)"

lemma queue_char_list_Cons:
  "queue_char_ok que \<Longrightarrow> 0 < qc_num que \<Longrightarrow>
     queue_char_list que = queue_char_head que #
       ring_list QUEUE_SIZE ((qc_head que + 1) mod QUEUE_SIZE) (qc_num que - 1) (qc_data que)"
  by (simp add: queue_char_list_def queue_char_ok_def queue_char_head_def ring_list_Cons)

interpretation qc: bounded_fifo enqueue_char dequeue_char queue_char_list queue_char_ok QUEUE_SIZE
proof unfold_locales
  fix q x
  assume "queue_char_ok q" "length (queue_char_list q) < QUEUE_SIZE"
  then show "\<exists>q'. enqueue_char q x = (1, q') \<and> queue_char_ok q' \<and>
      queue_char_list q' = queue_char_list q @ [x]"
    by (auto simp: enqueue_char_def queue_char_ok_def queue_char_list_def ring_list_snoc)
next
  fix q x
  assume "queue_char_ok q" "QUEUE_SIZE \<le> length (queue_char_list q)"
  then show "enqueue_char q x = (0, q)"
    by (simp add: enqueue_char_def queue_char_list_def)
next
  fix q y ys d
  assume a: "queue_char_ok q" "queue_char_list q = y # ys"
  then have "0 < qc_num q" by (cases "qc_num q") (auto simp: queue_char_list_def)
  moreover have "(qc_head q + 1) mod QUEUE_SIZE < QUEUE_SIZE" by (simp add: QUEUE_SIZE_def)
  ultimately show "\<exists>q'. dequeue_char q d = (1, y, q') \<and> queue_char_ok q' \<and> queue_char_list q' = ys"
    using a queue_char_list_Cons [of q]
    by (auto simp: dequeue_char_def queue_char_ok_def queue_char_list_def queue_char_head_def)
next
  fix q d
  assume "queue_char_ok q" "queue_char_list q = []"
  then show "dequeue_char q d = (0, d, q)"
    by (simp add: dequeue_char_def queue_char_list_def)
next
  fix q
  assume "queue_char_ok q"
  then show "length (queue_char_list q) \<le> QUEUE_SIZE"
    by (simp add: queue_char_list_def queue_char_ok_def)
qed

lemma flush_queue_char_ok:
  "length (qc_data que) = QUEUE_SIZE \<Longrightarrow>
     queue_char_ok (flush_queue_char que) \<and> queue_char_list (flush_queue_char que) = []"
  by (simp add: queue_char_ok_def queue_char_list_def flush_queue_char_def QUEUE_SIZE_def)

text \<open>
  C32. The character queue refines a bounded list: from the moment it is flushed, any sequence of
  \<open>enqueue_char\<close> and \<open>dequeue_char\<close> gets the answers and the bytes that a list of at most
  \<open>QUEUE_SIZE\<close> bytes would give, through every wrap of its indices and every refused call, and
  \<open>queue_char_isempty\<close> and \<open>queue_char_isfull\<close> then tell whether that list is empty or full.
\<close>

theorem queue_char_refines:
  fixes cs :: "u8 fifo_call list"
  assumes "length (qc_data que) = QUEUE_SIZE"
  defines "spec \<equiv> fifo_calls (list_enq QUEUE_SIZE) list_deq [] cs"
  shows "\<exists>que'. fifo_calls enqueue_char dequeue_char (flush_queue_char que) cs = (fst spec, que') \<and>
    queue_char_list que' = snd spec \<and> (queue_char_isempty que' = 1 \<longleftrightarrow> snd spec = []) \<and>
    (queue_char_isfull que' = 1 \<longleftrightarrow> length (snd spec) = QUEUE_SIZE)"
proof -
  note f = flush_queue_char_ok [OF assms(1)]
  obtain que' where q: "fifo_calls enqueue_char dequeue_char (flush_queue_char que) cs = (fst spec, que')"
    "queue_char_list que' = snd spec"
    using qc.refines_list [of "flush_queue_char que" cs] f unfolding spec_def by auto
  moreover have "length (snd spec) = qc_num que'" using q(2) by (simp add: queue_char_list_def flip: q(2))
  ultimately show ?thesis
    by (auto simp: queue_char_isempty_def queue_char_isfull_def)
qed

theorem queue_char_refines_witness:
  "\<exists>que'. fifo_calls enqueue_char dequeue_char
      (flush_queue_char \<lparr>qc_head = 7, qc_num = 9, qc_data = replicate 1600 1\<rparr>) [Deq 5, Enq 65, Enq 66, Deq 0] =
    ([(0, 5), (1, 65), (1, 66), (1, 65)], que') \<and> queue_char_list que' = [66]"
  using queue_char_refines [of "\<lparr>qc_head = 7, qc_num = 9, qc_data = replicate 1600 1\<rparr>" "[Deq 5, Enq 65, Enq 66, Deq 0]"]
  by (auto simp: QUEUE_SIZE_def list_enq_def)

subsection \<open>Strings through the queue\<close>

lemma enqueue_str_from_eq:
  assumes "holds_str s xs" "queue_char_ok que" "i \<le> length xs"
    and "length (queue_char_list que) + (length xs - i) < QUEUE_SIZE"
  shows "\<exists>que'. enqueue_str_from que s i = (1, que') \<and> queue_char_ok que' \<and>
           queue_char_list que' = queue_char_list que @ drop i xs @ [0]"
  using assms(2-4)
proof (induction "length xs - i" arbitrary: i que)
  case 0
  obtain q' where "enqueue_char que (s i) = (1, q')" "queue_char_ok q'"
      "queue_char_list q' = queue_char_list que @ [s i]"
    using qc.enq_room [of que "s i"] 0 by auto
  with 0 assms(1) show ?case
    by (simp add: enqueue_str_from.simps [of que s i] holds_str_def)
next
  case (Suc d)
  then have i: "i < length xs" by simp
  obtain q' where q': "enqueue_char que (s i) = (1, q')" "queue_char_ok q'"
      "queue_char_list q' = queue_char_list que @ [s i]"
    using qc.enq_room [of que "s i"] Suc.prems by auto
  have "\<exists>que'. enqueue_str_from q' s (i + 1) = (1, que') \<and> queue_char_ok que' \<and>
      queue_char_list que' = queue_char_list q' @ drop (i + 1) xs @ [0]"
    using Suc q' i by (intro Suc.hyps) auto
  moreover have "drop i xs = s i # drop (i + 1) xs"
    using i assms(1) by (simp add: Cons_nth_drop_Suc holds_str_def)
  ultimately show ?case
    using q' i assms(1) by (auto simp: enqueue_str_from.simps [of que s i] holds_str_nonzero)
qed

lemma skip_zeros_nonzero: "queue_char_head que \<noteq> 0 \<Longrightarrow> skip_zeros que dust = Some que"
  by (simp add: skip_zeros.simps)

lemma dequeue_str_from_eq:
  assumes "queue_char_ok que" "queue_char_list que = ys @ 0 # rest" "0 \<notin> set ys"
  shows "\<exists>que'. dequeue_str_from que buf i =
           (1, (\<lambda>j. if i \<le> j \<and> j \<le> i + length ys then (ys @ [0]) ! (j - i) else buf j), que') \<and>
         queue_char_ok que' \<and> queue_char_list que' = rest"
  using assms
proof (induction ys arbitrary: que buf i)
  case Nil
  obtain q' where "dequeue_char que (buf i) = (1, 0, q')" "queue_char_ok q'" "queue_char_list q' = rest"
    using qc.deq_some [of que 0 rest "buf i"] Nil by auto
  then show ?case
    by (auto simp: dequeue_str_from.simps [of que buf i] fun_eq_iff)
next
  case (Cons y ys)
  obtain q' where q': "dequeue_char que (buf i) = (1, y, q')" "queue_char_ok q'"
      "queue_char_list q' = ys @ 0 # rest"
    using qc.deq_some [of que y "ys @ 0 # rest" "buf i"] Cons.prems by auto
  have z: "0 \<notin> set ys" using Cons.prems(3) by simp
  obtain q'' where q'': "dequeue_str_from q' (buf(i := y)) (i + 1) =
      (1, (\<lambda>j. if i + 1 \<le> j \<and> j \<le> i + 1 + length ys then (ys @ [0]) ! (j - (i + 1))
               else (buf(i := y)) j), q'')" "queue_char_ok q''" "queue_char_list q'' = rest"
    using Cons.IH [OF q'(2,3) z, of "buf(i := y)" "i + 1"] by blast
  have "(\<lambda>j. if i + 1 \<le> j \<and> j \<le> i + 1 + length ys then (ys @ [0]) ! (j - (i + 1))
             else (buf(i := y)) j) =
        (\<lambda>j. if i \<le> j \<and> j \<le> i + length (y # ys) then ((y # ys) @ [0]) ! (j - i) else buf j)"
    by (auto simp: fun_eq_iff nth_Cons' le_eq_less_or_eq)
  with q' q'' Cons.prems show ?case
    by (simp add: dequeue_str_from.simps [of que buf i])
qed

text \<open>An empty queue whose head byte is zero keeps \<open>dequeue_str\<close> in its first loop.\<close>

lemma skip_zeros_empty_step:
  "qc_num que = 0 \<Longrightarrow> snd (snd (dequeue_char que d)) = que \<and> fst (snd (dequeue_char que d)) = d"
  by (simp add: dequeue_char_def)

lemma skip_zeros_diverges:
  assumes "qc_num que = 0" "queue_char_head que = 0"
  shows "skip_zeros que dust = None"
proof -
  have "skip_zeros que dust \<noteq> Some r" for r
  proof
    assume ret: "skip_zeros que dust = Some r"
    have "\<not> (qc_num que = 0 \<and> queue_char_head que = 0)"
    proof (rule skip_zeros.raw_induct
        [where P = "\<lambda>q d r. \<not> (qc_num q = 0 \<and> queue_char_head q = 0)", OF _ ret])
      fix f q d r
      assume IH: "\<And>q d r. f q d = Some r \<Longrightarrow> \<not> (qc_num q = 0 \<and> queue_char_head q = 0)"
        and eq: "(if queue_char_head q = 0
              then f (snd (snd (dequeue_char q d))) (fst (snd (dequeue_char q d)))
              else Some q) = Some r"
      show "\<not> (qc_num q = 0 \<and> queue_char_head q = 0)"
      proof
        assume h: "qc_num q = 0 \<and> queue_char_head q = 0"
        with eq skip_zeros_empty_step [of q d] have "f q d = Some r" by simp
        with IH h show False by blast
      qed
    qed
    with assms show False by simp
  qed
  then show ?thesis by (cases "skip_zeros que dust") auto
qed

end
