(* ===== verification/Heap.thy ===== *)
theory Heap
  imports Util
begin

text \<open>
  The kernel heap of kernel/mm.c: \<open>init_kheap\<close>, \<open>round_up_block\<close>, \<open>kmalloc\<close>, \<open>kfree\<close> and
  \<open>count_free_block\<close> (\<open>kmalloc_alignas\<close> is in \<open>Heap_Aligned\<close>).
  Free blocks form a circular list through the headers, in address order, that starts and ends
  at the static header \<open>base\<close>; \<open>freep\<close> points at some header of the list.
  Addresses and sizes are 64-bit words; a header pointer advances by 16 bytes per unit.
\<close>

section \<open>State\<close>

record malloc_header =
  hnext :: u64
  hsize :: u64

record heap = cpu +
  hdr :: "u64 \<Rightarrow> malloc_header"
  base_at :: u64
  kheap :: u64
  freep :: u64

definition HEAP_SIZE :: u64 where "HEAP_SIZE = 0x400000"

text \<open>\<open>p + n\<close> on a \<open>malloc_header *\<close>.\<close>

definition hplus :: "u64 \<Rightarrow> u64 \<Rightarrow> u64" where
  "hplus p n = p + 16 * n"

abbreviation nx :: "'z heap_scheme \<Rightarrow> u64 \<Rightarrow> u64" where
  "nx s p \<equiv> hnext (hdr s p)"

abbreviation sz :: "'z heap_scheme \<Rightarrow> u64 \<Rightarrow> u64" where
  "sz s p \<equiv> hsize (hdr s p)"

definition set_next :: "u64 \<Rightarrow> u64 \<Rightarrow> 'z heap_scheme \<Rightarrow> 'z heap_scheme" where
  "set_next p v s = s\<lparr>hdr := (hdr s)(p := (hdr s p)\<lparr>hnext := v\<rparr>)\<rparr>"

definition set_size :: "u64 \<Rightarrow> u64 \<Rightarrow> 'z heap_scheme \<Rightarrow> 'z heap_scheme" where
  "set_size p v s = s\<lparr>hdr := (hdr s)(p := (hdr s p)\<lparr>hsize := v\<rparr>)\<rparr>"

lemma hdr_simps [simp]:
  "nx (set_next p v s) a = (if a = p then v else nx s a)"
  "sz (set_next p v s) a = sz s a"
  "nx (set_size p v s) a = nx s a"
  "sz (set_size p v s) a = (if a = p then v else sz s a)"
  "a \<noteq> p \<Longrightarrow> hdr (set_next p v s) a = hdr s a"
  "a \<noteq> p \<Longrightarrow> hdr (set_size p v s) a = hdr s a"
  by (simp_all add: set_next_def set_size_def)

lemma hdr_fields [simp]:
  "base_at (set_next p v s) = base_at s" "base_at (set_size p v s) = base_at s"
  "kheap (set_next p v s) = kheap s" "kheap (set_size p v s) = kheap s"
  "freep (set_next p v s) = freep s" "freep (set_size p v s) = freep s"
  by (simp_all add: set_next_def set_size_def)

section \<open>Operations\<close>

definition init_kheap :: "u64 \<Rightarrow> 'z heap_scheme \<Rightarrow> 'z heap_scheme" where
  "init_kheap kheap_start s =
     (let s = s\<lparr>kheap := kheap_start\<rparr>;
          s = set_next (kheap s) (base_at s) s;
          s = set_size (kheap s) (HEAP_SIZE div 16) s;
          s = set_next (base_at s) (kheap s) s;
          s = set_size (base_at s) 0 s
      in s)"

text \<open>C division of \<open>int\<close>s truncates towards zero.\<close>

definition int_div :: "int \<Rightarrow> int \<Rightarrow> int" where
  "int_div a b = sgn a * sgn b * (\<bar>a\<bar> div \<bar>b\<bar>)"

definition round_up_block :: "int \<Rightarrow> int \<Rightarrow> int" where
  "round_up_block byte block = int_div (byte + block - 1) block"

text \<open>
  The number of header units for a request: the \<open>int\<close> result plus one, converted to \<open>uint64_t\<close>.
\<close>

definition nunits_of :: "int \<Rightarrow> u64" where
  "nunits_of nbytes = word_of_int (round_up_block nbytes 16 + 1)"

definition kmalloc_take :: "u64 \<Rightarrow> u64 \<Rightarrow> u64 \<Rightarrow> 'z heap_scheme \<Rightarrow> u64 \<times> 'z heap_scheme" where
  "kmalloc_take nunits q p s =
     (if sz s p = nunits then (hplus p 1, (set_next q (nx s p) s)\<lparr>freep := q\<rparr>)
      else let s1 = set_size p (sz s p - nunits) s;
               p' = hplus p (sz s1 p);
               s2 = set_size p' nunits s1
           in (hplus p' 1, s2\<lparr>freep := q\<rparr>))"

partial_function (option) kmalloc_loop ::
  "u64 \<Rightarrow> u64 \<Rightarrow> u64 \<Rightarrow> 'z heap_scheme \<Rightarrow> (u64 \<times> 'z heap_scheme) option" where
  "kmalloc_loop nunits q p s =
     (if sz s p \<ge> nunits then Some (kmalloc_take nunits q p s)
      else if p = freep s then Some (0, s)
      else kmalloc_loop nunits p (nx s p) s)"

definition kmalloc :: "int \<Rightarrow> 'z heap_scheme \<Rightarrow> (u64 \<times> 'z heap_scheme) option" where
  "kmalloc nbytes s = kmalloc_loop (nunits_of nbytes) (freep s) (nx s (freep s)) s"

definition kfree_stop :: "u64 \<Rightarrow> u64 \<Rightarrow> 'z heap_scheme \<Rightarrow> bool" where
  "kfree_stop p q s \<longleftrightarrow>
     (p > q \<and> p < nx s q) \<or> (q \<ge> nx s q \<and> (p > q \<or> p < nx s q))"

partial_function (option) kfree_find :: "u64 \<Rightarrow> u64 \<Rightarrow> 'z heap_scheme \<Rightarrow> u64 option" where
  "kfree_find p q s = (if kfree_stop p q s then Some q else kfree_find p (nx s q) s)"

definition kfree_link :: "u64 \<Rightarrow> u64 \<Rightarrow> 'z heap_scheme \<Rightarrow> 'z heap_scheme" where
  "kfree_link p q s =
     (let s = (if hplus p (sz s p) = nx s q
               then let s' = set_size p (sz s p + sz s (nx s q)) s
                    in set_next p (nx s' (nx s' q)) s'
               else set_next p (nx s q) s);
          s = (if hplus q (sz s q) = p
               then let s' = set_size q (sz s q + sz s p) s
                    in set_next q (nx s' p) s'
               else set_next q p s)
      in s\<lparr>freep := q\<rparr>)"

definition kfree :: "u64 \<Rightarrow> 'z heap_scheme \<Rightarrow> 'z heap_scheme option" where
  "kfree ptr s =
     (let p = ptr - 16
      in Option.bind (kfree_find p (freep s) s) (\<lambda>q. Some (kfree_link p q s)))"

partial_function (option) count_from :: "u64 \<Rightarrow> nat \<Rightarrow> 'z heap_scheme \<Rightarrow> nat option" where
  "count_from p count s =
     (if nx s p \<noteq> base_at s then count_from (nx s p) (count + 1) s else Some count)"

definition count_free_block :: "'z heap_scheme \<Rightarrow> nat option" where
  "count_free_block s = count_from (base_at s) 0 s"

text \<open>What the allocator may change: the headers and \<open>freep\<close>, nothing else of the machine.\<close>

definition heap_step :: "'z heap_scheme \<Rightarrow> 'z heap_scheme \<Rightarrow> bool" where
  "heap_step s s' \<longleftrightarrow> s' = s\<lparr>hdr := hdr s', freep := freep s'\<rparr>"

lemma heap_step_fields:
  assumes "heap_step s s'"
  shows "base_at s' = base_at s" "kheap s' = kheap s" "heap.more s' = heap.more s"
    "int_flag s' = int_flag s" "port_out s' = port_out s" "comport s' = comport s" "bytes s' = bytes s"
proof -
  obtain h f where "s' = s\<lparr>hdr := h, freep := f\<rparr>"
    using assms unfolding heap_step_def by blast
  then show "base_at s' = base_at s" "kheap s' = kheap s" "heap.more s' = heap.more s"
    "int_flag s' = int_flag s" "port_out s' = port_out s" "comport s' = comport s" "bytes s' = bytes s" by simp_all
qed

lemma heap_stepI: "s' = s\<lparr>hdr := h, freep := f\<rparr> \<Longrightarrow> heap_step s s'"
  by (simp add: heap_step_def)

section \<open>The free list\<close>

text \<open>\<open>path s q ps\<close>: following the next pointers from \<open>q\<close> visits \<open>ps\<close> in order.\<close>

primrec path :: "'z heap_scheme \<Rightarrow> u64 \<Rightarrow> u64 list \<Rightarrow> bool" where
  "path s q [] \<longleftrightarrow> True"
| "path s q (p # ps) \<longleftrightarrow> nx s q = p \<and> path s p ps"

definition blk_end :: "'z heap_scheme \<Rightarrow> u64 \<Rightarrow> nat" where
  "blk_end s p = unat p + 16 * unat (sz s p)"

definition heap_lo :: "'z heap_scheme \<Rightarrow> nat" where
  "heap_lo s = unat (kheap s)"

definition heap_hi :: "'z heap_scheme \<Rightarrow> nat" where
  "heap_hi s = unat (kheap s) + 0x400000"

text \<open>The bytes of a block, its header included.\<close>

definition blk_bytes :: "'z heap_scheme \<Rightarrow> u64 \<Rightarrow> nat set" where
  "blk_bytes s p = {unat p..<blk_end s p}"

definition blk_ok :: "'z heap_scheme \<Rightarrow> u64 \<Rightarrow> bool" where
  "blk_ok s p \<longleftrightarrow> heap_lo s \<le> unat p \<and> blk_end s p \<le> heap_hi s \<and> 0 < sz s p \<and> 16 dvd unat p"

text \<open>Where the linker script and the loader put \<open>base\<close> and the heap.\<close>

definition placed :: "'z heap_scheme \<Rightarrow> bool" where
  "placed s \<longleftrightarrow> unat (base_at s) + 16 \<le> unat (kheap s) \<and> heap_hi s < 2 ^ 64 \<and>
     16 dvd unat (kheap s)"

text \<open>
  The invariant: \<open>bs\<close> is the list of free blocks. They lie in the heap, in ascending order and
  with a gap between any two (adjacent blocks have been merged).
\<close>

definition heap_ok :: "'z heap_scheme \<Rightarrow> u64 list \<Rightarrow> bool" where
  "heap_ok s bs \<longleftrightarrow> placed s \<and> path s (base_at s) (bs @ [base_at s]) \<and> sz s (base_at s) = 0 \<and>
     (\<forall>b\<in>set bs. blk_ok s b) \<and> sorted_wrt (\<lambda>a b. blk_end s a < unat b) bs \<and>
     freep s \<in> set (base_at s # bs)"

definition free_bytes :: "'z heap_scheme \<Rightarrow> u64 list \<Rightarrow> nat set" where
  "free_bytes s bs = (\<Union>b\<in>set bs. blk_bytes s b)"

lemma path_append:
  "path s q (xs @ y # ys) \<longleftrightarrow> path s q (xs @ [y]) \<and> path s y ys"
  by (induction xs arbitrary: q) auto

lemma path_last: "path s q (xs @ [y]) \<Longrightarrow> nx s (last (q # xs)) = y"
  by (induction xs arbitrary: q) auto

lemma path_cong:
  "(\<And>a. a \<in> set (butlast (q # ps)) \<Longrightarrow> nx s a = nx t a) \<Longrightarrow> path s q ps = path t q ps"
proof (induction ps arbitrary: q)
  case Nil
  then show ?case by simp
next
  case (Cons p ps)
  have "path s p ps = path t p ps" using Cons.prems by (intro Cons.IH) auto
  then show ?case using Cons.prems [of q] by auto
qed

text \<open>Redirecting the last header of a path onto another path.\<close>

lemma path_splice:
  assumes "distinct (b # xs)" "path s b xs" "\<And>a. a \<noteq> last (b # xs) \<Longrightarrow> a \<in> set (b # xs) \<Longrightarrow> nx t a = nx s a"
    "nx t (last (b # xs)) = r" "path t r rs"
  shows "path t b (xs @ r # rs)"
  using assms
proof (induction xs arbitrary: b)
  case Nil
  then show ?case by simp
next
  case (Cons x xs)
  have "b \<noteq> last (x # xs)" using Cons.prems(1) by (metis distinct.simps(2) last_in_set list.distinct(1))
  then have "nx t b = x" using Cons.prems(2) Cons.prems(3) [of b] by simp
  moreover have "path t x (xs @ r # rs)"
    using Cons.prems by (intro Cons.IH) auto
  ultimately show ?case by simp
qed

lemma path_prefix: "path s q (xs @ ys) \<Longrightarrow> path s q xs"
  by (induction xs arbitrary: q) auto

lemma blk_end_cong: "sz s p = sz t p \<Longrightarrow> blk_end s p = blk_end t p"
  by (simp add: blk_end_def)

lemma blk_ok_bounds:
  assumes "placed s" "blk_ok s p"
  shows "unat p < blk_end s p" "blk_end s p < 2 ^ 64" "unat (base_at s) < unat p"
    "unat p + 16 \<le> blk_end s p"
proof -
  have "0 < unat (sz s p)" using assms(2) by (simp add: blk_ok_def word_less_nat_alt)
  then show "unat p < blk_end s p" "unat p + 16 \<le> blk_end s p" by (simp_all add: blk_end_def)
  show "blk_end s p < 2 ^ 64" "unat (base_at s) < unat p"
    using assms by (auto simp: blk_ok_def placed_def heap_lo_def)
qed

text \<open>Pointer arithmetic inside the address space is exact.\<close>

lemma unat_hplus: "unat p + 16 * unat n < 2 ^ 64 \<Longrightarrow> unat (hplus p n) = unat p + 16 * unat n"
proof -
  assume a: "unat p + 16 * unat n < 2 ^ 64"
  then have "unat (16 * n) = 16 * unat n" by (simp add: unat_word_ariths)
  with a show ?thesis by (simp add: hplus_def unat_word_ariths)
qed

lemma unat_hplus_end: "placed s \<Longrightarrow> blk_ok s p \<Longrightarrow> unat (hplus p (sz s p)) = blk_end s p"
  using blk_ok_bounds(2) [of s p] by (simp add: unat_hplus blk_end_def)

lemma heap_ok_distinct:
  assumes "heap_ok s bs"
  shows "distinct (base_at s # bs)"
proof -
  have p: "placed s" and b: "\<forall>b\<in>set bs. blk_ok s b"
    and srt: "sorted_wrt (\<lambda>a b. blk_end s a < unat b) bs"
    using assms by (auto simp: heap_ok_def)
  have "base_at s \<notin> set bs" using b blk_ok_bounds(3) [OF p] by auto
  moreover have "distinct bs"
    using srt b
  proof (induction bs)
    case Nil
    then show ?case by simp
  next
    case (Cons c cs)
    then have "c \<notin> set cs" using blk_ok_bounds(1) [OF p, of c] by force
    with Cons show ?case by simp
  qed
  ultimately show ?thesis by simp
qed

text \<open>From \<open>freep\<close> the next pointers lead through every header and back to \<open>freep\<close>.\<close>

lemma heap_ok_rotate:
  assumes "heap_ok s bs"
  obtains ps where "path s (freep s) (ps @ [freep s])" "freep s \<notin> set ps"
    "set (freep s # ps) = set (base_at s # bs)"
proof -
  let ?f = "freep s" and ?b = "base_at s"
  have path: "path s ?b (bs @ [?b])" and f: "?f \<in> set (?b # bs)"
    using assms by (auto simp: heap_ok_def)
  have dist: "distinct (?b # bs)" using assms by (rule heap_ok_distinct)
  show ?thesis
  proof (cases "?f = ?b")
    case True
    with path dist show ?thesis by (intro that [of bs]) auto
  next
    case False
    with f obtain us vs where bs: "bs = us @ ?f # vs" by (auto simp: in_set_conv_decomp)
    have "path s ?b (us @ [?f])" "path s ?f (vs @ [?b])"
      using path path_append [of s ?b us ?f "vs @ [?b]"] by (simp_all add: bs)
    then have "path s ?f ((vs @ ?b # us) @ [?f])"
      using path_append [of s ?f vs ?b "us @ [?f]"] by simp
    moreover have "?f \<notin> set (vs @ ?b # us)" using dist False bs by auto
    moreover have "set (?f # vs @ ?b # us) = set (?b # bs)" using bs by auto
    ultimately show ?thesis by (intro that [of "vs @ ?b # us"]) auto
  qed
qed

text \<open>In the circular list, the header that points at a block stands right before it.\<close>

lemma heap_ok_pred:
  assumes "heap_ok s bs" "q \<in> set (base_at s # bs)" "nx s q = p" "p \<in> set bs"
  obtains xs ys where "bs = xs @ p # ys" "q = last (base_at s # xs)"
proof -
  let ?b = "base_at s"
  have path: "path s ?b (bs @ [?b])" using assms by (simp add: heap_ok_def)
  have dist: "distinct (?b # bs)" using assms(1) by (rule heap_ok_distinct)
  obtain as cs where split: "?b # bs = as @ q # cs"
    using assms(2) by (metis in_set_conv_decomp)
  have "nx s q = hd (cs @ [?b])"
  proof (cases as)
    case Nil
    then show ?thesis using split path by (cases bs) auto
  next
    case (Cons a as')
    with split have bs: "bs = as' @ q # cs" "a = ?b" by auto
    have "path s q (cs @ [?b])"
      using path path_append [of s ?b as' q "cs @ [?b]"] by (simp add: bs)
    then show ?thesis by (cases cs) auto
  qed
  with assms(3,4) dist obtain cs' where cs: "cs = p # cs'" by (cases cs) auto
  show ?thesis
  proof (cases as)
    case Nil
    with split cs show ?thesis by (intro that [of "[]" cs']) auto
  next
    case (Cons a as')
    with split cs show ?thesis by (intro that [of "as' @ [q]" cs']) auto
  qed
qed

end
