(* ===== verification/Heap_Alloc.thy ===== *)
theory Heap_Alloc
  imports Heap
begin

text \<open>
  What \<open>kmalloc\<close> does to a heap that satisfies \<open>heap_ok\<close>: the search ends, it finds a large
  enough free block whenever there is one, and carving it keeps the invariant.
\<close>

lemma heap_ok_disjoint:
  assumes "heap_ok s bs" "a \<in> set bs" "b \<in> set bs" "a \<noteq> b"
  shows "blk_end s a < unat b \<or> blk_end s b < unat a"
proof -
  have "sorted_wrt (\<lambda>a b. blk_end s a < unat b) bs" using assms(1) by (simp add: heap_ok_def)
  then show ?thesis
    using assms(2-4) by (induction bs) auto
qed

lemma heap_ok_bytes_disjoint:
  "heap_ok s bs \<Longrightarrow> a \<in> set bs \<Longrightarrow> b \<in> set bs \<Longrightarrow> a \<noteq> b \<Longrightarrow>
     blk_bytes s a \<inter> blk_bytes s b = {}"
  using heap_ok_disjoint [of s bs a b] by (auto simp: blk_bytes_def)

lemma kmalloc_loop_cases:
  assumes "path s q (p # ps)" "last (p # ps) = freep s" "freep s \<notin> set (butlast (p # ps))"
  shows "(\<exists>q' p'. q' \<in> set (q # p # ps) \<and> p' \<in> set (p # ps) \<and> nx s q' = p' \<and> n \<le> sz s p' \<and>
            kmalloc_loop n q p s = Some (kmalloc_take n q' p' s)) \<or>
         ((\<forall>p'\<in>set (p # ps). sz s p' < n) \<and> kmalloc_loop n q p s = Some (0, s))"
  using assms
proof (induction ps arbitrary: q p)
  case Nil
  then show ?case
    using kmalloc_loop.simps [of n q p s] by (cases "n \<le> sz s p") (auto simp: not_le)
next
  case (Cons r ps)
  have ne: "p \<noteq> freep s" using Cons.prems(3) by auto
  show ?case
  proof (cases "n \<le> sz s p")
    case True
    with Cons.prems show ?thesis
      by (intro disjI1 exI [of _ q] exI [of _ p]) (auto simp: kmalloc_loop.simps [of n q p s])
  next
    case False
    with ne Cons.prems have "kmalloc_loop n q p s = kmalloc_loop n p r s"
      by (simp add: kmalloc_loop.simps [of n q p s])
    moreover have "path s p (r # ps)" "last (r # ps) = freep s" "freep s \<notin> set (butlast (r # ps))"
      using Cons.prems by auto
    ultimately show ?thesis using Cons.IH [of p r] False by auto
  qed
qed

lemma kmalloc_cases:
  assumes ok: "heap_ok s bs" and n: "0 < nunits_of nbytes"
  obtains (found) xs p ys where "bs = xs @ p # ys" "nunits_of nbytes \<le> sz s p"
      "kmalloc nbytes s = Some (kmalloc_take (nunits_of nbytes) (last (base_at s # xs)) p s)"
  | (none) "\<forall>b\<in>set bs. sz s b < nunits_of nbytes" "kmalloc nbytes s = Some (0, s)"
proof -
  let ?n = "nunits_of nbytes" and ?f = "freep s"
  obtain ps where ps: "path s ?f (ps @ [?f])" "?f \<notin> set ps" "set (?f # ps) = set (base_at s # bs)"
    using heap_ok_rotate [OF ok] .
  obtain r rs where rs: "ps @ [?f] = r # rs" by (cases ps) auto
  have r: "nx s ?f = r" using ps(1) rs by simp
  have mem: "set (r # rs) = set (base_at s # bs)" using ps(3) rs [symmetric] by auto
  have last: "last (r # rs) = ?f" "?f \<notin> set (butlast (r # rs))"
    using ps(2) rs [symmetric] by auto
  have path: "path s ?f (r # rs)" using ps(1) rs by simp
  have eq: "kmalloc nbytes s = kmalloc_loop ?n ?f r s" by (simp add: kmalloc_def r)
  have base: "sz s (base_at s) = 0" using ok by (simp add: heap_ok_def)
  from kmalloc_loop_cases [OF path last, of ?n] show thesis
  proof (elim disjE exE conjE)
    fix q' p'
    assume h: "q' \<in> set (?f # r # rs)" "p' \<in> set (r # rs)" "nx s q' = p'" "?n \<le> sz s p'"
      "kmalloc_loop ?n ?f r s = Some (kmalloc_take ?n q' p' s)"
    have f: "?f \<in> set (r # rs)" using last(1) by (metis last_in_set list.distinct(1))
    have "p' \<noteq> base_at s" using h(4) n base by auto
    with h(2) mem have "p' \<in> set bs" by auto
    moreover have "q' \<in> set (base_at s # bs)" using h(1) mem f by auto
    ultimately obtain xs ys where "bs = xs @ p' # ys" "q' = last (base_at s # xs)"
      using heap_ok_pred [OF ok _ h(3)] by metis
    with h eq show thesis by (intro found) auto
  next
    assume "\<forall>p'\<in>set (r # rs). sz s p' < ?n" "kmalloc_loop ?n ?f r s = Some (0, s)"
    with mem eq show thesis by (intro none) auto
  qed
qed

section \<open>Carving a block out of the free list\<close>

text \<open>Removing a block from the middle of the list leaves a valid heap.\<close>

lemma heap_ok_parts:
  assumes "heap_ok s bs" "bs = xs @ p # ys"
  shows "sorted_wrt (\<lambda>a b. blk_end s a < unat b) (xs @ ys)"
    "\<forall>b\<in>set (xs @ ys). blk_ok s b" "blk_ok s p" "placed s"
    "last (base_at s # xs) \<in> set (base_at s # xs)"
    "last (base_at s # xs) \<notin> set (p # ys)" "p \<notin> set (base_at s # xs @ ys)"
    "path s (base_at s) xs" "path s p (ys @ [base_at s])"
proof -
  show q: "last (base_at s # xs) \<in> set (base_at s # xs)"
    by (rule last_in_set) simp
  have d: "distinct (base_at s # xs @ p # ys)" using heap_ok_distinct [OF assms(1)] assms(2) by simp
  with q show "last (base_at s # xs) \<notin> set (p # ys)" "p \<notin> set (base_at s # xs @ ys)"
    by auto
  have "path s (base_at s) (xs @ p # ys @ [base_at s])"
    using assms by (simp add: heap_ok_def)
  then show "path s (base_at s) xs" "path s p (ys @ [base_at s])"
    using path_prefix path_append [of s "base_at s" xs p "ys @ [base_at s]"] by auto
qed (use assms in \<open>auto simp: heap_ok_def sorted_wrt_append\<close>)

lemma free_bytes_split:
  assumes "heap_ok s bs" "bs = xs @ p # ys"
  shows "free_bytes s (xs @ ys) = free_bytes s bs - blk_bytes s p"
proof -
  have "blk_bytes s b \<inter> blk_bytes s p = {}" if "b \<in> set (xs @ ys)" for b
    using that heap_ok_parts(7) [OF assms] assms(2) by (intro heap_ok_bytes_disjoint [OF assms(1)]) auto
  then show ?thesis by (auto simp: free_bytes_def assms(2))
qed

lemma unlink_block:
  assumes ok: "heap_ok s bs" and bs: "bs = xs @ p # ys"
    and s': "s' = (set_next (last (base_at s # xs)) (nx s p) s)\<lparr>freep := last (base_at s # xs)\<rparr>"
  shows "heap_ok s' (xs @ ys)" "free_bytes s' (xs @ ys) = free_bytes s bs - blk_bytes s p"
proof -
  let ?b = "base_at s" and ?q = "last (base_at s # xs)"
  note parts = heap_ok_parts [OF ok bs]
  have sizes: "sz s' a = sz s a" for a by (simp add: s')
  have nexts: "nx s' a = (if a = ?q then nx s p else nx s a)" for a by (simp add: s')
  have fields: "base_at s' = ?b" "kheap s' = kheap s" "freep s' = ?q" by (simp_all add: s')
  have same: "blk_end s' a = blk_end s a" "blk_bytes s' a = blk_bytes s a"
    "blk_ok s' a = blk_ok s a" for a
    by (simp_all add: blk_end_def blk_bytes_def blk_ok_def heap_lo_def heap_hi_def sizes fields)
  obtain r rs where r: "ys @ [?b] = r # rs" by (cases ys) auto
  have "path s' r rs"
  proof -
    have "butlast (r # rs) = ys" by (simp flip: r)
    then have "path s' r rs = path s r rs"
      using parts(6) by (intro path_cong) (auto simp: nexts)
    then show ?thesis using parts(9) r by simp
  qed
  moreover have "nx s p = r" using parts(9) r by simp
  ultimately have "path s' ?b (xs @ r # rs)"
    using parts(8) heap_ok_distinct [OF ok] bs by (intro path_splice [where s = s]) (auto simp: nexts)
  then show "heap_ok s' (xs @ ys)"
    using ok parts(1,2,4,5)
    by (auto simp: heap_ok_def same fields sizes placed_def heap_hi_def simp flip: r)
  show "free_bytes s' (xs @ ys) = free_bytes s bs - blk_bytes s p"
    using free_bytes_split [OF ok bs] by (simp add: free_bytes_def same)
qed

text \<open>Shrinking a block from its end leaves a valid heap; the tail gets its own header.\<close>

lemma shrink_block:
  assumes ok: "heap_ok s bs" and p: "p \<in> set bs" and n: "0 < n" "n < sz s p" and q: "q \<in> set (base_at s # bs)"
    and a: "a = hplus p (sz s p - n)"
    and s': "s' = (set_size a n (set_size p (sz s p - n) s))\<lparr>freep := q\<rparr>"
  shows "heap_ok s' bs" "free_bytes s' bs = free_bytes s bs - blk_bytes s' a"
    "blk_bytes s' a \<subseteq> blk_bytes s p" "blk_ok s' a" "sz s' a = n"
    "unat a = unat p + 16 * (unat (sz s p) - unat n)" "unat a + 16 * unat n = blk_end s p"
proof -
  have placed: "placed s" and okp: "blk_ok s p" using ok p by (auto simp: heap_ok_def)
  note bounds = blk_ok_bounds [OF placed okp]
  have d: "unat (sz s p - n) = unat (sz s p) - unat n"
    using n(2) by (simp add: unat_sub word_less_nat_alt word_le_nat_alt)
  have nn: "0 < unat n" "unat n < unat (sz s p)" using n by (simp_all add: word_less_nat_alt)
  have lt64: "unat p + 16 * unat (sz s p) < 2 ^ 64" using bounds(2) by (simp add: blk_end_def)
  show ua: "unat a = unat p + 16 * (unat (sz s p) - unat n)"
    unfolding a using unat_hplus [of p "sz s p - n"] lt64 by (simp add: d)
  then show ue: "unat a + 16 * unat n = blk_end s p"
    using nn by (simp add: blk_end_def algebra_simps)
  have a_in: "unat p < unat a" "unat a < blk_end s p" using ua ue nn by auto
  have a_out: "a \<notin> set (base_at s # bs)"
  proof
    assume "a \<in> set (base_at s # bs)"
    then consider "a = base_at s" | "a \<in> set bs" by auto
    then show False
    proof cases
      case 1
      then show False using a_in bounds by simp
    next
      case 2
      have "unat a < blk_end s a" using 2 ok blk_ok_bounds(1) [OF placed] by (auto simp: heap_ok_def)
      then show False using heap_ok_disjoint [OF ok 2 p] a_in by auto
    qed
  qed
  have ap: "a \<noteq> p" using a_in by auto
  have fields: "base_at s' = base_at s" "kheap s' = kheap s" "freep s' = q" by (simp_all add: s')
  have nexts: "nx s' c = nx s c" for c by (simp add: s')
  have sizes: "sz s' c = (if c = a then n else if c = p then sz s p - n else sz s c)" for c
    by (simp add: s')
  show "sz s' a = n" by (simp add: sizes)
  have same: "blk_end s' c = blk_end s c" "blk_bytes s' c = blk_bytes s c" "blk_ok s' c = blk_ok s c"
    if "c \<noteq> a" "c \<noteq> p" for c
    using that by (simp_all add: blk_end_def blk_bytes_def blk_ok_def heap_lo_def heap_hi_def sizes fields)
  have endp: "blk_end s' p = unat a" using ap by (simp add: blk_end_def sizes d ua)
  have enda: "blk_end s' a = blk_end s p" using ue by (simp add: blk_end_def sizes)
  show "blk_bytes s' a \<subseteq> blk_bytes s p" using a_in by (auto simp: blk_bytes_def enda)
  have "16 dvd unat p" using okp by (simp add: blk_ok_def)
  then have "16 dvd unat a" by (simp add: ua)
  then show oka: "blk_ok s' a"
    using okp a_in n by (auto simp: blk_ok_def enda heap_lo_def heap_hi_def fields sizes)
  have okp': "blk_ok s' p"
    using okp a_in n ap by (auto simp: blk_ok_def endp heap_lo_def heap_hi_def fields sizes d word_less_nat_alt)
  have le: "blk_end s' c \<le> blk_end s c" if "c \<in> set bs" for c
  proof (cases "c = p")
    case False
    moreover have "c \<noteq> a" using that a_out by auto
    ultimately show ?thesis by (simp add: same)
  qed (use endp a_in in simp)
  have "sorted_wrt (\<lambda>x y. blk_end s' x < unat y) bs"
    using ok le by (auto simp: heap_ok_def intro: sorted_wrt_mono_rel [rotated]
        intro!: le_less_trans [OF le])
  moreover have "\<forall>c\<in>set bs. blk_ok s' c"
  proof
    fix c assume "c \<in> set bs"
    then show "blk_ok s' c" using a_out okp' same(3) [of c] ok by (cases "c = p") (auto simp: heap_ok_def)
  qed
  moreover have "path s' (base_at s) (bs @ [base_at s])"
    using ok path_cong [of "base_at s" "bs @ [base_at s]" s' s] by (simp add: heap_ok_def nexts)
  moreover have "sz s' (base_at s) = 0"
    using ok a_out bounds(3) by (auto simp: heap_ok_def sizes)
  ultimately show "heap_ok s' bs"
    using placed q by (simp add: heap_ok_def fields placed_def heap_hi_def)
  have pa: "blk_bytes s' p = blk_bytes s p - blk_bytes s' a"
    using a_in by (auto simp: blk_bytes_def endp enda)
  have "blk_bytes s' c = blk_bytes s c - blk_bytes s' a" if "c \<in> set bs" for c
  proof (cases "c = p")
    case False
    then have "blk_bytes s c \<inter> blk_bytes s p = {}"
      using heap_ok_bytes_disjoint [OF ok that p] by simp
    moreover have "blk_bytes s' c = blk_bytes s c" using False that a_out by (intro same) auto
    ultimately show ?thesis using \<open>blk_bytes s' a \<subseteq> blk_bytes s p\<close> by auto
  qed (simp add: pa)
  then show "free_bytes s' bs = free_bytes s bs - blk_bytes s' a"
    by (auto simp: free_bytes_def)
qed

section \<open>kmalloc\<close>

lemma kmalloc_take_step: "heap_step s (snd (kmalloc_take n q p s))"
  by (simp add: heap_step_def kmalloc_take_def Let_def set_next_def set_size_def)

lemma kmalloc_spec:
  assumes ok: "heap_ok s bs" and n: "0 < nunits_of nbytes"
  obtains (got) p s' bs' where "kmalloc nbytes s = Some (hplus p 1, s')" "heap_ok s' bs'"
      "blk_ok s' p" "sz s' p = nunits_of nbytes" "blk_bytes s' p \<subseteq> free_bytes s bs"
      "free_bytes s' bs' = free_bytes s bs - blk_bytes s' p" "heap_step s s'"
      "\<forall>c. c \<notin> set (base_at s # bs) \<and> c \<noteq> p \<longrightarrow> hdr s' c = hdr s c"
  | (full) "\<forall>b\<in>set bs. sz s b < nunits_of nbytes" "kmalloc nbytes s = Some (0, s)"
proof -
  let ?n = "nunits_of nbytes"
  show thesis
  proof (cases rule: kmalloc_cases [OF ok n])
    case 2
    then show thesis by (rule full)
  next
    case found: (1 xs p ys)
    define q where "q = last (base_at s # xs)"
    have pbs: "p \<in> set bs" using found(1) by simp
    have q: "q \<in> set (base_at s # bs)"
      using heap_ok_parts(5) [OF ok found(1)] found(1) by (auto simp: q_def)
    define s' where "s' = snd (kmalloc_take ?n q p s)"
    have step: "heap_step s s'" unfolding s'_def by (rule kmalloc_take_step)
    show thesis
    proof (cases "sz s p = ?n")
      case True
      have eq: "kmalloc_take ?n q p s = (hplus p 1, s')"
        and s': "s' = (set_next q (nx s p) s)\<lparr>freep := q\<rparr>"
        using True by (simp_all add: s'_def kmalloc_take_def)
      note U = unlink_block [OF ok found(1) s' [unfolded q_def]]
      have "blk_bytes s' p = blk_bytes s p" "sz s' p = sz s p" "blk_ok s' p = blk_ok s p"
        by (simp_all add: s' blk_bytes_def blk_end_def blk_ok_def heap_lo_def heap_hi_def)
      moreover have "blk_ok s p" using ok pbs by (simp add: heap_ok_def)
      moreover have "\<forall>c. c \<notin> set (base_at s # bs) \<and> c \<noteq> p \<longrightarrow> hdr s' c = hdr s c"
        using q by (auto simp: s' set_next_def)
      ultimately show thesis
        using found(3) eq U step True pbs
        by (intro got [of p s' "xs @ ys"]) (auto simp: q_def free_bytes_def)
    next
      case False
      then have lt: "?n < sz s p" using found(2) by simp
      define a where "a = hplus p (sz s p - ?n)"
      have eq: "kmalloc_take ?n q p s = (hplus a 1, s')"
        and s': "s' = (set_size a ?n (set_size p (sz s p - ?n) s))\<lparr>freep := q\<rparr>"
        using False by (simp_all add: s'_def kmalloc_take_def Let_def a_def)
      note S = shrink_block [OF ok pbs n lt q a_def s']
      have "\<forall>c. c \<notin> set (base_at s # bs) \<and> c \<noteq> a \<longrightarrow> hdr s' c = hdr s c"
        using pbs by (auto simp: s' set_size_def)
      then show thesis
        using found(3) eq S step pbs
        by (intro got [of a s' bs]) (auto simp: q_def free_bytes_def)
    qed
  qed
qed

text \<open>For an \<open>int\<close> request that does not overflow: the rounded-up units and one for the header.\<close>

lemma round_up_block_nonneg: "0 \<le> n \<Longrightarrow> round_up_block n 16 = (n + 15) div 16"
  by (simp add: round_up_block_def int_div_def sgn_if)

lemma unat_nunits_of:
  assumes "0 \<le> n" "n < 2 ^ 31"
  shows "unat (nunits_of n) = nat ((n + 15) div 16) + 1"
proof -
  obtain m where m: "(n + 15) div 16 = int m"
    using assms by (metis nonneg_int_cases pos_imp_zdiv_nonneg_iff add_nonneg_nonneg zero_le_numeral zero_less_numeral)
  then have "m < 2 ^ 31" using assms by (simp add: int_eq_iff)
  moreover have "nunits_of n = of_nat (m + 1)"
    using assms m by (simp add: nunits_of_def round_up_block_nonneg)
  moreover have "unat (of_nat (m + 1) :: u64) = m + 1" if "m < 2 ^ 31"
    using that by (subst unat_of_nat) (simp add: take_bit_nat_eq_self)
  ultimately show ?thesis using m by simp
qed

lemma nunits_of_pos: "0 \<le> n \<Longrightarrow> n < 2 ^ 31 \<Longrightarrow> 0 < nunits_of n"
  using unat_nunits_of [of n] by (simp add: word_less_nat_alt)

end
