(* ===== verification/Heap_Free.thy ===== *)
theory Heap_Free
  imports Heap_Alloc
begin

text \<open>
  What \<open>kfree\<close> does to a heap that satisfies \<open>heap_ok\<close>, for a block that lies in the heap and
  overlaps no free block: the search finds the header right before the block, and linking it in
  merges it with the neighbours it touches and keeps the invariant.
\<close>

section \<open>The search\<close>

lemma kfree_find_path:
  assumes "path s q ps" "t \<in> set (q # ps)" "\<And>a. a \<in> set (q # ps) \<Longrightarrow> kfree_stop p a s \<longleftrightarrow> a = t"
  shows "kfree_find p q s = Some t"
  using assms
proof (induction ps arbitrary: q)
  case Nil
  then show ?case by (simp add: kfree_find.simps [of p q s])
next
  case (Cons r ps)
  show ?case
  proof (cases "q = t")
    case True
    with Cons.prems(3) [of q] kfree_find.simps [of p q s] show ?thesis by simp
  next
    case False
    with Cons.prems(3) [of q] have "\<not> kfree_stop p q s" by simp
    moreover have "kfree_find p r s = Some t"
      using False Cons.prems by (intro Cons.IH) auto
    ultimately show ?thesis using Cons.prems(1) by (simp add: kfree_find.simps [of p q s])
  qed
qed

text \<open>A block outside the free list, and the two parts of the list around it.\<close>

definition outside :: "'z heap_scheme \<Rightarrow> u64 list \<Rightarrow> u64 \<Rightarrow> bool" where
  "outside s bs p \<longleftrightarrow> (\<forall>c\<in>set bs. blk_end s c \<le> unat p \<or> blk_end s p \<le> unat c)"

lemma sorted_split:
  assumes ok: "heap_ok s bs" and okp: "blk_ok s p" and out: "outside s bs p"
  obtains xs ys where "bs = xs @ ys" "\<forall>c\<in>set xs. blk_end s c \<le> unat p" "\<forall>c\<in>set ys. blk_end s p \<le> unat c"
proof -
  have placed: "placed s" using ok by (simp add: heap_ok_def)
  define xs where "xs = takeWhile (\<lambda>c. blk_end s c \<le> unat p) bs"
  define ys where "ys = dropWhile (\<lambda>c. blk_end s c \<le> unat p) bs"
  have bs: "bs = xs @ ys" by (simp add: xs_def ys_def)
  have "\<forall>c\<in>set ys. blk_end s p \<le> unat c"
  proof (cases ys)
    case Nil
    then show ?thesis by simp
  next
    case (Cons y ys')
    then have "\<not> blk_end s y \<le> unat p"
      using hd_dropWhile [of "\<lambda>c. blk_end s c \<le> unat p" bs] by (simp add: ys_def)
    with out Cons bs have y: "blk_end s p \<le> unat y" by (auto simp: outside_def)
    have "unat y < unat c" if "c \<in> set ys'" for c
    proof -
      have "blk_end s y < unat c" using ok that Cons bs by (auto simp: heap_ok_def sorted_wrt_append)
      moreover have "blk_ok s y" using ok Cons bs by (auto simp: heap_ok_def)
      ultimately show ?thesis using blk_ok_bounds(1) [OF placed] by fastforce
    qed
    with y Cons show ?thesis by fastforce
  qed
  moreover have "\<forall>c\<in>set xs. blk_end s c \<le> unat p"
    by (auto simp: xs_def dest: set_takeWhileD)
  ultimately show ?thesis using bs that by blast
qed

text \<open>Next pointers of the two parts: ascending, except from the last block back to \<open>base\<close>.\<close>

lemma next_in_list:
  assumes ok: "heap_ok s bs" and bs: "bs = as @ c # cs"
  shows "nx s c = hd (cs @ [base_at s])" "nx s (last (base_at s # as)) = c"
proof -
  show "nx s c = hd (cs @ [base_at s])"
    using heap_ok_parts(9) [OF ok bs] by (cases cs) auto
  have "path s (base_at s) (as @ c # cs @ [base_at s])" using ok bs by (simp add: heap_ok_def)
  then have "path s (base_at s) (as @ [c])" by (metis path_append)
  then show "nx s (last (base_at s # as)) = c" by (rule path_last)
qed

lemma kfree_stop_iff:
  assumes ok: "heap_ok s bs" and okp: "blk_ok s p" and bs: "bs = xs @ ys"
    and xs: "\<forall>c\<in>set xs. blk_end s c \<le> unat p" and ys: "\<forall>c\<in>set ys. blk_end s p \<le> unat c"
    and a: "a \<in> set (base_at s # bs)"
  shows "kfree_stop p a s \<longleftrightarrow> a = last (base_at s # xs)"
proof -
  let ?b = "base_at s"
  have placed: "placed s" using ok by (simp add: heap_ok_def)
  have okc: "blk_ok s c" if "c \<in> set bs" for c using ok that by (simp add: heap_ok_def)
  note bp = blk_ok_bounds [OF placed okp]
  have below: "unat c < unat p" if "c \<in> set (?b # xs)" for c
    using that bp(3) xs okc bs blk_ok_bounds(1) [OF placed, of c] by fastforce
  have above: "unat p < unat c" if "c \<in> set ys" for c
    using that bp(1) ys by fastforce
  have base_less: "unat ?b < unat c" if "c \<in> set bs" for c
    using that okc blk_ok_bounds(3) [OF placed] by blast
  have asc: "unat c < unat d" if "bs = as @ c # d # ds" for as c d ds
  proof -
    have "blk_end s c < unat d" using ok that by (auto simp: heap_ok_def sorted_wrt_append)
    then show ?thesis using blk_ok_bounds(1) [OF placed okc, of c] that by simp
  qed
  have dist: "distinct (?b # bs)" using ok by (rule heap_ok_distinct)
  note alt = word_less_nat_alt word_le_nat_alt
  consider (ys) as cs where "ys = as @ a # cs" | (xs) as cs where "?b # xs = as @ a # cs"
    using a bs split_list [of a ys] split_list [of a "?b # xs"] by auto
  then show ?thesis
  proof cases
    case ys
    then have "a \<noteq> last (?b # xs)" using dist bs by (metis Un_iff append_Cons distinct_append
          in_set_conv_decomp last_in_set list.distinct(1) set_append disjoint_iff)
    moreover have "\<not> kfree_stop p a s"
    proof (cases cs)
      case Nil
      then have "nx s a = ?b" using next_in_list(1) [OF ok, of "xs @ as" a "[]"] ys bs by simp
      with above [of a] ys bp(3) show ?thesis by (auto simp: kfree_stop_def alt)
    next
      case (Cons c cs')
      then have "nx s a = c" using next_in_list(1) [OF ok, of "xs @ as" a cs] ys bs by simp
      moreover have "unat a < unat c" using asc [of "xs @ as" a c cs'] ys Cons bs by simp
      ultimately show ?thesis using above [of a] ys by (auto simp: kfree_stop_def alt)
    qed
    ultimately show ?thesis by simp
  next
    case xs
    have ap: "unat a < unat p" using below [of a] xs by (metis in_set_conv_decomp)
    show ?thesis
    proof (cases cs)
      case Nil
      then have l: "a = last (?b # xs)" using xs by simp
      have "kfree_stop p a s"
      proof (cases ys)
        case Nil
        have "nx s a = ?b" using path_last [of s ?b xs ?b] ok bs Nil l by (simp add: heap_ok_def)
        moreover have "unat ?b \<le> unat a" using l base_less bs Nil by (cases "xs = []") (auto intro: less_imp_le)
        ultimately show ?thesis using ap by (auto simp: kfree_stop_def alt)
      next
        case (Cons y ys')
        have "nx s a = y" using next_in_list(2) [OF ok, of xs y ys'] bs Cons l by simp
        then show ?thesis using ap above [of y] Cons by (auto simp: kfree_stop_def alt)
      qed
      with l show ?thesis by simp
    next
      case (Cons c cs')
      have nl: "a \<noteq> last (?b # xs)"
      proof
        assume "a = last (?b # xs)"
        then have "a \<in> set cs" using xs Cons by (metis last_appendR last_in_set list.distinct(1) last_ConsR)
        moreover have "distinct (?b # xs)" using dist bs by simp
        ultimately show False using xs by simp
      qed
      have step: "nx s a = c \<and> unat a < unat c \<and> c \<in> set (?b # xs)"
      proof (cases as)
        case Nil
        then have h: "a = ?b" "xs = c # cs'" using xs Cons by auto
        with next_in_list(2) [OF ok, of "[]" c "cs' @ ys"] bs base_less [of c] show ?thesis by simp
      next
        case (Cons d ds)
        then have h: "xs = ds @ a # c # cs'" using xs \<open>cs = c # cs'\<close> by simp
        with next_in_list(1) [OF ok, of ds a "c # cs' @ ys"] asc [of ds a c "cs' @ ys"] bs
        show ?thesis by simp
      qed
      then have "unat c < unat p" using below by blast
      with step ap have "\<not> kfree_stop p a s" by (auto simp: kfree_stop_def alt)
      with nl show ?thesis by simp
    qed
  qed
qed

lemma kfree_find_eq:
  assumes ok: "heap_ok s bs" and "blk_ok s p" and bs: "bs = xs @ ys"
    and "\<forall>c\<in>set xs. blk_end s c \<le> unat p" and "\<forall>c\<in>set ys. blk_end s p \<le> unat c"
  shows "kfree_find p (freep s) s = Some (last (base_at s # xs))"
proof -
  obtain ps where ps: "path s (freep s) (ps @ [freep s])"
      "set (freep s # ps) = set (base_at s # bs)"
    using heap_ok_rotate [OF ok] by metis
  have "last (base_at s # xs) \<in> set (base_at s # bs)"
    using last_in_set [of "base_at s # xs"] bs by auto
  then show ?thesis
    using path_prefix [OF ps(1)] ps(2) kfree_stop_iff [OF assms]
    by (intro kfree_find_path [of s "freep s" ps]) auto
qed

section \<open>Linking the block in\<close>

definition free_right :: "u64 \<Rightarrow> u64 \<Rightarrow> 'z heap_scheme \<Rightarrow> 'z heap_scheme" where
  "free_right p q s =
     (if hplus p (sz s p) = nx s q
      then set_next p (nx s (nx s q)) (set_size p (sz s p + sz s (nx s q)) s)
      else set_next p (nx s q) s)"

definition free_left :: "u64 \<Rightarrow> u64 \<Rightarrow> 'z heap_scheme \<Rightarrow> 'z heap_scheme" where
  "free_left p q s =
     (if hplus q (sz s q) = p
      then set_next q (nx s p) (set_size q (sz s q + sz s p) s)
      else set_next q p s)\<lparr>freep := q\<rparr>"

lemma kfree_link_eq: "kfree_link p q s = free_left p q (free_right p q s)"
  by (simp add: kfree_link_def free_left_def free_right_def Let_def)

text \<open>After the first half \<open>p\<close> heads the rest of the list and has absorbed a block it touched.\<close>

lemma free_right_spec:
  assumes ok: "heap_ok s bs" and okp: "blk_ok s p" and bs: "bs = xs @ ys"
    and ys: "\<forall>c\<in>set ys. blk_end s p \<le> unat c" and p: "p \<notin> set (base_at s # bs)"
    and qdef: "q = last (base_at s # xs)" and s1: "s1 = free_right p q s"
  obtains ys1 where "path s1 p (ys1 @ [base_at s])" "\<exists>zs. ys = zs @ ys1" "blk_ok s1 p"
    "\<forall>c\<in>set ys1. blk_end s1 p < unat c"
    "blk_bytes s1 p \<union> free_bytes s ys1 = blk_bytes s p \<union> free_bytes s ys"
    "\<forall>c. c \<noteq> p \<longrightarrow> hdr s1 c = hdr s c" "base_at s1 = base_at s" "kheap s1 = kheap s"
    "freep s1 = freep s" "heap.more s1 = heap.more s"
proof -
  let ?b = "base_at s"
  have placed: "placed s" using ok by (simp add: heap_ok_def)
  have fields: "base_at s1 = base_at s" "kheap s1 = kheap s" "freep s1 = freep s"
      "heap.more s1 = heap.more s" "\<forall>c. c \<noteq> p \<longrightarrow> hdr s1 c = hdr s c"
    by (auto simp: s1 free_right_def set_next_def set_size_def)
  have e: "unat (hplus p (sz s p)) = blk_end s p" using placed okp by (rule unat_hplus_end)
  have okc: "blk_ok s c" if "c \<in> set ys" for c using ok that bs by (simp add: heap_ok_def)
  have srt: "sorted_wrt (\<lambda>a b. blk_end s a < unat b) ys"
    using ok bs by (simp add: heap_ok_def sorted_wrt_append)
  have path: "path s1 c (cs @ [?b])" if "path s c (cs @ [?b])" "p \<noteq> c" "p \<notin> set cs" for c cs
  proof -
    have "path s1 c (cs @ [?b]) = path s c (cs @ [?b])"
    proof (rule path_cong)
      fix a assume "a \<in> set (butlast (c # cs @ [?b]))"
      then have "a \<noteq> p" using that by auto
      then show "nx s1 a = nx s a" using fields(5) by simp
    qed
    with that show ?thesis by simp
  qed
  show ?thesis
  proof (cases ys)
    case Nil
    have q: "nx s q = ?b"
      unfolding qdef using ok bs Nil by (intro path_last) (simp add: heap_ok_def)
    have "hplus p (sz s p) \<noteq> ?b"
      using e blk_ok_bounds [OF placed okp] by auto
    then have s1': "s1 = set_next p ?b s" by (simp add: s1 free_right_def q)
    then have "blk_end s1 p = blk_end s p" by (simp add: blk_end_def)
    then show ?thesis using fields okp Nil
      by (intro that [of "[]"])
        (auto simp: s1' blk_ok_def heap_lo_def heap_hi_def blk_bytes_def)
  next
    case (Cons y ys')
    have q: "nx s q = y" unfolding qdef using bs Cons by (intro next_in_list(2) [OF ok]) simp
    have py: "path s y (ys' @ [?b])"
      using heap_ok_parts(9) [OF ok, of xs y ys'] bs Cons by simp
    then have py1: "path s1 y (ys' @ [?b])" using p bs Cons by (intro path) auto
    show ?thesis
    proof (cases "blk_end s p = unat y")
      case False
      then have "hplus p (sz s p) \<noteq> y" using e by auto
      then have s1': "s1 = set_next p y s" by (simp add: s1 free_right_def q)
      then have "sz s1 p = sz s p" and nxp: "nx s1 p = y" by simp_all
      then have end1: "blk_end s1 p = blk_end s p" and okp1: "blk_ok s1 p"
        using okp fields by (auto simp: blk_end_def blk_ok_def heap_lo_def heap_hi_def)
      have "blk_end s p < unat c" if "c \<in> set ys" for c
      proof (cases "c = y")
        case True
        then show ?thesis using False ys that by (simp add: le_neq_implies_less)
      next
        case False
        then have "unat y < unat c"
          using srt that Cons blk_ok_bounds(1) [OF placed okc, of y] by auto
        then show ?thesis using ys Cons by fastforce
      qed
      then show ?thesis using fields okp1 nxp py1 Cons
        by (intro that [of ys]) (auto simp: end1 blk_bytes_def)
    next
      case True
      then have "hplus p (sz s p) = y" using e by (simp add: word_unat_eq_iff)
      then have s1': "s1 = set_next p (nx s y) (set_size p (sz s p + sz s y) s)"
        by (simp add: s1 free_right_def q)
      have oky: "blk_ok s y" using okc Cons by simp
      have sum: "unat (sz s p + sz s y) = unat (sz s p) + unat (sz s y)"
        using True blk_ok_bounds(2) [OF placed oky]
        by (intro unat_add_no_wrap) (simp add: blk_end_def)
      then have end1: "blk_end s1 p = blk_end s y"
        using True by (simp add: blk_end_def s1' algebra_simps)
      have nxp: "nx s1 p = hd (ys' @ [?b])" using py by (cases ys') (auto simp: s1')
      have pathp: "path s1 p (ys' @ [?b])" using py1 nxp by (cases ys') auto
      have okp1: "blk_ok s1 p"
        using okp oky sum fields end1
        by (auto simp: blk_ok_def heap_lo_def heap_hi_def s1' word_less_nat_alt)
      have "blk_bytes s1 p = blk_bytes s p \<union> blk_bytes s y"
        using True blk_ok_bounds(1) [OF placed okp] blk_ok_bounds(1) [OF placed oky]
        by (auto simp: blk_bytes_def end1)
      moreover have "\<forall>c\<in>set ys'. blk_end s1 p < unat c" using srt Cons end1 by auto
      ultimately show ?thesis using pathp okp1 fields Cons
        by (intro that [of ys']) (auto simp: free_bytes_def)
    qed
  qed
qed

lemma snoc_last: "c \<in> set xs \<Longrightarrow> c \<noteq> last (b # xs) \<Longrightarrow> \<exists>us. xs = us @ [last (b # xs)] \<and> c \<in> set us"
  by (cases xs rule: rev_cases) auto

text \<open>The situation between the two halves, with \<open>zs\<close> the block \<open>p\<close> has absorbed, if any.\<close>

definition half_linked ::
  "'z heap_scheme \<Rightarrow> u64 list \<Rightarrow> u64 list \<Rightarrow> u64 list \<Rightarrow> u64 \<Rightarrow> 'z heap_scheme \<Rightarrow> bool" where
  "half_linked s xs zs ys p s1 \<longleftrightarrow>
     heap_ok s (xs @ zs @ ys) \<and> p \<notin> set (base_at s # xs @ zs @ ys) \<and>
     (\<forall>c\<in>set xs. blk_end s c \<le> unat p) \<and>
     blk_ok s1 p \<and> path s1 p (ys @ [base_at s]) \<and> (\<forall>c\<in>set ys. blk_end s1 p < unat c) \<and>
     (\<forall>c. c \<noteq> p \<longrightarrow> hdr s1 c = hdr s c) \<and> base_at s1 = base_at s \<and> kheap s1 = kheap s"

lemma half_linkedD:
  assumes "half_linked s xs zs ys p s1"
  shows "placed s1" "blk_ok s1 p" "path s1 p (ys @ [base_at s])" "path s (base_at s) xs"
    "last (base_at s # xs) \<in> set (base_at s # xs)" "last (base_at s # xs) \<notin> set (p # ys)"
    "p \<notin> set (base_at s # xs @ ys)" "distinct (base_at s # xs @ ys)"
    "sorted_wrt (\<lambda>a b. blk_end s1 a < unat b) (xs @ ys)" "\<forall>c\<in>set (xs @ ys). blk_ok s1 c"
    "\<forall>c\<in>set ys. blk_end s1 p < unat c" "\<forall>c\<in>set xs. blk_end s1 c \<le> unat p"
    "\<forall>c\<in>set (xs @ ys). blk_bytes s1 c = blk_bytes s c" "sz s1 (base_at s) = 0" "base_at s1 = base_at s"
    "\<forall>c. c \<noteq> p \<longrightarrow> hdr s1 c = hdr s c"
proof -
  let ?b = "base_at s"
  have ok: "heap_ok s (xs @ zs @ ys)" and h: "p \<notin> set (?b # xs @ zs @ ys)" "\<forall>c\<in>set xs. blk_end s c \<le> unat p"
    "blk_ok s1 p" "path s1 p (ys @ [?b])" "\<forall>c\<in>set ys. blk_end s1 p < unat c"
    "\<forall>c. c \<noteq> p \<longrightarrow> hdr s1 c = hdr s c" "base_at s1 = ?b" "kheap s1 = kheap s"
    using assms by (auto simp: half_linked_def)
  show "blk_ok s1 p" "path s1 p (ys @ [?b])" "\<forall>c\<in>set ys. blk_end s1 p < unat c"
    "base_at s1 = ?b" "\<forall>c. c \<noteq> p \<longrightarrow> hdr s1 c = hdr s c" by (fact h)+
  have dist: "distinct (?b # xs @ zs @ ys)" using ok by (rule heap_ok_distinct)
  then show "distinct (?b # xs @ ys)" by auto
  show q: "last (?b # xs) \<in> set (?b # xs)" by (rule last_in_set) simp
  then show "last (?b # xs) \<notin> set (p # ys)" using dist h(1) by auto
  show np: "p \<notin> set (?b # xs @ ys)" using h(1) by auto
  show "placed s1" using ok h(7,8) by (simp add: heap_ok_def placed_def heap_hi_def)
  have "path s ?b (xs @ zs @ ys @ [?b])" using ok by (simp add: heap_ok_def)
  then show "path s ?b xs" by (rule path_prefix)
  have hd: "hdr s1 c = hdr s c" if "c \<in> set (?b # xs @ ys)" for c using that np h(6) by metis
  show "sz s1 ?b = 0" using hd [of ?b] ok by (simp add: heap_ok_def)
  have e: "blk_end s1 c = blk_end s c" if "c \<in> set (xs @ ys)" for c
    using hd [of c] that by (simp add: blk_end_def)
  then show "\<forall>c\<in>set (xs @ ys). blk_bytes s1 c = blk_bytes s c" by (simp add: blk_bytes_def)
  show "\<forall>c\<in>set xs. blk_end s1 c \<le> unat p" using e h(2) by simp
  show "\<forall>c\<in>set (xs @ ys). blk_ok s1 c"
    using ok e hd h(8) by (auto simp: heap_ok_def blk_ok_def heap_lo_def heap_hi_def)
  have "sorted_wrt (\<lambda>a b. blk_end s a < unat b) (xs @ ys)"
    using ok by (auto simp: heap_ok_def sorted_wrt_append)
  then show "sorted_wrt (\<lambda>a b. blk_end s1 a < unat b) (xs @ ys)"
    by (rule sorted_wrt_mono_rel [rotated]) (simp add: e)
qed

lemma free_left_separate:
  assumes hl: "half_linked s xs zs ys p s1" and q: "q = last (base_at s # xs)"
    and no: "hplus q (sz s1 q) \<noteq> p" and s': "s' = free_left p q s1"
  shows "heap_ok s' (xs @ p # ys)"
    "free_bytes s' (xs @ p # ys) = free_bytes s (xs @ ys) \<union> blk_bytes s1 p"
proof -
  let ?b = "base_at s"
  note D = half_linkedD [OF hl]
  have s'2: "s' = (set_next q p s1)\<lparr>freep := q\<rparr>" using no by (simp add: s' free_left_def)
  have sizes: "sz s' c = sz s1 c" and nexts: "nx s' c = (if c = q then p else nx s1 c)" for c
    by (simp_all add: s'2)
  have fields: "base_at s' = ?b" "kheap s' = kheap s1" "freep s' = q" using D(15) by (simp_all add: s'2)
  have same: "blk_end s' c = blk_end s1 c" "blk_bytes s' c = blk_bytes s1 c" "blk_ok s' c = blk_ok s1 c" for c
    by (simp_all add: blk_end_def blk_bytes_def blk_ok_def heap_lo_def heap_hi_def sizes fields)
  have xlt: "blk_end s1 c < unat p" if "c \<in> set xs" for c
  proof (cases "c = q")
    case True
    then have "unat (hplus q (sz s1 q)) = blk_end s1 c" using unat_hplus_end D(1,10) that by auto
    then show ?thesis using no D(12) that True by (metis le_neq_implies_less word_unat_eq_iff)
  next
    case False
    then obtain us where us: "xs = us @ [q]" "c \<in> set us"
      using snoc_last [OF \<open>c \<in> set xs\<close>, of "base_at s"] unfolding q [symmetric] by blast
    then have "blk_end s1 c < unat q" using D(9) by (simp add: sorted_wrt_append)
    also have "unat q \<le> blk_end s1 q" by (simp add: blk_end_def)
    also have "\<dots> \<le> unat p" using D(12) us(1) by simp
    finally show ?thesis .
  qed
  have "path s' p (ys @ [?b]) = path s1 p (ys @ [?b])"
    using D(6) q by (intro path_cong) (auto simp: nexts)
  with D(3) have tail: "path s' p (ys @ [?b])" by simp
  have "path s' ?b (xs @ p # ys @ [?b])"
  proof (rule path_splice [where s = s])
    fix a assume "a \<noteq> last (?b # xs)" "a \<in> set (?b # xs)"
    then have "a \<noteq> q" "a \<noteq> p" using q D(7) by auto
    then show "nx s' a = nx s a" using D(16) by (simp add: nexts)
    next
      show "nx s' (last (?b # xs)) = p" by (simp only: nexts q [symmetric] if_True simp_thms)
  qed (use D(4,8) tail in simp_all)
  moreover have "sorted_wrt (\<lambda>a b. blk_end s' a < unat b) (xs @ p # ys)"
    using D(9,11) xlt by (auto simp: sorted_wrt_append same)
  ultimately show "heap_ok s' (xs @ p # ys)"
    using D(1,2,5,10,14) q by (auto simp: heap_ok_def same sizes fields placed_def heap_hi_def D(15))
  show "free_bytes s' (xs @ p # ys) = free_bytes s (xs @ ys) \<union> blk_bytes s1 p"
    using D(13) by (auto simp: free_bytes_def same)
qed

lemma free_left_merge:
  assumes hl: "half_linked s xs zs ys p s1" and xs: "xs = xs' @ [q]"
    and yes: "hplus q (sz s1 q) = p" and s': "s' = free_left p q s1"
  shows "heap_ok s' (xs @ ys)" "free_bytes s' (xs @ ys) = free_bytes s (xs @ ys) \<union> blk_bytes s1 p"
proof -
  let ?b = "base_at s"
  note D = half_linkedD [OF hl]
  have okq: "blk_ok s1 q" using D(10) xs by simp
  have qp: "q \<noteq> p" using D(7) xs by auto
  have s'2: "s' = (set_next q (nx s1 p) (set_size q (sz s1 q + sz s1 p) s1))\<lparr>freep := q\<rparr>"
    using yes qp by (simp add: s' free_left_def)
  have nexts: "nx s' c = (if c = q then nx s1 p else nx s1 c)" for c by (simp add: s'2)
  have fields: "base_at s' = ?b" "kheap s' = kheap s1" "freep s' = q" using D(15) by (simp_all add: s'2)
  have endq: "blk_end s1 q = unat p" using unat_hplus_end [OF D(1) okq] yes by simp
  have "unat (sz s1 q + sz s1 p) = unat (sz s1 q) + unat (sz s1 p)"
    using endq blk_ok_bounds(2) [OF D(1,2)] by (intro unat_add_no_wrap) (simp add: blk_end_def)
  then have end': "blk_end s' q = blk_end s1 p" and szq: "0 < sz s' q"
    using endq okq by (auto simp: blk_end_def s'2 blk_ok_def word_less_nat_alt)
  have same: "sz s' c = sz s1 c" "blk_end s' c = blk_end s1 c" "blk_bytes s' c = blk_bytes s1 c"
    "blk_ok s' c = blk_ok s1 c" if "c \<noteq> q" for c
    using that by (simp_all add: s'2 blk_end_def blk_bytes_def blk_ok_def heap_lo_def heap_hi_def)
  have q_out: "q \<notin> set (?b # xs' @ ys)" using D(8) xs by auto
  have okq': "blk_ok s' q"
    using okq D(2) end' szq by (simp add: blk_ok_def heap_lo_def heap_hi_def fields)
  have bytesq: "blk_bytes s' q = blk_bytes s1 q \<union> blk_bytes s1 p"
    using blk_ok_bounds(1) [OF D(1) okq] blk_ok_bounds(1) [OF D(1,2)]
    by (auto simp: blk_bytes_def end' endq)
  obtain r rs where r: "ys @ [?b] = r # rs" by (cases ys) auto
  have "path s' r rs = path s1 r rs"
  proof (rule path_cong)
    have b: "butlast (r # rs) = ys" by (simp flip: r)
    fix a assume "a \<in> set (butlast (r # rs))"
    then show "nx s' a = nx s1 a" using q_out b by (auto simp: nexts)
  qed
  then have "path s' r rs" "nx s1 p = r" using D(3) r by auto
  have "path s' ?b (xs @ r # rs)"
  proof (rule path_splice [where s = s])
    fix a assume "a \<noteq> last (?b # xs)" "a \<in> set (?b # xs)"
    then have "a \<noteq> q" "a \<noteq> p" using xs D(7) by auto
    then show "nx s' a = nx s a" using D(16) by (simp add: nexts)
  qed (use D(4,8) xs \<open>path s' r rs\<close> \<open>nx s1 p = r\<close> in \<open>simp_all add: nexts\<close>)
  then have "path s' ?b ((xs @ ys) @ [?b])" by (simp add: r)
  moreover have "sorted_wrt (\<lambda>a b. blk_end s' a < unat b) (xs @ ys)"
  proof -
    have srt: "sorted_wrt (\<lambda>a b. blk_end s1 a < unat b) (xs' @ ys)"
      and qmax: "\<forall>c\<in>set xs'. blk_end s1 c < unat q"
      using D(9) xs by (auto simp: sorted_wrt_append)
    have same': "blk_end s' c = blk_end s1 c" if "c \<in> set (xs' @ ys)" for c
      using that q_out by (intro same) auto
    have "sorted_wrt (\<lambda>a b. blk_end s' a < unat b) (xs' @ ys)"
      by (rule sorted_wrt_mono_rel [OF _ srt]) (simp only: same')
    then show ?thesis
      using D(11) end' qmax same' xs by (simp add: sorted_wrt_append)
  qed
  moreover have "\<forall>c\<in>set (xs @ ys). blk_ok s' c"
    using D(10) okq' same(4) by metis
  moreover have "sz s' ?b = 0" using same(1) [of ?b] q_out D(14) by auto
  ultimately show "heap_ok s' (xs @ ys)"
    using D(1) xs by (auto simp: heap_ok_def fields placed_def heap_hi_def D(15))
  have "blk_bytes s' c = blk_bytes s c" if "c \<in> set (xs' @ ys)" for c
    using that q_out same(3) [of c] D(13) xs by auto
  moreover have "blk_bytes s1 q = blk_bytes s q" using D(13) xs by simp
  ultimately show "free_bytes s' (xs @ ys) = free_bytes s (xs @ ys) \<union> blk_bytes s1 p"
    using bytesq by (auto simp: free_bytes_def xs)
qed

section \<open>kfree\<close>

lemma kfree_link_spec:
  assumes ok: "heap_ok s bs" and okp: "blk_ok s p" and bs: "bs = xs @ ys"
    and xs: "\<forall>c\<in>set xs. blk_end s c \<le> unat p" and ys: "\<forall>c\<in>set ys. blk_end s p \<le> unat c"
    and q: "q = last (base_at s # xs)" and s': "s' = kfree_link p q s"
  shows "\<exists>bs'. heap_ok s' bs' \<and> free_bytes s' bs' = free_bytes s bs \<union> blk_bytes s p"
proof -
  let ?b = "base_at s"
  have placed: "placed s" using ok by (simp add: heap_ok_def)
  note bp = blk_ok_bounds [OF placed okp]
  have "unat c < unat p" if "c \<in> set (?b # xs)" for c
    using that bp(3) xs ok bs blk_ok_bounds(1) [OF placed, of c] by (fastforce simp: heap_ok_def)
  then have p: "p \<notin> set (?b # bs)" using ys bp(1) bs by fastforce
  define s1 where "s1 = free_right p q s"
  obtain ys1 zs where s1: "path s1 p (ys1 @ [?b])" "ys = zs @ ys1" "blk_ok s1 p"
    "\<forall>c\<in>set ys1. blk_end s1 p < unat c"
    "blk_bytes s1 p \<union> free_bytes s ys1 = blk_bytes s p \<union> free_bytes s ys"
    "\<forall>c. c \<noteq> p \<longrightarrow> hdr s1 c = hdr s c" "base_at s1 = ?b" "kheap s1 = kheap s"
    using free_right_spec [OF ok okp bs ys p q s1_def] by metis
  have hl: "half_linked s xs zs ys1 p s1"
    using ok p xs s1 bs by (simp add: half_linked_def)
  have s'1: "s' = free_left p q s1" using s' by (simp add: kfree_link_eq s1_def)
  have bytes: "free_bytes s (xs @ ys1) \<union> blk_bytes s1 p = free_bytes s bs \<union> blk_bytes s p"
    using s1(5) bs by (auto simp: free_bytes_def)
  show ?thesis
  proof (cases "hplus q (sz s1 q) = p")
    case False
    from free_left_separate [OF hl q this s'1] bytes show ?thesis by metis
  next
    case True
    have "q \<noteq> ?b"
    proof
      assume "q = ?b"
      with True half_linkedD(14) [OF hl] have "p = ?b" by (simp add: hplus_def)
      with p show False by simp
    qed
    with q obtain xs' where "xs = xs' @ [q]" by (cases xs rule: rev_cases) auto
    from free_left_merge [OF hl this True s'1] bytes show ?thesis by metis
  qed
qed

text \<open>Nothing outside the headers of the list and the freed block is touched.\<close>

lemma kfree_link_frame:
  "heap_step s (kfree_link p q s)"
  "c \<noteq> p \<Longrightarrow> c \<noteq> q \<Longrightarrow> hdr (kfree_link p q s) c = hdr s c"
  by (simp_all add: heap_step_def kfree_link_def Let_def set_next_def set_size_def)

lemma kfree_spec:
  assumes ok: "heap_ok s bs" and okp: "blk_ok s p" and out: "outside s bs p"
  obtains s' bs' where "kfree (hplus p 1) s = Some s'" "heap_ok s' bs'"
    "free_bytes s' bs' = free_bytes s bs \<union> blk_bytes s p" "heap_step s s'"
    "\<forall>c. c \<notin> set (base_at s # bs) \<and> c \<noteq> p \<longrightarrow> hdr s' c = hdr s c"
proof -
  obtain xs ys where split: "bs = xs @ ys" "\<forall>c\<in>set xs. blk_end s c \<le> unat p"
      "\<forall>c\<in>set ys. blk_end s p \<le> unat c"
    using sorted_split [OF ok okp out] .
  define q where "q = last (base_at s # xs)"
  have "kfree (hplus p 1) s = Some (kfree_link p q s)"
    using kfree_find_eq [OF ok okp split] by (simp add: kfree_def hplus_def q_def)
  moreover obtain bs' where "heap_ok (kfree_link p q s) bs'"
      "free_bytes (kfree_link p q s) bs' = free_bytes s bs \<union> blk_bytes s p"
    using kfree_link_spec [OF ok okp split q_def refl] by blast
  moreover have "q \<in> set (base_at s # bs)"
    using last_in_set [of "base_at s # xs"] split(1) by (auto simp: q_def)
  then have "\<forall>c. c \<notin> set (base_at s # bs) \<and> c \<noteq> p \<longrightarrow> hdr (kfree_link p q s) c = hdr s c"
    using kfree_link_frame(2) by metis
  ultimately show thesis by (intro that) (auto simp: kfree_link_frame(1))
qed

end
