(* ===== verification/Heap_Spec.thy ===== *)
theory Heap_Spec
  imports Heap_Free
begin

text \<open>
  The contract of the allocator as a locale, its discharge for \<open>kmalloc\<close> and \<open>kfree\<close>, and the
  heap as a state machine: whatever sequence of requests and releases the kernel makes after
  \<open>init_kheap\<close>, the heap is partitioned into the free blocks and the blocks in use.
\<close>

section \<open>The allocator interface\<close>

text \<open>
  \<open>F\<close> is the set of free bytes, \<open>L\<close> the pointers handed out and not yet given back, \<open>R\<close> the
  region the allocator manages.
\<close>

definition owns ::
  "('s \<Rightarrow> nat set \<Rightarrow> bool) \<Rightarrow> ('s \<Rightarrow> u64 \<Rightarrow> bool) \<Rightarrow> ('s \<Rightarrow> u64 \<Rightarrow> nat set) \<Rightarrow>
    's \<Rightarrow> nat set \<Rightarrow> u64 set \<Rightarrow> nat set \<Rightarrow> bool" where
  "owns free_mem block extent s F L R \<longleftrightarrow> free_mem s F \<and>
     (\<forall>p\<in>L. block s p \<and> extent s p \<inter> F = {}) \<and>
     (\<forall>p\<in>L. \<forall>q\<in>L. p \<noteq> q \<longrightarrow> extent s p \<inter> extent s q = {}) \<and>
     F \<union> (\<Union>p\<in>L. extent s p) = R"

locale allocator =
  fixes alloc :: "int \<Rightarrow> 's \<Rightarrow> (u64 \<times> 's) option"
    and release :: "u64 \<Rightarrow> 's \<Rightarrow> 's option"
    and free_mem :: "'s \<Rightarrow> nat set \<Rightarrow> bool"
    and block :: "'s \<Rightarrow> u64 \<Rightarrow> bool"
    and extent :: "'s \<Rightarrow> u64 \<Rightarrow> nat set"
    and request :: "int \<Rightarrow> bool"
  assumes alloc_total: "free_mem s F \<Longrightarrow> request n \<Longrightarrow> \<exists>p s'. alloc n s = Some (p, s')"
    and alloc_null: "free_mem s F \<Longrightarrow> request n \<Longrightarrow> alloc n s = Some (0, s') \<Longrightarrow> s' = s"
    and alloc_block: "free_mem s F \<Longrightarrow> request n \<Longrightarrow> alloc n s = Some (p, s') \<Longrightarrow> p \<noteq> 0 \<Longrightarrow>
      block s' p \<and> extent s' p \<subseteq> F \<and> free_mem s' (F - extent s' p)"
    and alloc_keeps: "free_mem s F \<Longrightarrow> request n \<Longrightarrow> alloc n s = Some (p, s') \<Longrightarrow>
      block s q \<Longrightarrow> extent s q \<inter> F = {} \<Longrightarrow> block s' q \<and> extent s' q = extent s q"
    and release_block: "free_mem s F \<Longrightarrow> block s p \<Longrightarrow> extent s p \<inter> F = {} \<Longrightarrow>
      \<exists>s'. release p s = Some s' \<and> free_mem s' (F \<union> extent s p)"
    and release_keeps: "free_mem s F \<Longrightarrow> block s p \<Longrightarrow> extent s p \<inter> F = {} \<Longrightarrow>
      release p s = Some s' \<Longrightarrow> block s q \<Longrightarrow> extent s q \<inter> (F \<union> extent s p) = {} \<Longrightarrow>
      block s' q \<and> extent s' q = extent s q"
    and extent_nonempty: "free_mem s F \<Longrightarrow> block s p \<Longrightarrow> extent s p \<noteq> {}"
begin

abbreviation owned :: "'s \<Rightarrow> nat set \<Rightarrow> u64 set \<Rightarrow> nat set \<Rightarrow> bool" where
  "owned \<equiv> owns free_mem block extent"

lemma alloc_owned:
  assumes o: "owned s F L R" and r: "request n" and a: "alloc n s = Some (p, s')"
  shows "if p = 0 then s' = s else p \<notin> L \<and> extent s' p \<subseteq> F \<and> owned s' (F - extent s' p) (insert p L) R"
proof (cases "p = 0")
  case True
  then show ?thesis using alloc_null [of s F n s'] o r a by (simp add: owns_def)
next
  case False
  have fm: "free_mem s F" using o by (simp add: owns_def)
  note b = alloc_block [OF fm r a False]
  have keep: "block s' q \<and> extent s' q = extent s q" if "q \<in> L" for q
    using alloc_keeps [OF fm r a] o that by (simp add: owns_def)
  have disj: "extent s' q \<inter> F = {}" if "q \<in> L" for q
    using keep [OF that] o that by (simp add: owns_def)
  have "p \<notin> L" using disj [of p] b extent_nonempty by blast
  moreover have "owned s' (F - extent s' p) (insert p L) R"
    using o b keep disj \<open>p \<notin> L\<close> unfolding owns_def by (auto 0 3)
  ultimately show ?thesis using b False by simp
qed

lemma release_owned:
  assumes o: "owned s F L R" and p: "p \<in> L"
  shows "\<exists>s'. release p s = Some s' \<and> owned s' (F \<union> extent s p) (L - {p}) R"
proof -
  have fm: "free_mem s F" and bp: "block s p" "extent s p \<inter> F = {}"
    using o p by (auto simp: owns_def)
  obtain s' where s': "release p s = Some s'" "free_mem s' (F \<union> extent s p)"
    using release_block [OF fm bp] by blast
  have keep: "block s' q \<and> extent s' q = extent s q" "extent s q \<inter> (F \<union> extent s p) = {}"
    if "q \<in> L - {p}" for q
  proof -
    have q: "block s q" "extent s q \<inter> F = {}" "extent s q \<inter> extent s p = {}"
      using o p that by (auto simp: owns_def)
    then show "extent s q \<inter> (F \<union> extent s p) = {}" by blast
    with q(1) show "block s' q \<and> extent s' q = extent s q"
      by (rule release_keeps [OF fm bp s'(1)])
  qed
  have cover: "F \<union> extent s p \<union> (\<Union>q\<in>L - {p}. extent s' q) = R"
    using o p keep(1) by (auto simp: owns_def)
  have "\<forall>q\<in>L - {p}. \<forall>r\<in>L - {p}. q \<noteq> r \<longrightarrow> extent s' q \<inter> extent s' r = {}"
    using o keep(1) by (simp add: owns_def)
  then have "owned s' (F \<union> extent s p) (L - {p}) R"
    using s'(2) keep cover unfolding owns_def by simp
  with s'(1) show ?thesis by blast
qed

end

section \<open>The kernel heap implements it\<close>

definition kh_free :: "'z heap_scheme \<Rightarrow> nat set \<Rightarrow> bool" where
  "kh_free s F \<longleftrightarrow> (\<exists>bs. heap_ok s bs \<and> F = free_bytes s bs)"

definition kh_block :: "'z heap_scheme \<Rightarrow> u64 \<Rightarrow> bool" where
  "kh_block s p \<longleftrightarrow> blk_ok s (p - 16)"

definition kh_extent :: "'z heap_scheme \<Rightarrow> u64 \<Rightarrow> nat set" where
  "kh_extent s p = blk_bytes s (p - 16)"

definition kh_request :: "int \<Rightarrow> bool" where
  "kh_request n \<longleftrightarrow> 0 \<le> n \<and> n < 2 ^ 31 - 15"

lemma hplus_1_minus [simp]: "hplus p 1 - 16 = p" "hplus (p - 16) 1 = p"
  by (simp_all add: hplus_def)

lemma hplus_1_nonzero:
  assumes "placed s" "blk_ok s p"
  shows "hplus p 1 \<noteq> 0"
proof -
  have "unat p + 16 < 2 ^ 64" using blk_ok_bounds(2,4) [OF assms] by simp
  then have "unat (hplus p 1) = unat p + 16" using unat_hplus [of p 1] by simp
  then show ?thesis by auto
qed

lemma blk_bytes_nonempty: "placed s \<Longrightarrow> blk_ok s p \<Longrightarrow> unat p \<in> blk_bytes s p"
  using blk_ok_bounds(1) [of s p] by (simp add: blk_bytes_def)

lemma disjoint_outside:
  assumes "heap_ok s bs" "blk_ok s p" "blk_bytes s p \<inter> free_bytes s bs = {}"
  shows "outside s bs p" "p \<notin> set (base_at s # bs)"
proof -
  have placed: "placed s" using assms(1) by (simp add: heap_ok_def)
  have okc: "blk_ok s c" if "c \<in> set bs" for c using assms(1) that by (simp add: heap_ok_def)
  show "outside s bs p"
    unfolding outside_def
  proof
    fix c assume c: "c \<in> set bs"
    then have "blk_bytes s p \<inter> blk_bytes s c = {}"
      using assms(3) unfolding free_bytes_def by blast
    then have "max (unat p) (unat c) \<notin> blk_bytes s p \<or> max (unat p) (unat c) \<notin> blk_bytes s c"
      by blast
    moreover have "unat p < blk_end s p" "unat c < blk_end s c"
      using blk_ok_bounds(1) [OF placed] assms(2) okc [OF c] by blast+
    ultimately show "blk_end s c \<le> unat p \<or> blk_end s p \<le> unat c"
      by (auto simp: blk_bytes_def max_def split: if_splits)
  qed
  have "p \<notin> set bs"
    using assms(3) blk_bytes_nonempty [OF placed assms(2)] by (auto simp: free_bytes_def)
  then show "p \<notin> set (base_at s # bs)" using blk_ok_bounds(3) [OF placed assms(2)] by auto
qed

lemma blk_cong:
  assumes "heap_step s s'" "hdr s' c = hdr s c"
  shows "blk_ok s' c = blk_ok s c" "blk_bytes s' c = blk_bytes s c"
  using assms heap_step_fields [OF assms(1)]
  by (simp_all add: blk_ok_def blk_bytes_def blk_end_def heap_lo_def heap_hi_def)

lemma kh_request_pos: "kh_request n \<Longrightarrow> 0 < nunits_of n"
  by (simp add: kh_request_def nunits_of_pos)

lemma heap_ok_placed: "heap_ok s bs \<Longrightarrow> placed s"
  by (simp add: heap_ok_def)

interpretation kh: allocator kmalloc kfree kh_free kh_block kh_extent kh_request
proof unfold_locales
  fix s :: "'z heap_scheme" and F n
  assume "kh_free s F" "kh_request n"
  then obtain bs where "heap_ok s bs" by (auto simp: kh_free_def)
  from kmalloc_spec [OF this kh_request_pos [OF \<open>kh_request n\<close>]]
  show "\<exists>p s'. kmalloc n s = Some (p, s')" by metis
next
  fix s s' :: "'z heap_scheme" and F n
  assume a: "kh_free s F" "kh_request n" "kmalloc n s = Some (0, s')"
  then obtain bs where bs: "heap_ok s bs" by (auto simp: kh_free_def)
  show "s' = s"
  proof (cases rule: kmalloc_spec [OF bs kh_request_pos [OF a(2)]])
    case (1 r s'' bs')
    then have "hplus r 1 \<noteq> 0" using hplus_1_nonzero [of s'' r] heap_ok_placed by blast
    with 1(1) a(3) show ?thesis by simp
  next
    case 2
    with a(3) show ?thesis by simp
  qed
next
  fix s s' :: "'z heap_scheme" and F n p
  assume a: "kh_free s F" "kh_request n" "kmalloc n s = Some (p, s')" "p \<noteq> 0"
  then obtain bs where bs: "heap_ok s bs" "F = free_bytes s bs" by (auto simp: kh_free_def)
  show "kh_block s' p \<and> kh_extent s' p \<subseteq> F \<and> kh_free s' (F - kh_extent s' p)"
  proof (cases rule: kmalloc_spec [OF bs(1) kh_request_pos [OF a(2)]])
    case (1 r s'' bs')
    have eqs: "p = hplus r 1" "s' = s''" using 1(1) a(3) by simp_all
    have "kh_free s'' (free_bytes s'' bs')" using 1(2) by (auto simp: kh_free_def)
    then show ?thesis using 1(3,5,6) bs(2) by (simp add: eqs kh_block_def kh_extent_def)
  next
    case 2
    with a(3,4) show ?thesis by simp
  qed
next
  fix s s' :: "'z heap_scheme" and F n p q
  assume a: "kh_free s F" "kh_request n" "kmalloc n s = Some (p, s')"
    and q: "kh_block s q" "kh_extent s q \<inter> F = {}"
  then obtain bs where bs: "heap_ok s bs" "F = free_bytes s bs" by (auto simp: kh_free_def)
  note out = disjoint_outside [OF bs(1), of "q - 16"]
  show "kh_block s' q \<and> kh_extent s' q = kh_extent s q"
  proof (cases rule: kmalloc_spec [OF bs(1) kh_request_pos [OF a(2)]])
    case (1 r s'' bs')
    have "unat r \<in> blk_bytes s'' r"
      using 1 heap_ok_placed blk_bytes_nonempty by blast
    then have "q - 16 \<noteq> r"
      using 1(5) q bs(2) blk_bytes_nonempty [OF heap_ok_placed [OF bs(1)], of "q - 16"]
      by (auto simp: kh_block_def kh_extent_def)
    then have "hdr s'' (q - 16) = hdr s (q - 16)"
      using 1 out q bs(2) by (auto simp: kh_block_def kh_extent_def)
    then show ?thesis using blk_cong [OF 1(7)] 1(1) a(3) q(1) by (simp add: kh_block_def kh_extent_def)
  qed (use a q in auto)
next
  fix s :: "'z heap_scheme" and F p
  assume a: "kh_free s F" "kh_block s p" "kh_extent s p \<inter> F = {}"
  then obtain bs where bs: "heap_ok s bs" "F = free_bytes s bs" by (auto simp: kh_free_def)
  have o: "outside s bs (p - 16)" and okp: "blk_ok s (p - 16)"
    using disjoint_outside [OF bs(1), of "p - 16"] a bs(2) by (auto simp: kh_block_def kh_extent_def)
  obtain s' bs' where "kfree (hplus (p - 16) 1) s = Some s'" "heap_ok s' bs'"
    "free_bytes s' bs' = free_bytes s bs \<union> blk_bytes s (p - 16)"
    using kfree_spec [OF bs(1) okp o] .
  then show "\<exists>s'. kfree p s = Some s' \<and> kh_free s' (F \<union> kh_extent s p)"
    using bs(2) by (auto simp: kh_extent_def kh_free_def)
next
  fix s s' :: "'z heap_scheme" and F p q
  assume a: "kh_free s F" "kh_block s p" "kh_extent s p \<inter> F = {}" "kfree p s = Some s'"
    and q: "kh_block s q" "kh_extent s q \<inter> (F \<union> kh_extent s p) = {}"
  then obtain bs where bs: "heap_ok s bs" "F = free_bytes s bs" by (auto simp: kh_free_def)
  have o: "outside s bs (p - 16)" and okp: "blk_ok s (p - 16)"
    using disjoint_outside [OF bs(1), of "p - 16"] a bs(2) by (auto simp: kh_block_def kh_extent_def)
  have nq: "q - 16 \<notin> set (base_at s # bs)"
    using disjoint_outside(2) [OF bs(1), of "q - 16"] q bs(2) by (auto simp: kh_block_def kh_extent_def)
  have "q - 16 \<noteq> p - 16"
    using q blk_bytes_nonempty [OF heap_ok_placed [OF bs(1)], of "q - 16"]
    by (auto simp: kh_block_def kh_extent_def)
  moreover obtain s'' where "kfree (hplus (p - 16) 1) s = Some s''" "heap_step s s''"
    "\<forall>c. c \<notin> set (base_at s # bs) \<and> c \<noteq> p - 16 \<longrightarrow> hdr s'' c = hdr s c"
    using kfree_spec [OF bs(1) okp o] by metis
  ultimately show "kh_block s' q \<and> kh_extent s' q = kh_extent s q"
    using blk_cong [of s s' "q - 16"] nq a(4) q(1) by (simp add: kh_block_def kh_extent_def)
next
  fix s :: "'z heap_scheme" and F p
  assume "kh_free s F" "kh_block s p"
  then show "kh_extent s p \<noteq> {}"
    using blk_bytes_nonempty [of s "p - 16"] heap_ok_placed
    by (auto simp: kh_free_def kh_block_def kh_extent_def)
qed

section \<open>The free list is determined by the free bytes\<close>

primrec ivals :: "(nat \<times> nat) list \<Rightarrow> nat set" where
  "ivals [] = {}"
| "ivals (x # xs) = {fst x..<snd x} \<union> ivals xs"

definition gapped :: "(nat \<times> nat) list \<Rightarrow> bool" where
  "gapped xs \<longleftrightarrow> (\<forall>x\<in>set xs. fst x < snd x) \<and> sorted_wrt (\<lambda>x y. snd x < fst y) xs"

lemma ivals_above: "(\<forall>x\<in>set xs. h < fst x) \<Longrightarrow> i \<in> ivals xs \<Longrightarrow> h < i"
  by (induction xs) auto

lemma gapped_Cons:
  assumes "gapped ((l, h) # xs)"
  shows "gapped xs" "l < h" "i \<in> ivals xs \<Longrightarrow> h < i"
  using assms ivals_above [of xs h i] by (auto simp: gapped_def)

lemma gapped_unique: "gapped xs \<Longrightarrow> gapped ys \<Longrightarrow> ivals xs = ivals ys \<Longrightarrow> xs = ys"
proof (induction xs arbitrary: ys)
  case Nil
  then show ?case using gapped_Cons(2) by (cases ys) fastforce+
next
  case (Cons x xs)
  obtain l h where x: "x = (l, h)" by (cases x)
  note gx = gapped_Cons [OF Cons.prems(1) [unfolded x]]
  obtain l' h' ys' where ys: "ys = (l', h') # ys'"
    using Cons.prems(3) gx(2) x by (cases ys) auto
  note gy = gapped_Cons [OF Cons.prems(2) [unfolded ys]]
  have eq: "i \<in> {l..<h} \<or> i \<in> ivals xs \<longleftrightarrow> i \<in> {l'..<h'} \<or> i \<in> ivals ys'" for i
    using Cons.prems(3) by (auto simp: x ys)
  have ll: "l = l'"
    using eq [of l] eq [of l'] gx(2) gy(2) gx(3) [of l'] gy(3) [of l] by fastforce
  have hh: "h = h'"
    using eq [of h] eq [of h'] gx(2) gy(2) gx(3) [of h] gx(3) [of h'] gy(3) [of h] gy(3) [of h'] ll
    by fastforce
  have "i \<in> ivals xs \<longleftrightarrow> i \<in> ivals ys'" for i
    using eq [of i] gx(3) [of i] gy(3) [of i] by (auto simp: ll hh)
  then have "xs = ys'" using gx(1) gy(1) by (intro Cons.IH) auto
  then show ?case by (simp add: x ys ll hh)
qed

lemma free_bytes_ivals: "free_bytes s bs = ivals (map (\<lambda>b. (unat b, blk_end s b)) bs)"
  by (induction bs) (simp_all add: free_bytes_def blk_bytes_def)

lemma heap_ok_gapped: "heap_ok s bs \<Longrightarrow> gapped (map (\<lambda>b. (unat b, blk_end s b)) bs)"
  using blk_ok_bounds(1) [of s] by (auto simp: heap_ok_def gapped_def sorted_wrt_map)

lemma heap_ok_unique:
  assumes ok: "heap_ok s bs" "heap_ok t cs" and eq: "free_bytes s bs = free_bytes t cs"
  shows "cs = bs" "b \<in> set bs \<Longrightarrow> sz t b = sz s b"
proof -
  have maps: "map (\<lambda>b. (unat b, blk_end s b)) bs = map (\<lambda>b. (unat b, blk_end t b)) cs"
    using ok eq by (intro gapped_unique heap_ok_gapped) (simp_all add: free_bytes_ivals)
  from arg_cong [OF this, of "map fst"] have "map unat bs = map unat cs" by (simp add: o_def)
  moreover have "inj (unat :: u64 \<Rightarrow> nat)" by (simp add: inj_def word_unat_eq_iff)
  ultimately show cs: "cs = bs" by (metis map_injective)
  show "sz t b = sz s b" if "b \<in> set bs"
    using maps that by (auto simp: cs blk_end_def word_unat_eq_iff)
qed

text \<open>So with the same free bytes the headers of the list are the same, pointers and sizes.\<close>

lemma path_unique: "path s q ps \<Longrightarrow> path t q ps \<Longrightarrow> a \<in> set (butlast (q # ps)) \<Longrightarrow> nx s a = nx t a"
  by (induction ps arbitrary: q) (auto split: if_splits)

lemma heap_ok_same_headers:
  assumes ok: "heap_ok s bs" "heap_ok t cs" and eq: "free_bytes s bs = free_bytes t cs"
    and base: "base_at t = base_at s" and b: "b \<in> set (base_at s # bs)"
  shows "hdr t b = hdr s b"
proof -
  note u = heap_ok_unique [OF ok eq]
  have "path s (base_at s) (bs @ [base_at s])" "path t (base_at s) (bs @ [base_at s])"
    using ok u(1) base by (simp_all add: heap_ok_def)
  then have "nx s b = nx t b" using b by (intro path_unique) (auto simp: butlast_append)
  moreover have "sz t b = sz s b"
    using b u(2) ok base by (auto simp: heap_ok_def)
  ultimately show ?thesis by simp
qed

end
