(* ===== verification/Heap_Run.thy ===== *)
theory Heap_Run
  imports Heap_Spec
begin

text \<open>
  The heap in use: every state the kernel can bring its heap to after \<open>init_kheap\<close> by
  \<open>kmalloc\<close> and by \<open>kfree\<close> of a pointer it holds, and what is true of all of them.
\<close>

section \<open>Runs\<close>

text \<open>\<open>L\<close> is the set of pointers handed out and not given back yet.\<close>

inductive kheap_run :: "'z heap_scheme \<Rightarrow> u64 set \<Rightarrow> bool" where
  boot: "placed (s\<lparr>kheap := k\<rparr>) \<Longrightarrow> freep s = base_at s \<Longrightarrow> kheap_run (init_kheap k s) {}"
| failed: "kheap_run s L \<Longrightarrow> kh_request n \<Longrightarrow> kmalloc n s = Some (0, s') \<Longrightarrow> kheap_run s' L"
| allocated: "kheap_run s L \<Longrightarrow> kh_request n \<Longrightarrow> kmalloc n s = Some (p, s') \<Longrightarrow> p \<noteq> 0 \<Longrightarrow>
    kheap_run s' (insert p L)"
| freed: "kheap_run s L \<Longrightarrow> p \<in> L \<Longrightarrow> kfree p s = Some s' \<Longrightarrow> kheap_run s' (L - {p})"

abbreviation kh_owned :: "'z heap_scheme \<Rightarrow> nat set \<Rightarrow> u64 set \<Rightarrow> nat set \<Rightarrow> bool" where
  "kh_owned \<equiv> owns kh_free kh_block kh_extent"

abbreviation heap_region :: "'z heap_scheme \<Rightarrow> nat set" where
  "heap_region s \<equiv> {heap_lo s..<heap_hi s}"

lemma init_kheap_ok:
  assumes "placed (s\<lparr>kheap := k\<rparr>)" "freep s = base_at s"
  shows "heap_ok (init_kheap k s) [k]" "free_bytes (init_kheap k s) [k] = heap_region (init_kheap k s)"
proof -
  have "base_at s \<noteq> k" using assms(1) by (auto simp: placed_def)
  moreover have "unat (HEAP_SIZE div 16) = 0x40000" by (simp add: HEAP_SIZE_def)
  ultimately show "heap_ok (init_kheap k s) [k]"
      "free_bytes (init_kheap k s) [k] = heap_region (init_kheap k s)"
    using assms
    by (auto simp: heap_ok_def init_kheap_def placed_def blk_ok_def blk_end_def heap_lo_def
        heap_hi_def free_bytes_def blk_bytes_def word_less_nat_alt)
qed

lemma kmalloc_heap_step:
  assumes "heap_ok s bs" "kh_request n" "kmalloc n s = Some (p, s')"
  shows "heap_step s s'"
  using assms(3)
  by (cases rule: kmalloc_spec [OF assms(1) kh_request_pos [OF assms(2)]])
    (auto simp: heap_step_def)

lemma kfree_heap_step:
  assumes "heap_ok s bs" "blk_ok s (p - 16)" "outside s bs (p - 16)" "kfree p s = Some s'"
  shows "heap_step s s'"
proof -
  obtain s'' where "kfree (hplus (p - 16) 1) s = Some s''" "heap_step s s''"
    using kfree_spec [OF assms(1-3)] by metis
  with assms(4) show ?thesis by simp
qed

lemma heap_region_step: "heap_step s s' \<Longrightarrow> heap_region s' = heap_region s"
  by (simp add: heap_step_fields heap_lo_def heap_hi_def)

lemma kh_ownedD:
  assumes "kh_owned s F L R" "p \<in> L"
  shows "kh_block s p" "kh_extent s p \<inter> F = {}" "kh_extent s p \<subseteq> R" "kh_free s F"
  using assms by (auto simp: owns_def)

lemma kheap_run_owned: "kheap_run s L \<Longrightarrow> \<exists>F. kh_owned s F L (heap_region s)"
proof (induction rule: kheap_run.induct)
  case (boot k s)
  note i = init_kheap_ok [OF boot]
  have "kh_free (init_kheap k s) (heap_region (init_kheap k s))"
    using i by (auto simp: kh_free_def)
  then show ?case by (auto simp: owns_def)
next
  case (failed s L n s')
  then obtain F where o: "kh_owned s F L (heap_region s)" by blast
  from kh.alloc_owned [OF o failed(2,3)] o show ?case by auto
next
  case (allocated s L n p s')
  then obtain F where o: "kh_owned s F L (heap_region s)" by blast
  then obtain bs where "heap_ok s bs" by (auto simp: owns_def kh_free_def)
  with allocated have "heap_step s s'" by (intro kmalloc_heap_step)
  with kh.alloc_owned [OF o allocated(2,3)] allocated(4) show ?case
    by (auto simp: heap_region_step)
next
  case (freed s L p s')
  then obtain F where o: "kh_owned s F L (heap_region s)" by blast
  note d = kh_ownedD [OF o freed(2)]
  obtain bs where bs: "heap_ok s bs" "F = free_bytes s bs" using d(4) by (auto simp: kh_free_def)
  have "heap_step s s'"
    using bs d(1,2) freed(3) disjoint_outside(1) [OF bs(1), of "p - 16"]
    by (intro kfree_heap_step [of s bs p]) (auto simp: kh_block_def kh_extent_def)
  with kh.release_owned [OF o freed(2)] freed(3) show ?case by (auto simp: heap_region_step)
qed

lemma kheap_run_cases:
  assumes "kheap_run s L"
  obtains bs where "heap_ok s bs" "kh_owned s (free_bytes s bs) L (heap_region s)"
  using kheap_run_owned [OF assms] by (auto simp: owns_def kh_free_def)

section \<open>What a request gets\<close>

lemma nunits_room:
  assumes "kh_request n" "placed s" "blk_ok s b" "sz s b = nunits_of n"
  shows "{unat (hplus b 1)..<unat (hplus b 1) + nat n} \<subseteq> blk_bytes s b" "16 dvd unat (hplus b 1)"
proof -
  have bounds: "unat b + 16 < 2 ^ 64" using blk_ok_bounds(2,4) [OF assms(2,3)] by simp
  then have hp: "unat (hplus b 1) = unat b + 16" using unat_hplus [of b 1] by simp
  then show "16 dvd unat (hplus b 1)" using assms(3) by (simp add: blk_ok_def)
  have "unat (nunits_of n) = nat ((n + 15) div 16) + 1"
    using assms(1) by (simp add: kh_request_def unat_nunits_of)
  then have "nat n + 16 \<le> 16 * unat (sz s b)"
    using assms(1,4) by (simp add: kh_request_def nat_add_distrib)
  then show "{unat (hplus b 1)..<unat (hplus b 1) + nat n} \<subseteq> blk_bytes s b"
    by (auto simp: hp blk_bytes_def blk_end_def)
qed

lemma count_from_path:
  "path s q (ps @ [base_at s]) \<Longrightarrow> base_at s \<notin> set ps \<Longrightarrow> count_from q n s = Some (n + length ps)"
proof (induction ps arbitrary: q n)
  case Nil
  then show ?case by (simp add: count_from.simps)
next
  case (Cons p ps)
  then have "p \<noteq> base_at s" "count_from p (n + 1) s = Some (n + 1 + length ps)" by auto
  then show ?case using Cons.prems(1) by (simp add: count_from.simps [of q])
qed

lemma whole_region_free:
  assumes ok: "heap_ok s bs" and whole: "free_bytes s bs = heap_region s"
  shows "bs = [kheap s]" "sz s (kheap s) = HEAP_SIZE div 16"
proof -
  have "gapped [(heap_lo s, heap_hi s)]" by (simp add: gapped_def heap_lo_def heap_hi_def)
  then have eq: "map (\<lambda>b. (unat b, blk_end s b)) bs = [(heap_lo s, heap_hi s)]"
    using whole by (intro gapped_unique heap_ok_gapped [OF ok]) (simp_all add: free_bytes_ivals)
  then show bs: "bs = [kheap s]" by (auto simp: heap_lo_def word_unat_eq_iff)
  have "16 * unat (sz s (kheap s)) = 0x400000"
    using eq by (simp add: bs blk_end_def heap_lo_def heap_hi_def)
  then show "sz s (kheap s) = HEAP_SIZE div 16" by (simp add: HEAP_SIZE_def word_unat_eq_iff)
qed

section \<open>A concrete heap\<close>

text \<open>A machine whose heap is put at 0x101000, and what it holds after \<open>kmalloc(100)\<close>.\<close>

definition heap0 :: heap where
  "heap0 = \<lparr>int_flag = False, port_out = [], comport = 0, bytes = \<lambda>_. 0, gdtr = (0, 0), idtr = (0, 0),
     seg_cs = 0, seg_data = 0, cr3 = 0, hdr = \<lambda>_. \<lparr>hnext = 0, hsize = 0\<rparr>,
     base_at = 0x100000, kheap = 0, freep = 0x100000\<rparr>"

definition heap1 :: heap where
  "heap1 = init_kheap 0x101000 heap0"

definition heap2 :: heap where
  "heap2 = snd (kmalloc_take (nunits_of 100) 0x100000 0x101000 heap1)"

lemma heap1_run: "kheap_run heap1 {}"
  unfolding heap1_def by (rule kheap_run.boot) (simp_all add: heap0_def placed_def heap_hi_def)

lemma nunits_of_100: "nunits_of 100 = 8"
  by (simp add: nunits_of_def round_up_block_def int_div_def)

lemma kmalloc_100: "kmalloc 100 heap1 = Some (0x500F90, heap2)"
  unfolding kmalloc_def
  by (subst kmalloc_loop.simps)
    (simp add: heap2_def nunits_of_100 heap1_def init_kheap_def heap0_def kmalloc_take_def
      HEAP_SIZE_def hplus_def set_next_def set_size_def)

lemma kh_request_100: "kh_request 100"
  by (simp add: kh_request_def)

lemma heap2_run: "kheap_run heap2 {0x500F90}"
  using kheap_run.allocated [OF heap1_run kh_request_100 kmalloc_100] by simp

lemma heap1_ok: "heap_ok heap1 [0x101000]"
  using init_kheap_ok(1) [of "0x101000" heap0]
  by (simp add: heap1_def heap0_def placed_def heap_hi_def)

lemma heap1_head: "sz heap1 0x101000 = 0x40000"
  by (simp add: heap1_def init_kheap_def heap0_def HEAP_SIZE_def)

lemma heap2_region: "heap_lo heap2 = 0x101000" "heap_hi heap2 = 0x501000"
  using heap_step_fields(2) [OF kmalloc_heap_step [OF heap1_ok kh_request_100 kmalloc_100]]
  by (simp_all add: heap1_def init_kheap_def heap_lo_def heap_hi_def)

section \<open>Properties\<close>







text \<open>
  C18. \<open>kmalloc\<close> answers NULL exactly when no free block has the units of the request and of its
  header, and then changes nothing: the next-fit search misses no block.
\<close>

theorem kmalloc_null_iff:
  assumes "heap_ok s bs" "kh_request n"
  shows "kmalloc n s = Some (0, s') \<longleftrightarrow> s' = s \<and> (\<forall>b\<in>set bs. sz s b < nunits_of n)"
proof (cases rule: kmalloc_spec [OF assms(1) kh_request_pos [OF assms(2)]])
  case (1 r s'' bs')
  then have r: "hplus r 1 \<noteq> 0" using hplus_1_nonzero [of s'' r] heap_ok_placed by blast
  moreover have "\<not> (\<forall>b\<in>set bs. sz s b < nunits_of n)"
    using kmalloc_cases [OF assms(1) kh_request_pos [OF assms(2)]] 1(1) r
    by (metis in_set_conv_decomp not_less option.inject prod.inject)
  ultimately show ?thesis using 1(1) by simp
next
  case 2
  then show ?thesis by auto
qed

theorem kmalloc_null_iff_witness:
  "kmalloc 0x400000 heap1 = Some (0, heap1) \<longleftrightarrow> sz heap1 0x101000 < nunits_of 0x400000"
  using kmalloc_null_iff [OF heap1_ok, of "0x400000" heap1]
  by (simp add: kh_request_def)

text \<open>
  C17. \<open>kfree\<close> undoes \<open>kmalloc\<close>: releasing a block right after it was obtained gives back the same
  free list, every header of it with its old size and its old next pointer.
\<close>

theorem kmalloc_kfree_restores:
  assumes "heap_ok s bs" "kh_request n" "kmalloc n s = Some (p, s1)" "p \<noteq> 0"
  shows "\<exists>s2. kfree p s1 = Some s2 \<and> heap_ok s2 bs \<and> (\<forall>b\<in>set (base_at s # bs). hdr s2 b = hdr s b)"
proof -
  have F: "kh_free s (free_bytes s bs)" using assms(1) by (auto simp: kh_free_def)
  note a = kh.alloc_block [OF F assms(2-4)]
  then have blk: "kh_block s1 p" and sub: "kh_extent s1 p \<subseteq> free_bytes s bs"
    and F1: "kh_free s1 (free_bytes s bs - kh_extent s1 p)" by blast+
  have "kh_extent s1 p \<inter> (free_bytes s bs - kh_extent s1 p) = {}" by blast
  from kh.release_block [OF F1 blk this] sub
  obtain s2 cs where s2: "kfree p s1 = Some s2" "heap_ok s2 cs" "free_bytes s bs = free_bytes s2 cs"
    by (auto simp: kh_free_def Un_absorb2)
  obtain bs1 where bs1: "heap_ok s1 bs1" "free_bytes s1 bs1 = free_bytes s bs - kh_extent s1 p"
    using F1 by (auto simp: kh_free_def)
  have "outside s1 bs1 (p - 16)"
    using disjoint_outside(1) [OF bs1(1), of "p - 16"] blk bs1(2)
    by (auto simp: kh_block_def kh_extent_def)
  then have "heap_step s1 s2" using kfree_heap_step [OF bs1(1)] blk s2(1) by (simp add: kh_block_def)
  from heap_step_fields(1) [OF this] heap_step_fields(1) [OF kmalloc_heap_step [OF assms(1-3)]]
  have base: "base_at s2 = base_at s" by simp
  have "cs = bs" using heap_ok_unique(1) [OF assms(1) s2(2,3)] .
  with s2 heap_ok_same_headers [OF assms(1) s2(2,3) base] show ?thesis by blast
qed

theorem kmalloc_kfree_restores_witness:
  "\<exists>s2. kfree 0x500F90 heap2 = Some s2 \<and> heap_ok s2 [0x101000] \<and> sz s2 0x101000 = 0x40000"
  using kmalloc_kfree_restores [OF heap1_ok kh_request_100 kmalloc_100] heap1_head by auto

text \<open>
  Nothing is lost to fragmentation for good: once every block has been given back, the heap
  is a single free block of the full 4 MiB again, and \<open>count_free_block\<close> is 1.
\<close>

theorem heap_drained:
  assumes "kheap_run s {}"
  shows "heap_ok s [kheap s] \<and> sz s (kheap s) = HEAP_SIZE div 16 \<and> count_free_block s = Some 1"
proof -
  obtain bs where bs: "heap_ok s bs" "kh_owned s (free_bytes s bs) {} (heap_region s)"
    using kheap_run_cases [OF assms] .
  then have w: "bs = [kheap s]" "sz s (kheap s) = HEAP_SIZE div 16"
    using whole_region_free [OF bs(1)] by (simp_all add: owns_def)
  have "count_from (base_at s) 0 s = Some (0 + length bs)"
    using bs(1) heap_ok_distinct [OF bs(1)] by (intro count_from_path) (auto simp: heap_ok_def)
  then show ?thesis using w bs(1) by (simp add: count_free_block_def)
qed

theorem heap_drained_witness: "count_free_block heap1 = Some 1"
  using heap_drained [OF heap1_run] by simp

text \<open>\<open>count_free_block\<close> ends and is the number of blocks of the free list.\<close>

theorem count_free_block_length:
  assumes "heap_ok s bs"
  shows "count_free_block s = Some (length bs)"
proof -
  have "count_from (base_at s) 0 s = Some (0 + length bs)"
    using assms heap_ok_distinct [OF assms] by (intro count_from_path) (auto simp: heap_ok_def)
  then show ?thesis by (simp add: count_free_block_def)
qed

theorem count_free_block_length_witness: "count_free_block heap1 = Some (length [0x101000 :: u64])"
  by (rule count_free_block_length [OF heap1_ok])

end
