(* ===== verification/Heap_Aligned.thy ===== *)
theory Heap_Aligned
  imports Heap_Run
begin

text \<open>
  \<open>kmalloc_alignas\<close> of kernel/mm.c with its search \<open>get_aligned_address\<close>, and \<open>is_aligned\<close> and
  \<open>align_as\<close>. The lemmas say which aligned address the search finds, when the call gives up, and
  what becomes of the free block in its three cases.
\<close>

section \<open>Operations\<close>

definition is_aligned :: "u64 \<Rightarrow> int \<Rightarrow> int" where
  "is_aligned addr align = (if addr mod word_of_int align = 0 \<and> addr \<noteq> 0 then 1 else 0)"

definition align_as :: "u64 \<Rightarrow> int \<Rightarrow> u64" where
  "align_as addr align = addr + (word_of_int align - addr mod word_of_int align)"

text \<open>A \<open>uint64_t\<close> passed as \<open>int\<close>, and the difference of two header pointers.\<close>

definition u64_to_int :: "u64 \<Rightarrow> int" where
  "u64_to_int w = sint (ucast w :: 32 word)"

definition ptr_diff :: "u64 \<Rightarrow> u64 \<Rightarrow> int" where
  "ptr_diff p q = int_div (sint (p - q)) 16"

partial_function (option) get_aligned_loop :: "u64 \<Rightarrow> int \<Rightarrow> u64 \<Rightarrow> u64 option" where
  "get_aligned_loop start align_size i =
     (if i > start then
        (if i mod word_of_int align_size = 0 then Some i
         else get_aligned_loop start align_size (i - 16))
      else Some 0)"

definition get_aligned_address :: "u64 \<Rightarrow> int \<Rightarrow> int \<Rightarrow> u64 option" where
  "get_aligned_address start block_length align_size =
     get_aligned_loop start align_size (hplus start (word_of_int block_length) - 16)"

definition alignas_take ::
  "u64 \<Rightarrow> u64 \<Rightarrow> u64 \<Rightarrow> u64 \<Rightarrow> 'z heap_scheme \<Rightarrow> 'z heap_scheme" where
  "alignas_take nunits q p aligned_addr s =
     (let s = (if hplus (aligned_addr - 16) nunits = hplus p (sz s p)
               then set_size (aligned_addr - 16) nunits (set_size p (sz s p - nunits) s)
               else let fdiff_block = ptr_diff (aligned_addr - 16) p;
                        bdiff_block = ptr_diff (hplus p (sz s p)) (hplus (aligned_addr - 16) (- nunits));
                        s1 = set_size p (word_of_int fdiff_block) s;
                        s2 = set_size (aligned_addr - 16) nunits s1;
                        next_p = hplus (hplus p (word_of_int fdiff_block)) nunits;
                        s3 = set_size next_p (word_of_int bdiff_block) s2;
                        s4 = set_next next_p (nx s3 p) s3
                    in set_next p next_p s4)
      in s\<lparr>freep := q\<rparr>)"

partial_function (option) alignas_loop ::
  "u64 \<Rightarrow> int \<Rightarrow> u64 \<Rightarrow> u64 \<Rightarrow> 'z heap_scheme \<Rightarrow> (u64 \<times> 'z heap_scheme) option" where
  "alignas_loop nunits align_size q p s =
     Option.bind (get_aligned_address p (u64_to_int (sz s p)) align_size) (\<lambda>aligned_addr.
       if aligned_addr \<noteq> 0 \<and> hplus (aligned_addr - 16) nunits \<le> hplus p (sz s p)
       then Some (aligned_addr, alignas_take nunits q p aligned_addr s)
       else if p = freep s then Some (0, s)
       else alignas_loop nunits align_size p (nx s p) s)"

definition kmalloc_alignas :: "int \<Rightarrow> int \<Rightarrow> 'z heap_scheme \<Rightarrow> (u64 \<times> 'z heap_scheme) option" where
  "kmalloc_alignas nbytes align_size s =
     (if align_size \<le> 16 then kmalloc nbytes s
      else alignas_loop (nunits_of nbytes) align_size (freep s) (nx s (freep s)) s)"

section \<open>The search inside a block\<close>

lemma hplus_of_nat: "unat p + 16 * k < 2 ^ 64 \<Longrightarrow> unat (hplus p (of_nat k)) = unat p + 16 * k"
  using unat_hplus [of p "of_nat k"] by (simp add: unat_of_nat take_bit_nat_eq_self)

lemma hplus_Suc_minus: "hplus p (of_nat (Suc k)) - 16 = hplus p (of_nat k)"
  by (simp add: hplus_def algebra_simps)

lemma mod_word_dvd:
  assumes "0 < al" "al < 2 ^ 31"
  shows "(i :: u64) mod word_of_int al = 0 \<longleftrightarrow> nat al dvd unat i"
proof -
  have "unat (word_of_int al :: u64) = nat al"
    using assms by (simp add: unsigned_of_int take_bit_int_eq_self)
  then show ?thesis
    by (simp add: word_unat_eq_iff unat_mod_distrib dvd_eq_mod_eq_0)
qed

text \<open>The search ends, and finds the highest aligned header above \<open>start\<close>.\<close>

lemma get_aligned_loop_spec:
  assumes "0 < al" "al < 2 ^ 31" "unat start + 16 * k < 2 ^ 64"
  shows "(get_aligned_loop start al (hplus start (of_nat k)) = Some 0 \<and>
      (\<forall>j. 0 < j \<and> j \<le> k \<longrightarrow> \<not> nat al dvd unat start + 16 * j)) \<or>
    (\<exists>j. 0 < j \<and> j \<le> k \<and> nat al dvd unat start + 16 * j \<and>
      (\<forall>i. j < i \<and> i \<le> k \<longrightarrow> \<not> nat al dvd unat start + 16 * i) \<and>
      get_aligned_loop start al (hplus start (of_nat k)) = Some (hplus start (of_nat j)))"
  using assms(3)
proof (induction k)
  case 0
  then show ?case by (auto simp: get_aligned_loop.simps hplus_def)
next
  case (Suc k)
  have u: "unat (hplus start (of_nat (Suc k))) = unat start + 16 * Suc k"
    using Suc.prems by (rule hplus_of_nat)
  then have gt: "hplus start (of_nat (Suc k)) > start" by (simp add: word_less_nat_alt)
  have step: "get_aligned_loop start al (hplus start (of_nat (Suc k))) =
      (if nat al dvd unat start + 16 * Suc k then Some (hplus start (of_nat (Suc k)))
       else get_aligned_loop start al (hplus start (of_nat k)))"
    using gt u by (subst get_aligned_loop.simps)
      (simp add: mod_word_dvd [OF assms(1,2)] hplus_Suc_minus del: of_nat_Suc)
  show ?case
  proof (cases "nat al dvd unat start + 16 * Suc k")
    case True
    then show ?thesis using step by (intro disjI2 exI [of _ "Suc k"]) simp
  next
    case False
    have ih: "unat start + 16 * k < 2 ^ 64" using Suc.prems by simp
    show ?thesis
      using Suc.IH [OF ih] False step by (auto simp: le_Suc_eq less_Suc_eq simp del: of_nat_Suc)
  qed
qed

lemma blk_units:
  assumes "placed s" "blk_ok s b"
  shows "u64_to_int (sz s b) = int (unat (sz s b))" "0 < unat (sz s b)"
    "unat b + 16 * (unat (sz s b) - 1) + 16 = blk_end s b"
proof -
  have bound: "unat (sz s b) \<le> 0x40000"
    using assms(2) by (auto simp: blk_ok_def blk_end_def heap_lo_def heap_hi_def)
  then have "unat (ucast (sz s b) :: 32 word) = unat (sz s b)"
    by (simp add: unsigned_ucast_eq take_bit_nat_eq_self)
  then have "uint (ucast (sz s b) :: 32 word) = int (unat (sz s b))"
    by (metis uint_nat)
  moreover have stk: "signed_take_bit 31 (int m) = int m" if "m \<le> 0x40000" for m
    using that by (intro signed_take_bit_int_eq_self) simp_all
  ultimately show "u64_to_int (sz s b) = int (unat (sz s b))"
    using stk [OF bound] unfolding u64_to_int_def sint_uint by simp
  show pos: "0 < unat (sz s b)" using assms(2) by (simp add: blk_ok_def word_less_nat_alt)
  then show "unat b + 16 * (unat (sz s b) - 1) + 16 = blk_end s b" by (simp add: blk_end_def)
qed

lemma get_aligned_address_block:
  assumes "placed s" "blk_ok s b" "0 < al" "al < 2 ^ 31"
  obtains (no) "get_aligned_address b (u64_to_int (sz s b)) al = Some 0"
      "\<forall>j. 0 < j \<and> j < unat (sz s b) \<longrightarrow> \<not> nat al dvd unat b + 16 * j"
  | (yes) j where "0 < j" "j < unat (sz s b)" "nat al dvd unat b + 16 * j"
      "\<forall>i. j < i \<and> i < unat (sz s b) \<longrightarrow> \<not> nat al dvd unat b + 16 * i"
      "get_aligned_address b (u64_to_int (sz s b)) al = Some (hplus b (of_nat j))"
      "unat (hplus b (of_nat j)) = unat b + 16 * j"
proof -
  let ?k = "unat (sz s b) - 1"
  note u = blk_units [OF assms(1,2)]
  have lim: "unat b + 16 * ?k < 2 ^ 64" using u(3) blk_ok_bounds(2) [OF assms(1,2)] by simp
  have "hplus b (word_of_int (u64_to_int (sz s b))) - 16 = hplus b (of_nat ?k)"
    using hplus_Suc_minus [of b ?k] u(1,2) by simp
  then have eq: "get_aligned_address b (u64_to_int (sz s b)) al =
      get_aligned_loop b al (hplus b (of_nat ?k))"
    by (simp add: get_aligned_address_def)
  have le: "i \<le> ?k \<longleftrightarrow> i < unat (sz s b)" for i using u(2) by auto
  from get_aligned_loop_spec [OF assms(3,4) lim, folded eq, unfolded le]
  show thesis
  proof (elim disjE exE conjE)
    fix j assume j: "0 < j" "j < unat (sz s b)" "nat al dvd unat b + 16 * j"
      "\<forall>i. j < i \<and> i < unat (sz s b) \<longrightarrow> \<not> nat al dvd unat b + 16 * i"
      "get_aligned_address b (u64_to_int (sz s b)) al = Some (hplus b (of_nat j))"
    have "unat b + 16 * j < 2 ^ 64" using j(2) lim by linarith
    from hplus_of_nat [OF this] j show thesis by (rule_tac yes)
  qed (rule no)
qed

text \<open>At the static header, whose size is 0, the search finds nothing.\<close>

lemma get_aligned_address_base:
  "16 \<le> unat b \<Longrightarrow> get_aligned_address b (u64_to_int 0) al = Some 0"
proof -
  assume "16 \<le> unat b"
  then have "\<not> b < b - 16" by (simp add: word_less_nat_alt unat_sub_if')
  then show ?thesis
    by (simp add: get_aligned_address_def u64_to_int_def hplus_def get_aligned_loop.simps [of b al "b - 16"])
qed

text \<open>
  The highest aligned header of a block is less than one alignment away from the end of the
  block, so from the header before it a request larger than the alignment never fits.
\<close>

lemma highest_aligned_near_end:
  fixes al b j m :: nat
  assumes "0 < al" "16 dvd al" "16 dvd b" "al dvd b + 16 * j" "j < m"
    and "\<forall>i. j < i \<and> i < m \<longrightarrow> \<not> al dvd b + 16 * i"
  shows "b + 16 * m \<le> b + 16 * j + al"
proof (rule ccontr)
  assume neg: "\<not> b + 16 * m \<le> b + 16 * j + al"
  obtain c where c: "al = 16 * c" using assms(2) by auto
  have "j < j + c \<and> j + c < m" using neg assms(1) by (simp add: c)
  moreover have "al dvd b + 16 * (j + c)"
    using dvd_add [OF assms(4) dvd_refl] by (simp add: c algebra_simps)
  ultimately show False using assms(6) by blast
qed

section \<open>The walk along the free list\<close>

definition alignas_skips :: "u64 \<Rightarrow> int \<Rightarrow> 'z heap_scheme \<Rightarrow> u64 \<Rightarrow> bool" where
  "alignas_skips nunits al s p \<longleftrightarrow>
     (\<exists>a. get_aligned_address p (u64_to_int (sz s p)) al = Some a \<and>
       (a = 0 \<or> \<not> hplus (a - 16) nunits \<le> hplus p (sz s p)))"

lemma alignas_loop_skip:
  "alignas_skips nunits al s p \<Longrightarrow> alignas_loop nunits al q p s =
     (if p = freep s then Some (0, s) else alignas_loop nunits al p (nx s p) s)"
  by (subst alignas_loop.simps) (auto simp: alignas_skips_def)

lemma alignas_loop_none:
  "path s q (ps @ [freep s]) \<Longrightarrow> freep s \<notin> set ps \<Longrightarrow>
   (\<forall>p\<in>set (ps @ [freep s]). alignas_skips nunits al s p) \<Longrightarrow>
   alignas_loop nunits al q (nx s q) s = Some (0, s)"
proof (induction ps arbitrary: q)
  case Nil
  then show ?case by (simp add: alignas_loop_skip)
next
  case (Cons p ps)
  then have "alignas_loop nunits al p (nx s p) s = Some (0, s)" by (intro Cons.IH) auto
  with Cons.prems show ?case by (simp add: alignas_loop_skip)
qed

lemma base_skips: "heap_ok s bs \<Longrightarrow> 16 \<le> unat (base_at s) \<Longrightarrow> alignas_skips nunits al s (base_at s)"
  by (simp add: alignas_skips_def heap_ok_def get_aligned_address_base)

lemma unat_header_before:
  assumes "unat (hplus b (of_nat j)) = unat b + 16 * j" "0 < j"
    "unat b + 16 * j + 16 * unat n < 2 ^ 64"
  shows "unat (hplus (hplus b (of_nat j) - 16) n) + 16 = unat b + 16 * j + 16 * unat n"
proof -
  have "unat (hplus b (of_nat j) - 16) = unat b + 16 * j - 16"
    using assms(1,2) by (simp add: unat_sub_if')
  then show ?thesis using assms(2,3) unat_hplus [of "hplus b (of_nat j) - 16" n] by simp
qed

lemma larger_than_alignment_skips:
  assumes ok: "placed s" "blk_ok s b" "heap_hi s \<le> 2 ^ 63"
    and al: "16 < al" "16 dvd al" "al < n" "n < 2 ^ 31"
  shows "alignas_skips (nunits_of n) al s b"
proof (rule get_aligned_address_block [OF ok(1,2), of al])
  show "0 < al" "al < 2 ^ 31" using al by simp_all
next
  assume "get_aligned_address b (u64_to_int (sz s b)) al = Some 0"
  then show ?thesis by (simp add: alignas_skips_def)
next
  fix j assume j: "0 < j" "j < unat (sz s b)" "nat al dvd unat b + 16 * j"
    "\<forall>i. j < i \<and> i < unat (sz s b) \<longrightarrow> \<not> nat al dvd unat b + 16 * i"
    "get_aligned_address b (u64_to_int (sz s b)) al = Some (hplus b (of_nat j))"
    "unat (hplus b (of_nat j)) = unat b + 16 * j"
  let ?n = "nunits_of n"
  have nu: "unat ?n = nat ((n + 15) div 16) + 1" using al by (intro unat_nunits_of) auto
  have big: "nat n + 16 \<le> 16 * unat ?n" "unat ?n \<le> 2 ^ 28" using al by (simp_all add: nu)
  obtain c where "al = 16 * c" using al(2) by auto
  then have dvd: "16 dvd nat al" by (simp add: nat_mult_distrib)
  have near: "unat b + 16 * unat (sz s b) \<le> unat b + 16 * j + nat al"
    using j ok(2) dvd al(1) by (intro highest_aligned_near_end) (auto simp: blk_ok_def)
  have "blk_end s b \<le> 2 ^ 63" using ok by (simp add: blk_ok_def)
  then have "unat b + 16 * j + 16 * unat ?n < 2 ^ 64" using j(2) big(2) by (simp add: blk_end_def)
  from unat_header_before [OF j(6,1) this] near big(1) al
  have "blk_end s b < unat (hplus (hplus b (of_nat j) - 16) ?n)" by (simp add: blk_end_def)
  then show ?thesis
    using j(5) unat_hplus_end [OF ok(1,2)] by (simp add: alignas_skips_def word_le_nat_alt)
qed

section \<open>What becomes of the free block\<close>

lemma ptr_diff_units:
  assumes "p = q + 16 * of_nat k" "16 * k < 2 ^ 63"
  shows "ptr_diff p q = int k"
proof -
  have "p - q = word_of_int (int (16 * k))" using assms by simp
  moreover have "sint (word_of_int (int (16 * k)) :: u64) = int (16 * k)"
    using assms(2) by (simp only: signed_of_int) (simp add: signed_take_bit_int_eq_self)
  ultimately show ?thesis by (simp add: ptr_diff_def int_div_def sgn_if)
qed

text \<open>
  The block and the request the take is about: a free block \<open>b\<close>, an aligned address \<open>a\<close>
  \<open>j\<close> headers above it, and room for the request between the header before \<open>a\<close> and the
  end of the block.
\<close>

lemma hplus_header_before: "hplus (hplus b (of_nat j) - 16) n = b + 16 * of_nat j - 16 + 16 * n"
  by (simp add: hplus_def)

lemma alignas_split_next:
  assumes placed: "placed s" and okb: "blk_ok s b" and j: "0 < j"
    and room: "j - 1 + unat n < unat (sz s b)" and n: "0 < n"
  defines "r \<equiv> hplus b (of_nat (j - 1 + unat n))"
  shows "nx (alignas_take n q b (hplus b (of_nat j)) s) b = r"
    "nx (alignas_take n q b (hplus b (of_nat j)) s) r = nx s b"
    "unat (sz (alignas_take n q b (hplus b (of_nat j)) s) r) = unat (sz s b) - (j - 1) + unat n"
    "unat r = unat b + 16 * (j - 1 + unat n)"
proof -
  let ?a = "hplus b (of_nat j)" and ?m = "unat (sz s b)"
  have m: "?m \<le> 0x40000" using okb by (auto simp: blk_ok_def blk_end_def heap_lo_def heap_hi_def)
  have endb: "unat b + 16 * ?m < 2 ^ 64" using blk_ok_bounds(2) [OF placed okb] by (simp add: blk_end_def)
  have n0: "0 < unat n" using n by (simp add: word_less_nat_alt)
  have jm: "of_nat j = of_nat (j - 1) + (1 :: u64)" using j by (cases j) simp_all
  have before: "?a - 16 = hplus b (of_nat (j - 1))" by (simp add: hplus_def jm algebra_simps)
  have fdiff: "ptr_diff (?a - 16) b = int (j - 1)"
    using room m unfolding before by (intro ptr_diff_units) (simp_all add: hplus_def)
  have bdiff: "ptr_diff (hplus b (sz s b)) (hplus (?a - 16) (- n)) = int (?m - (j - 1) + unat n)"
  proof (rule ptr_diff_units)
    have "sz s b = of_nat (?m - (j - 1) + (j - 1))" using room by simp
    then have "sz s b = of_nat (?m - (j - 1)) + of_nat (j - 1)" by (simp only: of_nat_add)
    from arg_cong [OF this, of "hplus b"]
    have "hplus b (sz s b) = hplus b (of_nat (?m - (j - 1)) + of_nat (j - 1))" .
    also have "\<dots> = hplus (?a - 16) (- n) + 16 * of_nat (?m - (j - 1) + unat n)"
      unfolding before by (simp add: hplus_def algebra_simps)
    finally show "hplus b (sz s b) = hplus (?a - 16) (- n) + 16 * of_nat (?m - (j - 1) + unat n)" .
    show "16 * (?m - (j - 1) + unat n) < 2 ^ 63" using room m by simp
  qed
  define K where K: "K = ?m - (j - 1) + unat n"
  have "K < 2 ^ 64" using m room by (simp add: K)
  then have "unat (of_nat K :: u64) = K" by (simp add: unat_of_nat take_bit_nat_eq_self)
  moreover have r: "hplus (hplus b (of_nat (j - 1))) n = r"
    by (simp add: r_def hplus_def algebra_simps)
  show ur: "unat r = unat b + 16 * (j - 1 + unat n)"
    unfolding r_def using room endb by (intro hplus_of_nat) simp
  have "unat (hplus b (of_nat (j - 1))) = unat b + 16 * (j - 1)"
    using room endb by (intro hplus_of_nat) simp
  then have neq: "r \<noteq> hplus b (of_nat (j - 1))" "r \<noteq> b" using ur n0 by auto
  have ne_end: "r \<noteq> hplus b (sz s b)"
    using ur room unat_hplus_end [OF placed okb] by (auto simp: blk_end_def)
  note take = alignas_take_def [of n q b ?a s, unfolded before, unfolded
      fdiff [unfolded before] bdiff [unfolded before, folded K] r]
  moreover have "hplus (hplus b (word_of_int (int (j - 1)))) n = r" using r by simp
  ultimately show "nx (alignas_take n q b ?a s) b = r" "nx (alignas_take n q b ?a s) r = nx s b"
      "unat (sz (alignas_take n q b ?a s) r) = ?m - (j - 1) + unat n"
    using neq ne_end K by (simp_all add: take Let_def)
qed

lemma alignas_exact_headers:
  assumes "sz s b = n" "a = hplus b 1"
  shows "hdr (alignas_take n q b a s) = hdr s"
  using assms by (cases "hdr s b") (auto simp: alignas_take_def hplus_def set_size_def fun_eq_iff)

section \<open>Alignment of addresses\<close>

lemma unat_align: "0 < al \<Longrightarrow> al < 2 ^ 31 \<Longrightarrow> unat (word_of_int al :: u64) = nat al"
  by (simp add: unsigned_of_int take_bit_int_eq_self)

lemma unat_align_as:
  assumes "0 < al" "al < 2 ^ 31" "unat addr + nat al < 2 ^ 64"
  shows "unat (align_as addr al) = unat addr + (nat al - unat addr mod nat al)"
proof -
  let ?w = "word_of_int al :: u64"
  have w: "unat ?w = nat al" using assms by (simp add: unat_align)
  have m: "unat (addr mod ?w) = unat addr mod nat al" by (simp add: unat_mod_distrib w)
  have lt: "unat addr mod nat al < nat al" using assms(1) by simp
  have d: "unat (?w - addr mod ?w) = nat al - unat addr mod nat al"
    using lt by (simp add: unat_sub_if' w m)
  then show ?thesis
    using assms(3) unat_add_no_wrap [of addr "?w - addr mod ?w"] by (simp add: align_as_def d)
qed

section \<open>Properties\<close>

text \<open>
  \<open>kmalloc_alignas\<close> never serves a request larger than its alignment: whatever is free, the
  answer is NULL, because only the highest aligned address of each free block is tried and that
  one is less than an alignment away from the end of the block.
\<close>

theorem kmalloc_alignas_larger_null:
  assumes "heap_ok s bs" "16 \<le> unat (base_at s)" "heap_hi s \<le> 2 ^ 63"
    and "16 < al" "16 dvd al" "al < n" "n < 2 ^ 31"
  shows "kmalloc_alignas n al s = Some (0, s)"
proof -
  obtain ps where ps: "path s (freep s) (ps @ [freep s])" "freep s \<notin> set ps"
    "set (freep s # ps) = set (base_at s # bs)"
    using heap_ok_rotate [OF assms(1)] .
  have "alignas_skips (nunits_of n) al s p" if "p \<in> set (base_at s # bs)" for p
    using that base_skips [OF assms(1,2)] larger_than_alignment_skips [of s p al n] assms
    by (auto simp: heap_ok_def)
  then have "\<forall>p\<in>set (ps @ [freep s]). alignas_skips (nunits_of n) al s p"
    using ps(3) by auto
  from alignas_loop_none [OF ps(1,2) this] show ?thesis
    using assms(4) by (simp add: kmalloc_alignas_def)
qed

theorem kmalloc_alignas_larger_null_witness:
  "kmalloc_alignas 0x2000 0x1000 heap1 = Some (0, heap1)"
  by (rule kmalloc_alignas_larger_null [OF heap1_ok])
    (simp_all add: heap1_def init_kheap_def heap0_def heap_hi_def)

text \<open>
  When the aligned request ends exactly where its free block ends and does not fill the
  block, \<open>kmalloc_alignas\<close> does to the heap what \<open>kmalloc\<close> does when it cuts the tail off a
  larger block, and returns the same pointer.
\<close>

theorem kmalloc_alignas_tail:
  assumes "hplus (a - 16) n = hplus p (sz s p)" "sz s p \<noteq> n"
  shows "kmalloc_take n q p s = (a, alignas_take n q p a s)"
proof -
  have "hplus p (sz s p - n) = hplus (a - 16) n - 16 * n"
    unfolding assms(1) by (simp add: hplus_def algebra_simps)
  then have p': "hplus p (sz s p - n) = a - 16" by (simp add: hplus_def)
  then show ?thesis
    using assms by (simp add: kmalloc_take_def alignas_take_def Let_def hplus_def)
qed

theorem kmalloc_alignas_tail_witness:
  "kmalloc_take 0x101 0x100000 0x101000 heap1 =
    (0x500000, alignas_take 0x101 0x100000 0x101000 0x500000 heap1)"
  by (rule kmalloc_alignas_tail) (simp_all add: heap1_head hplus_def)

text \<open>
  When the aligned request ends before its free block does, the block that
  \<open>kmalloc_alignas\<close> makes of the rest is too large: it reaches 32 bytes past the end of the old
  free block for every unit of the request, over whatever follows.
\<close>

theorem kmalloc_alignas_split_oversized:
  assumes "placed s" "blk_ok s b" "0 < j" "j - 1 + unat n < unat (sz s b)" "0 < n"
  shows "let s' = alignas_take n q b (hplus b (of_nat j)) s
    in nx s' (nx s' b) = nx s b \<and> blk_end s' (nx s' b) = blk_end s b + 32 * unat n"
  using alignas_split_next(1-3) [OF assms, of q] alignas_split_next(4) [OF assms] assms(4) by (simp add: Let_def blk_end_def)

theorem kmalloc_alignas_split_oversized_witness:
  "let s' = alignas_take 17 0x100000 0x101000 (hplus 0x101000 (of_nat 0x3FF00)) heap1
   in blk_end s' (nx s' 0x101000) = heap_hi heap1 + 32 * 17"
proof -
  have ok: "placed heap1" "blk_ok heap1 0x101000" using heap1_ok by (simp_all add: heap_ok_def)
  have "blk_end heap1 0x101000 = heap_hi heap1"
    by (simp add: blk_end_def heap1_head) (simp add: heap1_def init_kheap_def heap_hi_def)
  then show ?thesis
    using kmalloc_alignas_split_oversized [OF ok, of "0x3FF00" 17 "0x100000"]
    by (simp add: heap1_head Let_def)
qed

text \<open>
  When the header before the aligned address is the header of the free block itself and the
  request fills the block, the block is handed out but stays in the free list: no header changes.
\<close>

theorem kmalloc_alignas_exact_stays_free:
  assumes "heap_ok s bs" "b \<in> set bs" "q \<in> set (base_at s # bs)" "sz s b = n"
  shows "heap_ok (alignas_take n q b (hplus b 1) s) bs \<and>
    hdr (alignas_take n q b (hplus b 1) s) = hdr s"
proof -
  have h: "hdr (alignas_take n q b (hplus b 1) s) = hdr s"
    using assms(4) by (rule alignas_exact_headers) simp
  have "alignas_take n q b (hplus b 1) s = s\<lparr>hdr := hdr s, freep := q\<rparr>"
    using h assms(4) by (auto simp: alignas_take_def hplus_def set_size_def)
  then show ?thesis
    using assms(1,3) h
    by (auto simp: heap_ok_def placed_def heap_hi_def heap_lo_def blk_ok_def blk_end_def
        elim!: path_cong [THEN iffD1, rotated] sorted_wrt_mono_rel [rotated])
qed

theorem kmalloc_alignas_exact_stays_free_witness:
  "heap_ok (alignas_take 0x40000 0x100000 0x101000 (hplus 0x101000 1) heap1) [0x101000]"
  using kmalloc_alignas_exact_stays_free [OF heap1_ok, of "0x101000" "0x100000" "0x40000"]
  by (simp add: heap1_head) (simp add: heap1_def init_kheap_def heap0_def)

text \<open>
  \<open>align_as\<close> returns the first multiple of the alignment strictly above the address (an
  address that is aligned already moves up by a whole alignment), and \<open>is_aligned\<close> accepts it.
\<close>

theorem align_as_next_multiple:
  assumes "0 < al" "al < 2 ^ 31" "unat addr + nat al < 2 ^ 64"
  shows "is_aligned (align_as addr al) al = 1 \<and> unat addr < unat (align_as addr al) \<and>
    unat (align_as addr al) \<le> unat addr + nat al"
proof -
  note u = unat_align_as [OF assms]
  have lt: "unat addr mod nat al < nat al" using assms(1) by simp
  have "nat al dvd unat addr + (nat al - unat addr mod nat al)"
  proof -
    have "unat addr + (nat al - unat addr mod nat al) = unat addr div nat al * nat al + nat al"
      using lt div_mult_mod_eq [of "unat addr" "nat al"] by linarith
    then show ?thesis by simp
  qed
  then have "align_as addr al mod word_of_int al = 0"
    by (simp add: mod_word_dvd [OF assms(1,2)] u)
  moreover have "align_as addr al \<noteq> 0" using u lt by auto
  ultimately show ?thesis using u lt by (simp add: is_aligned_def)
qed

theorem align_as_next_multiple_witness:
  "is_aligned (align_as 0x1234 0x1000) 0x1000 = 1 \<and> unat (align_as 0x2000 0x1000) \<le> 0x3000"
  using align_as_next_multiple [of "0x1000" "0x1234"] align_as_next_multiple [of "0x1000" "0x2000"]
  by simp

end
