(* ===== verification/Fonts.thy ===== *)
theory Fonts
  imports Prelude
begin

text \<open>
  The half-width font of kernel/fonts.h: 16 bytes for each of the 95 printable ASCII characters,
  one bit per pixel, the leftmost pixel in bit 7. Each definition below holds eight characters,
  one per line, in the order of the array; \<open>fonts\<close> is the whole array.
\<close>

definition font_rows_20 :: "u8 list" where
  "font_rows_20 = [
    0x00, 0x00, 0x00, 0x00, 0x00, 0x00, 0x00, 0x00, 0x00, 0x00, 0x00, 0x00, 0x00, 0x00, 0x00, 0x00,
    0x00, 0x10, 0x10, 0x10, 0x10, 0x10, 0x10, 0x10, 0x10, 0x10, 0x00, 0x00, 0x10, 0x10, 0x00, 0x00,
    0x28, 0x28, 0x28, 0x00, 0x00, 0x00, 0x00, 0x00, 0x00, 0x00, 0x00, 0x00, 0x00, 0x00, 0x00, 0x00,
    0x00, 0x44, 0x44, 0x44, 0xFE, 0x44, 0x44, 0x44, 0x44, 0x44, 0xFE, 0x44, 0x44, 0x44, 0x00, 0x00,
    0x10, 0x3A, 0x56, 0x92, 0x92, 0x90, 0x50, 0x38, 0x14, 0x12, 0x92, 0x92, 0xD4, 0xB8, 0x10, 0x10,
    0x62, 0x92, 0x94, 0x94, 0x68, 0x08, 0x10, 0x10, 0x20, 0x2C, 0x52, 0x52, 0x92, 0x8C, 0x00, 0x00,
    0x00, 0x70, 0x88, 0x88, 0x88, 0x90, 0x60, 0x47, 0xA2, 0x92, 0x8A, 0x84, 0x46, 0x39, 0x00, 0x00,
    0x04, 0x08, 0x10, 0x00, 0x00, 0x00, 0x00, 0x00, 0x00, 0x00, 0x00, 0x00, 0x00, 0x00, 0x00, 0x00]"

definition font_rows_28 :: "u8 list" where
  "font_rows_28 = [
    0x02, 0x04, 0x08, 0x08, 0x10, 0x10, 0x10, 0x10, 0x10, 0x10, 0x10, 0x08, 0x08, 0x04, 0x02, 0x00,
    0x80, 0x40, 0x20, 0x20, 0x10, 0x10, 0x10, 0x10, 0x10, 0x10, 0x10, 0x20, 0x20, 0x40, 0x80, 0x00,
    0x00, 0x00, 0x00, 0x00, 0x00, 0x10, 0x92, 0x54, 0x38, 0x54, 0x92, 0x10, 0x00, 0x00, 0x00, 0x00,
    0x00, 0x00, 0x00, 0x00, 0x00, 0x10, 0x10, 0x10, 0xFE, 0x10, 0x10, 0x10, 0x00, 0x00, 0x00, 0x00,
    0x00, 0x00, 0x00, 0x00, 0x00, 0x00, 0x00, 0x00, 0x00, 0x00, 0x00, 0x18, 0x18, 0x08, 0x08, 0x10,
    0x00, 0x00, 0x00, 0x00, 0x00, 0x00, 0x00, 0x00, 0xFE, 0x00, 0x00, 0x00, 0x00, 0x00, 0x00, 0x00,
    0x00, 0x00, 0x00, 0x00, 0x00, 0x00, 0x00, 0x00, 0x00, 0x00, 0x00, 0x00, 0x18, 0x18, 0x00, 0x00,
    0x02, 0x02, 0x04, 0x04, 0x08, 0x08, 0x08, 0x10, 0x10, 0x20, 0x20, 0x40, 0x40, 0x40, 0x80, 0x80]"

definition font_rows_30 :: "u8 list" where
  "font_rows_30 = [
    0x00, 0x18, 0x24, 0x24, 0x42, 0x42, 0x42, 0x42, 0x42, 0x42, 0x42, 0x24, 0x24, 0x18, 0x00, 0x00,
    0x00, 0x08, 0x18, 0x28, 0x08, 0x08, 0x08, 0x08, 0x08, 0x08, 0x08, 0x08, 0x08, 0x3E, 0x00, 0x00,
    0x00, 0x18, 0x24, 0x42, 0x42, 0x02, 0x04, 0x08, 0x10, 0x20, 0x20, 0x40, 0x40, 0x7E, 0x00, 0x00,
    0x00, 0x18, 0x24, 0x42, 0x02, 0x02, 0x04, 0x18, 0x04, 0x02, 0x02, 0x42, 0x24, 0x18, 0x00, 0x00,
    0x00, 0x0C, 0x0C, 0x0C, 0x14, 0x14, 0x14, 0x24, 0x24, 0x44, 0x7E, 0x04, 0x04, 0x1E, 0x00, 0x00,
    0x00, 0x7C, 0x40, 0x40, 0x40, 0x58, 0x64, 0x02, 0x02, 0x02, 0x02, 0x42, 0x24, 0x18, 0x00, 0x00,
    0x00, 0x18, 0x24, 0x42, 0x40, 0x58, 0x64, 0x42, 0x42, 0x42, 0x42, 0x42, 0x24, 0x18, 0x00, 0x00,
    0x00, 0x7E, 0x42, 0x42, 0x04, 0x04, 0x08, 0x08, 0x08, 0x10, 0x10, 0x10, 0x10, 0x38, 0x00, 0x00]"

definition font_rows_38 :: "u8 list" where
  "font_rows_38 = [
    0x00, 0x18, 0x24, 0x42, 0x42, 0x42, 0x24, 0x18, 0x24, 0x42, 0x42, 0x42, 0x24, 0x18, 0x00, 0x00,
    0x00, 0x18, 0x24, 0x42, 0x42, 0x42, 0x42, 0x42, 0x26, 0x1A, 0x02, 0x42, 0x24, 0x18, 0x00, 0x00,
    0x00, 0x00, 0x00, 0x00, 0x00, 0x18, 0x18, 0x00, 0x00, 0x00, 0x00, 0x00, 0x18, 0x18, 0x00, 0x00,
    0x00, 0x00, 0x00, 0x00, 0x00, 0x18, 0x18, 0x00, 0x00, 0x00, 0x00, 0x18, 0x18, 0x08, 0x08, 0x10,
    0x00, 0x02, 0x04, 0x08, 0x10, 0x20, 0x40, 0x80, 0x80, 0x40, 0x20, 0x10, 0x08, 0x04, 0x02, 0x00,
    0x00, 0x00, 0x00, 0x00, 0x00, 0x00, 0xFE, 0x00, 0x00, 0xFE, 0x00, 0x00, 0x00, 0x00, 0x00, 0x00,
    0x00, 0x80, 0x40, 0x20, 0x10, 0x08, 0x04, 0x02, 0x02, 0x04, 0x08, 0x10, 0x20, 0x40, 0x80, 0x00,
    0x00, 0x38, 0x44, 0x82, 0x82, 0x82, 0x04, 0x08, 0x10, 0x10, 0x00, 0x00, 0x18, 0x18, 0x00, 0x00]"

definition font_rows_40 :: "u8 list" where
  "font_rows_40 = [
    0x00, 0x38, 0x44, 0x82, 0x9A, 0xAA, 0xAA, 0xAA, 0xAA, 0xAA, 0x9C, 0x80, 0x46, 0x38, 0x00, 0x00,
    0x00, 0x18, 0x18, 0x18, 0x18, 0x24, 0x24, 0x24, 0x24, 0x7E, 0x42, 0x42, 0x42, 0xE7, 0x00, 0x00,
    0x00, 0xF0, 0x48, 0x44, 0x44, 0x44, 0x48, 0x78, 0x44, 0x42, 0x42, 0x42, 0x44, 0xF8, 0x00, 0x00,
    0x00, 0x3A, 0x46, 0x42, 0x82, 0x80, 0x80, 0x80, 0x80, 0x80, 0x82, 0x42, 0x44, 0x38, 0x00, 0x00,
    0x00, 0xF8, 0x44, 0x44, 0x42, 0x42, 0x42, 0x42, 0x42, 0x42, 0x42, 0x44, 0x44, 0xF8, 0x00, 0x00,
    0x00, 0xFE, 0x42, 0x42, 0x40, 0x40, 0x44, 0x7C, 0x44, 0x40, 0x40, 0x42, 0x42, 0xFE, 0x00, 0x00,
    0x00, 0xFE, 0x42, 0x42, 0x40, 0x40, 0x44, 0x7C, 0x44, 0x44, 0x40, 0x40, 0x40, 0xF0, 0x00, 0x00,
    0x00, 0x3A, 0x46, 0x42, 0x82, 0x80, 0x80, 0x9E, 0x82, 0x82, 0x82, 0x42, 0x46, 0x38, 0x00, 0x00]"

definition font_rows_48 :: "u8 list" where
  "font_rows_48 = [
    0x00, 0xE7, 0x42, 0x42, 0x42, 0x42, 0x42, 0x7E, 0x42, 0x42, 0x42, 0x42, 0x42, 0xE7, 0x00, 0x00,
    0x00, 0x7C, 0x10, 0x10, 0x10, 0x10, 0x10, 0x10, 0x10, 0x10, 0x10, 0x10, 0x10, 0x7C, 0x00, 0x00,
    0x00, 0x1F, 0x04, 0x04, 0x04, 0x04, 0x04, 0x04, 0x04, 0x04, 0x04, 0x04, 0x84, 0x48, 0x30, 0x00,
    0x00, 0xE7, 0x42, 0x44, 0x48, 0x50, 0x50, 0x60, 0x50, 0x50, 0x48, 0x44, 0x42, 0xE7, 0x00, 0x00,
    0x00, 0xF0, 0x40, 0x40, 0x40, 0x40, 0x40, 0x40, 0x40, 0x40, 0x40, 0x42, 0x42, 0xFE, 0x00, 0x00,
    0x00, 0xC3, 0x42, 0x66, 0x66, 0x66, 0x5A, 0x5A, 0x5A, 0x42, 0x42, 0x42, 0x42, 0xE7, 0x00, 0x00,
    0x00, 0xC7, 0x42, 0x62, 0x62, 0x52, 0x52, 0x52, 0x4A, 0x4A, 0x4A, 0x46, 0x46, 0xE2, 0x00, 0x00,
    0x00, 0x38, 0x44, 0x82, 0x82, 0x82, 0x82, 0x82, 0x82, 0x82, 0x82, 0x82, 0x44, 0x38, 0x00, 0x00]"

definition font_rows_50 :: "u8 list" where
  "font_rows_50 = [
    0x00, 0xF8, 0x44, 0x42, 0x42, 0x42, 0x44, 0x78, 0x40, 0x40, 0x40, 0x40, 0x40, 0xF0, 0x00, 0x00,
    0x00, 0x38, 0x44, 0x82, 0x82, 0x82, 0x82, 0x82, 0x82, 0x82, 0x92, 0x8A, 0x44, 0x3A, 0x00, 0x00,
    0x00, 0xFC, 0x42, 0x42, 0x42, 0x42, 0x7C, 0x44, 0x42, 0x42, 0x42, 0x42, 0x42, 0xE7, 0x00, 0x00,
    0x00, 0x3A, 0x46, 0x82, 0x82, 0x80, 0x40, 0x38, 0x04, 0x02, 0x82, 0x82, 0xC4, 0xB8, 0x00, 0x00,
    0x00, 0xFE, 0x92, 0x92, 0x10, 0x10, 0x10, 0x10, 0x10, 0x10, 0x10, 0x10, 0x10, 0x7C, 0x00, 0x00,
    0x00, 0xE7, 0x42, 0x42, 0x42, 0x42, 0x42, 0x42, 0x42, 0x42, 0x42, 0x42, 0x24, 0x3C, 0x00, 0x00,
    0x00, 0xE7, 0x42, 0x42, 0x42, 0x42, 0x24, 0x24, 0x24, 0x24, 0x18, 0x18, 0x18, 0x18, 0x00, 0x00,
    0x00, 0xE7, 0x42, 0x42, 0x42, 0x5A, 0x5A, 0x5A, 0x5A, 0x24, 0x24, 0x24, 0x24, 0x24, 0x00, 0x00]"

definition font_rows_58 :: "u8 list" where
  "font_rows_58 = [
    0x00, 0xE7, 0x42, 0x42, 0x24, 0x24, 0x24, 0x18, 0x24, 0x24, 0x24, 0x42, 0x42, 0xE7, 0x00, 0x00,
    0x00, 0xEE, 0x44, 0x44, 0x44, 0x28, 0x28, 0x28, 0x10, 0x10, 0x10, 0x10, 0x10, 0x7C, 0x00, 0x00,
    0x00, 0xFE, 0x84, 0x84, 0x08, 0x08, 0x10, 0x10, 0x20, 0x20, 0x40, 0x42, 0x82, 0xFE, 0x00, 0x00,
    0x00, 0x3E, 0x20, 0x20, 0x20, 0x20, 0x20, 0x20, 0x20, 0x20, 0x20, 0x20, 0x20, 0x20, 0x3E, 0x00,
    0x80, 0x80, 0x40, 0x40, 0x20, 0x20, 0x20, 0x10, 0x10, 0x08, 0x08, 0x04, 0x04, 0x04, 0x02, 0x02,
    0x00, 0x7C, 0x04, 0x04, 0x04, 0x04, 0x04, 0x04, 0x04, 0x04, 0x04, 0x04, 0x04, 0x04, 0x7C, 0x00,
    0x00, 0x10, 0x28, 0x44, 0x82, 0x00, 0x00, 0x00, 0x00, 0x00, 0x00, 0x00, 0x00, 0x00, 0x00, 0x00,
    0x00, 0x00, 0x00, 0x00, 0x00, 0x00, 0x00, 0x00, 0x00, 0x00, 0x00, 0x00, 0x00, 0x00, 0xFE, 0x00]"

definition font_rows_60 :: "u8 list" where
  "font_rows_60 = [
    0x10, 0x08, 0x04, 0x00, 0x00, 0x00, 0x00, 0x00, 0x00, 0x00, 0x00, 0x00, 0x00, 0x00, 0x00, 0x00,
    0x00, 0x00, 0x00, 0x00, 0x00, 0x70, 0x08, 0x04, 0x3C, 0x44, 0x84, 0x84, 0x8C, 0x76, 0x00, 0x00,
    0xC0, 0x40, 0x40, 0x40, 0x40, 0x58, 0x64, 0x42, 0x42, 0x42, 0x42, 0x42, 0x64, 0x58, 0x00, 0x00,
    0x00, 0x00, 0x00, 0x00, 0x00, 0x30, 0x4C, 0x84, 0x84, 0x80, 0x80, 0x82, 0x44, 0x38, 0x00, 0x00,
    0x0C, 0x04, 0x04, 0x04, 0x04, 0x34, 0x4C, 0x84, 0x84, 0x84, 0x84, 0x84, 0x4C, 0x36, 0x00, 0x00,
    0x00, 0x00, 0x00, 0x00, 0x00, 0x38, 0x44, 0x82, 0x82, 0xFC, 0x80, 0x82, 0x42, 0x3C, 0x00, 0x00,
    0x0E, 0x10, 0x10, 0x10, 0x10, 0x7C, 0x10, 0x10, 0x10, 0x10, 0x10, 0x10, 0x10, 0x7C, 0x00, 0x00,
    0x00, 0x00, 0x00, 0x00, 0x00, 0x36, 0x4C, 0x84, 0x84, 0x84, 0x84, 0x4C, 0x34, 0x04, 0x04, 0x78]"

definition font_rows_68 :: "u8 list" where
  "font_rows_68 = [
    0xC0, 0x40, 0x40, 0x40, 0x40, 0x58, 0x64, 0x42, 0x42, 0x42, 0x42, 0x42, 0x42, 0xE3, 0x00, 0x00,
    0x00, 0x10, 0x10, 0x00, 0x00, 0x30, 0x10, 0x10, 0x10, 0x10, 0x10, 0x10, 0x10, 0x38, 0x00, 0x00,
    0x00, 0x04, 0x04, 0x00, 0x00, 0x0C, 0x04, 0x04, 0x04, 0x04, 0x04, 0x04, 0x04, 0x08, 0x08, 0x30,
    0xC0, 0x40, 0x40, 0x40, 0x40, 0x4E, 0x44, 0x48, 0x50, 0x60, 0x50, 0x48, 0x44, 0xE6, 0x00, 0x00,
    0x30, 0x10, 0x10, 0x10, 0x10, 0x10, 0x10, 0x10, 0x10, 0x10, 0x10, 0x10, 0x10, 0x38, 0x00, 0x00,
    0x00, 0x00, 0x00, 0x00, 0x00, 0xF6, 0x49, 0x49, 0x49, 0x49, 0x49, 0x49, 0x49, 0xDB, 0x00, 0x00,
    0x00, 0x00, 0x00, 0x00, 0x00, 0xD8, 0x64, 0x42, 0x42, 0x42, 0x42, 0x42, 0x42, 0xE3, 0x00, 0x00,
    0x00, 0x00, 0x00, 0x00, 0x00, 0x38, 0x44, 0x82, 0x82, 0x82, 0x82, 0x82, 0x44, 0x38, 0x00, 0x00]"

definition font_rows_70 :: "u8 list" where
  "font_rows_70 = [
    0x00, 0x00, 0x00, 0x00, 0x00, 0xD8, 0x64, 0x42, 0x42, 0x42, 0x42, 0x42, 0x64, 0x58, 0x40, 0xE0,
    0x00, 0x00, 0x00, 0x00, 0x00, 0x34, 0x4C, 0x84, 0x84, 0x84, 0x84, 0x84, 0x4C, 0x34, 0x04, 0x0E,
    0x00, 0x00, 0x00, 0x00, 0x00, 0xDC, 0x62, 0x42, 0x40, 0x40, 0x40, 0x40, 0x40, 0xE0, 0x00, 0x00,
    0x00, 0x00, 0x00, 0x00, 0x00, 0x7A, 0x86, 0x82, 0xC0, 0x38, 0x06, 0x82, 0xC2, 0xBC, 0x00, 0x00,
    0x00, 0x00, 0x10, 0x10, 0x10, 0x7C, 0x10, 0x10, 0x10, 0x10, 0x10, 0x10, 0x10, 0x0E, 0x00, 0x00,
    0x00, 0x00, 0x00, 0x00, 0x00, 0xC6, 0x42, 0x42, 0x42, 0x42, 0x42, 0x42, 0x46, 0x3B, 0x00, 0x00,
    0x00, 0x00, 0x00, 0x00, 0x00, 0xE7, 0x42, 0x42, 0x42, 0x24, 0x24, 0x24, 0x18, 0x18, 0x00, 0x00,
    0x00, 0x00, 0x00, 0x00, 0x00, 0xE7, 0x42, 0x42, 0x5A, 0x5A, 0x5A, 0x24, 0x24, 0x24, 0x00, 0x00]"

definition font_rows_78 :: "u8 list" where
  "font_rows_78 = [
    0x00, 0x00, 0x00, 0x00, 0x00, 0xC6, 0x44, 0x28, 0x28, 0x10, 0x28, 0x28, 0x44, 0xC6, 0x00, 0x00,
    0x00, 0x00, 0x00, 0x00, 0x00, 0xE7, 0x42, 0x42, 0x24, 0x24, 0x24, 0x18, 0x18, 0x10, 0x10, 0x60,
    0x00, 0x00, 0x00, 0x00, 0x00, 0xFE, 0x82, 0x84, 0x08, 0x10, 0x20, 0x42, 0x82, 0xFE, 0x00, 0x00,
    0x00, 0x06, 0x08, 0x10, 0x10, 0x10, 0x10, 0x60, 0x10, 0x10, 0x10, 0x10, 0x08, 0x06, 0x00, 0x00,
    0x10, 0x10, 0x10, 0x10, 0x10, 0x10, 0x10, 0x10, 0x10, 0x10, 0x10, 0x10, 0x10, 0x10, 0x10, 0x10,
    0x00, 0x60, 0x10, 0x08, 0x08, 0x08, 0x08, 0x06, 0x08, 0x08, 0x08, 0x08, 0x10, 0x60, 0x00, 0x00,
    0x00, 0x72, 0x8C, 0x00, 0x00, 0x00, 0x00, 0x00, 0x00, 0x00, 0x00, 0x00, 0x00, 0x00, 0x00, 0x00]"

definition fonts :: "u8 list" where
  "fonts = font_rows_20 @
    font_rows_28 @
    font_rows_30 @
    font_rows_38 @
    font_rows_40 @
    font_rows_48 @
    font_rows_50 @
    font_rows_58 @
    font_rows_60 @
    font_rows_68 @
    font_rows_70 @
    font_rows_78"

lemmas fonts_defs = fonts_def font_rows_20_def font_rows_28_def font_rows_30_def font_rows_38_def font_rows_40_def font_rows_48_def font_rows_50_def font_rows_58_def font_rows_60_def font_rows_68_def font_rows_70_def font_rows_78_def

lemma length_fonts: "length fonts = 1520"
  by (simp add: fonts_defs)

text \<open>The sixteen rows of the character with index \<open>k\<close> (its code less 0x20).\<close>

definition glyph :: "nat \<Rightarrow> u8 list" where
  "glyph k = take 16 (drop (16 * k) fonts)"

lemma length_glyph: "k < 95 \<Longrightarrow> length (glyph k) = 16"
  by (simp add: glyph_def length_fonts)

lemma glyph_nth: "k < 95 \<Longrightarrow> i < 16 \<Longrightarrow> glyph k ! i = fonts ! (16 * k + i)"
  by (simp add: glyph_def length_fonts)

end
