(* ===== verification/Serial.thy ===== *)
theory Serial
  imports Heap
begin

text \<open>
  device/serial.c: the interrupt controller and UART set-up and the console output routines.
  The UART's line status register is the parameter \<open>lsr\<close>: \<open>lsr n\<close> is the byte the device
  answers to the \<open>n\<close>-th status read. \<open>write_serial\<close> waits until bit 5 (transmitter empty) is set.
\<close>

section \<open>Set-up\<close>

definition init_pic :: "'z cpu_scheme \<Rightarrow> 'z cpu_scheme" where
  "init_pic s =
     (let s = io_cli s;
          s = io_out8 0x20 0x11 s; s = io_out8 0x21 32 s; s = io_out8 0x21 4 s;
          s = io_out8 0x21 0x01 s; s = io_out8 0x21 0xff s;
          s = io_out8 0xa0 0x11 s; s = io_out8 0xa1 40 s; s = io_out8 0xa1 2 s;
          s = io_out8 0xa1 0x01 s; s = io_out8 0xa1 0xff s;
          s = io_out8 0x21 0xe6 s; s = io_out8 0xa1 0xff s
      in io_sti s)"

text \<open>\<open>gpd\<close> is the flag of graphics.c.\<close>

definition init_serial :: "int \<Rightarrow> 'z cpu_scheme \<Rightarrow> 'z cpu_scheme" where
  "init_serial gpd s =
     (let s = s\<lparr>comport := (if gpd \<noteq> 0 then 0x2f8 else 0x3f8)\<rparr>;
          s = io_cli s;
          s = io_out8 (comport s + 1) 0x00 s; s = io_out8 (comport s + 3) 0x80 s;
          s = io_out8 (comport s + 0) 0x01 s; s = io_out8 (comport s + 1) 0x00 s;
          s = io_out8 (comport s + 3) 0x03 s; s = io_out8 (comport s + 2) 0xC7 s;
          s = io_out8 (comport s + 4) 0x0B s; s = io_out8 (comport s + 1) 0x0d s
      in io_sti s)"

section \<open>Output\<close>

text \<open>The status reads a wait makes: from the \<open>n\<close>-th on, up to the first with bit 5 set.\<close>

definition serial_thr_empty :: "u8 \<Rightarrow> bool" where
  "serial_thr_empty status \<longleftrightarrow> and status 0x20 \<noteq> 0"

partial_function (option) wait_thr :: "(nat \<Rightarrow> u8) \<Rightarrow> nat \<Rightarrow> nat option" where
  "wait_thr lsr n = (if serial_thr_empty (lsr n) then Some (n + 1) else wait_thr lsr (n + 1))"

definition write_serial ::
  "(nat \<Rightarrow> u8) \<Rightarrow> u8 \<Rightarrow> nat \<times> 'z cpu_scheme \<Rightarrow> (nat \<times> 'z cpu_scheme) option" where
  "write_serial lsr c ns =
     Option.bind (wait_thr lsr (fst ns)) (\<lambda>n. Some (n, io_out8 (comport (snd ns)) c (snd ns)))"

partial_function (option) puts_from ::
  "(nat \<Rightarrow> u8) \<Rightarrow> cbuf \<Rightarrow> nat \<Rightarrow> nat \<times> 'z cpu_scheme \<Rightarrow> (nat \<times> 'z cpu_scheme) option" where
  "puts_from lsr s i ns =
     (if s i \<noteq> 0 then Option.bind (write_serial lsr (s i) ns) (\<lambda>ns. puts_from lsr s (i + 1) ns)
      else Some ns)"

definition on_snd :: "('a \<Rightarrow> 'b) \<Rightarrow> nat \<times> 'a \<Rightarrow> nat \<times> 'b" where
  "on_snd f ns = (fst ns, f (snd ns))"

definition puts_serial ::
  "(nat \<Rightarrow> u8) \<Rightarrow> cbuf \<Rightarrow> nat \<times> 'z cpu_scheme \<Rightarrow> (nat \<times> 'z cpu_scheme) option" where
  "puts_serial lsr s ns =
     Option.bind (puts_from lsr s 0 (on_snd io_cli ns)) (\<lambda>ns. Some (on_snd io_sti ns))"

primrec nputs_upto ::
  "(nat \<Rightarrow> u8) \<Rightarrow> cbuf \<Rightarrow> nat \<Rightarrow> nat \<times> 'z cpu_scheme \<Rightarrow> (nat \<times> 'z cpu_scheme) option" where
  "nputs_upto lsr s 0 ns = Some ns"
| "nputs_upto lsr s (Suc k) ns =
     Option.bind (nputs_upto lsr s k ns) (\<lambda>ns. write_serial lsr (s k) ns)"

definition nputs_serial ::
  "(nat \<Rightarrow> u8) \<Rightarrow> cbuf \<Rightarrow> int \<Rightarrow> nat \<times> 'z cpu_scheme \<Rightarrow> (nat \<times> 'z cpu_scheme) option" where
  "nputs_serial lsr s n ns =
     Option.bind (nputs_upto lsr s (nat n) (on_snd io_cli ns)) (\<lambda>ns. Some (on_snd io_sti ns))"

text \<open>The digits \<open>putn_serial\<close> puts in its 19-byte buffer, \<open>buf[17]\<close> first.\<close>

definition ascii :: "string \<Rightarrow> u8 list" where
  "ascii str = map of_char str"

primrec putn_digits :: "nat \<Rightarrow> u64 \<Rightarrow> u8 list \<Rightarrow> u8 list" where
  "putn_digits 0 n buf = buf"
| "putn_digits (Suc k) n buf =
     putn_digits k (drop_bit 4 n)
       (buf[17 - (15 - k) := ascii ''0123456789abcdef'' ! unat (and n 15)])"

definition putn_buf :: "u64 \<Rightarrow> u8 list" where
  "putn_buf n = putn_digits 16 n ((ascii ''0x'' @ replicate 17 0)[18 := 0])"

definition putn_serial ::
  "(nat \<Rightarrow> u8) \<Rightarrow> u64 \<Rightarrow> nat \<times> 'z cpu_scheme \<Rightarrow> (nat \<times> 'z cpu_scheme) option" where
  "putn_serial lsr n ns = puts_serial lsr (\<lambda>i. putn_buf n ! i) ns"

definition putsn_serial ::
  "(nat \<Rightarrow> u8) \<Rightarrow> cbuf \<Rightarrow> u64 \<Rightarrow> nat \<times> 'z cpu_scheme \<Rightarrow> (nat \<times> 'z cpu_scheme) option" where
  "putsn_serial lsr s n ns =
     Option.bind (puts_serial lsr s ns) (\<lambda>ns.
     Option.bind (putn_serial lsr n ns) (\<lambda>ns.
       puts_serial lsr (str_buf [13, 10]) ns))"

definition putsp_serial ::
  "(nat \<Rightarrow> u8) \<Rightarrow> cbuf \<Rightarrow> u64 \<Rightarrow> nat \<times> 'z cpu_scheme \<Rightarrow> (nat \<times> 'z cpu_scheme) option" where
  "putsp_serial lsr s p ns = putsn_serial lsr s p ns"

section \<open>What arrives at the console\<close>

text \<open>The device is ready again and again.\<close>

definition thr_ready :: "(nat \<Rightarrow> u8) \<Rightarrow> bool" where
  "thr_ready lsr \<longleftrightarrow> (\<forall>n. \<exists>m\<ge>n. serial_thr_empty (lsr m))"

lemma wait_thr_from: "serial_thr_empty (lsr m) \<Longrightarrow> n \<le> m \<Longrightarrow> \<exists>n'. wait_thr lsr n = Some n'"
proof (induction "m - n" arbitrary: n)
  case 0
  then show ?case by (simp add: wait_thr.simps [of lsr n])
next
  case (Suc d)
  then show ?case by (cases "serial_thr_empty (lsr n)") (simp_all add: wait_thr.simps [of lsr n])
qed

lemma wait_thr_returns:
  assumes "thr_ready lsr"
  obtains n' where "wait_thr lsr n = Some n'"
  using assms wait_thr_from unfolding thr_ready_def by blast

text \<open>The effect of sending the bytes \<open>xs\<close>; \<open>say\<close> is a call of \<open>puts_serial\<close>, \<open>say_num\<close> of
  \<open>putsn_serial\<close>, when the device takes every byte.\<close>

definition sent :: "u8 list \<Rightarrow> 'z cpu_scheme \<Rightarrow> 'z cpu_scheme" where
  "sent xs s = s\<lparr>port_out := port_out s @ map (Pair (comport s)) xs\<rparr>"

definition say_bytes :: "u8 list \<Rightarrow> 'z cpu_scheme \<Rightarrow> 'z cpu_scheme" where
  "say_bytes xs s = io_sti (sent xs s)"

definition hex_digit :: "u64 \<Rightarrow> nat \<Rightarrow> u8" where
  "hex_digit n i = ascii ''0123456789abcdef'' ! unat (and (drop_bit (4 * i) n) 15)"

definition hex_bytes :: "u64 \<Rightarrow> u8 list" where
  "hex_bytes n = ascii ''0x'' @ map (hex_digit n) (rev [0..<16])"

definition say :: "string \<Rightarrow> 'z cpu_scheme \<Rightarrow> 'z cpu_scheme" where
  "say msg s = say_bytes (ascii msg) s"

definition say_num :: "string \<Rightarrow> u64 \<Rightarrow> 'z cpu_scheme \<Rightarrow> 'z cpu_scheme" where
  "say_num msg n s = say_bytes (ascii msg @ hex_bytes n @ [13, 10]) s"

lemma say_fields [simp]:
  "int_flag (say_bytes xs s)" "comport (say_bytes xs s) = comport s"
  "cpu.more (say_bytes xs s) = cpu.more s"
  "port_out (say_bytes xs s) = port_out s @ map (Pair (comport s)) xs"
  by (simp_all add: say_bytes_def sent_def io_sti_def)

lemma sent_append: "sent ys (sent xs s) = sent (xs @ ys) s"
  by (simp add: sent_def)

lemma say_bytes_append: "say_bytes ys (say_bytes xs s) = say_bytes (xs @ ys) s"
  by (simp add: say_bytes_def sent_def io_sti_def)

lemma write_serial_ready:
  assumes "thr_ready lsr"
  shows "\<exists>n'. write_serial lsr c (n, s) = Some (n', sent [c] s)"
proof -
  obtain n' where "wait_thr lsr n = Some n'" using wait_thr_returns [OF assms] .
  then show ?thesis by (simp add: write_serial_def io_out8_def sent_def)
qed

lemma puts_from_ready:
  assumes "thr_ready lsr" "holds_str str xs" "i \<le> length xs"
  shows "\<exists>n'. puts_from lsr str i (n, s) = Some (n', sent (drop i xs) s)"
  using assms(3)
proof (induction "length xs - i" arbitrary: i n s)
  case 0
  then show ?case using assms(2) by (simp add: puts_from.simps holds_str_def sent_def)
next
  case (Suc d)
  then have i: "i < length xs" by simp
  obtain n1 where n1: "write_serial lsr (str i) (n, s) = Some (n1, sent [str i] s)"
    using write_serial_ready [OF assms(1)] by blast
  have "d = length xs - (i + 1)" "i + 1 \<le> length xs" using Suc.hyps(2) i by simp_all
  from Suc.hyps(1) [OF this] obtain n2 where "puts_from lsr str (i + 1) (n1, sent [str i] s) =
      Some (n2, sent (drop (i + 1) xs) (sent [str i] s))" by blast
  moreover have "drop i xs = str i # drop (i + 1) xs"
    using i assms(2) by (simp add: Cons_nth_drop_Suc holds_str_def)
  ultimately show ?case
    using n1 holds_str_nonzero [OF assms(2) i]
    by (simp add: puts_from.simps [of lsr str i] sent_append)
qed

lemma say_via_cli: "io_sti (sent xs (io_cli s)) = say_bytes xs s"
  by (simp add: say_bytes_def sent_def io_sti_def io_cli_def)

lemma puts_serial_ready:
  assumes "thr_ready lsr" "holds_str str xs"
  shows "\<exists>n'. puts_serial lsr str (n, s) = Some (n', say_bytes xs s)"
  using puts_from_ready [OF assms, of 0 n "io_cli s"]
  by (auto simp: puts_serial_def on_snd_def say_via_cli)

lemma nputs_upto_ready:
  assumes "thr_ready lsr"
  shows "\<exists>n'. nputs_upto lsr str k (n, s) = Some (n', sent (map str [0..<k]) s)"
proof (induction k)
  case 0
  then show ?case by (simp add: sent_def)
next
  case (Suc k)
  then obtain n1 where "nputs_upto lsr str k (n, s) = Some (n1, sent (map str [0..<k]) s)" by blast
  moreover obtain n2 where "write_serial lsr (str k) (n1, sent (map str [0..<k]) s) =
      Some (n2, sent [str k] (sent (map str [0..<k]) s))"
    using write_serial_ready [OF assms] by blast
  ultimately show ?case by (simp add: sent_append)
qed

section \<open>Hexadecimal numbers\<close>

lemma hex_digit_shift: "hex_digit (drop_bit 4 n) i = hex_digit n (Suc i)"
  by (simp add: hex_digit_def algebra_simps)

lemma length_putn_digits [simp]: "length (putn_digits k n buf) = length buf"
  by (induction k arbitrary: n buf) simp_all

lemma putn_digits_nth:
  "k \<le> 16 \<Longrightarrow> length buf = 19 \<Longrightarrow> putn_digits k n buf ! j =
     (if 2 \<le> j \<and> j \<le> k + 1 then hex_digit n (k + 1 - j) else buf ! j)"
proof (induction k arbitrary: n buf)
  case 0
  then show ?case by auto
next
  case (Suc k)
  have idx: "17 - (15 - k) = k + 2" using Suc.prems(1) by simp
  have d0: "ascii ''0123456789abcdef'' ! unat (and n 15) = hex_digit n 0" by (simp add: hex_digit_def)
  show ?case
    using Suc by (auto simp: idx d0 hex_digit_shift nth_list_update Suc_diff_le)
qed

lemma putn_buf_eq: "putn_buf n = hex_bytes n @ [0]"
proof (rule nth_equalityI)
  fix j assume "j < length (putn_buf n)"
  then have j: "j < 19" by (simp add: putn_buf_def ascii_def)
  show "putn_buf n ! j = (hex_bytes n @ [0]) ! j"
  proof (cases "2 \<le> j \<and> j \<le> 17")
    case True
    then have "j - Suc (Suc 0) < 16" "17 - j < 16" by linarith+
    then show ?thesis
      using True by (simp add: putn_buf_def putn_digits_nth ascii_def hex_bytes_def nth_append rev_nth)
  next
    case False
    with j have "j = 0 \<or> j = 1 \<or> j = 18" by auto
    then show ?thesis
      by (auto simp: putn_buf_def putn_digits_nth ascii_def hex_bytes_def nth_append nth_list_update)
  qed
qed (simp add: putn_buf_def hex_bytes_def ascii_def)

lemma unat_nibble: "unat (and (drop_bit (4 * i) (n :: u64)) 15) = unat n div 16 ^ i mod 16"
proof -
  have "(15 :: u64) = mask 4" by (simp add: mask_eq_exp_minus_1)
  then have "and (drop_bit (4 * i) n) 15 = take_bit 4 (drop_bit (4 * i) n)"
    by (simp add: take_bit_eq_mask)
  then have "unat (and (drop_bit (4 * i) n) 15) = take_bit 4 (drop_bit (4 * i) (unat n))"
    using unat64_lt [of n] by (simp add: unsigned_take_bit_eq unsigned_drop_bit_eq take_bit_nat_eq_self)
  then show ?thesis by (simp add: take_bit_eq_mod drop_bit_eq_div power_mult)
qed

definition hex_value :: "u8 \<Rightarrow> nat" where
  "hex_value c = (if c < 58 then unat c - 48 else unat c - 87)"

definition parse_hex :: "u8 list \<Rightarrow> nat" where
  "parse_hex ds = foldl (\<lambda>v c. 16 * v + hex_value c) 0 ds"

lemma below_16: "d < (16 :: nat) \<Longrightarrow> d \<in> {0, 1, 2, 3, 4, 5, 6, 7, 8, 9, 10, 11, 12, 13, 14, 15}"
  by (simp; presburger)

lemma hex_alphabet:
  assumes "d < 16"
  shows "hex_value (ascii ''0123456789abcdef'' ! d) = d" "ascii ''0123456789abcdef'' ! d \<noteq> 0"
  using below_16 [OF assms] by (elim insertE emptyE; simp add: hex_value_def ascii_def)+

lemma hex_digit_value: "hex_value (hex_digit n i) = unat n div 16 ^ i mod 16" "hex_digit n i \<noteq> 0"
  unfolding hex_digit_def unat_nibble by (rule hex_alphabet; simp)+

lemma foldl_digits:
  "foldl (\<lambda>v c. 16 * v + hex_value c) v (map (hex_digit n) (rev [0..<k])) =
     v * 16 ^ k + unat n mod 16 ^ k"
proof (induction k arbitrary: v)
  case 0
  then show ?case by simp
next
  case (Suc k)
  have "unat n mod (16 ^ k * 16) = 16 ^ k * (unat n div 16 ^ k mod 16) + unat n mod 16 ^ k"
    by (rule mod_mult2_eq)
  then show ?case
    using Suc.IH [of "16 * v + hex_value (hex_digit n k)"] by (simp add: hex_digit_value algebra_simps)
qed

lemma hex_bytes_parse: "parse_hex (drop 2 (hex_bytes n)) = unat n"
  using foldl_digits [of 0 n 16] unat64_lt [of n]
  by (simp add: parse_hex_def hex_bytes_def ascii_def)

lemma hex_bytes_holds: "holds_str (\<lambda>i. putn_buf n ! i) (hex_bytes n)"
proof -
  have "0 \<noteq> hex_digit n i" for i using hex_digit_value(2) [of n i] by simp
  then have "0 \<notin> set (hex_bytes n)" by (auto simp: hex_bytes_def ascii_def)
  then show ?thesis by (simp add: holds_str_def putn_buf_eq nth_append)
qed

lemma putn_serial_ready:
  "thr_ready lsr \<Longrightarrow> \<exists>n'. putn_serial lsr m (n, s) = Some (n', say_bytes (hex_bytes m) s)"
  unfolding putn_serial_def by (intro puts_serial_ready hex_bytes_holds)

section \<open>A device that is never ready\<close>

lemma wait_thr_never:
  assumes "\<forall>m\<ge>n. \<not> serial_thr_empty (lsr m)"
  shows "wait_thr lsr n = None"
proof (cases "wait_thr lsr n")
  case (Some r)
  have "\<exists>m\<ge>n. serial_thr_empty (lsr m)"
  proof (rule wait_thr.raw_induct [where P = "\<lambda>lsr n r. \<exists>m\<ge>n. serial_thr_empty (lsr m)",
        OF _ Some])
    fix f lsr n r
    assume IH: "\<And>lsr n r. f lsr n = Some r \<Longrightarrow> \<exists>m\<ge>n. serial_thr_empty (lsr m)"
      and eq: "(if serial_thr_empty (lsr n) then Some (n + 1) else f lsr (n + 1)) = Some (r :: nat)"
    show "\<exists>m\<ge>n. serial_thr_empty (lsr m)"
      using eq IH [of lsr "n + 1" r] by (cases "serial_thr_empty (lsr n)") (auto dest: Suc_leD)
  qed
  with assms show ?thesis by blast
qed

text \<open>The last byte written to a port.\<close>

definition last_out :: "u16 \<Rightarrow> 'z cpu_scheme \<Rightarrow> u8 option" where
  "last_out port s = map_of (rev (port_out s)) port"

section \<open>Properties\<close>

text \<open>
  \<open>puts_serial\<close> sends exactly the bytes of the string, in order, to the UART chosen by
  \<open>init_serial\<close>, whatever time the device takes for each; it returns with interrupts enabled,
  also when its caller had them disabled.
\<close>

theorem puts_serial_sends:
  assumes "thr_ready lsr" "holds_str str xs"
  shows "\<exists>n' s'. puts_serial lsr str (n, s) = Some (n', s') \<and> int_flag s' \<and>
    port_out s' = port_out s @ map (Pair (comport s)) xs \<and> cpu.more s' = cpu.more s"
  using puts_serial_ready [OF assms, of n s] by auto

theorem puts_serial_sends_witness:
  "\<exists>n' s'. puts_serial (\<lambda>n. if even n then 0 else 0x60) (str_buf [79, 75])
      (0, (cpu0 False 0x3f8)) = Some (n', s') \<and>
    int_flag s' \<and> port_out s' = [(0x3f8, 79), (0x3f8, 75)]"
proof -
  have "thr_ready (\<lambda>n. if even n then 0 else 0x60)"
    unfolding thr_ready_def
  proof
    fix n :: nat
    show "\<exists>m\<ge>n. serial_thr_empty (if even m then 0 else 0x60)"
      by (rule exI [of _ "2 * n + 1"]) (simp add: serial_thr_empty_def)
  qed
  moreover have "holds_str (str_buf [79, 75]) [79, 75]" by (rule holds_str_buf) simp
  ultimately show ?thesis
    using puts_serial_sends [where n = 0 and s = "(cpu0 False 0x3f8)"]
    by fastforce
qed

text \<open>
  When the UART never reports an empty transmitter, sending a non-empty string does not
  return.
\<close>

theorem puts_serial_hangs:
  assumes "\<forall>m\<ge>n. \<not> serial_thr_empty (lsr m)" "str 0 \<noteq> 0"
  shows "puts_serial lsr str (n, s) = None"
  using wait_thr_never [OF assms(1)] assms(2)
  by (simp add: puts_serial_def puts_from.simps [of lsr str 0] write_serial_def on_snd_def)

theorem puts_serial_hangs_witness:
  "puts_serial (\<lambda>_. 0xdf) (str_buf [79]) (0, (cpu0 True 0)) = None"
  by (rule puts_serial_hangs) (simp_all add: serial_thr_empty_def str_buf_def)

text \<open>
  C38. \<open>putn_serial\<close> prints \<open>0x\<close> and sixteen lower-case digits that read back as the number, for
  every 64-bit number.
\<close>

theorem putn_serial_roundtrip:
  assumes "thr_ready lsr"
  shows "\<exists>n' ds. putn_serial lsr m (n, s) = Some (n', say_bytes (ascii ''0x'' @ ds) s) \<and>
    length ds = 16 \<and> parse_hex ds = unat m"
proof -
  have "hex_bytes m = ascii ''0x'' @ drop 2 (hex_bytes m)" "length (drop 2 (hex_bytes m)) = 16"
    by (simp_all add: hex_bytes_def ascii_def)
  then show ?thesis using putn_serial_ready [OF assms, of m n s] hex_bytes_parse [of m] by metis
qed

theorem putn_serial_roundtrip_witness:
  "\<exists>n' ds. putn_serial (\<lambda>_. 0x20) 0xdeadbeef (0, (cpu0 True 0)) =
      Some (n', say_bytes (ascii ''0x'' @ ds) (cpu0 True 0)) \<and>
    parse_hex ds = 0xdeadbeef"
proof -
  have "thr_ready (\<lambda>_. 0x20)" by (auto simp: thr_ready_def serial_thr_empty_def)
  from putn_serial_roundtrip [OF this, of "0xdeadbeef" 0 "(cpu0 True 0)"]
  show ?thesis by auto
qed

text \<open>
  After \<open>init_pic\<close> the interrupt masks admit the timer (IRQ 0) and the two UART lines (IRQ 3
  and 4) of the first controller and nothing else, and interrupts are enabled.
\<close>

theorem init_pic_masks:
  "(\<exists>mask. last_out 0x21 (init_pic s) = Some mask \<and> {irq. irq < 8 \<and> \<not> bit mask irq} = {0, 3, 4}) \<and>
   last_out 0xa1 (init_pic s) = Some 0xff \<and> int_flag (init_pic s)"
proof -
  have "irq < 8 \<and> \<not> bit (0xe6 :: u8) irq \<longleftrightarrow> irq \<in> {0, 3, 4}" for irq
  proof (cases "irq < 8")
    case True
    then have "irq = 0 \<or> irq = 1 \<or> irq = 2 \<or> irq = 3 \<or> irq = 4 \<or> irq = 5 \<or> irq = 6 \<or> irq = 7"
      by presburger
    then show ?thesis by (elim disjE) simp_all
  qed auto
  then have "{irq. irq < 8 \<and> \<not> bit (0xe6 :: u8) irq} = {0, 3, 4}" by blast
  then show ?thesis by (simp add: last_out_def init_pic_def io_out8_def io_cli_def io_sti_def)
qed

end
