(* ===== verification/Graphics.thy ===== *)
theory Graphics
  imports Serial Fonts
begin

text \<open>
  kernel/graphics.c: the frame buffer, single dots, rectangles, characters of the 8x16 font,
  strings and hexadecimal numbers. \<open>fb\<close> is the memory behind \<open>vinfo_g.fb\<close>, indexed by pixel.
  A NUL-terminated string argument is the list of its bytes before the terminator.
\<close>

section \<open>State\<close>

record pix_format =
  blue :: u8
  green :: u8
  red :: u8
  pix_rsvd :: u8

record video_info =
  vi_fb_size :: u64
  vi_x_axis :: u32
  vi_y_axis :: u32
  vi_ppsl :: u32

record screen = heap +
  fb :: "u64 \<Rightarrow> pix_format"
  fb_size :: u64
  x_axis :: u32
  y_axis :: u32
  ppsl :: u32
  gpd :: int

definition pix_black :: pix_format where
  "pix_black = \<lparr>blue = 0x00, green = 0x00, red = 0x00, pix_rsvd = 0x00\<rparr>"

definition pix_white :: pix_format where
  "pix_white = \<lparr>blue = 0xff, green = 0xff, red = 0xff, pix_rsvd = 0x00\<rparr>"

definition pix_red :: pix_format where
  "pix_red = \<lparr>blue = 0x00, green = 0x00, red = 0xff, pix_rsvd = 0x00\<rparr>"

definition pix_green :: pix_format where
  "pix_green = \<lparr>blue = 0x00, green = 0xff, red = 0x00, pix_rsvd = 0x00\<rparr>"

definition pix_blue :: pix_format where
  "pix_blue = \<lparr>blue = 0xff, green = 0x00, red = 0x00, pix_rsvd = 0x00\<rparr>"

section \<open>Operations\<close>

text \<open>The screen of the GPD MicroPC stands on its side: width and height are exchanged.\<close>

definition init_graphics :: "video_info \<Rightarrow> 'z screen_scheme \<Rightarrow> 'z screen_scheme" where
  "init_graphics vinfo g =
     (let g = g\<lparr>fb_size := vi_fb_size vinfo, x_axis := vi_x_axis vinfo, y_axis := vi_y_axis vinfo,
               ppsl := vi_ppsl vinfo\<rparr>
      in if x_axis g < y_axis g then g\<lparr>gpd := 1, x_axis := y_axis g, y_axis := x_axis g\<rparr>
         else g\<lparr>gpd := 0\<rparr>)"

definition dot_index :: "'z screen_scheme \<Rightarrow> u32 \<Rightarrow> u32 \<Rightarrow> u32" where
  "dot_index g x y =
     (let x_c = (if gpd g \<noteq> 0 then y_axis g - y - 1 else x);
          y_c = (if gpd g \<noteq> 0 then x else y)
      in x_c + y_c * ppsl g)"

definition draw_dot :: "u32 \<Rightarrow> u32 \<Rightarrow> pix_format \<Rightarrow> 'z screen_scheme \<Rightarrow> 'z screen_scheme" where
  "draw_dot x y color g =
     (if \<not> x < x_axis g \<or> \<not> y < y_axis g then g
      else g\<lparr>fb := (fb g)(ucast (dot_index g x y) := color)\<rparr>)"

text \<open>A row of \<open>w\<close> dots, and \<open>h\<close> such rows, from the upper left corner.\<close>

primrec dots_row :: "nat \<Rightarrow> u32 \<Rightarrow> u32 \<Rightarrow> pix_format \<Rightarrow> 'z screen_scheme \<Rightarrow> 'z screen_scheme" where
  "dots_row 0 ul_x y color g = g"
| "dots_row (Suc j) ul_x y color g =
     draw_dot (ul_x + of_nat j) y color (dots_row j ul_x y color g)"

primrec dots_rect ::
  "nat \<Rightarrow> nat \<Rightarrow> u32 \<Rightarrow> u32 \<Rightarrow> pix_format \<Rightarrow> 'z screen_scheme \<Rightarrow> 'z screen_scheme" where
  "dots_rect w 0 ul_x ul_y color g = g"
| "dots_rect w (Suc i) ul_x ul_y color g =
     dots_row w ul_x (ul_y + of_nat i) color (dots_rect w i ul_x ul_y color g)"

definition draw_square ::
  "u32 \<Rightarrow> u32 \<Rightarrow> u32 \<Rightarrow> u32 \<Rightarrow> pix_format \<Rightarrow> 'z screen_scheme \<Rightarrow> 'z screen_scheme" where
  "draw_square ul_x ul_y x_len y_len color g =
     (if \<not> ul_x + x_len < x_axis g \<or> \<not> ul_y + y_len < y_axis g then g
      else dots_rect (unat x_len) (unat y_len) ul_x ul_y color g)"

primrec paint_upto :: "nat \<Rightarrow> pix_format \<Rightarrow> 'z screen_scheme \<Rightarrow> 'z screen_scheme" where
  "paint_upto 0 bgcolor g = g"
| "paint_upto (Suc i) bgcolor g =
     (let g = paint_upto i bgcolor g in g\<lparr>fb := (fb g)(of_nat i := bgcolor)\<rparr>)"

definition paint_background :: "pix_format \<Rightarrow> 'z screen_scheme \<Rightarrow> 'z screen_scheme" where
  "paint_background bgcolor g = paint_upto (unat (fb_size g)) bgcolor g"

definition draw_if :: "bool \<Rightarrow> u32 \<Rightarrow> u32 \<Rightarrow> pix_format \<Rightarrow> 'z screen_scheme \<Rightarrow> 'z screen_scheme" where
  "draw_if c x y color g = (if c then draw_dot x y color g else g)"

definition glyph_row ::
  "u8 \<Rightarrow> u32 \<Rightarrow> u32 \<Rightarrow> pix_format \<Rightarrow> 'z screen_scheme \<Rightarrow> 'z screen_scheme" where
  "glyph_row d ul_x y color g =
     (let g = draw_if (and d 0x80 \<noteq> 0) (ul_x + 0) y color g;
          g = draw_if (and d 0x40 \<noteq> 0) (ul_x + 1) y color g;
          g = draw_if (and d 0x20 \<noteq> 0) (ul_x + 2) y color g;
          g = draw_if (and d 0x10 \<noteq> 0) (ul_x + 3) y color g;
          g = draw_if (and d 0x08 \<noteq> 0) (ul_x + 4) y color g;
          g = draw_if (and d 0x04 \<noteq> 0) (ul_x + 5) y color g;
          g = draw_if (and d 0x02 \<noteq> 0) (ul_x + 6) y color g;
          g = draw_if (and d 0x01 \<noteq> 0) (ul_x + 7) y color g
      in g)"

text \<open>\<open>char\<close> is signed: the index \<open>c_num * 16 + i\<close> is negative for \<open>c_num\<close> of 0x80 and above.\<close>

primrec glyph_rows ::
  "nat \<Rightarrow> u32 \<Rightarrow> u32 \<Rightarrow> pix_format \<Rightarrow> u8 \<Rightarrow> 'z screen_scheme \<Rightarrow> 'z screen_scheme outcome" where
  "glyph_rows 0 ul_x ul_y color c_num g = Inr g"
| "glyph_rows (Suc i) ul_x ul_y color c_num g =
     and_then (glyph_rows i ul_x ul_y color c_num g) (\<lambda>g.
     and_then (array_get fonts (sint c_num * 16 + int i)) (\<lambda>d.
       Inr (glyph_row d ul_x (ul_y + of_nat i) color g)))"

definition printchar ::
  "u32 \<Rightarrow> u32 \<Rightarrow> pix_format \<Rightarrow> pix_format \<Rightarrow> u8 \<Rightarrow> 'z screen_scheme \<Rightarrow> 'z screen_scheme outcome" where
  "printchar ul_x ul_y color bcolor c g =
     glyph_rows 16 ul_x ul_y color (c - 0x20) (dots_rect 8 16 ul_x ul_y bcolor g)"

primrec printstr_from ::
  "nat \<Rightarrow> u32 \<Rightarrow> u32 \<Rightarrow> pix_format \<Rightarrow> pix_format \<Rightarrow> u8 list \<Rightarrow> 'z screen_scheme \<Rightarrow> 'z screen_scheme outcome" where
  "printstr_from i ul_x ul_y color bcolor [] g = Inr g"
| "printstr_from i ul_x ul_y color bcolor (c # cs) g =
     and_then (printchar (ul_x + of_nat i * 8) ul_y color bcolor c g) (\<lambda>g.
       printstr_from (i + 1) ul_x ul_y color bcolor cs g)"

definition printstr ::
  "u32 \<Rightarrow> u32 \<Rightarrow> pix_format \<Rightarrow> pix_format \<Rightarrow> u8 list \<Rightarrow> 'z screen_scheme \<Rightarrow> 'z screen_scheme outcome" where
  "printstr ul_x ul_y color bcolor s g = printstr_from 0 ul_x ul_y color bcolor s g"

definition num_nibble :: "u64 \<Rightarrow> u64 \<Rightarrow> u64" where
  "num_nibble num i =
     drop_bit (unat (i * 4))
       (and num (mypow 2 (0 + i * 4) + mypow 2 (1 + i * 4) + mypow 2 (2 + i * 4) + mypow 2 (3 + i * 4)))"

definition nibble_char :: "u64 \<Rightarrow> char option" where
  "nibble_char v =
     (if v = 0x0 then Some CHR ''0'' else if v = 0x1 then Some CHR ''1''
      else if v = 0x2 then Some CHR ''2'' else if v = 0x3 then Some CHR ''3''
      else if v = 0x4 then Some CHR ''4'' else if v = 0x5 then Some CHR ''5''
      else if v = 0x6 then Some CHR ''6'' else if v = 0x7 then Some CHR ''7''
      else if v = 0x8 then Some CHR ''8'' else if v = 0x9 then Some CHR ''9''
      else if v = 0xa then Some CHR ''a'' else if v = 0xb then Some CHR ''b''
      else if v = 0xc then Some CHR ''c'' else if v = 0xd then Some CHR ''d''
      else if v = 0xe then Some CHR ''e'' else if v = 0xf then Some CHR ''f''
      else None)"

text \<open>The loop that fills \<open>numchararr\<close>; the last branch prints a message on the way.\<close>

primrec printnum_fill ::
  "nat \<Rightarrow> u32 \<Rightarrow> u32 \<Rightarrow> pix_format \<Rightarrow> pix_format \<Rightarrow> u64 \<Rightarrow> u8 list \<times> 'z screen_scheme \<Rightarrow>
    (u8 list \<times> 'z screen_scheme) outcome" where
  "printnum_fill 0 ul_x ul_y color bcolor num bg = Inr bg"
| "printnum_fill (Suc i) ul_x ul_y color bcolor num bg =
     and_then (printnum_fill i ul_x ul_y color bcolor num bg) (\<lambda>(buf, g).
       case nibble_char (num_nibble num (of_nat i)) of
         Some c \<Rightarrow> Inr (buf[17 - i := of_char c], g)
       | None \<Rightarrow> and_then (printstr ul_x ul_y color bcolor (ascii ''Invalid token'') g) (\<lambda>g. Inr (buf, g)))"

definition printnum ::
  "u32 \<Rightarrow> u32 \<Rightarrow> pix_format \<Rightarrow> pix_format \<Rightarrow> u64 \<Rightarrow> 'z screen_scheme \<Rightarrow> 'z screen_scheme outcome" where
  "printnum ul_x ul_y color bcolor num g =
     and_then (printnum_fill 16 ul_x ul_y color bcolor num
         ((ascii ''0x'' @ replicate 17 0)[18 := 0], g)) (\<lambda>(buf, g).
       printstr ul_x ul_y color bcolor (takeWhile (\<lambda>c. c \<noteq> 0) buf) g)"

definition printstrnum ::
  "u32 \<Rightarrow> u32 \<Rightarrow> pix_format \<Rightarrow> pix_format \<Rightarrow> u8 list \<Rightarrow> u64 \<Rightarrow> 'z screen_scheme \<Rightarrow> 'z screen_scheme outcome" where
  "printstrnum ul_x ul_y color bcolor s num g =
     and_then (printstr ul_x ul_y color bcolor s g) (\<lambda>g.
       printnum (ul_x + of_nat (length s) * 8) ul_y color bcolor num g)"

section \<open>Drawing never leaves the frame buffer\<close>

text \<open>
  \<open>screen_ok\<close>: a line of the (physical) screen fits in the \<open>ppsl\<close> pixels of a scan line, and
  the frame buffer has less than \<open>2 ^ 32\<close> pixels.
\<close>

definition on_screen :: "'z screen_scheme \<Rightarrow> u32 \<Rightarrow> u32 \<Rightarrow> bool" where
  "on_screen g x y \<longleftrightarrow> x < x_axis g \<and> y < y_axis g"

definition scan_lines :: "'z screen_scheme \<Rightarrow> nat" where
  "scan_lines g = (if gpd g \<noteq> 0 then unat (x_axis g) else unat (y_axis g))"

definition line_width :: "'z screen_scheme \<Rightarrow> nat" where
  "line_width g = (if gpd g \<noteq> 0 then unat (y_axis g) else unat (x_axis g))"

definition screen_ok :: "'z screen_scheme \<Rightarrow> bool" where
  "screen_ok g \<longleftrightarrow> line_width g \<le> unat (ppsl g) \<and> unat (ppsl g) * scan_lines g \<le> 2 ^ 32"

definition pixel :: "'z screen_scheme \<Rightarrow> u32 \<Rightarrow> u32 \<Rightarrow> pix_format" where
  "pixel g x y = fb g (ucast (dot_index g x y))"

text \<open>Column and scan line of a dot.\<close>

definition dot_column :: "'z screen_scheme \<Rightarrow> u32 \<Rightarrow> u32 \<Rightarrow> nat" where
  "dot_column g x y = (if gpd g \<noteq> 0 then unat (y_axis g) - unat y - 1 else unat x)"

definition dot_line :: "'z screen_scheme \<Rightarrow> u32 \<Rightarrow> u32 \<Rightarrow> nat" where
  "dot_line g x y = (if gpd g \<noteq> 0 then unat x else unat y)"

lemma dot_in_range:
  assumes "screen_ok g" "on_screen g x y"
  shows "dot_column g x y < unat (ppsl g)" "dot_line g x y < scan_lines g"
    "dot_column g x y + dot_line g x y * unat (ppsl g) < unat (ppsl g) * scan_lines g"
proof -
  show c: "dot_column g x y < unat (ppsl g)" and l: "dot_line g x y < scan_lines g"
    using assms
    by (auto simp: screen_ok_def on_screen_def dot_column_def dot_line_def line_width_def
        scan_lines_def word_less_nat_alt split: if_splits)
  have "dot_column g x y + dot_line g x y * unat (ppsl g) < unat (ppsl g) * (dot_line g x y + 1)"
    using c by (simp add: algebra_simps)
  also have "\<dots> \<le> unat (ppsl g) * scan_lines g"
    using l by (intro mult_le_mono2) simp
  finally show "dot_column g x y + dot_line g x y * unat (ppsl g) < unat (ppsl g) * scan_lines g" .
qed

lemma unat_dot_index:
  assumes "screen_ok g" "on_screen g x y"
  shows "unat (dot_index g x y) = dot_column g x y + dot_line g x y * unat (ppsl g)"
proof -
  let ?c = "if gpd g \<noteq> 0 then y_axis g - y - 1 else x" and ?l = "if gpd g \<noteq> 0 then x else y"
  have c: "unat ?c = dot_column g x y"
    using assms(2) by (auto simp: dot_column_def on_screen_def word_less_nat_alt unat_sub_if')
  have l: "unat ?l = dot_line g x y" by (simp add: dot_line_def)
  have lim: "dot_column g x y + dot_line g x y * unat (ppsl g) < 2 ^ 32"
    using dot_in_range(3) [OF assms] assms(1) by (simp add: screen_ok_def)
  have m: "unat (?l * ppsl g) = dot_line g x y * unat (ppsl g)"
    using lim l by (simp add: unat_mult_lem [THEN iffD1])
  have "unat (?c + ?l * ppsl g) = unat ?c + unat (?l * ppsl g)"
    using lim unfolding c [symmetric] m [symmetric] by (intro unat_add_no_wrap) simp
  then show ?thesis unfolding c m by (simp add: dot_index_def Let_def)
qed

lemma dot_index_inject:
  assumes "screen_ok g" "on_screen g x y" "on_screen g x' y'"
  shows "dot_index g x y = dot_index g x' y' \<longleftrightarrow> x = x' \<and> y = y'"
proof
  assume "dot_index g x y = dot_index g x' y'"
  then have eq: "dot_column g x y + dot_line g x y * unat (ppsl g) =
      dot_column g x' y' + dot_line g x' y' * unat (ppsl g)"
    using unat_dot_index [OF assms(1,2)] unat_dot_index [OF assms(1,3)] by simp
  note c = dot_in_range(1) [OF assms(1,2)] dot_in_range(1) [OF assms(1,3)]
  have "dot_line g x y = dot_line g x' y'"
    using arg_cong [OF eq, of "\<lambda>i. i div unat (ppsl g)"] c by simp
  moreover from this eq have "dot_column g x y = dot_column g x' y'" by simp
  ultimately show "x = x' \<and> y = y'"
    using assms(2,3)
    by (auto simp: dot_column_def dot_line_def on_screen_def word_less_nat_alt word_unat_eq_iff split: if_splits)
qed simp

lemma unat_ucast_32_64: "unat (ucast (a :: u32) :: u64) = unat a"
  using unsigned_less [of a, where ?'a = nat] by (simp add: unsigned_ucast_eq take_bit_nat_eq_self)

lemma ucast_32_64_inject: "ucast (a :: u32) = (ucast b :: u64) \<longleftrightarrow> a = b"
  by (metis unat_ucast_32_64 word_unat_eq_iff)

section \<open>What drawing does to the pixels\<close>

text \<open>Drawing changes pixels only, and only pixels inside the scan lines of the screen.\<close>

definition fb_step :: "'z screen_scheme \<Rightarrow> 'z screen_scheme \<Rightarrow> bool" where
  "fb_step g g' \<longleftrightarrow> g' = g\<lparr>fb := fb g'\<rparr> \<and>
     (screen_ok g \<longrightarrow> (\<forall>i. unat (ppsl g) * scan_lines g \<le> unat i \<longrightarrow> fb g' i = fb g i))"

lemma fb_step_refl: "fb_step g g"
  by (simp add: fb_step_def)

lemma fb_step_iff: "fb_step g g' \<longleftrightarrow> (\<exists>f. g' = g\<lparr>fb := f\<rparr> \<and>
    (screen_ok g \<longrightarrow> (\<forall>i. unat (ppsl g) * scan_lines g \<le> unat i \<longrightarrow> f i = fb g i)))"
  by (auto simp: fb_step_def)

lemma fb_geometry [simp]:
  "screen_ok (g\<lparr>fb := f\<rparr>) = screen_ok g" "scan_lines (g\<lparr>fb := f\<rparr>) = scan_lines g"
  by (simp_all add: screen_ok_def scan_lines_def line_width_def)

lemma fb_step_trans: "fb_step g g' \<Longrightarrow> fb_step g' g'' \<Longrightarrow> fb_step g g''"
  by (auto simp: fb_step_iff)

lemma fb_step_fields:
  assumes "fb_step g g'"
  shows "x_axis g' = x_axis g" "y_axis g' = y_axis g" "ppsl g' = ppsl g" "gpd g' = gpd g"
    "fb_size g' = fb_size g" "screen.more g' = screen.more g" "int_flag g' = int_flag g"
    "port_out g' = port_out g" "hdr g' = hdr g"
proof -
  obtain f where "g' = g\<lparr>fb := f\<rparr>" using assms unfolding fb_step_def by blast
  then show "x_axis g' = x_axis g" "y_axis g' = y_axis g" "ppsl g' = ppsl g" "gpd g' = gpd g"
    "fb_size g' = fb_size g" "screen.more g' = screen.more g" "int_flag g' = int_flag g"
    "port_out g' = port_out g" "hdr g' = hdr g" by simp_all
qed

lemma fb_step_geometry:
  assumes "fb_step g g'"
  shows "on_screen g' x y = on_screen g x y" "screen_ok g' = screen_ok g"
    "dot_index g' x y = dot_index g x y" "scan_lines g' = scan_lines g"
  using fb_step_fields [OF assms]
  by (simp_all add: on_screen_def screen_ok_def line_width_def scan_lines_def dot_index_def)

lemma draw_dot_step: "fb_step g (draw_dot x y color g)"
proof (cases "on_screen g x y")
  case True
  have "i \<noteq> ucast (dot_index g x y)"
    if "screen_ok g" "unat (ppsl g) * scan_lines g \<le> unat i" for i :: u64
  proof -
    have "unat (ucast (dot_index g x y) :: u64) < unat i"
      using dot_in_range(3) [OF that(1) True] unat_dot_index [OF that(1) True] that(2)
      by (simp add: unat_ucast_32_64)
    then show ?thesis by blast
  qed
  with True show ?thesis by (auto simp: fb_step_def draw_dot_def on_screen_def)
next
  case False
  then show ?thesis by (auto simp: draw_dot_def on_screen_def intro: fb_step_refl)
qed

lemma draw_if_step: "fb_step g (draw_if c x y color g)"
  by (simp add: draw_if_def draw_dot_step fb_step_refl)

lemma dots_row_step: "fb_step g (dots_row w ul_x y color g)"
  by (induction w) (auto intro: fb_step_refl fb_step_trans draw_dot_step)

lemma dots_rect_step: "fb_step g (dots_rect w h ul_x ul_y color g)"
  by (induction h) (auto intro: fb_step_refl fb_step_trans dots_row_step)

lemma glyph_row_step: "fb_step g (glyph_row d ul_x y color g)"
  unfolding glyph_row_def Let_def by (intro fb_step_trans [OF _ draw_if_step] fb_step_refl)

lemma fb_step_outside:
  "fb_step g g' \<Longrightarrow> screen_ok g \<Longrightarrow> unat (ppsl g) * scan_lines g \<le> unat i \<Longrightarrow> fb g' i = fb g i"
  by (simp add: fb_step_def)

lemma dot_index_fb [simp]: "dot_index (g\<lparr>fb := f\<rparr>) x y = dot_index g x y"
  by (simp add: dot_index_def)

lemma pixel_fb: "pixel (g\<lparr>fb := f\<rparr>) x y = f (ucast (dot_index g x y))"
  by (simp add: pixel_def)

lemma draw_dot_pixel:
  assumes "screen_ok g" "on_screen g a b"
  shows "pixel (draw_dot x y color g) a b = (if a = x \<and> b = y then color else pixel g a b)"
proof (cases "on_screen g x y")
  case True
  then have "draw_dot x y color g = g\<lparr>fb := (fb g)(ucast (dot_index g x y) := color)\<rparr>"
    by (simp add: draw_dot_def on_screen_def)
  then show ?thesis
    using dot_index_inject [OF assms True] by (simp add: pixel_fb ucast_32_64_inject) (simp add: pixel_def)
next
  case False
  then have "draw_dot x y color g = g" by (auto simp: draw_dot_def on_screen_def)
  with False assms(2) show ?thesis by auto
qed

lemma word_in_span:
  fixes a b :: u32
  assumes "k < 2 ^ 32"
  shows "b = a + of_nat k \<longleftrightarrow> unat (b - a) = k"
proof
  assume "b = a + of_nat k"
  then show "unat (b - a) = k" using assms by (simp add: unat_of_nat take_bit_nat_eq_self)
next
  assume "unat (b - a) = k"
  then have "b - a = of_nat k" using assms
    by (simp add: word_unat_eq_iff unat_of_nat take_bit_nat_eq_self)
  then show "b = a + of_nat k" by (simp add: algebra_simps)
qed

lemma dots_row_pixel:
  assumes "screen_ok g" "on_screen g a b" "w \<le> 2 ^ 32"
  shows "pixel (dots_row w ul_x y color g) a b =
    (if b = y \<and> unat (a - ul_x) < w then color else pixel g a b)"
  using assms(3)
proof (induction w)
  case 0
  then show ?case by simp
next
  case (Suc w)
  note geo = fb_step_geometry [OF dots_row_step [of g w ul_x y color]]
  show ?case
    using Suc assms(1,2) word_in_span [of w a ul_x]
    by (auto simp: draw_dot_pixel geo less_Suc_eq)
qed

lemma dots_rect_pixel:
  assumes "screen_ok g" "on_screen g a b" "w \<le> 2 ^ 32" "h \<le> 2 ^ 32"
  shows "pixel (dots_rect w h ul_x ul_y color g) a b =
    (if unat (a - ul_x) < w \<and> unat (b - ul_y) < h then color else pixel g a b)"
  using assms(4)
proof (induction h)
  case 0
  then show ?case by simp
next
  case (Suc h)
  note geo = fb_step_geometry [OF dots_rect_step [of g w h ul_x ul_y color]]
  show ?case
    using Suc assms(1-3) word_in_span [of h b ul_y]
    by (auto simp: dots_row_pixel geo less_Suc_eq)
qed

text \<open>A fact about pixels that one drawing step keeps.\<close>

lemma draw_if_pixel:
  assumes "screen_ok g" "on_screen g a b"
  shows "pixel (draw_if c x y color g) a b = (if c \<and> a = x \<and> b = y then color else pixel g a b)"
  by (cases c) (simp_all add: draw_if_def draw_dot_pixel [OF assms])

lemmas draw_if_geometry = fb_step_geometry [OF draw_if_step]

lemma row_masks:
  fixes d :: u8
  shows "and d 0x80 = 0 \<longleftrightarrow> \<not> bit d 7" "and d 0x40 = 0 \<longleftrightarrow> \<not> bit d 6" "and d 0x20 = 0 \<longleftrightarrow> \<not> bit d 5"
    "and d 0x10 = 0 \<longleftrightarrow> \<not> bit d 4" "and d 0x08 = 0 \<longleftrightarrow> \<not> bit d 3" "and d 0x04 = 0 \<longleftrightarrow> \<not> bit d 2"
    "and d 0x02 = 0 \<longleftrightarrow> \<not> bit d 1" "and d 0x01 = 0 \<longleftrightarrow> \<not> bit d 0"
  using and_exp_eq_0_iff_not_bit [of d 7] and_exp_eq_0_iff_not_bit [of d 6]
    and_exp_eq_0_iff_not_bit [of d 5] and_exp_eq_0_iff_not_bit [of d 4]
    and_exp_eq_0_iff_not_bit [of d 3] and_exp_eq_0_iff_not_bit [of d 2]
    and_exp_eq_0_iff_not_bit [of d 1] and_exp_eq_0_iff_not_bit [of d 0] by simp_all

lemma glyph_row_pixel:
  assumes "screen_ok g" "on_screen g a b"
  shows "pixel (glyph_row d ul_x y color g) a b =
    (if b = y \<and> unat (a - ul_x) < 8 \<and> bit d (7 - unat (a - ul_x)) then color else pixel g a b)"
proof -
  define k where "k = unat (a - ul_x)"
  have span: "a = ul_x + of_nat j \<longleftrightarrow> k = j" if "j < 8" for j
    using word_in_span [of j a ul_x] that by (simp add: k_def)
  note at = span [of 0] span [of 1] span [of 2] span [of 3] span [of 4] span [of 5] span [of 6] span [of 7]
  have px: "pixel (glyph_row d ul_x y color g) a b =
    (if and d 0x01 \<noteq> 0 \<and> a = ul_x + 7 \<and> b = y then color else
     if and d 0x02 \<noteq> 0 \<and> a = ul_x + 6 \<and> b = y then color else
     if and d 0x04 \<noteq> 0 \<and> a = ul_x + 5 \<and> b = y then color else
     if and d 0x08 \<noteq> 0 \<and> a = ul_x + 4 \<and> b = y then color else
     if and d 0x10 \<noteq> 0 \<and> a = ul_x + 3 \<and> b = y then color else
     if and d 0x20 \<noteq> 0 \<and> a = ul_x + 2 \<and> b = y then color else
     if and d 0x40 \<noteq> 0 \<and> a = ul_x + 1 \<and> b = y then color else
     if and d 0x80 \<noteq> 0 \<and> a = ul_x + 0 \<and> b = y then color else pixel g a b)"
    by (simp only: glyph_row_def Let_def draw_if_pixel draw_if_geometry assms)
  have "k = 0 \<or> k = 1 \<or> k = 2 \<or> k = 3 \<or> k = 4 \<or> k = 5 \<or> k = 6 \<or> k = 7 \<or> 8 \<le> k" by presburger
  then show ?thesis
    unfolding px k_def [symmetric] row_masks using at by (elim disjE) simp_all
qed

lemma glyph_rows_spec:
  assumes ok: "screen_ok g" and k: "k < 95" "sint c_num = int k" and n: "n \<le> 16"
  shows "\<exists>g'. glyph_rows n ul_x ul_y color c_num g = Inr g' \<and> fb_step g g' \<and>
    (\<forall>a b. on_screen g a b \<longrightarrow> pixel g' a b =
      (if unat (b - ul_y) < n \<and> unat (a - ul_x) < 8 \<and> bit (glyph k ! unat (b - ul_y)) (7 - unat (a - ul_x))
       then color else pixel g a b))"
  using n
proof (induction n)
  case 0
  then show ?case by (simp add: fb_step_refl)
next
  case (Suc n)
  then obtain g1 where g1: "glyph_rows n ul_x ul_y color c_num g = Inr g1" "fb_step g g1"
    and px: "\<And>a b. on_screen g a b \<Longrightarrow> pixel g1 a b =
      (if unat (b - ul_y) < n \<and> unat (a - ul_x) < 8 \<and> bit (glyph k ! unat (b - ul_y)) (7 - unat (a - ul_x))
       then color else pixel g a b)" by auto
  have "sint c_num * 16 + int n = int (16 * k + n)" using k(2) by simp
  then have "array_get fonts (sint c_num * 16 + int n) = Inr (glyph k ! n)"
    using array_get_nat [of "16 * k + n" fonts] k(1) Suc.prems by (simp add: length_fonts glyph_nth mult.commute)
  then have rows: "glyph_rows (Suc n) ul_x ul_y color c_num g =
      Inr (glyph_row (glyph k ! n) ul_x (ul_y + of_nat n) color g1)"
    using g1(1) by simp
  note geo = fb_step_geometry [OF g1(2)]
  have "pixel (glyph_row (glyph k ! n) ul_x (ul_y + of_nat n) color g1) a b =
      (if unat (b - ul_y) < Suc n \<and> unat (a - ul_x) < 8 \<and>
          bit (glyph k ! unat (b - ul_y)) (7 - unat (a - ul_x)) then color else pixel g a b)"
    if "on_screen g a b" for a b
    using glyph_row_pixel [of g1 a b] px [OF that] that ok geo Suc.prems word_in_span [of n b ul_y]
    by (auto simp: less_Suc_eq)
  then show ?case
    using rows fb_step_trans [OF g1(2) glyph_row_step] by auto
qed

section \<open>Characters, strings and numbers\<close>

lemma sint_small: "unat (w :: u8) < 128 \<Longrightarrow> sint w = int (unat w)"
proof -
  assume "unat w < 128"
  moreover have "signed_take_bit 7 (int m) = int m" if "m < 128" for m
    using that by (intro signed_take_bit_int_eq_self) simp_all
  ultimately have "signed_take_bit 7 (int (unat w)) = int (unat w)" by blast
  then show ?thesis by (simp add: sint_uint)
qed

lemma sint_large: "128 \<le> unat (w :: u8) \<Longrightarrow> sint w < 0"
proof -
  assume ge: "128 \<le> unat w"
  have "unat w < 256" using unsigned_less [of w, where ?'a = nat] by simp
  with ge have "unat w div 128 = 1" by simp
  then have "bit (unat w) 7" by (simp add: bit_iff_odd)
  then have "bit (int (unat w)) 7" by (simp only: bit_of_nat_iff) simp
  then show ?thesis by (simp add: sint_uint signed_take_bit_negative_iff)
qed

definition printable :: "u8 \<Rightarrow> bool" where
  "printable c \<longleftrightarrow> 0x20 \<le> c \<and> c \<le> 0x7e"

lemma printable_index:
  assumes "printable c"
  shows "unat c - 32 < 95" "sint (c - 0x20) = int (unat c - 32)"
proof -
  have c: "32 \<le> unat c" "unat c \<le> 126" using assms by (simp_all add: printable_def word_le_nat_alt)
  then show "unat c - 32 < 95" by simp
  have "unat (c - 0x20) = unat c - 32" using c by (simp add: unat_sub_if')
  then show "sint (c - 0x20) = int (unat c - 32)" using c sint_small [of "c - 0x20"] by simp
qed

lemma printchar_spec:
  assumes "screen_ok g" "printable c"
  shows "\<exists>g'. printchar ul_x ul_y color bcolor c g = Inr g' \<and> fb_step g g' \<and>
    (\<forall>a b. on_screen g a b \<longrightarrow> pixel g' a b =
      (if unat (a - ul_x) < 8 \<and> unat (b - ul_y) < 16 then
         if bit (glyph (unat c - 32) ! unat (b - ul_y)) (7 - unat (a - ul_x)) then color else bcolor
       else pixel g a b))"
proof -
  let ?r = "dots_rect 8 16 ul_x ul_y bcolor g"
  note geo = fb_step_geometry [OF dots_rect_step [of g 8 16 ul_x ul_y bcolor]]
  have "screen_ok ?r" using assms(1) geo by simp
  from glyph_rows_spec [OF this printable_index [OF assms(2)], of 16 ul_x ul_y color]
  obtain g' where g': "printchar ul_x ul_y color bcolor c g = Inr g'" "fb_step ?r g'"
    and px: "\<And>a b. on_screen g a b \<Longrightarrow> pixel g' a b =
      (if unat (b - ul_y) < 16 \<and> unat (a - ul_x) < 8 \<and>
          bit (glyph (unat c - 32) ! unat (b - ul_y)) (7 - unat (a - ul_x)) then color else pixel ?r a b)"
    by (auto simp: printchar_def geo)
  have "fb_step g g'" using fb_step_trans [OF dots_rect_step g'(2)] .
  with g'(1) px assms(1) show ?thesis by (auto simp: dots_rect_pixel)
qed

lemma glyph_rows_returns:
  "k < 95 \<Longrightarrow> sint c_num = int k \<Longrightarrow> n \<le> 16 \<Longrightarrow>
     \<exists>g'. glyph_rows n ul_x ul_y color c_num g = Inr g' \<and> fb_step g g'"
proof (induction n)
  case 0
  then show ?case by (simp add: fb_step_refl)
next
  case (Suc n)
  then obtain g1 where "glyph_rows n ul_x ul_y color c_num g = Inr g1" "fb_step g g1" by auto
  moreover have "array_get fonts (sint c_num * 16 + int n) = Inr (fonts ! (k * 16 + n))"
    using array_get_nat [of "k * 16 + n" fonts] Suc.prems by (simp add: length_fonts)
  ultimately show ?case using fb_step_trans [OF _ glyph_row_step] by fastforce
qed

lemma printchar_returns:
  "printable c \<Longrightarrow> \<exists>g'. printchar ul_x ul_y color bcolor c g = Inr g' \<and> fb_step g g'"
  using glyph_rows_returns [OF printable_index, of c 16 ul_x ul_y color "dots_rect 8 16 ul_x ul_y bcolor g"]
    fb_step_trans [OF dots_rect_step]
  by (auto simp: printchar_def)

lemma printstr_from_returns:
  "(\<forall>c\<in>set cs. printable c) \<Longrightarrow>
     \<exists>g'. printstr_from i ul_x ul_y color bcolor cs g = Inr g' \<and> fb_step g g'"
proof (induction cs arbitrary: i g)
  case Nil
  then show ?case by (simp add: fb_step_refl)
next
  case (Cons c cs)
  have "printable c" using Cons.prems by simp
  from printchar_returns [OF this] obtain g1
    where g1: "printchar (ul_x + of_nat i * 8) ul_y color bcolor c g = Inr g1" "fb_step g g1" by blast
  obtain g2 where "printstr_from (i + 1) ul_x ul_y color bcolor cs g1 = Inr g2" "fb_step g1 g2"
    using Cons.IH [of "i + 1" g1] Cons.prems by auto
  with g1 fb_step_trans show ?case by auto
qed

lemma printchar_faults:
  assumes "\<not> printable c"
  shows "printchar ul_x ul_y color bcolor c g = Inl Out_of_bounds"
proof -
  have "95 \<le> unat (c - 0x20)"
    using assms by (auto simp: printable_def word_le_nat_alt unat_sub_if')
  then have "sint (c - 0x20) < 0 \<or> 95 \<le> sint (c - 0x20)"
    using sint_small [of "c - 0x20"] sint_large [of "c - 0x20"] by linarith
  then have fault: "array_get fonts (sint (c - 0x20) * 16 + int 0) = Inl Out_of_bounds"
    by (auto simp: array_get_def length_fonts)
  have "glyph_rows (Suc n) ul_x ul_y color (c - 0x20) h = Inl Out_of_bounds" for n h
    by (induction n) (use fault in simp_all)
  from this [of 15] show ?thesis by (simp add: printchar_def)
qed

lemma printchar_Inr_iff:
  "(\<exists>g'. printchar ul_x ul_y color bcolor c g = Inr g') \<longleftrightarrow> printable c"
  using printchar_returns [of c ul_x ul_y color bcolor g] printchar_faults [of c ul_x ul_y color bcolor g]
  by (cases "printable c") auto

lemma nibble_mask:
  "drop_bit m (and (n :: u64) (push_bit m 15)) = and (drop_bit m n) 15" if "m + 4 \<le> 64"
proof (rule bit_word_eqI)
  fix j assume "j < LENGTH(64)"
  have "bit (15 :: u64) j \<longleftrightarrow> j < 4" using bit_mask_iff [of 4 j, where ?'a = u64] by (auto simp: mask_eq_exp_minus_1)
  then show "bit (drop_bit m (and n (push_bit m 15))) j \<longleftrightarrow> bit (and (drop_bit m n) 15) j"
    using that by (auto simp: bit_simps)
qed

lemma num_nibble_eq:
  assumes "i < 16"
  shows "num_nibble num (of_nat i) = and (drop_bit (4 * i) num) 15"
proof -
  have u: "unat (of_nat i * 4 :: u64) = 4 * i" "unat (0 + of_nat i * 4 :: u64) = 4 * i"
    "unat (1 + of_nat i * 4 :: u64) = 4 * i + 1" "unat (2 + of_nat i * 4 :: u64) = 4 * i + 2"
    "unat (3 + of_nat i * 4 :: u64) = 4 * i + 3"
    using assms by (simp_all add: unat_word_ariths unat_of_nat take_bit_nat_eq_self)
  have "mypow 2 (0 + of_nat i * 4) + mypow 2 (1 + of_nat i * 4) + mypow 2 (2 + of_nat i * 4) +
      mypow 2 (3 + of_nat i * 4) = (push_bit (4 * i) 15 :: u64)"
    by (simp only: mypow_power u push_bit_eq_mult power_add) (simp add: algebra_simps)
  then show ?thesis
    using nibble_mask [of "4 * i" num] assms by (simp only: num_nibble_def u)
qed

lemma nibble_char_hex:
  "unat v < 16 \<Longrightarrow> \<exists>c. nibble_char v = Some c \<and> of_char c = ascii ''0123456789abcdef'' ! unat v"
proof -
  assume "unat v < 16"
  from below_16 [OF this] have "unat v \<in> {0, 1, 2, 3, 4, 5, 6, 7, 8, 9, 10, 11, 12, 13, 14, 15}" .
  then have "v \<in> {0, 1, 2, 3, 4, 5, 6, 7, 8, 9, 10, 11, 12, 13, 14, 15}"
    by (auto simp: word_unat_eq_iff)
  then show ?thesis by (auto simp: nibble_char_def ascii_def)
qed

lemma printnum_fill_eq:
  assumes "length buf = 19" "n \<le> 16"
  shows "\<exists>buf'. printnum_fill n ul_x ul_y color bcolor num (buf, g) = Inr (buf', g) \<and> length buf' = 19 \<and>
    (\<forall>j<19. buf' ! j = (if 18 - n \<le> j \<and> j \<le> 17 then hex_digit num (17 - j) else buf ! j))"
  using assms(2)
proof (induction n)
  case 0
  then show ?case using assms(1) by auto
next
  case (Suc n)
  then obtain b1 where b1: "printnum_fill n ul_x ul_y color bcolor num (buf, g) = Inr (b1, g)"
      "length b1 = 19"
    and d1: "\<And>j. j < 19 \<Longrightarrow> b1 ! j = (if 18 - n \<le> j \<and> j \<le> 17 then hex_digit num (17 - j) else buf ! j)"
    by auto
  have nib: "num_nibble num (of_nat n) = and (drop_bit (4 * n) num) 15"
    using Suc.prems by (intro num_nibble_eq) simp
  have "unat (num_nibble num (of_nat n)) < 16" unfolding nib by (simp add: unat_nibble)
  from nibble_char_hex [OF this] obtain c where c: "nibble_char (num_nibble num (of_nat n)) = Some c"
      "of_char c = hex_digit num n" by (auto simp: nib hex_digit_def)
  have "b1[17 - n := hex_digit num n] ! j =
      (if 18 - Suc n \<le> j \<and> j \<le> 17 then hex_digit num (17 - j) else buf ! j)" if "j < 19" for j
    using d1 [OF that] Suc.prems b1(2) that by (cases "j = 17 - n") auto
  then show ?case using b1 c by simp
qed

lemma printnum_hex: "printnum ul_x ul_y color bcolor num g = printstr ul_x ul_y color bcolor (hex_bytes num) g"
proof -
  let ?buf = "(ascii ''0x'' @ replicate 17 0)[18 := 0]"
  have len: "length ?buf = 19" by (simp add: ascii_def)
  obtain buf' where b: "printnum_fill 16 ul_x ul_y color bcolor num (?buf, g) = Inr (buf', g)" "length buf' = 19"
    and d: "\<forall>j<19. buf' ! j = (if 18 - 16 \<le> j \<and> j \<le> 17 then hex_digit num (17 - j) else ?buf ! j)"
    using printnum_fill_eq [OF len le_refl] by blast
  have "buf' = putn_buf num"
  proof (rule nth_equalityI)
    fix j assume "j < length buf'"
    then show "buf' ! j = putn_buf num ! j"
      using d [rule_format, of j] b(2) putn_digits_nth [OF _ len, of 16 num j] by (auto simp: putn_buf_def)
  qed (use b(2) in \<open>simp add: putn_buf_def ascii_def\<close>)
  moreover have "0 \<notin> set (hex_bytes num)"
  proof -
    have "0 \<noteq> hex_digit num i" for i using hex_digit_value(2) [of num i] by simp
    then show ?thesis by (auto simp: hex_bytes_def ascii_def)
  qed
  then have "takeWhile (\<lambda>c. c \<noteq> 0) (hex_bytes num @ [0]) = hex_bytes num"
    by (subst takeWhile_append2) auto
  ultimately show ?thesis using b(1) by (simp add: printnum_def putn_buf_eq)
qed

section \<open>The background\<close>

lemma paint_upto_eq:
  "n \<le> 2 ^ 64 \<Longrightarrow> fb (paint_upto n color g) i = (if unat i < n then color else fb g i)"
proof (induction n)
  case 0
  then show ?case by simp
next
  case (Suc n)
  then have "i = of_nat n \<longleftrightarrow> unat i = n" using word_add_of_nat_eq_iff [of n i 0] by simp
  with Suc show ?case by (auto simp: Let_def less_Suc_eq)
qed

section \<open>Different characters look different\<close>

fun rows16 :: "'a list \<Rightarrow> 'a list list" where
  "rows16 (a0 # a1 # a2 # a3 # a4 # a5 # a6 # a7 # a8 # a9 # a10 # a11 # a12 # a13 # a14 # a15 # xs) =
    [a0, a1, a2, a3, a4, a5, a6, a7, a8, a9, a10, a11, a12, a13, a14, a15] # rows16 xs"
| "rows16 xs = []"

lemma rows16_nth: "16 * k + 16 \<le> length xs \<Longrightarrow> rows16 xs ! k = take 16 (drop (16 * k) xs) \<and> k < length (rows16 xs)"
proof (induction xs arbitrary: k rule: rows16.induct)
  case 1
  then show ?case by (cases k) (simp_all add: eval_nat_numeral)
qed simp_all

definition glyph_key :: "u8 list \<Rightarrow> nat" where
  "glyph_key rows = foldr (\<lambda>r k. unat r + 256 * k) rows 0"

lemma distinct_glyph_keys: "distinct (map glyph_key (rows16 fonts))"
  by (simp add: fonts_defs glyph_key_def)

lemma glyph_inject:
  assumes "k < 95" "l < 95" "glyph k = glyph l"
  shows "k = l"
proof -
  have "16 * i + 16 \<le> length fonts" if "i < 95" for i using that by (simp add: length_fonts)
  then have "rows16 fonts ! i = glyph i \<and> i < length (rows16 fonts)" if "i < 95" for i
    using rows16_nth [of i fonts] that by (simp add: glyph_def)
  from this [OF assms(1)] this [OF assms(2)] show ?thesis
    using assms(3) nth_eq_iff_index_eq [of "rows16 fonts" k l] distinct_glyph_keys
    by (simp add: distinct_map)
qed

lemma glyphs_differ:
  assumes "k < 95" "l < 95" "k \<noteq> l"
  obtains i j where "i < 16" "j < 8" "bit (glyph k ! i) j \<noteq> bit (glyph l ! i) j"
proof -
  have "glyph k \<noteq> glyph l" using glyph_inject [OF assms(1,2)] assms(3) by blast
  then obtain i where i: "i < 16" "glyph k ! i \<noteq> glyph l ! i"
    using nth_equalityI [of "glyph k" "glyph l"] assms by (auto simp: length_glyph)
  then obtain j where "j < 8" "bit (glyph k ! i) j \<noteq> bit (glyph l ! i) j"
    by (auto simp: bit_eq_iff dest: bit_imp_le_length)
  with i that show ?thesis by blast
qed

section \<open>A concrete screen\<close>

text \<open>640 by 480 with 640 pixels per scan line, and the GPD MicroPC's sideways screen.\<close>

definition blank_screen :: screen where
  "blank_screen = \<lparr>int_flag = False, port_out = [], comport = 0x3f8, bytes = \<lambda>_. 0, gdtr = (0, 0), idtr = (0, 0),
     seg_cs = 0, seg_data = 0, cr3 = 0,
     hdr = \<lambda>_. \<lparr>hnext = 0, hsize = 0\<rparr>, base_at = 0x100000, kheap = 0, freep = 0x100000,
     fb = \<lambda>_. pix_black, fb_size = 0, x_axis = 0, y_axis = 0, ppsl = 0, gpd = 0\<rparr>"

definition screen0 :: screen where
  "screen0 = init_graphics \<lparr>vi_fb_size = 1228800, vi_x_axis = 640, vi_y_axis = 480, vi_ppsl = 640\<rparr> blank_screen"

definition screen_gpd :: screen where
  "screen_gpd = init_graphics \<lparr>vi_fb_size = 3686400, vi_x_axis = 720, vi_y_axis = 1280, vi_ppsl = 720\<rparr> blank_screen"

lemma screen0_fields:
  "x_axis screen0 = 640" "y_axis screen0 = 480" "ppsl screen0 = 640" "gpd screen0 = 0"
  "fb_size screen0 = 1228800" "fb screen0 = (\<lambda>_. pix_black)"
  by (simp_all add: screen0_def init_graphics_def blank_screen_def)

lemma screen0_ok: "screen_ok screen0" "screen_ok screen_gpd"
  by (simp_all add: screen_ok_def line_width_def scan_lines_def screen0_fields)
    (simp_all add: screen_gpd_def init_graphics_def blank_screen_def)

section \<open>Properties\<close>

text \<open>
  C36. Printing a string of printable characters at any position, also partly or wholly off the
  screen, returns and writes nothing outside the scan lines of the frame buffer, on an upright
  and on a sideways screen; the heap and the ports are untouched.
\<close>

theorem printstr_in_frame:
  assumes "screen_ok g" "\<forall>c\<in>set cs. printable c"
  shows "\<exists>g'. printstr ul_x ul_y color bcolor cs g = Inr g' \<and> hdr g' = hdr g \<and> port_out g' = port_out g \<and>
    {i. fb g' i \<noteq> fb g i} \<subseteq> {i. unat i < unat (ppsl g) * scan_lines g}"
proof -
  obtain g' where "printstr ul_x ul_y color bcolor cs g = Inr g'" "fb_step g g'"
    using printstr_from_returns [OF assms(2)] unfolding printstr_def by blast
  then show ?thesis
    using fb_step_outside [of g g'] assms(1) fb_step_fields [of g g'] by (force simp: not_less)
qed

theorem printstr_in_frame_witness:
  "\<exists>g'. printstr 1270 5 pix_white pix_black (ascii ''ok'') screen_gpd = Inr g' \<and>
    {i. fb g' i \<noteq> fb screen_gpd i} \<subseteq> {i. unat i < unat (ppsl screen_gpd) * scan_lines screen_gpd}"
proof -
  have "\<forall>c\<in>set (ascii ''ok''). printable c" by (simp add: ascii_def printable_def)
  from printstr_in_frame [OF screen0_ok(2) this] show ?thesis by blast
qed

text \<open>
  C4. After \<open>printchar\<close> every pixel of the visible screen is what the font says: inside the
  8x16 cell \<open>color\<close> where the bit of the character's row is set and \<open>bcolor\<close> where it is not,
  outside the cell what it was.
\<close>

theorem printchar_pixels:
  assumes "screen_ok g" "printable c" "printchar ul_x ul_y color bcolor c g = Inr g'" "on_screen g a b"
  shows "pixel g' a b =
    (if unat (a - ul_x) < 8 \<and> unat (b - ul_y) < 16 then
       if bit (fonts ! (16 * (unat c - 32) + unat (b - ul_y))) (7 - unat (a - ul_x)) then color else bcolor
     else pixel g a b)"
  using printchar_spec [OF assms(1,2), of ul_x ul_y color bcolor] assms(3,4)
    printable_index(1) [OF assms(2)] by (auto simp: glyph_nth)

theorem printchar_pixels_witness:
  "\<exists>g'. printchar 8 16 pix_white pix_blue 0x21 screen0 = Inr g' \<and>
    pixel g' 11 17 = pix_white \<and> pixel g' 8 17 = pix_blue"
proof -
  have p: "printable 0x21" by (simp add: printable_def)
  obtain g' where g': "printchar 8 16 pix_white pix_blue 0x21 screen0 = Inr g'"
    using printchar_returns [OF p] by blast
  have on: "on_screen screen0 11 17" "on_screen screen0 8 17"
    by (simp_all add: on_screen_def screen0_fields)
  show ?thesis
    using g' printchar_pixels [OF screen0_ok(1) p g' on(1)] printchar_pixels [OF screen0_ok(1) p g' on(2)]
    by (simp add: fonts_defs bit_numeral_rec bit_iff_odd_drop_bit)
qed

text \<open>
  \<open>printchar\<close> reads the font array within its bounds exactly for the codes 0x20 to 0x7e; for
  any other byte (a newline, for instance, or a byte of a UTF-8 sequence) it reads outside.
\<close>

theorem printchar_defined_iff:
  "(\<exists>g'. printchar ul_x ul_y color bcolor c g = Inr g') \<longleftrightarrow> 0x20 \<le> c \<and> c \<le> 0x7e"
  using printchar_Inr_iff by (simp add: printable_def)

text \<open>
  \<open>printnum\<close> prints the text that \<open>putn_serial\<close> sends for the same number: its masks built
  with \<open>mypow\<close> select the digits, and its \<open>Invalid token\<close> branch is never taken.
\<close>

theorem printnum_like_putn:
  "printnum ul_x ul_y color bcolor num g =
     printstr ul_x ul_y color bcolor (takeWhile (\<lambda>c. c \<noteq> 0) (putn_buf num)) g"
proof -
  have "0 \<noteq> hex_digit num i" for i using hex_digit_value(2) [of num i] by simp
  then have "0 \<notin> set (hex_bytes num)" by (auto simp: hex_bytes_def ascii_def)
  then have "takeWhile (\<lambda>c. c \<noteq> 0) (putn_buf num) = hex_bytes num"
    unfolding putn_buf_eq by (subst takeWhile_append2) auto
  then show ?thesis by (simp add: printnum_hex)
qed

text \<open>
  Two different printable characters printed in the same cell of the screen, in a colour
  that differs from the background, leave different pictures.
\<close>

theorem characters_legible:
  assumes "screen_ok g" "printable c" "printable d" "c \<noteq> d" "color \<noteq> bcolor"
    and "unat ul_x + 8 \<le> unat (x_axis g)" "unat ul_y + 16 \<le> unat (y_axis g)"
    and "printchar ul_x ul_y color bcolor c g = Inr gc" "printchar ul_x ul_y color bcolor d g = Inr gd"
  shows "\<exists>a b. on_screen g a b \<and> pixel gc a b \<noteq> pixel gd a b"
proof -
  have "unat c - 32 \<noteq> unat d - 32"
    using assms(2-4) by (auto simp: printable_def word_le_nat_alt word_unat_eq_iff)
  then obtain i j where ij: "i < 16" "j < 8"
    "bit (glyph (unat c - 32) ! i) j \<noteq> bit (glyph (unat d - 32) ! i) j"
    using glyphs_differ printable_index(1) [OF assms(2)] printable_index(1) [OF assms(3)] by metis
  define a b where "a = ul_x + of_nat (7 - j)" and "b = ul_y + of_nat i"
  have sp: "unat (a - ul_x) = 7 - j" "unat (b - ul_y) = i"
    using ij(1) by (simp_all add: a_def b_def unat_of_nat take_bit_nat_eq_self)
  have "unat ul_x + (7 - j) < 2 ^ 32" "unat ul_y + i < 2 ^ 32"
    using assms(6,7) unsigned_less [of "x_axis g", where ?'a = nat]
      unsigned_less [of "y_axis g", where ?'a = nat] ij(1) by simp_all
  then have "unat a = unat ul_x + (7 - j)" "unat b = unat ul_y + i"
    by (simp_all add: a_def b_def unat_word_ariths unat_of_nat take_bit_nat_eq_self)
  then have on: "on_screen g a b" using assms(6,7) ij(1) by (simp add: on_screen_def word_less_nat_alt)
  then have "pixel gc a b \<noteq> pixel gd a b"
    using printchar_spec [OF assms(1,2), of ul_x ul_y color bcolor] assms(8)
      printchar_spec [OF assms(1,3), of ul_x ul_y color bcolor] assms(9) sp ij assms(5) by auto
  with on show ?thesis by blast
qed

theorem characters_legible_witness:
  "\<exists>gc gd a b. printchar 0 0 pix_white pix_black 0x6f screen0 = Inr gc \<and>
    printchar 0 0 pix_white pix_black 0x30 screen0 = Inr gd \<and> pixel gc a b \<noteq> pixel gd a b"
proof -
  have p: "printable 0x6f" "printable 0x30" by (simp_all add: printable_def)
  obtain gc gd where g: "printchar 0 0 pix_white pix_black 0x6f screen0 = Inr gc"
      "printchar 0 0 pix_white pix_black 0x30 screen0 = Inr gd"
    using printchar_returns [OF p(1)] printchar_returns [OF p(2)] by metis
  show ?thesis
    using characters_legible [OF screen0_ok(1) p _ _ _ _ g] g
    by (auto simp: screen0_fields pix_white_def pix_black_def)
qed

text \<open>
  \<open>paint_background\<close> stores \<open>fb_size\<close> pixels, although \<open>fb_size\<close> is the size of the frame
  buffer in bytes: on a frame buffer of \<open>n\<close> four-byte pixels it also overwrites the \<open>3 n\<close> pixels'
  worth of memory after it.
\<close>

theorem paint_background_overruns:
  assumes "unat (fb_size g) = 4 * n"
  shows "fb (paint_background color g) = (\<lambda>i. if unat i < n + 3 * n then color else fb g i)"
proof -
  have "unat (fb_size g) \<le> 2 ^ 64" using unat64_lt [of "fb_size g"] by simp
  then show ?thesis using assms by (auto simp: paint_background_def paint_upto_eq fun_eq_iff)
qed

theorem paint_background_overruns_witness:
  "fb (paint_background pix_white screen0) (640 * 480) = pix_white \<and>
   640 * 480 = unat (ppsl screen0) * scan_lines screen0"
  using paint_background_overruns [of screen0 "640 * 480"]
  by (simp add: screen0_fields scan_lines_def)

end
