(* ===== verification/Context.thy ===== *)
theory Context
  imports Graphics
begin

text \<open>
  kernel/task_asm.S: the general registers, the stack pointer and the program counter, stacks as
  memory of 64-bit words, and the routines \<open>init_stack\<close>, \<open>switch_context\<close> and \<open>switch_fork\<close>,
  instruction by instruction. The store \<open>mov [rdi],rsp\<close> goes through a pointer into a thread
  structure; it is the caller's (Threads), between \<open>save_context\<close> and \<open>load_context\<close>.
\<close>

section \<open>State\<close>

datatype reg = RAX | RBX | RCX | RDX | RSI | RDI | R8 | R9 | R10 | R11 | R12 | R13 | R14 | R15 | RBP

record ctx = screen +
  regs :: "reg \<Rightarrow> u64"
  sp :: u64
  pc :: u64
  stk :: "u64 \<Rightarrow> u64"

definition push :: "u64 \<Rightarrow> 'z ctx_scheme \<Rightarrow> 'z ctx_scheme" where
  "push v s = s\<lparr>sp := sp s - 8, stk := (stk s)(sp s - 8 := v)\<rparr>"

definition push_reg :: "reg \<Rightarrow> 'z ctx_scheme \<Rightarrow> 'z ctx_scheme" where
  "push_reg r s = push (regs s r) s"

definition pop_reg :: "reg \<Rightarrow> 'z ctx_scheme \<Rightarrow> 'z ctx_scheme" where
  "pop_reg r s = s\<lparr>regs := (regs s)(r := stk s (sp s)), sp := sp s + 8\<rparr>"

text \<open>\<open>call\<close> pushes the return address and \<open>ret\<close> pops the program counter.\<close>

definition call_from :: "u64 \<Rightarrow> 'z ctx_scheme \<Rightarrow> 'z ctx_scheme" where
  "call_from return_address s = push return_address s"

definition ret :: "'z ctx_scheme \<Rightarrow> 'z ctx_scheme" where
  "ret s = s\<lparr>pc := stk s (sp s), sp := sp s + 8\<rparr>"

section \<open>Routines\<close>

text \<open>
  \<open>init_stack\<close> works on the new thread's stack and returns its stack pointer; it leaves the
  caller's stack pointer alone (\<open>rcx\<close> keeps it).
\<close>

definition init_stack_words :: "u64 \<Rightarrow> u64 \<Rightarrow> u64 list" where
  "init_stack_words rip thread = [rip, 0, 0, 0, 0, 0, 0, 0, 0, 0, thread, 0, 0, 0, 0, 0]"

primrec push_words :: "u64 list \<Rightarrow> u64 \<times> (u64 \<Rightarrow> u64) \<Rightarrow> u64 \<times> (u64 \<Rightarrow> u64)" where
  "push_words [] pm = pm"
| "push_words (w # ws) pm = push_words ws (fst pm - 8, (snd pm)(fst pm - 8 := w))"

definition init_stack :: "u64 \<Rightarrow> u64 \<Rightarrow> u64 \<Rightarrow> 'z ctx_scheme \<Rightarrow> u64 \<times> 'z ctx_scheme" where
  "init_stack stack_bottom rip thread s =
     (let s = io_cli s;
          (rsp, m) = push_words (init_stack_words rip thread) (stack_bottom, stk s)
      in (rsp, io_sti (s\<lparr>stk := m\<rparr>)))"

definition save_context :: "'z ctx_scheme \<Rightarrow> 'z ctx_scheme" where
  "save_context s =
     (let s = io_cli s;
          s = push_reg RBP s; s = push_reg R15 s; s = push_reg R14 s; s = push_reg R13 s;
          s = push_reg R12 s; s = push_reg R11 s; s = push_reg R10 s; s = push_reg R9 s;
          s = push_reg R8 s; s = push_reg RDI s; s = push_reg RSI s; s = push_reg RDX s;
          s = push_reg RCX s; s = push_reg RBX s; s = push_reg RAX s
      in s)"

definition load_context :: "u64 \<Rightarrow> 'z ctx_scheme \<Rightarrow> 'z ctx_scheme" where
  "load_context next_rsp s =
     (let s = s\<lparr>sp := next_rsp\<rparr>;
          s = pop_reg RAX s; s = pop_reg RBX s; s = pop_reg RCX s; s = pop_reg RDX s;
          s = pop_reg RSI s; s = pop_reg RDI s; s = pop_reg R8 s; s = pop_reg R9 s;
          s = pop_reg R10 s; s = pop_reg R11 s; s = pop_reg R12 s; s = pop_reg R13 s;
          s = pop_reg R14 s; s = pop_reg R15 s; s = pop_reg RBP s;
          s = io_sti s
      in ret s)"

text \<open>The registers in the order of a saved frame, lowest address first, and the frame itself.\<close>

definition frame_regs :: "reg list" where
  "frame_regs = [RAX, RBX, RCX, RDX, RSI, RDI, R8, R9, R10, R11, R12, R13, R14, R15, RBP]"

definition frame_at :: "(u64 \<Rightarrow> u64) \<Rightarrow> u64 \<Rightarrow> (reg \<Rightarrow> u64) \<Rightarrow> u64 \<Rightarrow> bool" where
  "frame_at m a rs return_address \<longleftrightarrow>
     (\<forall>i<15. m (a + 8 * of_nat i) = rs (frame_regs ! i)) \<and> m (a + 120) = return_address"

text \<open>
  \<open>switch_fork\<close>: pops its return address into \<open>rcx\<close>, computes the place of the copy on the new
  stack from the distance of \<open>rsp\<close> to the bottom of the current stack, and stores each register
  both on the new stack and on the current one. The store through \<open>rdi\<close> is again the caller's.
\<close>

definition store :: "u64 \<Rightarrow> u64 \<Rightarrow> 'z ctx_scheme \<Rightarrow> 'z ctx_scheme" where
  "store a v s = s\<lparr>stk := (stk s)(a := v)\<rparr>"

definition set_reg :: "reg \<Rightarrow> u64 \<Rightarrow> 'z ctx_scheme \<Rightarrow> 'z ctx_scheme" where
  "set_reg r v s = s\<lparr>regs := (regs s)(r := v)\<rparr>"

definition fork_reg :: "u64 \<Rightarrow> reg \<Rightarrow> 'z ctx_scheme \<Rightarrow> 'z ctx_scheme" where
  "fork_reg offset r s = push_reg r (store (regs s RSI - offset) (regs s r) s)"

definition fork_save :: "'z ctx_scheme \<Rightarrow> 'z ctx_scheme" where
  "fork_save s =
     (let s = io_cli s;
          s = pop_reg RCX s;
          s = set_reg RDX (regs s RDX - sp s) s;
          s = set_reg RSI (regs s RSI - regs s RDX) s;
          s = set_reg RSI (regs s RSI - 8) s;
          s = fork_reg 0 RCX s;
          s = fork_reg 8 RBP s; s = fork_reg 16 R15 s; s = fork_reg 24 R14 s;
          s = fork_reg 32 R13 s; s = fork_reg 40 R12 s; s = fork_reg 48 R11 s;
          s = fork_reg 56 R10 s; s = fork_reg 64 R9 s; s = fork_reg 72 R8 s;
          s = fork_reg 80 RDI s; s = fork_reg 88 RSI s; s = fork_reg 96 RDX s;
          s = fork_reg 104 RCX s; s = fork_reg 112 RBX s; s = fork_reg 120 RAX s
      in s)"

definition fork_load :: "'z ctx_scheme \<Rightarrow> 'z ctx_scheme" where
  "fork_load s = (let s = set_reg RSI (regs s RSI - 120) s in load_context (regs s RSI) s)"

section \<open>Frames\<close>

lemma below_15: "i < (15 :: nat) \<longleftrightarrow> i \<in> {0, 1, 2, 3, 4, 5, 6, 7, 8, 9, 10, 11, 12, 13, 14}"
  by (simp; presburger)

lemma all_15:
  "(\<forall>i<15 :: nat. P i) \<longleftrightarrow> P 0 \<and> P 1 \<and> P 2 \<and> P 3 \<and> P 4 \<and> P 5 \<and> P 6 \<and> P 7 \<and> P 8 \<and> P 9 \<and>
    P 10 \<and> P 11 \<and> P 12 \<and> P 13 \<and> P 14"
  unfolding below_15 by blast

lemma frame_at_iff:
  "frame_at m a rs ra \<longleftrightarrow> m a = rs RAX \<and> m (a + 8) = rs RBX \<and> m (a + 16) = rs RCX \<and>
     m (a + 24) = rs RDX \<and> m (a + 32) = rs RSI \<and> m (a + 40) = rs RDI \<and> m (a + 48) = rs R8 \<and>
     m (a + 56) = rs R9 \<and> m (a + 64) = rs R10 \<and> m (a + 72) = rs R11 \<and> m (a + 80) = rs R12 \<and>
     m (a + 88) = rs R13 \<and> m (a + 96) = rs R14 \<and> m (a + 104) = rs R15 \<and> m (a + 112) = rs RBP \<and>
     m (a + 120) = ra"
  unfolding frame_at_def all_15 by (simp add: frame_regs_def)

lemma reg_fun_eqI:
  "f RAX = g RAX \<Longrightarrow> f RBX = g RBX \<Longrightarrow> f RCX = g RCX \<Longrightarrow> f RDX = g RDX \<Longrightarrow> f RSI = g RSI \<Longrightarrow>
   f RDI = g RDI \<Longrightarrow> f R8 = g R8 \<Longrightarrow> f R9 = g R9 \<Longrightarrow> f R10 = g R10 \<Longrightarrow> f R11 = g R11 \<Longrightarrow>
   f R12 = g R12 \<Longrightarrow> f R13 = g R13 \<Longrightarrow> f R14 = g R14 \<Longrightarrow> f R15 = g R15 \<Longrightarrow> f RBP = g RBP \<Longrightarrow> f = g"
proof
  fix r
  assume "f RAX = g RAX" "f RBX = g RBX" "f RCX = g RCX" "f RDX = g RDX" "f RSI = g RSI"
    "f RDI = g RDI" "f R8 = g R8" "f R9 = g R9" "f R10 = g R10" "f R11 = g R11" "f R12 = g R12"
    "f R13 = g R13" "f R14 = g R14" "f R15 = g R15" "f RBP = g RBP"
  then show "f r = g r" by (cases r) simp_all
qed

lemma push_reg_run:
  "stk (push_reg r s) = (stk s)(sp s - 8 := regs s r)" "sp (push_reg r s) = sp s - 8"
  "regs (push_reg r s) = regs s" "pc (push_reg r s) = pc s" "ctx.more (push_reg r s) = ctx.more s"
  "int_flag (push_reg r s) = int_flag s"
  by (simp_all add: push_reg_def push_def)

lemma save_context_run:
  "sp (save_context s) = sp s - 120" "regs (save_context s) = regs s"
  "ctx.more (save_context s) = ctx.more s" "\<not> int_flag (save_context s)"
  "stk (save_context s) = (stk s)(sp s - 8 := regs s RBP, sp s - 16 := regs s R15,
     sp s - 24 := regs s R14, sp s - 32 := regs s R13, sp s - 40 := regs s R12, sp s - 48 := regs s R11,
     sp s - 56 := regs s R10, sp s - 64 := regs s R9, sp s - 72 := regs s R8, sp s - 80 := regs s RDI,
     sp s - 88 := regs s RSI, sp s - 96 := regs s RDX, sp s - 104 := regs s RCX, sp s - 112 := regs s RBX,
     sp s - 120 := regs s RAX)"
  by (simp_all add: save_context_def Let_def push_reg_run io_cli_def diff_diff_eq)

lemma save_context_frame: "frame_at (stk (save_context s)) (sp s - 120) (regs s) (stk s (sp s))"
  unfolding frame_at_iff save_context_run by simp

lemma save_context_frame_only:
  assumes "120 \<le> a - (sp s - 120)"
  shows "stk (save_context s) a = stk s a"
proof -
  have "a \<noteq> sp s - k" if "k \<in> {8, 16, 24, 32, 40, 48, 56, 64, 72, 80, 88, 96, 104, 112, 120}" for k
    using assms that by auto
  then show ?thesis unfolding save_context_run by simp
qed

lemma load_context_frame:
  assumes "frame_at (stk s) a rs ra"
  shows "load_context a s = s\<lparr>regs := rs, sp := a + 128, pc := ra, int_flag := True\<rparr>"
proof -
  have "load_context a s = s\<lparr>regs := regs (load_context a s), sp := a + 128, pc := stk s (a + 120), int_flag := True\<rparr>"
    by (simp add: load_context_def Let_def pop_reg_def io_sti_def ret_def add.commute)
  moreover have "regs (load_context a s) = rs"
    using assms unfolding frame_at_iff
    by (intro reg_fun_eqI)
      (simp_all add: load_context_def Let_def pop_reg_def io_sti_def ret_def add.commute)
  ultimately show ?thesis using assms by (simp add: frame_at_iff)
qed

lemma init_stack_run:
  "fst (init_stack b rip t s) = b - 128"
  "frame_at (stk (snd (init_stack b rip t s))) (b - 128) ((\<lambda>_. 0)(RDI := t)) rip"
  "snd (init_stack b rip t s) = s\<lparr>stk := stk (snd (init_stack b rip t s)), int_flag := True\<rparr>"
  by (simp_all add: init_stack_def init_stack_words_def Let_def io_cli_def io_sti_def frame_at_iff)

section \<open>Two frames at once\<close>

primrec fork_regs :: "nat \<Rightarrow> reg list \<Rightarrow> 'z ctx_scheme \<Rightarrow> 'z ctx_scheme" where
  "fork_regs k [] s = s"
| "fork_regs k (r # rs) s = fork_regs (Suc k) rs (fork_reg (8 * of_nat k) r s)"

lemma fork_reg_run:
  "stk (fork_reg off r s) = (stk s)(regs s RSI - off := regs s r, sp s - 8 := regs s r)"
  "sp (fork_reg off r s) = sp s - 8" "regs (fork_reg off r s) = regs s"
  "pc (fork_reg off r s) = pc s" "ctx.more (fork_reg off r s) = ctx.more s"
  "int_flag (fork_reg off r s) = int_flag s"
  by (simp_all add: fork_reg_def store_def push_reg_def push_def)

lemma fork_regs_fields:
  "regs (fork_regs k rs s) = regs s" "sp (fork_regs k rs s) = sp s - 8 * of_nat (length rs)"
  "ctx.more (fork_regs k rs s) = ctx.more s" "int_flag (fork_regs k rs s) = int_flag s"
  by (induction rs arbitrary: k s) (simp_all add: fork_reg_run diff_diff_add distrib_left)

lemma fork_regs_other:
  "(\<forall>j<length rs. a \<noteq> sp s - 8 * of_nat (Suc j) \<and> a \<noteq> regs s RSI - 8 * of_nat (k + j)) \<Longrightarrow>
     stk (fork_regs k rs s) a = stk s a"
proof (induction rs arbitrary: k s)
  case Nil
  then show ?case by simp
next
  case (Cons r rs)
  let ?t = "fork_reg (8 * of_nat k) r s"
  have "a \<noteq> sp ?t - 8 * of_nat (Suc j) \<and> a \<noteq> regs ?t RSI - 8 * of_nat (Suc k + j)"
    if "j < length rs" for j
    using Cons.prems [rule_format, of "Suc j"] that by (simp add: fork_reg_run algebra_simps)
  then have "stk (fork_regs (Suc k) rs ?t) a = stk ?t a" by (intro Cons.IH) blast
  moreover have "stk ?t a = stk s a" using Cons.prems [rule_format, of 0] by (simp add: fork_reg_run)
  ultimately show ?case by simp
qed

lemma slot_neq: "i < 2 ^ 60 \<Longrightarrow> j < 2 ^ 60 \<Longrightarrow> i \<noteq> j \<Longrightarrow> a - 8 * of_nat i \<noteq> (a - 8 * of_nat j :: u64)"
proof -
  assume ij: "i < 2 ^ 60" "j < 2 ^ 60" "i \<noteq> j"
  then have "unat (8 * of_nat i :: u64) = 8 * i" "unat (8 * of_nat j :: u64) = 8 * j"
    by (simp_all add: unat_word_ariths unat_of_nat take_bit_nat_eq_self)
  with ij(3) have "(8 * of_nat i :: u64) \<noteq> 8 * of_nat j" by auto
  then show ?thesis by simp
qed

lemma fork_regs_slots:
  assumes "i < length rs" "k + length rs < 2 ^ 60"
    and "\<forall>j<length rs. \<forall>l<length rs. sp s - 8 * of_nat (Suc j) \<noteq> regs s RSI - 8 * of_nat (k + l)"
  shows "stk (fork_regs k rs s) (sp s - 8 * of_nat (Suc i)) = regs s (rs ! i) \<and>
    stk (fork_regs k rs s) (regs s RSI - 8 * of_nat (k + i)) = regs s (rs ! i)"
  using assms
proof (induction rs arbitrary: k s i)
  case Nil
  then show ?case by simp
next
  case (Cons r rs)
  let ?t = "fork_reg (8 * of_nat k) r s"
  have sep: "sp s - 8 * of_nat (Suc j) \<noteq> regs s RSI - 8 * of_nat (k + l)"
    if "j < Suc (length rs)" "l < Suc (length rs)" for j l using Cons.prems(3) that by simp
  show ?case
  proof (cases i)
    case (Suc i')
    have "\<forall>j<length rs. \<forall>l<length rs. sp ?t - 8 * of_nat (Suc j) \<noteq> regs ?t RSI - 8 * of_nat (Suc k + l)"
    proof (intro allI impI)
      fix j l assume "j < length rs" "l < length rs"
      then show "sp ?t - 8 * of_nat (Suc j) \<noteq> regs ?t RSI - 8 * of_nat (Suc k + l)"
        using sep [of "Suc j" "Suc l"] by (simp add: fork_reg_run algebra_simps)
    qed
    then show ?thesis
      using Cons.IH [of i' "Suc k" ?t] Cons.prems(1,2) by (simp add: Suc fork_reg_run algebra_simps)
  next
    case 0
    have "stk (fork_regs (Suc k) rs ?t) a = stk ?t a"
      if "a = sp s - 8 * of_nat (Suc 0) \<or> a = regs s RSI - 8 * of_nat (k + 0)" for a
    proof (rule fork_regs_other, intro allI impI conjI)
      fix j assume j: "j < length rs"
      have e: "sp ?t - 8 * of_nat (Suc j) = sp s - 8 * of_nat (Suc (Suc j))"
        "regs ?t RSI - 8 * of_nat (Suc k + j) = regs s RSI - 8 * of_nat (k + Suc j)"
        by (simp_all add: fork_reg_run diff_diff_add distrib_left)
      have "sp s - 8 * of_nat (Suc 0) \<noteq> sp s - 8 * of_nat (Suc (Suc j))"
        "regs s RSI - 8 * of_nat (k + 0) \<noteq> regs s RSI - 8 * of_nat (k + Suc j)"
        using j Cons.prems(2) by (intro slot_neq; simp)+
      moreover have "sp s - 8 * of_nat (Suc (Suc j)) \<noteq> regs s RSI - 8 * of_nat (k + 0)"
        "sp s - 8 * of_nat (Suc 0) \<noteq> regs s RSI - 8 * of_nat (k + Suc j)"
        using sep [of "Suc j" 0] sep [of 0 "Suc j"] j by simp_all
      ultimately show "a \<noteq> sp ?t - 8 * of_nat (Suc j)" "a \<noteq> regs ?t RSI - 8 * of_nat (Suc k + j)"
        using that unfolding e by metis+
    qed
    then show ?thesis using sep [of 0 0] by (simp add: 0 fork_reg_run)
  qed
qed

definition fork_order :: "reg list" where
  "fork_order = [RCX, RBP, R15, R14, R13, R12, R11, R10, R9, R8, RDI, RSI, RDX, RCX, RBX, RAX]"

text \<open>The registers \<open>switch_fork\<close> stores, and the place of the child's first word.\<close>

definition fork_image :: "'z ctx_scheme \<Rightarrow> reg \<Rightarrow> u64" where
  "fork_image s = (regs s)(RCX := stk s (sp s), RDX := regs s RDX - (sp s + 8),
     RSI := regs s RSI - (regs s RDX - (sp s + 8)) - 8)"

definition fork_setup :: "'z ctx_scheme \<Rightarrow> 'z ctx_scheme" where
  "fork_setup s = s\<lparr>int_flag := False, regs := fork_image s, sp := sp s + 8\<rparr>"

lemma fork_save_regs: "fork_save s = fork_regs 0 fork_order (fork_setup s)"
proof -
  have "fork_setup s = (let s = io_cli s; s = pop_reg RCX s; s = set_reg RDX (regs s RDX - sp s) s;
      s = set_reg RSI (regs s RSI - regs s RDX) s in set_reg RSI (regs s RSI - 8) s)"
    by (simp add: fork_setup_def fork_image_def Let_def io_cli_def pop_reg_def set_reg_def fun_upd_twist)
  then show ?thesis by (simp add: fork_save_def fork_order_def Let_def)
qed

lemma stacks_apart:
  fixes r d :: u64
  assumes "128 \<le> d" "128 \<le> - d" "j < 16" "l < 16"
  shows "r - 8 * of_nat (Suc j) \<noteq> r + d - 8 - 8 * of_nat l"
proof
  assume "r - 8 * of_nat (Suc j) = r + d - 8 - 8 * of_nat l"
  then have d: "d = 8 * of_nat l - 8 * of_nat j" by (simp add: algebra_simps)
  show False
  proof (cases "j \<le> l")
    case True
    then have "d = of_nat (8 * (l - j))" using d by (simp add: of_nat_diff algebra_simps)
    then have "unat d = 8 * (l - j)"
      using assms(4) by (simp add: unat_of_nat take_bit_nat_eq_self del: of_nat_mult)
    then show False using assms(1,4) by (simp add: word_le_nat_alt)
  next
    case False
    then have "- d = of_nat (8 * (j - l))" using d by (simp add: of_nat_diff algebra_simps)
    then have "unat (- d) = 8 * (j - l)"
      using assms(3) by (simp add: unat_of_nat take_bit_nat_eq_self del: of_nat_mult)
    then show False using assms(2,3) by (simp add: word_le_nat_alt)
  qed
qed

lemma fork_save_slots:
  assumes "128 \<le> regs s RSI - regs s RDX" "128 \<le> - (regs s RSI - regs s RDX)" "i < 16"
  shows "stk (fork_save s) (sp s + 8 - 8 * of_nat (Suc i)) = fork_image s (fork_order ! i)"
    "stk (fork_save s) (fork_image s RSI - 8 * of_nat i) = fork_image s (fork_order ! i)"
proof -
  have rsi: "fork_image s RSI = sp s + 8 + (regs s RSI - regs s RDX) - 8"
    by (simp add: fork_image_def)
  have fs: "sp (fork_setup s) = sp s + 8"
    "regs (fork_setup s) RSI = sp s + 8 + (regs s RSI - regs s RDX) - 8"
    unfolding rsi [symmetric] by (simp_all add: fork_setup_def)
  have len: "length fork_order = 16" by (simp add: fork_order_def)
  have "\<forall>j<16. \<forall>l<16. sp (fork_setup s) - 8 * of_nat (Suc j) \<noteq>
      regs (fork_setup s) RSI - 8 * of_nat (0 + l)"
  proof (intro allI impI)
    fix j l :: nat assume "j < 16" "l < 16"
    then show "sp (fork_setup s) - 8 * of_nat (Suc j) \<noteq> regs (fork_setup s) RSI - 8 * of_nat (0 + l)"
      unfolding fs add_0 by (rule stacks_apart [OF assms(1,2)])
  qed
  from fork_regs_slots [of i fork_order 0 "fork_setup s", unfolded len, OF assms(3) _ this]
  show "stk (fork_save s) (sp s + 8 - 8 * of_nat (Suc i)) = fork_image s (fork_order ! i)"
    "stk (fork_save s) (fork_image s RSI - 8 * of_nat i) = fork_image s (fork_order ! i)"
    unfolding fork_save_regs by (simp_all add: fork_setup_def)
qed

lemma fork_save_frames:
  assumes "128 \<le> regs s RSI - regs s RDX" "128 \<le> - (regs s RSI - regs s RDX)"
  shows "frame_at (stk (fork_save s)) (sp s - 120) (fork_image s) (stk s (sp s))"
    "frame_at (stk (fork_save s)) (fork_image s RSI - 120) (fork_image s) (stk s (sp s))"
proof -
  note P = fork_save_slots [OF assms]
  have rcx: "fork_image s RCX = stk s (sp s)" by (simp add: fork_image_def)
  show "frame_at (stk (fork_save s)) (sp s - 120) (fork_image s) (stk s (sp s))"
    using P(1) [of 0] P(1) [of 1] P(1) [of 2] P(1) [of 3] P(1) [of 4] P(1) [of 5] P(1) [of 6]
      P(1) [of 7] P(1) [of 8] P(1) [of 9] P(1) [of 10] P(1) [of 11] P(1) [of 12] P(1) [of 13]
      P(1) [of 14] P(1) [of 15]
    unfolding frame_at_iff by (simp add: fork_order_def rcx)
  show "frame_at (stk (fork_save s)) (fork_image s RSI - 120) (fork_image s) (stk s (sp s))"
    using P(2) [of 0] P(2) [of 1] P(2) [of 2] P(2) [of 3] P(2) [of 4] P(2) [of 5] P(2) [of 6]
      P(2) [of 7] P(2) [of 8] P(2) [of 9] P(2) [of 10] P(2) [of 11] P(2) [of 12] P(2) [of 13]
      P(2) [of 14] P(2) [of 15]
    unfolding frame_at_iff by (simp add: fork_order_def rcx)
qed

section \<open>A concrete machine\<close>

definition machine0 :: ctx where
  "machine0 = screen.extend blank_screen
     (ctx.fields (\<lambda>r. if r = RBP then 0x8fe0 else if r = RSI then 0xb000 else if r = RDX then 0x9000 else 7)
       0x8f00 0 (\<lambda>a. if a = 0x8f00 then 0x100400 else 0))"

section \<open>Properties\<close>

text \<open>
  C13. A thread that was switched away resumes as it was: whatever happened since, as long as
  the sixteen words of its saved frame are intact, loading the saved stack pointer restores all
  fifteen registers, returns right after the call of \<open>switch_context\<close> with the stack pointer
  there, and enables interrupts.
\<close>

theorem switch_context_resumes:
  assumes "\<forall>i<16. stk t (sp (save_context s) + 8 * of_nat i) =
      stk (save_context s) (sp (save_context s) + 8 * of_nat i)"
  shows "load_context (sp (save_context s)) t =
    t\<lparr>regs := regs s, sp := sp s + 8, pc := stk s (sp s), int_flag := True\<rparr>"
proof -
  have "frame_at (stk (save_context s)) (sp s - 120) (regs s) (stk s (sp s))"
    by (rule save_context_frame)
  moreover have "stk t (sp s - 120 + 120) = stk (save_context s) (sp s - 120 + 120)"
    using assms [rule_format, of 15] by (simp add: save_context_run)
  ultimately have "frame_at (stk t) (sp s - 120) (regs s) (stk s (sp s))"
    using assms by (simp add: frame_at_def save_context_run)
  from load_context_frame [OF this] show ?thesis by (simp add: save_context_run)
qed

theorem switch_context_resumes_witness:
  "regs (load_context (sp (save_context machine0)) (save_context machine0)) = regs machine0 \<and>
   pc (load_context (sp (save_context machine0)) (save_context machine0)) = 0x100400"
proof -
  have "stk machine0 (sp machine0) = 0x100400"
    by (simp add: machine0_def screen.defs ctx.defs blank_screen_def)
  then show ?thesis using switch_context_resumes [of "save_context machine0" machine0] by simp
qed

text \<open>
  The first switch to a new thread enters \<open>rip\<close> with the thread structure as its first
  argument (\<open>rdi\<close>), every other register 0 and the stack empty: the frame \<open>init_stack\<close> builds is
  the one \<open>switch_context\<close> pops.
\<close>

theorem init_stack_enters:
  assumes "init_stack bottom rip thread s = (rsp', s')"
  shows "load_context rsp' s' =
    s'\<lparr>regs := (\<lambda>_. 0)(RDI := thread), sp := bottom, pc := rip, int_flag := True\<rparr> \<and>
    s' = s\<lparr>stk := stk s', int_flag := True\<rparr>"
proof -
  have eqs: "rsp' = fst (init_stack bottom rip thread s)" "s' = snd (init_stack bottom rip thread s)"
    using assms by simp_all
  show ?thesis
    using load_context_frame [OF init_stack_run(2) [of bottom rip thread s]]
      init_stack_run(1,3) [of bottom rip thread s] unfolding eqs by simp
qed

theorem init_stack_enters_witness:
  "pc (load_context 0xaf80 (snd (init_stack 0xb000 0x100123 0x200000 machine0))) = 0x100123"
proof -
  have "init_stack 0xb000 0x100123 0x200000 machine0 =
      (0xaf80, snd (init_stack 0xb000 0x100123 0x200000 machine0))"
    using init_stack_run(1) [of "0xb000" "0x100123" "0x200000" machine0] by (simp add: prod_eq_iff)
  from init_stack_enters [OF this] show ?thesis by simp
qed

text \<open>
  \<open>switch_fork\<close> continues in the child right after the call, as far from the bottom of its
  own stack as the parent is from the bottom of its, with the parent's registers. The frame
  pointer \<open>rbp\<close> is one of them, unchanged: the child goes on addressing its local variables in
  the stack of the parent. The parent's own frame holds the same registers and return address.
\<close>

theorem switch_fork_child:
  assumes "128 \<le> regs s RSI - regs s RDX" "128 \<le> - (regs s RSI - regs s RDX)"
  defines "c \<equiv> fork_load (fork_save s)"
  shows "pc c = stk s (sp s) \<and> regs s RSI - sp c = regs s RDX - (sp s + 8) \<and>
    regs c RBP = regs s RBP \<and> regs c RBX = regs s RBX \<and> regs c RDI = regs s RDI \<and>
    int_flag c \<and> frame_at (stk c) (sp s - 120) (regs c) (stk s (sp s))"
proof -
  note f = fork_save_frames [OF assms(1,2)]
  have rs: "regs (fork_save s) = fork_image s"
    by (simp add: fork_save_regs fork_regs_fields fork_setup_def)
  have "c = (set_reg RSI (fork_image s RSI - 120) (fork_save s))\<lparr>regs := fork_image s,
      sp := fork_image s RSI - 120 + 128, pc := stk s (sp s), int_flag := True\<rparr>"
    using load_context_frame [of "set_reg RSI (fork_image s RSI - 120) (fork_save s)"
        "fork_image s RSI - 120"] f(2)
    by (simp add: c_def fork_load_def rs set_reg_def)
  then show ?thesis using f(1) by (simp add: set_reg_def) (simp add: fork_image_def)
qed

theorem switch_fork_child_witness:
  "sp (fork_load (fork_save machine0)) = 0xaf08 \<and> regs (fork_load (fork_save machine0)) RBP = 0x8fe0"
proof -
  have m: "regs machine0 RSI = 0xb000" "regs machine0 RDX = 0x9000" "sp machine0 = 0x8f00"
    "regs machine0 RBP = 0x8fe0"
    by (simp_all add: machine0_def screen.defs ctx.defs blank_screen_def)
  have "0xb000 - sp (fork_load (fork_save machine0)) = 0xf8"
    "regs (fork_load (fork_save machine0)) RBP = 0x8fe0"
    using switch_fork_child [of machine0] by (simp_all add: m)
  then show ?thesis by (simp add: algebra_simps)
qed

end
