(* ===== verification/Threads.thy ===== *)
theory Threads
  imports Context
begin

text \<open>
  kernel/task.c, first part: the thread table, its look-ups and its state changes, entering a
  thread in the table, and the scheduler. Thread_Life continues with creation and termination.
  Structures live in typed memories (\<open>thr_mem\<close>, \<open>sid_mem\<close>, \<open>pipe_mem\<close>) indexed by address.
\<close>

section \<open>State\<close>

definition THREAD_NUM :: nat where "THREAD_NUM = 40"

definition NTHREAD_CHILD :: nat where "NTHREAD_CHILD = 10"

definition STACK_LENGTH :: u64 where "STACK_LENGTH = 0x1000"

datatype thread_state = RUNNABLE | WAIT | SLEEP | DEAD

datatype pipe_state = EMPTY | EXIST | SENDING | RECEIVING

record pipe_struct =
  pipe_ptr :: u64
  pstate :: pipe_state

record thread =
  t_stack :: u64
  t_stack_btm :: u64
  t_rsp :: u64
  t_rip :: u64
  t_func :: u64
  t_argc :: int
  t_argv :: u64
  t_state :: thread_state
  t_tid :: int
  t_ptid :: int
  t_ctid :: "int list"
  t_index :: int
  t_sid_ptr :: u64
  t_pstruct :: u64

record queue_sem =
  qs_head :: nat
  qs_num :: nat
  qs_que :: "int list"

record semtable_entry =
  semstate :: int
  semcount :: int
  semqueue :: queue_sem

record sys = ctx +
  thr_mem :: "u64 \<Rightarrow> thread"
  sid_mem :: "u64 \<Rightarrow> int"
  pipe_mem :: "u64 \<Rightarrow> pipe_struct"
  empty_at :: u64
  threads :: "u64 list"
  cur_thread_index :: int
  tid_global :: int
  tid_index_dict :: "int list"
  tick :: u64
  timer_period :: u64
  previous_interrupt :: u64
  semtable :: "semtable_entry list"

text \<open>The static \<open>empty_thread\<close>, and \<open>tid_index_dict[THREAD_NUM] = {-1}\<close>: C fills the rest with 0.\<close>

definition empty_thread :: thread where
  "empty_thread = \<lparr>t_stack = 0, t_stack_btm = 0, t_rsp = 0, t_rip = 0, t_func = 0, t_argc = 0,
     t_argv = 0, t_state = DEAD, t_tid = - 1, t_ptid = - 1, t_ctid = replicate NTHREAD_CHILD 0,
     t_index = - 1, t_sid_ptr = 0, t_pstruct = 0\<rparr>"

definition tid_index_dict_init :: "int list" where
  "tid_index_dict_init = (- 1) # replicate (THREAD_NUM - 1) 0"

definition upd_thread :: "u64 \<Rightarrow> (thread \<Rightarrow> thread) \<Rightarrow> 'z sys_scheme \<Rightarrow> 'z sys_scheme" where
  "upd_thread p f s = s\<lparr>thr_mem := (thr_mem s)(p := f (thr_mem s p))\<rparr>"

section \<open>Look-ups\<close>

definition get_cur_thread_tid :: "'z sys_scheme \<Rightarrow> (int \<times> 'z sys_scheme) outcome" where
  "get_cur_thread_tid s =
     (let s = io_cli s in
      and_then (array_get (tid_index_dict s) (cur_thread_index s)) (\<lambda>tid. Inr (tid, io_sti s)))"

definition set_ctid :: "u64 \<Rightarrow> int \<Rightarrow> 'z sys_scheme \<Rightarrow> int \<times> 'z sys_scheme" where
  "set_ctid t ctid s =
     (let s = io_cli s in
      if ctid < 0 then (- 1, io_sti s)
      else case find_up NTHREAD_CHILD (\<lambda>i. t_ctid (thr_mem s t) ! i = - 1) 0 of
        Some i \<Rightarrow>
          let s = upd_thread t (\<lambda>x. x\<lparr>t_ctid := (t_ctid x)[i := ctid]\<rparr>) s
          in (t_ctid (thr_mem s t) ! i, io_sti s)
      | None \<Rightarrow> (- 1, io_sti s))"

definition clear_ctid :: "u64 \<Rightarrow> int \<Rightarrow> 'z sys_scheme \<Rightarrow> int \<times> 'z sys_scheme" where
  "clear_ctid t ctid s =
     (let s = io_cli s in
      if ctid < 0 then (- 1, io_sti s)
      else case find_up NTHREAD_CHILD (\<lambda>i. t_ctid (thr_mem s t) ! i = ctid) 0 of
        Some i \<Rightarrow> (ctid, io_sti (upd_thread t (\<lambda>x. x\<lparr>t_ctid := (t_ctid x)[i := - 1]\<rparr>) s))
      | None \<Rightarrow> (- 1, io_sti s))"

text \<open>The highest used slot, not the most recent child.\<close>

primrec find_ctid_below :: "int list \<Rightarrow> nat \<Rightarrow> int" where
  "find_ctid_below ctids 0 = - 1"
| "find_ctid_below ctids (Suc i) =
     (if ctids ! i \<noteq> - 1 then ctids ! i else find_ctid_below ctids i)"

definition find_ctid :: "u64 \<Rightarrow> 'z sys_scheme \<Rightarrow> int" where
  "find_ctid t s = find_ctid_below (t_ctid (thr_mem s t)) NTHREAD_CHILD"

definition search_index_from_tid :: "int \<Rightarrow> 'z sys_scheme \<Rightarrow> int \<times> 'z sys_scheme" where
  "search_index_from_tid tid s =
     (case find_up THREAD_NUM (\<lambda>i. tid_index_dict s ! i = tid) 0 of
        Some i \<Rightarrow> (int i, s)
      | None \<Rightarrow> (- 1, say ''no such tid thread!!\<newline>'' s))"

definition get_thread_ptr :: "int \<Rightarrow> 'z sys_scheme \<Rightarrow> (u64 \<times> 'z sys_scheme) outcome" where
  "get_thread_ptr tid s =
     (let (t_index, s) = search_index_from_tid tid s in
      and_then (array_get (threads s) t_index) (\<lambda>t. Inr (t, s)))"

definition change_state :: "int \<Rightarrow> thread_state \<Rightarrow> 'z sys_scheme \<Rightarrow> (int \<times> 'z sys_scheme) outcome" where
  "change_state tid st s =
     and_then (get_thread_ptr tid s) (\<lambda>(t, s).
       if t = 0 then Inr (0, s) else Inr (1, upd_thread t (\<lambda>x. x\<lparr>t_state := st\<rparr>) s))"

section \<open>Entering the table\<close>

definition threads_init :: "'z sys_scheme \<Rightarrow> 'z sys_scheme" where
  "threads_init s = s\<lparr>threads := array_fill THREAD_NUM (empty_at s) (threads s)\<rparr>"

definition thread_stack_init :: "u64 \<Rightarrow> 'z sys_scheme \<Rightarrow> 'z sys_scheme" where
  "thread_stack_init t s =
     (let s = say_num ''thread address: '' t s;
          (rsp, s) = init_stack (t_rsp (thr_mem s t)) (t_rip (thr_mem s t)) t s;
          s = upd_thread t (\<lambda>x. x\<lparr>t_rsp := rsp\<rparr>) s;
          s = say_num ''thread stack bottom: '' (t_stack_btm (thr_mem s t)) s;
          s = say_num ''thread rip: '' (t_rip (thr_mem s t)) s;
          s = say_num ''thread func address: '' (t_func (thr_mem s t)) s;
          s = say_num ''thread rsp: '' (t_rsp (thr_mem s t)) s
      in s)"

text \<open>\<open>threads[i]->state == DEAD\<close>.\<close>

definition slot_dead :: "'z sys_scheme \<Rightarrow> nat \<Rightarrow> bool" where
  "slot_dead s i \<longleftrightarrow> t_state (thr_mem s (threads s ! i)) = DEAD"

text \<open>The assignments that \<open>thread_run\<close> and \<open>thread_register\<close> make to slot \<open>i\<close>.\<close>

definition fill_slot :: "nat \<Rightarrow> u64 \<Rightarrow> thread_state \<Rightarrow> 'z sys_scheme \<Rightarrow> 'z sys_scheme outcome" where
  "fill_slot i t st s =
     (let s = io_cli s;
          s = s\<lparr>threads := (threads s)[i := t]\<rparr>;
          s = upd_thread t (\<lambda>x. x\<lparr>t_state := st\<rparr>) s;
          s = upd_thread t (\<lambda>x. x\<lparr>t_index := int i\<rparr>) s
      in and_then (get_cur_thread_tid s) (\<lambda>(tid, s).
           let s = upd_thread t (\<lambda>x. x\<lparr>t_ptid := tid\<rparr>) s;
               s = upd_thread t (\<lambda>x. x\<lparr>t_tid := tid_global s\<rparr>) s;
               s = s\<lparr>tid_index_dict := (tid_index_dict s)[i := t_tid (thr_mem s t)]\<rparr>;
               s = s\<lparr>tid_global := tid_global s + 1\<rparr>
           in Inr (io_sti s)))"

definition thread_run :: "u64 \<Rightarrow> 'z sys_scheme \<Rightarrow> 'z sys_scheme outcome" where
  "thread_run t s =
     (case find_up THREAD_NUM (slot_dead s) 0 of
        Some i \<Rightarrow>
          and_then (fill_slot i t RUNNABLE s) (\<lambda>s.
            let s = say_num ''thread run! tid: '' (word_of_int (t_tid (thr_mem s t))) s;
                s = say_num ''           ptid: '' (word_of_int (t_ptid (thr_mem s t))) s;
                s = say_num ''          index: '' (word_of_int (t_index (thr_mem s t))) s
            in Inr s)
      | None \<Rightarrow> Inr s)"

definition thread_register :: "u64 \<Rightarrow> 'z sys_scheme \<Rightarrow> (int \<times> 'z sys_scheme) outcome" where
  "thread_register t s =
     (case find_up THREAD_NUM (slot_dead s) 0 of
        Some i \<Rightarrow>
          and_then (fill_slot i t SLEEP s) (\<lambda>s.
            let s = say_num ''register thread tid: '' (word_of_int (t_tid (thr_mem s t))) s;
                s = say_num ''               ptid: '' (word_of_int (t_ptid (thr_mem s t))) s;
                s = say_num ''              index: '' (word_of_int (t_index (thr_mem s t))) s
            in Inr (int i, s))
      | None \<Rightarrow> Inr (- 1, s))"

section \<open>The scheduler\<close>

text \<open>
  The search for the next thread looks at \<open>(cur_thread_index + i) % THREAD_NUM\<close> for
  \<open>i = 1, 2, \<dots>\<close> until one is \<open>RUNNABLE\<close>; nothing else ends it. (It stays below the range of
  \<open>int\<close>: a search that has not ended after one round never does.)
\<close>

partial_function (option) sched_find :: "'z sys_scheme \<Rightarrow> nat \<Rightarrow> nat \<Rightarrow> nat option" where
  "sched_find s cur i =
     (if t_state (thr_mem s (threads s ! ((cur + i) mod THREAD_NUM))) = RUNNABLE
      then Some ((cur + i) mod THREAD_NUM)
      else sched_find s cur (i + 1))"

text \<open>
  \<open>thread_scheduler\<close> up to the moment the processor runs the chosen thread: the arguments of
  \<open>switch_context\<close> are read before the call, the store through its first argument is to the
  structure of the old thread. \<open>ra\<close> is the return address of the call.
\<close>

definition switch_to :: "u64 \<Rightarrow> u64 \<Rightarrow> u64 \<Rightarrow> 'z sys_scheme \<Rightarrow> 'z sys_scheme" where
  "switch_to ra old new s =
     (let next_rsp = t_rsp (thr_mem s new);
          s = set_reg RDI (old + 16) (set_reg RSI next_rsp s);
          s = call_from ra s;
          s = save_context s;
          s = upd_thread old (\<lambda>x. x\<lparr>t_rsp := sp s\<rparr>) s
      in load_context (regs s RSI) s)"

definition thread_scheduler :: "u64 \<Rightarrow> 'z sys_scheme \<Rightarrow> 'z sys_scheme outcome" where
  "thread_scheduler ra s =
     (let s = io_cli s;
          old_thread_index = nat (cur_thread_index s)
      in case sched_find s old_thread_index 1 of
           None \<Rightarrow> Inl Spins
         | Some i \<Rightarrow>
           let s = s\<lparr>cur_thread_index := int i\<rparr>;
               old = threads s ! old_thread_index;
               new = threads s ! i;
               s = say_num ''old_thread_index: '' (of_nat old_thread_index) s;
               s = say_num ''cur_thread_index: '' (word_of_int (cur_thread_index s)) s;
               s = say_num ''old thread rsp: '' (t_rsp (thr_mem s old)) s;
               s = say_num ''cur thread rsp: '' (t_rsp (thr_mem s new)) s
           in Inr (switch_to ra old new s))"

definition schedule_period_init :: "u64 \<Rightarrow> 'z sys_scheme \<Rightarrow> 'z sys_scheme" where
  "schedule_period_init milli_sec s = s\<lparr>timer_period := milli_sec\<rparr>"

text \<open>\<open>switch_context_first\<close> passes a null pointer: the store of \<open>rsp\<close> goes to address 0.\<close>

definition switch_context_first :: "u64 \<Rightarrow> int \<Rightarrow> 'z sys_scheme \<Rightarrow> 'z sys_scheme outcome" where
  "switch_context_first ra tid s =
     (let (index, s) = search_index_from_tid tid s in
      and_then (array_get (threads s) index) (\<lambda>t.
        let s = set_reg RDI 0 (set_reg RSI (t_rsp (thr_mem s t)) s);
            s = call_from ra s;
            s = save_context s;
            s = store 0 (sp s) s
        in Inr (load_context (regs s RSI) s)))"

section \<open>Console output changes nothing else\<close>

lemma say_num_upd: "say_num msg n s = s\<lparr>port_out := port_out s @
    map (Pair (comport s)) (ascii msg @ hex_bytes n @ [13, 10]), int_flag := True\<rparr>"
  by (simp add: say_num_def say_bytes_def sent_def io_sti_def)

lemma say_upd: "say msg s = s\<lparr>port_out := port_out s @ map (Pair (comport s)) (ascii msg), int_flag := True\<rparr>"
  by (simp add: say_def say_bytes_def sent_def io_sti_def)

lemma say_num_sys [simp]:
  "thr_mem (say_num msg n s) = thr_mem s" "threads (say_num msg n s) = threads s"
  "tid_index_dict (say_num msg n s) = tid_index_dict s" "tid_global (say_num msg n s) = tid_global s"
  "cur_thread_index (say_num msg n s) = cur_thread_index s" "empty_at (say_num msg n s) = empty_at s"
  "semtable (say_num msg n s) = semtable s" "sid_mem (say_num msg n s) = sid_mem s"
  "pipe_mem (say_num msg n s) = pipe_mem s" "stk (say_num msg n s) = stk s" "sp (say_num msg n s) = sp s"
  "regs (say_num msg n s) = regs s" "bytes (say_num msg n s) = bytes s" "int_flag (say_num msg n s)"
  by (simp_all add: say_num_upd)

lemma say_sys [simp]:
  "thr_mem (say msg s) = thr_mem s" "threads (say msg s) = threads s"
  "tid_index_dict (say msg s) = tid_index_dict s" "tid_global (say msg s) = tid_global s"
  "cur_thread_index (say msg s) = cur_thread_index s" "empty_at (say msg s) = empty_at s"
  "semtable (say msg s) = semtable s" "sid_mem (say msg s) = sid_mem s"
  "pipe_mem (say msg s) = pipe_mem s" "stk (say msg s) = stk s" "int_flag (say msg s)"
  by (simp_all add: say_upd)

lemma flag_sys [simp]:
  "thr_mem (io_cli s) = thr_mem s" "threads (io_cli s) = threads s"
  "tid_index_dict (io_cli s) = tid_index_dict s" "tid_global (io_cli s) = tid_global s"
  "cur_thread_index (io_cli s) = cur_thread_index s" "empty_at (io_cli s) = empty_at s"
  "semtable (io_cli s) = semtable s" "sid_mem (io_cli s) = sid_mem s" "pipe_mem (io_cli s) = pipe_mem s"
  "stk (io_cli s) = stk s" "sp (io_cli s) = sp s" "regs (io_cli s) = regs s" "bytes (io_cli s) = bytes s"
  "thr_mem (io_sti s) = thr_mem s" "threads (io_sti s) = threads s"
  "tid_index_dict (io_sti s) = tid_index_dict s" "tid_global (io_sti s) = tid_global s"
  "cur_thread_index (io_sti s) = cur_thread_index s" "empty_at (io_sti s) = empty_at s"
  "semtable (io_sti s) = semtable s" "sid_mem (io_sti s) = sid_mem s" "pipe_mem (io_sti s) = pipe_mem s"
  "stk (io_sti s) = stk s" "sp (io_sti s) = sp s" "regs (io_sti s) = regs s" "bytes (io_sti s) = bytes s"
  "int_flag (io_sti s)" "\<not> int_flag (io_cli s)"
  by (simp_all add: io_cli_def io_sti_def)

lemma upd_thread_sys [simp]:
  "thr_mem (upd_thread p f s) = (thr_mem s)(p := f (thr_mem s p))"
  "threads (upd_thread p f s) = threads s"
  "tid_index_dict (upd_thread p f s) = tid_index_dict s" "tid_global (upd_thread p f s) = tid_global s"
  "cur_thread_index (upd_thread p f s) = cur_thread_index s" "empty_at (upd_thread p f s) = empty_at s"
  "semtable (upd_thread p f s) = semtable s" "sid_mem (upd_thread p f s) = sid_mem s"
  "pipe_mem (upd_thread p f s) = pipe_mem s" "stk (upd_thread p f s) = stk s" "sp (upd_thread p f s) = sp s"
  "regs (upd_thread p f s) = regs s" "bytes (upd_thread p f s) = bytes s"
  "int_flag (upd_thread p f s) = int_flag s"
  by (simp_all add: upd_thread_def)

section \<open>The thread table\<close>

definition live :: "'z sys_scheme \<Rightarrow> nat \<Rightarrow> bool" where
  "live s i \<longleftrightarrow> i < THREAD_NUM \<and> threads s ! i \<noteq> empty_at s"

text \<open>
  The invariant of the table. The entry of a live thread in \<open>tid_index_dict\<close> is its tid and is
  the first one with that value, so a look-up finds it; it need not be the only one, since the
  entries the initialiser leaves at 0 are never cleared.
\<close>

definition table_ok :: "'z sys_scheme \<Rightarrow> bool" where
  "table_ok s \<longleftrightarrow> length (threads s) = THREAD_NUM \<and> length (tid_index_dict s) = THREAD_NUM \<and>
     0 \<le> cur_thread_index s \<and> cur_thread_index s < int THREAD_NUM \<and> 0 \<le> tid_global s \<and>
     t_state (thr_mem s (empty_at s)) = DEAD \<and>
     (tid_global s = 0 \<longrightarrow> (\<forall>i. \<not> live s i)) \<and>
     (\<forall>i<THREAD_NUM. tid_index_dict s ! i < max 1 (tid_global s)) \<and>
     (\<forall>i. live s i \<longrightarrow> t_index (thr_mem s (threads s ! i)) = int i \<and>
       t_tid (thr_mem s (threads s ! i)) = tid_index_dict s ! i \<and> 0 \<le> tid_index_dict s ! i \<and>
       t_state (thr_mem s (threads s ! i)) \<noteq> DEAD \<and>
       (\<forall>j<i. tid_index_dict s ! j \<noteq> tid_index_dict s ! i))"

lemma table_okD:
  assumes "table_ok s"
  shows "length (threads s) = THREAD_NUM" "length (tid_index_dict s) = THREAD_NUM"
    "0 \<le> cur_thread_index s" "cur_thread_index s < int THREAD_NUM" "0 \<le> tid_global s"
    "t_state (thr_mem s (empty_at s)) = DEAD" "tid_global s = 0 \<Longrightarrow> \<not> live s i"
    "i < THREAD_NUM \<Longrightarrow> tid_index_dict s ! i < max 1 (tid_global s)"
  using assms by (auto simp: table_ok_def)

lemma table_ok_live:
  assumes "table_ok s" "live s i"
  shows "t_index (thr_mem s (threads s ! i)) = int i"
    "t_tid (thr_mem s (threads s ! i)) = tid_index_dict s ! i" "0 \<le> tid_index_dict s ! i"
    "t_state (thr_mem s (threads s ! i)) \<noteq> DEAD" "j < i \<Longrightarrow> tid_index_dict s ! j \<noteq> tid_index_dict s ! i"
    "i < THREAD_NUM"
  using assms by (auto simp: table_ok_def live_def)

lemma live_iff_not_dead: "table_ok s \<Longrightarrow> i < THREAD_NUM \<Longrightarrow> live s i \<longleftrightarrow> \<not> slot_dead s i"
  using table_ok_live(4) [of s i] table_okD(6) [of s] by (auto simp: slot_dead_def live_def)

lemma live_inject:
  "table_ok s \<Longrightarrow> live s i \<Longrightarrow> live s j \<Longrightarrow> threads s ! i = threads s ! j \<Longrightarrow> i = j"
  by (metis table_ok_live(1) of_nat_eq_iff)

lemma search_live:
  assumes "table_ok s" "live s i"
  shows "search_index_from_tid (tid_index_dict s ! i) s = (int i, s)"
proof -
  have "find_up THREAD_NUM (\<lambda>k. tid_index_dict s ! k = tid_index_dict s ! i) 0 = Some i"
    using table_ok_live(5,6) [OF assms] by (intro find_up_first) auto
  then show ?thesis by (simp add: search_index_from_tid_def)
qed

lemma get_thread_ptr_live:
  "table_ok s \<Longrightarrow> live s i \<Longrightarrow> get_thread_ptr (tid_index_dict s ! i) s = Inr (threads s ! i, s)"
  using search_live [of s i] array_get_nat [of i "threads s"]
  by (simp add: get_thread_ptr_def table_okD(1) table_ok_live(6))

lemma get_cur_thread_tid_ok:
  assumes "table_ok s"
  shows "get_cur_thread_tid s = Inr (tid_index_dict s ! nat (cur_thread_index s), io_sti (io_cli s))"
  using table_okD(2-4) [OF assms] by (simp add: get_cur_thread_tid_def array_get_def Let_def)

lemma cli_sti [simp]: "io_sti (io_cli s) = io_sti s" "io_sti (io_sti s) = io_sti s"
  by (simp_all add: io_cli_def io_sti_def)

text \<open>\<open>table_ok\<close> looks at these fields only.\<close>

lemma table_ok_cong:
  assumes "threads s' = threads s" "tid_index_dict s' = tid_index_dict s" "tid_global s' = tid_global s"
    "cur_thread_index s' = cur_thread_index s" "empty_at s' = empty_at s" "thr_mem s' = thr_mem s"
  shows "table_ok s' = table_ok s" "live s' = live s"
  using assms by (simp_all add: table_ok_def live_def fun_eq_iff)

lemma table_ok_io [simp]:
  "table_ok (say_num msg n s) = table_ok s" "table_ok (say msg s) = table_ok s"
  "table_ok (io_cli s) = table_ok s" "table_ok (io_sti s) = table_ok s"
  "live (say_num msg n s) = live s" "live (say msg s) = live s"
  "live (io_cli s) = live s" "live (io_sti s) = live s"
  by (rule table_ok_cong; simp)+

subsection \<open>The operations keep it\<close>

lemma table_ok_upd:
  assumes ok: "table_ok s"
    and f: "\<And>x. t_index (f x) = t_index x" "\<And>x. t_tid (f x) = t_tid x"
      "t_state (f (thr_mem s t)) = DEAD \<longleftrightarrow> t_state (thr_mem s t) = DEAD"
  shows "table_ok (upd_thread t f s)" "live (upd_thread t f s) = live s"
proof -
  show l: "live (upd_thread t f s) = live s" by (simp add: live_def fun_eq_iff)
  have dead: "t_state (thr_mem (upd_thread t f s) a) = DEAD \<longleftrightarrow> t_state (thr_mem s a) = DEAD" for a
    using f(3) by simp
  have same: "t_index (thr_mem (upd_thread t f s) a) = t_index (thr_mem s a)"
    "t_tid (thr_mem (upd_thread t f s) a) = t_tid (thr_mem s a)" for a
    using f(1,2) by simp_all
  show "table_ok (upd_thread t f s)"
    using ok unfolding table_ok_def l dead same by simp
qed

lemma set_ctid_table:
  assumes "table_ok s"
  shows "table_ok (snd (set_ctid t c s))" "live (snd (set_ctid t c s)) = live s"
  using table_ok_upd [of "io_cli s" "\<lambda>x. x\<lparr>t_ctid := (t_ctid x)[i := c]\<rparr>" t for i] assms
  by (simp_all add: set_ctid_def Let_def split: option.splits)

lemma clear_ctid_table:
  assumes "table_ok s"
  shows "table_ok (snd (clear_ctid t c s))" "live (snd (clear_ctid t c s)) = live s"
  using table_ok_upd [of "io_cli s" "\<lambda>x. x\<lparr>t_ctid := (t_ctid x)[i := - 1]\<rparr>" t for i] assms
  by (simp_all add: clear_ctid_def Let_def split: option.splits)

lemma change_state_live:
  assumes "table_ok s" "live s i" "st \<noteq> DEAD" "threads s ! i \<noteq> 0"
  shows "change_state (tid_index_dict s ! i) st s = Inr (1, upd_thread (threads s ! i) (\<lambda>x. x\<lparr>t_state := st\<rparr>) s)"
    "table_ok (upd_thread (threads s ! i) (\<lambda>x. x\<lparr>t_state := st\<rparr>) s)"
    "live (upd_thread (threads s ! i) (\<lambda>x. x\<lparr>t_state := st\<rparr>) s) = live s"
  using get_thread_ptr_live [OF assms(1,2)] assms(3,4) table_ok_live(4) [OF assms(1,2)]
    table_ok_upd [OF assms(1), of "\<lambda>x. x\<lparr>t_state := st\<rparr>" "threads s ! i"]
  by (simp_all add: change_state_def)

definition filled :: "nat \<Rightarrow> u64 \<Rightarrow> thread_state \<Rightarrow> 'z sys_scheme \<Rightarrow> thread" where
  "filled i t st s = (thr_mem s t)\<lparr>t_state := st, t_index := int i,
     t_ptid := tid_index_dict s ! nat (cur_thread_index s), t_tid := tid_global s\<rparr>"

lemma fill_slot_eq:
  assumes "table_ok s"
  shows "fill_slot i t st s = Inr (s\<lparr>int_flag := True, threads := (threads s)[i := t],
    thr_mem := (thr_mem s)(t := filled i t st s), tid_index_dict := (tid_index_dict s)[i := tid_global s],
    tid_global := tid_global s + 1\<rparr>)"
  using table_okD(2-4) [OF assms]
  by (simp add: fill_slot_def get_cur_thread_tid_def array_get_def upd_thread_def filled_def
      Let_def io_cli_def io_sti_def)

lemma fill_slot_table:
  assumes ok: "table_ok s" and i: "find_up THREAD_NUM (slot_dead s) 0 = Some i"
    and t: "t \<noteq> empty_at s" "t \<notin> set (threads s)" and st: "st \<noteq> DEAD"
    and s': "fill_slot i t st s = Inr s'"
  shows "table_ok s'" "live s' = (live s)(i := True)"
proof -
  note first = find_up_Some [OF i]
  note d = table_okD [OF ok]
  have s'_eq: "threads s' = (threads s)[i := t]" "thr_mem s' = (thr_mem s)(t := filled i t st s)"
    "tid_index_dict s' = (tid_index_dict s)[i := tid_global s]" "tid_global s' = tid_global s + 1"
    "cur_thread_index s' = cur_thread_index s" "empty_at s' = empty_at s"
    using s' fill_slot_eq [OF ok, of i t st] by auto
  show live': "live s' = (live s)(i := True)"
    using first d(1) t(1) by (auto simp: live_def s'_eq fun_eq_iff nth_list_update)
  have empty0: "i = 0" if "tid_global s = 0"
    using first d(7) [OF that] live_iff_not_dead [OF ok] by (metis bot_nat_0.not_eq_extremum le0 order_less_trans)
  have lt: "tid_index_dict s ! k < tid_global s" if "k < THREAD_NUM" "tid_global s \<noteq> 0" for k
    using d(8) [OF that(1)] that(2) d(5) by auto
  have old: "threads s ! k \<noteq> t" if "k < THREAD_NUM" for k
    using t(2) that d(1) by (metis nth_mem)
  have "t_index (thr_mem s' (threads s' ! k)) = int k \<and>
      t_tid (thr_mem s' (threads s' ! k)) = tid_index_dict s' ! k \<and> 0 \<le> tid_index_dict s' ! k \<and>
      t_state (thr_mem s' (threads s' ! k)) \<noteq> DEAD \<and>
      (\<forall>j<k. tid_index_dict s' ! j \<noteq> tid_index_dict s' ! k)" if k: "live s' k" for k
  proof (cases "k = i")
    case True
    have "\<forall>j<i. tid_index_dict s ! j \<noteq> tid_global s"
    proof (intro allI impI)
      fix j assume "j < i"
      then show "tid_index_dict s ! j \<noteq> tid_global s"
        using lt [of j] empty0 first by (cases "tid_global s = 0") auto
    qed
    then show ?thesis
      using True first d(1,2,5) st by (simp add: s'_eq filled_def)
  next
    case False
    then have lk: "live s k" using k live' by simp
    note l = table_ok_live [OF ok lk]
    have "tid_global s \<noteq> 0" using d(7) lk by blast
    then have "tid_index_dict s ! k < tid_global s" using lt l(6) by blast
    then have "tid_index_dict s' ! j \<noteq> tid_index_dict s' ! k" if "j < k" for j
      using l(5) [OF that] l(6) False first d(2) that by (cases "j = i") (auto simp: s'_eq)
    then show ?thesis using l old [OF l(6)] False by (simp add: s'_eq)
  qed
  moreover have "tid_index_dict s' ! k < max 1 (tid_global s')" if "k < THREAD_NUM" for k
    using d(8) [OF that] d(2,5) first that by (cases "k = i") (auto simp: s'_eq)
  moreover have "t_state (thr_mem s' (empty_at s')) = DEAD" using d(6) t(1) by (simp add: s'_eq)
  ultimately show "table_ok s'"
    using d(1-5) unfolding table_ok_def by (simp add: s'_eq)
qed

lemma thread_run_spec:
  assumes ok: "table_ok s" and i: "find_up THREAD_NUM (slot_dead s) 0 = Some i"
    and t: "t \<noteq> empty_at s" "t \<notin> set (threads s)"
  obtains s' where "thread_run t s = Inr s'" "table_ok s'" "live s' = (live s)(i := True)"
    "threads s' = (threads s)[i := t]" "thr_mem s' = (thr_mem s)(t := filled i t RUNNABLE s)"
    "tid_index_dict s' = (tid_index_dict s)[i := tid_global s]" "tid_global s' = tid_global s + 1"
    "cur_thread_index s' = cur_thread_index s" "int_flag s'"
proof -
  obtain s1 where s1: "fill_slot i t RUNNABLE s = Inr s1" using fill_slot_eq [OF ok] by blast
  note f = fill_slot_table [OF ok i t _ s1, simplified]
  have s1f: "threads s1 = (threads s)[i := t]" "thr_mem s1 = (thr_mem s)(t := filled i t RUNNABLE s)"
    "tid_index_dict s1 = (tid_index_dict s)[i := tid_global s]" "tid_global s1 = tid_global s + 1"
    "cur_thread_index s1 = cur_thread_index s"
    using s1 fill_slot_eq [OF ok, of i t RUNNABLE] by auto
  have "thread_run t s = Inr (say_num ''          index: '' (word_of_int (t_index (thr_mem s1 t)))
      (say_num ''           ptid: '' (word_of_int (t_ptid (thr_mem s1 t)))
        (say_num ''thread run! tid: '' (word_of_int (t_tid (thr_mem s1 t))) s1)))"
    by (simp add: thread_run_def i s1 Let_def)
  then show thesis by (rule that) (simp_all add: f s1f)
qed

lemma thread_register_spec:
  assumes ok: "table_ok s" and i: "find_up THREAD_NUM (slot_dead s) 0 = Some i"
    and t: "t \<noteq> empty_at s" "t \<notin> set (threads s)"
  obtains s' where "thread_register t s = Inr (int i, s')" "table_ok s'" "live s' = (live s)(i := True)"
    "threads s' = (threads s)[i := t]" "thr_mem s' = (thr_mem s)(t := filled i t SLEEP s)"
    "tid_index_dict s' = (tid_index_dict s)[i := tid_global s]" "tid_global s' = tid_global s + 1"
    "cur_thread_index s' = cur_thread_index s" "int_flag s'"
proof -
  obtain s1 where s1: "fill_slot i t SLEEP s = Inr s1" using fill_slot_eq [OF ok] by blast
  note f = fill_slot_table [OF ok i t _ s1, simplified]
  have s1f: "threads s1 = (threads s)[i := t]" "thr_mem s1 = (thr_mem s)(t := filled i t SLEEP s)"
    "tid_index_dict s1 = (tid_index_dict s)[i := tid_global s]" "tid_global s1 = tid_global s + 1"
    "cur_thread_index s1 = cur_thread_index s"
    using s1 fill_slot_eq [OF ok, of i t SLEEP] by auto
  have "thread_register t s = Inr (int i, say_num ''              index: '' (word_of_int (t_index (thr_mem s1 t)))
      (say_num ''               ptid: '' (word_of_int (t_ptid (thr_mem s1 t)))
        (say_num ''register thread tid: '' (word_of_int (t_tid (thr_mem s1 t))) s1)))"
    by (simp add: thread_register_def i s1 Let_def)
  then show thesis by (rule that) (simp_all add: f s1f)
qed

lemma thread_run_full:
  assumes "find_up THREAD_NUM (slot_dead s) 0 = None"
  shows "thread_run t s = Inr s" "thread_register t s = Inr (- 1, s)"
  using assms by (simp_all add: thread_run_def thread_register_def)

lemma length_dict_init: "length tid_index_dict_init = THREAD_NUM"
  by (simp add: tid_index_dict_init_def THREAD_NUM_def)

lemma threads_init_table:
  assumes "length (threads s) = THREAD_NUM" "tid_index_dict s = tid_index_dict_init"
    "cur_thread_index s = 0" "tid_global s = 0" "thr_mem s (empty_at s) = empty_thread"
  shows "table_ok (threads_init s)" "\<not> live (threads_init s) i"
proof -
  have "threads (threads_init s) = replicate THREAD_NUM (empty_at s)"
    using assms(1) by (simp add: threads_init_def array_fill_all)
  then show nl: "\<not> live (threads_init s) i" for i
    by (auto simp: live_def threads_init_def)
  have "tid_index_dict_init ! k < 1" if "k < THREAD_NUM" for k
    using that by (cases k) (simp_all add: tid_index_dict_init_def)
  moreover have "0 < THREAD_NUM" by (simp add: THREAD_NUM_def)
  ultimately show "table_ok (threads_init s)"
    using assms nl unfolding table_ok_def
    by (simp add: threads_init_def empty_thread_def length_dict_init)
qed

end
