(* ===== verification/Round_Robin.thy ===== *)
theory Round_Robin
  imports Threads
begin

text \<open>
  The contract of a scheduler that serves the slots of the thread table in cyclic order, as the locale
  \<open>round_robin\<close>: what its clients (the timer interrupt, semaphores, pipes, the demonstration threads)
  may rely on, and what follows from it. Scheduler interprets it on \<open>thread_scheduler\<close>.
\<close>

section \<open>The circle of slots\<close>

text \<open>How far \<open>j\<close> is ahead of \<open>c\<close> in the circle: 1 for the next slot, \<open>THREAD_NUM\<close> for \<open>c\<close> itself.\<close>

definition ahead :: "nat \<Rightarrow> nat \<Rightarrow> nat" where
  "ahead c j = (j + THREAD_NUM - c - 1) mod THREAD_NUM + 1"

lemma ahead_pos: "0 < ahead c j" "ahead c j \<le> THREAD_NUM"
  by (simp_all add: ahead_def THREAD_NUM_def Suc_leI)

lemma ahead_reaches: "c < THREAD_NUM \<Longrightarrow> j < THREAD_NUM \<Longrightarrow> (c + ahead c j) mod THREAD_NUM = j"
proof -
  assume cj: "c < THREAD_NUM" "j < THREAD_NUM"
  have "(c + ahead c j) mod THREAD_NUM = (c + 1 + (j + THREAD_NUM - c - 1) mod THREAD_NUM) mod THREAD_NUM"
    by (simp add: ahead_def)
  also have "\<dots> = (c + 1 + (j + THREAD_NUM - c - 1)) mod THREAD_NUM" by (rule mod_add_right_eq)
  also have "c + 1 + (j + THREAD_NUM - c - 1) = j + THREAD_NUM" using cj by simp
  finally show ?thesis using cj by simp
qed

lemma ahead_unique:
  assumes "c < THREAD_NUM" "0 < i" "i \<le> THREAD_NUM"
  shows "ahead c ((c + i) mod THREAD_NUM) = i"
proof (cases "c + i < THREAD_NUM")
  case True
  then have "ahead c ((c + i) mod THREAD_NUM) = (c + i + THREAD_NUM - c - 1) mod THREAD_NUM + 1"
    by (simp add: ahead_def)
  also have "c + i + THREAD_NUM - c - 1 = THREAD_NUM + (i - 1)" using assms(2) by simp
  also have "(THREAD_NUM + (i - 1)) mod THREAD_NUM = (i - 1) mod THREAD_NUM" by (rule mod_add_self1)
  also have "(i - 1) mod THREAD_NUM = i - 1" using assms(2,3) by (intro mod_less) simp
  finally show ?thesis using assms(2) by simp
next
  case False
  then have "(c + i) mod THREAD_NUM = c + i - THREAD_NUM"
    using assms by (simp add: le_mod_geq)
  then show ?thesis using False assms by (simp add: ahead_def)
qed

text \<open>Moving forward without passing \<open>j\<close> brings \<open>j\<close> nearer.\<close>

lemma ahead_step:
  assumes "c < THREAD_NUM" "j < THREAD_NUM" "0 < i" "i < ahead c j"
  shows "ahead ((c + i) mod THREAD_NUM) j = ahead c j - i"
proof -
  let ?d = "(c + i) mod THREAD_NUM"
  have "?d < THREAD_NUM" by (simp add: THREAD_NUM_def)
  have "(?d + (ahead c j - i)) mod THREAD_NUM = (c + i + (ahead c j - i)) mod THREAD_NUM"
    by (simp add: mod_add_left_eq)
  also have "\<dots> = j" using ahead_reaches [OF assms(1,2)] assms(4) by simp
  finally have "(?d + (ahead c j - i)) mod THREAD_NUM = j" .
  then show ?thesis
    using ahead_unique [OF \<open>?d < THREAD_NUM\<close>, of "ahead c j - i"] assms(4) ahead_pos(2) [of c j] by simp
qed

section \<open>The contract\<close>

text \<open>
  \<open>resched\<close> gives the processor to a ready slot if there is one, to the nearest one ahead of the
  current slot \<open>cur\<close>, and changes neither the validity \<open>ok\<close> of the table nor which slots are ready.
\<close>

locale round_robin =
  fixes resched :: "'r \<Rightarrow> 's \<Rightarrow> 's outcome"
    and ok :: "'s \<Rightarrow> bool"
    and cur :: "'s \<Rightarrow> nat"
    and ready :: "'s \<Rightarrow> nat \<Rightarrow> bool"
  assumes cur_slot: "ok s \<Longrightarrow> cur s < THREAD_NUM"
    and returns: "ok s \<Longrightarrow> k < THREAD_NUM \<Longrightarrow> ready s k \<Longrightarrow> \<exists>s'. resched r s = Inr s'"
    and picks_ready: "ok s \<Longrightarrow> resched r s = Inr s' \<Longrightarrow> ready s (cur s')"
    and picks_nearest: "ok s \<Longrightarrow> resched r s = Inr s' \<Longrightarrow> k < THREAD_NUM \<Longrightarrow> ready s k \<Longrightarrow>
      ahead (cur s) (cur s') \<le> ahead (cur s) k"
    and keeps_ok: "ok s \<Longrightarrow> resched r s = Inr s' \<Longrightarrow> ok s'"
    and keeps_ready: "ok s \<Longrightarrow> resched r s = Inr s' \<Longrightarrow> ready s' = ready s"
begin

lemma next_slot: "ok s \<Longrightarrow> resched r s = Inr s' \<Longrightarrow> cur s' < THREAD_NUM"
  by (rule cur_slot [OF keeps_ok])

text \<open>The call ends exactly when a slot is ready.\<close>

lemma returns_iff: "ok s \<Longrightarrow> (\<exists>s'. resched r s = Inr s') \<longleftrightarrow> (\<exists>k<THREAD_NUM. ready s k)"
  using returns picks_ready next_slot by blast

text \<open>A thread that has made itself unready loses the processor.\<close>

lemma leaves: "ok s \<Longrightarrow> resched r s = Inr s' \<Longrightarrow> \<not> ready s (cur s) \<Longrightarrow> cur s' \<noteq> cur s"
  using picks_ready by metis

lemma only_one:
  "ok s \<Longrightarrow> resched r s = Inr s' \<Longrightarrow> (\<And>k. k < THREAD_NUM \<Longrightarrow> ready s k \<Longrightarrow> k = w) \<Longrightarrow> cur s' = w"
  using picks_ready next_slot by blast

text \<open>The current slot comes last: with another one ready, that one gets the processor.\<close>

lemma yields:
  assumes "ok s" "resched r s = Inr s'" "k < THREAD_NUM" "ready s k" "k \<noteq> cur s"
  shows "cur s' \<noteq> cur s"
proof
  assume same: "cur s' = cur s"
  have c: "cur s < THREAD_NUM" using cur_slot [OF assms(1)] .
  have "ahead (cur s) ((cur s + THREAD_NUM) mod THREAD_NUM) = THREAD_NUM"
    by (rule ahead_unique [OF c]) (simp_all add: THREAD_NUM_def)
  then have "ahead (cur s) k = THREAD_NUM"
    using picks_nearest [OF assms(1-4)] ahead_pos(2) [of "cur s" k] c unfolding same by simp
  then show False using ahead_reaches [OF c assms(3)] c assms(5) by simp
qed

lemma other:
  assumes "ok s" "resched r s = Inr s'" "j < THREAD_NUM" "j \<noteq> cur s"
    and "\<And>k. k < THREAD_NUM \<Longrightarrow> ready s k \<longleftrightarrow> k = j \<or> k = cur s"
  shows "cur s' = j"
  using yields [OF assms(1-3)] picks_ready [OF assms(1,2)] next_slot [OF assms(1,2)] assms(3-5) by blast

text \<open>Every call brings the processor to a ready slot or nearer to it.\<close>

lemma progress:
  assumes "ok s" "resched r s = Inr s'" "j < THREAD_NUM" "ready s j"
  shows "cur s' = j \<or> ahead (cur s') j < ahead (cur s) j"
proof -
  have c: "cur s < THREAD_NUM" using cur_slot [OF assms(1)] .
  let ?i = "ahead (cur s) (cur s')"
  have at: "(cur s + ?i) mod THREAD_NUM = cur s'" by (rule ahead_reaches [OF c next_slot [OF assms(1,2)]])
  show ?thesis
  proof (cases "?i = ahead (cur s) j")
    case True
    show ?thesis using at ahead_reaches [OF c assms(3)] unfolding True by metis
  next
    case False
    then have "?i < ahead (cur s) j" using picks_nearest [OF assms] by simp
    from ahead_step [OF c assms(3) ahead_pos(1) this] show ?thesis
      using ahead_pos(1) [of "cur s" "cur s'"] \<open>?i < ahead (cur s) j\<close> unfolding at by linarith
  qed
qed

text \<open>So nobody starves: a slot that stays ready is served within \<open>THREAD_NUM\<close> calls.\<close>

lemma fair:
  assumes "\<And>n. ok (run n)" "\<And>n. ready (run n) j" "j < THREAD_NUM"
    and step: "\<And>n. \<exists>r s'. resched r (run n) = Inr s' \<and> cur (run (Suc n)) = cur s'"
  shows "\<exists>n. 0 < n \<and> n \<le> THREAD_NUM \<and> cur (run n) = j"
proof -
  have nearer: "cur (run (Suc n)) = j \<or> ahead (cur (run (Suc n))) j < ahead (cur (run n)) j" for n
    using step [of n] progress [OF assms(1) _ assms(3,2)] by metis
  have "(\<exists>m. 0 < m \<and> m \<le> n \<and> cur (run m) = j) \<or> ahead (cur (run n)) j + n \<le> THREAD_NUM" for n
  proof (induction n)
    case 0
    then show ?case using ahead_pos(2) by simp
  next
    case (Suc n)
    from nearer [of n] show ?case
    proof
      assume "cur (run (Suc n)) = j"
      then show ?thesis by blast
    next
      assume "ahead (cur (run (Suc n))) j < ahead (cur (run n)) j"
      then show ?thesis using Suc.IH by (auto intro: le_SucI)
    qed
  qed
  from this [of THREAD_NUM] show ?thesis using ahead_pos(1) [of "cur (run THREAD_NUM)" j] by fastforce
qed

end

end
