(* ===== verification/Scheduler.thy ===== *)
theory Scheduler
  imports Round_Robin
begin

text \<open>
  What \<open>thread_scheduler\<close> of kernel/task.c does: which thread it picks, when it never returns,
  what the switch saves and loads, and that picking in cyclic order starves nobody.
\<close>

section \<open>The search\<close>

definition runnable :: "'z sys_scheme \<Rightarrow> nat \<Rightarrow> bool" where
  "runnable s k \<longleftrightarrow> t_state (thr_mem s (threads s ! k)) = RUNNABLE"

lemma sched_find_first:
  "i \<le> j \<Longrightarrow> runnable s ((c + j) mod THREAD_NUM) \<Longrightarrow>
   (\<forall>k. i \<le> k \<and> k < j \<longrightarrow> \<not> runnable s ((c + k) mod THREAD_NUM)) \<Longrightarrow>
   sched_find s c i = Some ((c + j) mod THREAD_NUM)"
proof (induction "j - i" arbitrary: i)
  case 0
  then show ?case by (simp add: sched_find.simps [of s c i] runnable_def)
next
  case (Suc d)
  then have "\<not> runnable s ((c + i) mod THREAD_NUM)" by simp
  moreover have "sched_find s c (i + 1) = Some ((c + j) mod THREAD_NUM)"
    using Suc by (intro Suc.hyps(1)) auto
  ultimately show ?case by (simp add: sched_find.simps [of s c i] runnable_def)
qed

lemma sched_find_none:
  assumes "\<forall>k<THREAD_NUM. \<not> runnable s k"
  shows "sched_find s c i = None"
proof (cases "sched_find s c i")
  case (Some r)
  have "\<exists>k<THREAD_NUM. runnable s k"
  proof (rule sched_find.raw_induct [where P = "\<lambda>s c i r. \<exists>k<THREAD_NUM. runnable s k", OF _ Some])
    fix f s c i r
    assume IH: "\<And>s c i r. f s c i = Some r \<Longrightarrow> \<exists>k<THREAD_NUM. runnable s k"
      and eq: "(if t_state (thr_mem s (threads s ! ((c + i) mod THREAD_NUM))) = RUNNABLE
            then Some ((c + i) mod THREAD_NUM) else f s c (i + 1)) = Some (r :: nat)"
    have "(c + i) mod THREAD_NUM < THREAD_NUM" by (simp add: THREAD_NUM_def)
    then show "\<exists>k<THREAD_NUM. runnable s k"
      using eq IH [of s c "i + 1" r] unfolding runnable_def by metis
  qed
  with assms show ?thesis by blast
qed

text \<open>The slot the search finds, and that it skips no runnable one.\<close>

lemma sched_find_pick:
  assumes c: "c < THREAD_NUM" and some: "\<exists>k<THREAD_NUM. runnable s k"
  obtains i where "0 < i" "i \<le> THREAD_NUM" "sched_find s c 1 = Some ((c + i) mod THREAD_NUM)"
    "runnable s ((c + i) mod THREAD_NUM)"
    "\<And>j. j < THREAD_NUM \<Longrightarrow> runnable s j \<Longrightarrow> i \<le> ahead c j"
proof -
  define P where "P i \<longleftrightarrow> 0 < i \<and> runnable s ((c + i) mod THREAD_NUM)" for i
  have near: "P (ahead c j)" if "j < THREAD_NUM" "runnable s j" for j
    using ahead_reaches [OF c that(1)] that(2) ahead_pos(1) [of c j] by (simp add: P_def)
  obtain j where j: "j < THREAD_NUM" "runnable s j" using some by blast
  define i where "i = (LEAST i. P i)"
  have Pi: "P i" unfolding i_def using near [OF j] by (rule LeastI)
  have least: "i \<le> k" if "P k" for k unfolding i_def using that by (rule Least_le)
  have "i \<le> THREAD_NUM" using least [OF near [OF j]] ahead_pos(2) [of c j] by simp
  moreover have "sched_find s c 1 = Some ((c + i) mod THREAD_NUM)"
  proof (rule sched_find_first)
    show "\<forall>k. 1 \<le> k \<and> k < i \<longrightarrow> \<not> runnable s ((c + k) mod THREAD_NUM)"
    proof (intro allI impI notI)
      fix k assume k: "1 \<le> k \<and> k < i" and r: "runnable s ((c + k) mod THREAD_NUM)"
      have "P k" using k r by (simp add: P_def)
      from least [OF this] k show False by simp
    qed
    show "1 \<le> i" "runnable s ((c + i) mod THREAD_NUM)" using Pi by (simp_all add: P_def)
  qed
  moreover have "0 < i" "runnable s ((c + i) mod THREAD_NUM)" using Pi by (simp_all add: P_def)
  ultimately show thesis using least [OF near] by (rule_tac that [of i])
qed

section \<open>The switch\<close>

lemma sys_of_more:
  assumes "ctx.more s = ctx.more t"
  shows "thr_mem s = thr_mem t" "threads s = threads t" "tid_index_dict s = tid_index_dict t"
    "tid_global s = tid_global t" "cur_thread_index s = cur_thread_index t" "empty_at s = empty_at t"
    "semtable s = semtable t" "sid_mem s = sid_mem t" "pipe_mem s = pipe_mem t"
    "tick s = tick t" "timer_period s = timer_period t" "previous_interrupt s = previous_interrupt t"
  using assms by (cases s; cases t; simp)+

lemma load_context_more: "ctx.more (load_context a s) = ctx.more s"
  by (simp add: load_context_def Let_def pop_reg_def io_sti_def ret_def)

lemma load_context_fields: "sp (load_context a s) = a + 128" "int_flag (load_context a s)"
  by (simp_all add: load_context_def Let_def pop_reg_def io_sti_def ret_def)

lemmas load_context_sys = sys_of_more [OF load_context_more]

lemma save_context_more: "ctx.more (save_context s) = ctx.more s"
  by (rule save_context_run)

lemmas save_context_sys = sys_of_more [OF save_context_more]

lemma call_regs_sys:
  "ctx.more (call_from ra s) = ctx.more s" "ctx.more (set_reg r v s) = ctx.more s"
  by (simp_all add: call_from_def push_def set_reg_def)

lemmas call_sys = sys_of_more [OF call_regs_sys(1)] sys_of_more [OF call_regs_sys(2)]

text \<open>
  The stack pointer the switch saves for the old thread, and the memory it leaves. The table is
  as before, but for the saved stack pointer.
\<close>

definition saved :: "u64 \<Rightarrow> u64 \<Rightarrow> u64 \<Rightarrow> 'z sys_scheme \<Rightarrow> 'z sys_scheme" where
  "saved ra old new s =
     save_context (call_from ra (set_reg RDI (old + 16) (set_reg RSI (t_rsp (thr_mem s new)) s)))"

lemma saved_run:
  "sp (saved ra old new s) = sp s - 128" "regs (saved ra old new s) RSI = t_rsp (thr_mem s new)"
  "frame_at (stk (saved ra old new s)) (sp s - 128)
     ((regs s)(RSI := t_rsp (thr_mem s new), RDI := old + 16)) ra"
  "ctx.more (saved ra old new s) = ctx.more s"
proof -
  let ?s = "call_from ra (set_reg RDI (old + 16) (set_reg RSI (t_rsp (thr_mem s new)) s))"
  have c: "sp ?s = sp s - 8" "stk ?s (sp s - 8) = ra"
    "regs ?s = (regs s)(RSI := t_rsp (thr_mem s new), RDI := old + 16)"
    by (simp_all add: call_from_def push_def set_reg_def)
  show "sp (saved ra old new s) = sp s - 128" by (simp add: saved_def save_context_run c)
  show "regs (saved ra old new s) RSI = t_rsp (thr_mem s new)" by (simp add: saved_def save_context_run c)
  show "frame_at (stk (saved ra old new s)) (sp s - 128)
      ((regs s)(RSI := t_rsp (thr_mem s new), RDI := old + 16)) ra"
    using save_context_frame [of ?s] c by (simp add: saved_def)
  show "ctx.more (saved ra old new s) = ctx.more s"
    by (simp add: saved_def save_context_more call_regs_sys)
qed

lemma saved_other: "128 \<le> a - (sp s - 128) \<Longrightarrow> stk (saved ra old new s) a = stk s a"
proof -
  let ?s = "call_from ra (set_reg RDI (old + 16) (set_reg RSI (t_rsp (thr_mem s new)) s))"
  assume a: "128 \<le> a - (sp s - 128)"
  have "sp ?s = sp s - 8" by (simp add: call_from_def push_def set_reg_def)
  moreover have "120 \<le> a - (sp s - 8 - 120)" using a by (simp add: word_le_nat_alt)
  ultimately have "stk (saved ra old new s) a = stk ?s a"
    unfolding saved_def by (intro save_context_frame_only) simp
  moreover have "a \<noteq> sp s - 8" using a by auto
  ultimately show ?thesis by (simp add: call_from_def push_def set_reg_def)
qed

lemma switch_to_eq:
  "switch_to ra old new s =
     load_context (t_rsp (thr_mem s new)) (upd_thread old (\<lambda>x. x\<lparr>t_rsp := sp s - 128\<rparr>) (saved ra old new s))"
  by (simp add: switch_to_def Let_def saved_run flip: saved_def)

lemma switch_to_table:
  "threads (switch_to ra old new s) = threads s" "tid_index_dict (switch_to ra old new s) = tid_index_dict s"
  "tid_global (switch_to ra old new s) = tid_global s" "empty_at (switch_to ra old new s) = empty_at s"
  "cur_thread_index (switch_to ra old new s) = cur_thread_index s"
  "semtable (switch_to ra old new s) = semtable s" "sid_mem (switch_to ra old new s) = sid_mem s"
  "pipe_mem (switch_to ra old new s) = pipe_mem s" "int_flag (switch_to ra old new s)"
  "thr_mem (switch_to ra old new s) = (thr_mem s)(old := (thr_mem s old)\<lparr>t_rsp := sp s - 128\<rparr>)"
  by (simp_all add: switch_to_eq load_context_sys load_context_fields sys_of_more [OF saved_run(4)])

text \<open>The processor continues where the frame at the new thread's saved stack pointer says.\<close>

lemma switch_to_resumes:
  assumes "frame_at (stk s) (t_rsp (thr_mem s new)) rs ra'"
    "\<forall>i<16. 128 \<le> t_rsp (thr_mem s new) + 8 * of_nat i - (sp s - 128)"
  shows "pc (switch_to ra old new s) = ra'" "regs (switch_to ra old new s) = rs"
    "sp (switch_to ra old new s) = t_rsp (thr_mem s new) + 128"
proof -
  let ?u = "upd_thread old (\<lambda>x. x\<lparr>t_rsp := sp s - 128\<rparr>) (saved ra old new s)"
  have same: "stk ?u (t_rsp (thr_mem s new) + 8 * of_nat i) = stk s (t_rsp (thr_mem s new) + 8 * of_nat i)"
    if "i < 16" for i
    using saved_other [of "t_rsp (thr_mem s new) + 8 * of_nat i" s] assms(2) that by simp
  have "frame_at (stk ?u) (t_rsp (thr_mem s new)) rs ra'"
    using assms(1) same [of 15] same unfolding frame_at_def by simp
  from load_context_frame [OF this] show "pc (switch_to ra old new s) = ra'"
    "regs (switch_to ra old new s) = rs" "sp (switch_to ra old new s) = t_rsp (thr_mem s new) + 128"
    unfolding switch_to_eq by simp_all
qed

section \<open>The scheduler\<close>

lemma runnable_cli [simp]: "runnable (io_cli s) = runnable s"
  by (simp add: runnable_def fun_eq_iff)

lemma thread_scheduler_eq:
  assumes "sched_find (io_cli s) (nat (cur_thread_index s)) 1 = Some i"
  obtains s1 where "thread_scheduler ra s =
      Inr (switch_to ra (threads s ! nat (cur_thread_index s)) (threads s ! i) s1)"
    "thr_mem s1 = thr_mem s" "threads s1 = threads s" "tid_index_dict s1 = tid_index_dict s"
    "tid_global s1 = tid_global s" "empty_at s1 = empty_at s" "cur_thread_index s1 = int i"
    "semtable s1 = semtable s" "sid_mem s1 = sid_mem s" "pipe_mem s1 = pipe_mem s"
    "stk s1 = stk s" "sp s1 = sp s" "regs s1 = regs s"
proof -
  let ?c = "nat (cur_thread_index s)"
  let ?old = "threads s ! ?c" and ?new = "threads s ! i"
  define s1 where "s1 = say_num ''cur thread rsp: '' (t_rsp (thr_mem s ?new))
    (say_num ''old thread rsp: '' (t_rsp (thr_mem s ?old))
      (say_num ''cur_thread_index: '' (word_of_int (int i))
        (say_num ''old_thread_index: '' (of_nat ?c) ((io_cli s)\<lparr>cur_thread_index := int i\<rparr>))))"
  have "thread_scheduler ra s = Inr (switch_to ra ?old ?new s1)"
    by (simp add: thread_scheduler_def Let_def assms [simplified] s1_def)
  then show thesis by (rule that) (simp_all add: s1_def)
qed

lemma thread_scheduler_spins:
  "(\<forall>k<THREAD_NUM. \<not> runnable s k) \<Longrightarrow> thread_scheduler ra s = Inl Spins"
  using sched_find_none [of "io_cli s"] by (simp add: thread_scheduler_def Let_def)

text \<open>The scheduler does not touch the clock of the timer interrupt.\<close>

lemma switch_to_clock:
  "tick (switch_to ra old new s) = tick s" "timer_period (switch_to ra old new s) = timer_period s"
  "previous_interrupt (switch_to ra old new s) = previous_interrupt s"
  by (simp_all add: switch_to_eq load_context_sys sys_of_more [OF saved_run(4)] upd_thread_def)

lemma thread_scheduler_clock:
  assumes "thread_scheduler ra s = Inr s'"
  shows "tick s' = tick s" "timer_period s' = timer_period s" "previous_interrupt s' = previous_interrupt s"
  using assms
  by (auto simp: thread_scheduler_def Let_def switch_to_clock say_num_upd io_cli_def split: option.splits)

text \<open>What a call of the scheduler leaves: the pick, and a table that differs only in the saved
  stack pointer of the thread it switched away from.\<close>

lemma thread_scheduler_spec:
  assumes ok: "table_ok s" and some: "\<exists>k<THREAD_NUM. runnable s k"
  obtains i s' where "0 < i" "i \<le> THREAD_NUM" "thread_scheduler ra s = Inr s'"
    "cur_thread_index s' = int ((nat (cur_thread_index s) + i) mod THREAD_NUM)"
    "runnable s ((nat (cur_thread_index s) + i) mod THREAD_NUM)"
    "\<And>j. j < THREAD_NUM \<Longrightarrow> runnable s j \<Longrightarrow> i \<le> ahead (nat (cur_thread_index s)) j"
    "table_ok s'" "live s' = live s" "runnable s' = runnable s" "threads s' = threads s"
    "tid_index_dict s' = tid_index_dict s" "semtable s' = semtable s" "int_flag s'"
    "\<exists>old v. thr_mem s' = (thr_mem s)(old := (thr_mem s old)\<lparr>t_rsp := v\<rparr>)"
proof -
  let ?c = "nat (cur_thread_index s)" and ?old = "threads s ! nat (cur_thread_index s)"
  have c: "?c < THREAD_NUM" using table_okD(3,4) [OF ok] by simp
  obtain i where i: "0 < i" "i \<le> THREAD_NUM" "sched_find (io_cli s) ?c 1 = Some ((?c + i) mod THREAD_NUM)"
    "runnable s ((?c + i) mod THREAD_NUM)"
    "\<And>j. j < THREAD_NUM \<Longrightarrow> runnable s j \<Longrightarrow> i \<le> ahead ?c j"
    using sched_find_pick [OF c, of "io_cli s"] some by auto
  let ?n = "(?c + i) mod THREAD_NUM"
  have n: "?n < THREAD_NUM" by (simp add: THREAD_NUM_def)
  obtain s1 where s1: "thread_scheduler ra s = Inr (switch_to ra ?old (threads s ! ?n) s1)"
    "thr_mem s1 = thr_mem s" "threads s1 = threads s" "tid_index_dict s1 = tid_index_dict s"
    "tid_global s1 = tid_global s" "empty_at s1 = empty_at s" "cur_thread_index s1 = int ?n"
    "semtable s1 = semtable s"
    using thread_scheduler_eq [OF i(3)] .
  let ?s' = "switch_to ra ?old (threads s ! ?n) s1"
  have mem: "thr_mem ?s' = (thr_mem s)(?old := (thr_mem s ?old)\<lparr>t_rsp := sp s1 - 128\<rparr>)"
    by (simp add: switch_to_table s1)
  have same: "t_state (thr_mem ?s' a) = t_state (thr_mem s a)"
    "t_index (thr_mem ?s' a) = t_index (thr_mem s a)" "t_tid (thr_mem ?s' a) = t_tid (thr_mem s a)" for a
    by (simp_all add: mem)
  have lv: "live ?s' = live s" by (simp add: live_def switch_to_table s1 fun_eq_iff)
  have "table_ok ?s'"
    using ok n unfolding table_ok_def lv same by (simp add: switch_to_table s1)
  moreover have "runnable ?s' = runnable s"
    by (simp add: runnable_def same switch_to_table s1 fun_eq_iff)
  moreover have "\<exists>old v. thr_mem ?s' = (thr_mem s)(old := (thr_mem s old)\<lparr>t_rsp := v\<rparr>)"
    using mem by blast
  ultimately show thesis
    using i s1(1) lv by (intro that [of i ?s']) (simp_all add: switch_to_table s1)
qed

text \<open>The same for a call that has returned.\<close>

lemma thread_scheduler_returned:
  assumes ok: "table_ok s" and ret: "thread_scheduler ra s = Inr s'"
  obtains i where "0 < i" "i \<le> THREAD_NUM" "cur_thread_index s' = int ((nat (cur_thread_index s) + i) mod THREAD_NUM)"
    "runnable s ((nat (cur_thread_index s) + i) mod THREAD_NUM)"
    "\<And>j. j < THREAD_NUM \<Longrightarrow> runnable s j \<Longrightarrow> i \<le> ahead (nat (cur_thread_index s)) j"
    "table_ok s'" "live s' = live s" "runnable s' = runnable s" "threads s' = threads s"
    "tid_index_dict s' = tid_index_dict s" "semtable s' = semtable s" "int_flag s'"
    "\<exists>old v. thr_mem s' = (thr_mem s)(old := (thr_mem s old)\<lparr>t_rsp := v\<rparr>)"
proof -
  have "\<exists>k<THREAD_NUM. runnable s k"
    using thread_scheduler_spins [of s ra] ret by (cases "\<exists>k<THREAD_NUM. runnable s k") auto
  then show thesis
  proof (rule thread_scheduler_spec [OF ok, where ra = ra], goal_cases)
    case (1 i t)
    have "t = s'" using 1(3) ret by simp
    from that [OF 1(1,2,4-14) [unfolded this]] show ?thesis .
  qed
qed

section \<open>The contract\<close>

interpretation ts: round_robin thread_scheduler table_ok "\<lambda>s. nat (cur_thread_index s)" runnable
proof (unfold_locales, goal_cases)
  case (1 s)
  then show ?case using table_okD(3,4) [of s] by simp
next
  case (2 s k ra)
  then show ?case using thread_scheduler_spec [of s ra] by metis
next
  case (3 s ra s')
  then show ?case by (rule thread_scheduler_returned) simp
next
  case (4 s ra s' k)
  from 4(1,2) show ?case
  proof (rule thread_scheduler_returned)
    fix i assume i: "0 < i" "i \<le> THREAD_NUM" "cur_thread_index s' = int ((nat (cur_thread_index s) + i) mod THREAD_NUM)"
      "\<And>j. j < THREAD_NUM \<Longrightarrow> runnable s j \<Longrightarrow> i \<le> ahead (nat (cur_thread_index s)) j"
    have "nat (cur_thread_index s) < THREAD_NUM" using table_okD(3,4) [OF 4(1)] by simp
    from ahead_unique [OF this i(1,2)] show ?thesis using i(4) [OF 4(3,4)] by (simp add: i(3))
  qed
next
  case (5 s ra s')
  then show ?case by (rule thread_scheduler_returned)
next
  case (6 s ra s')
  then show ?case by (rule thread_scheduler_returned)
qed

section \<open>A concrete table\<close>

text \<open>Two threads, in slots 0 and 1, of forty; the processor runs the first.\<close>

definition demo_thread :: "thread_state \<Rightarrow> int \<Rightarrow> u64 \<Rightarrow> thread" where
  "demo_thread st i rsp = empty_thread\<lparr>t_state := st, t_tid := i, t_ptid := - 1, t_index := i, t_rsp := rsp,
     t_sid_ptr := 0x2000 + word_of_int i, t_ctid := replicate NTHREAD_CHILD (- 1)\<rparr>"

definition demo_entry :: semtable_entry where
  "demo_entry = \<lparr>semstate = 0, semcount = 0, semqueue = \<lparr>qs_head = 0, qs_num = 0, qs_que = replicate 30 0\<rparr>\<rparr>"

definition demo_table :: "thread_state \<Rightarrow> thread_state \<Rightarrow> sys" where
  "demo_table st0 st1 = ctx.extend machine0 (sys.fields
     (\<lambda>a. if a = 0x300000 then demo_thread st0 0 0xa000 else if a = 0x300080 then demo_thread st1 1 0xc000
          else empty_thread)
     (\<lambda>_. 0) (\<lambda>_. \<lparr>pipe_ptr = 0, pstate = EMPTY\<rparr>) 0x200000
     (0x300000 # 0x300080 # replicate 38 0x200000) 0 2 (0 # 1 # replicate 38 0) 0 0 0
     (replicate 100 demo_entry))"

lemma demo_fields:
  "threads (demo_table a b) = 0x300000 # 0x300080 # replicate 38 0x200000"
  "tid_index_dict (demo_table a b) = 0 # 1 # replicate 38 0" "cur_thread_index (demo_table a b) = 0"
  "tid_global (demo_table a b) = 2" "empty_at (demo_table a b) = 0x200000"
  "thr_mem (demo_table a b) = (\<lambda>p. if p = 0x300000 then demo_thread a 0 0xa000
     else if p = 0x300080 then demo_thread b 1 0xc000 else empty_thread)"
  "semtable (demo_table a b) = replicate 100 demo_entry" "sid_mem (demo_table a b) = (\<lambda>_. 0)"
  "sp (demo_table a b) = 0x8f00" "stk (demo_table a b) = stk machine0"
  by (simp_all add: demo_table_def ctx.defs sys.defs machine0_def screen.defs blank_screen_def)

lemma demo_slot: "i < 40 \<Longrightarrow> threads (demo_table a b) ! i =
    (if i = 0 then 0x300000 else if i = 1 then 0x300080 else 0x200000)"
  by (auto simp: demo_fields nth_Cons' )

lemma demo_live: "live (demo_table a b) i \<longleftrightarrow> i = 0 \<or> i = 1"
  by (auto simp: live_def demo_slot demo_fields(5) THREAD_NUM_def split: if_splits)

lemma demo_table_ok:
  assumes "a \<noteq> DEAD" "b \<noteq> DEAD"
  shows "table_ok (demo_table a b)"
proof -
  have "(0 # 1 # replicate 38 0) ! i < max 1 (2 :: int)" if "i < 40" for i
    using that by (auto simp: nth_Cons')
  then show ?thesis
    using assms unfolding table_ok_def demo_live
    by (auto simp: demo_fields THREAD_NUM_def demo_thread_def empty_thread_def less_Suc_eq)
qed

lemma demo_runnable: "i < 40 \<Longrightarrow> runnable (demo_table a b) i \<longleftrightarrow> i = 0 \<and> a = RUNNABLE \<or> i = 1 \<and> b = RUNNABLE"
  by (simp add: runnable_def demo_slot demo_fields(6) demo_thread_def empty_thread_def)

text \<open>The scheduler called again and again.\<close>

primrec demo_run :: "nat \<Rightarrow> sys" where
  "demo_run 0 = demo_table RUNNABLE RUNNABLE"
| "demo_run (Suc n) = projr (thread_scheduler 0 (demo_run n))"

lemma demo_run_ok:
  "table_ok (demo_run n) \<and> runnable (demo_run n) = runnable (demo_table RUNNABLE RUNNABLE) \<and>
   (\<exists>s'. thread_scheduler 0 (demo_run n) = Inr s')"
proof -
  have n: "0 < THREAD_NUM" by (simp add: THREAD_NUM_def)
  have r: "runnable (demo_table RUNNABLE RUNNABLE) 0" using demo_runnable [of 0] by simp
  have inv: "table_ok (demo_run n) \<and> runnable (demo_run n) = runnable (demo_table RUNNABLE RUNNABLE)"
  proof (induction n)
    case 0
    show ?case using demo_table_ok by simp
  next
    case (Suc n)
    then obtain s' where s': "thread_scheduler 0 (demo_run n) = Inr s'"
      using ts.returns [of "demo_run n" 0 0] n r by auto
    then show ?case using ts.keeps_ok [OF _ s'] ts.keeps_ready [OF _ s'] Suc by simp
  qed
  then show ?thesis using ts.returns [of "demo_run n" 0 0] n r by simp
qed

section \<open>Properties\<close>

text \<open>
  C2. The scheduler picks the next runnable thread in cyclic order after the current one: none
  that is nearer is runnable. It keeps the table well-formed and returns with interrupts enabled.
\<close>

theorem scheduler_picks_next:
  assumes "table_ok s" "k < THREAD_NUM" "runnable s k"
  shows "\<exists>s' j. thread_scheduler ra s = Inr s' \<and> cur_thread_index s' = int j \<and> j < THREAD_NUM \<and>
    runnable s j \<and> (\<forall>l<THREAD_NUM. runnable s l \<longrightarrow>
      ahead (nat (cur_thread_index s)) j \<le> ahead (nat (cur_thread_index s)) l) \<and> table_ok s' \<and> int_flag s'"
proof -
  obtain s' where s': "thread_scheduler ra s = Inr s'" using ts.returns [OF assms] by blast
  note post = ts.picks_ready [OF assms(1) s'] ts.next_slot [OF assms(1) s'] ts.keeps_ok [OF assms(1) s']
  have "int_flag s'" by (rule thread_scheduler_returned [OF assms(1) s'])
  then show ?thesis
    using s' post ts.picks_nearest [OF assms(1) s'] table_okD(3) [OF post(3)]
    by (intro exI [of _ s'] exI [of _ "nat (cur_thread_index s')"]) simp
qed

theorem scheduler_picks_next_witness:
  "\<exists>s' j. thread_scheduler 0 (demo_table WAIT RUNNABLE) = Inr s' \<and> cur_thread_index s' = int j \<and> table_ok s'"
  using scheduler_picks_next [of "demo_table WAIT RUNNABLE" 1 0] demo_table_ok [of WAIT RUNNABLE]
    demo_runnable [of 1 WAIT RUNNABLE] by (auto simp: THREAD_NUM_def)

text \<open>
  With interrupts disabled, the scheduler searches for ever exactly when no slot of the table
  holds a runnable thread: the last runnable thread that waits stops the machine.
\<close>

theorem scheduler_spins_iff:
  assumes "table_ok s"
  shows "thread_scheduler ra s = Inl Spins \<longleftrightarrow> \<not> (\<exists>k<THREAD_NUM. runnable s k)"
proof (cases "\<exists>k<THREAD_NUM. runnable s k")
  case True
  obtain s' where "thread_scheduler ra s = Inr s'" using ts.returns [OF assms] True by blast
  with True show ?thesis by simp
next
  case False
  then show ?thesis using thread_scheduler_spins [of s ra] by simp
qed

theorem scheduler_spins_iff_witness: "thread_scheduler 0 (demo_table WAIT SLEEP) = Inl Spins"
  using scheduler_spins_iff [of "demo_table WAIT SLEEP" 0] demo_table_ok [of WAIT SLEEP]
    demo_runnable [of _ WAIT SLEEP] by (auto simp: THREAD_NUM_def)

text \<open>
  C12. No starvation: in any run of the kernel in which the scheduler is called again and again
  (with anything in between that leaves \<open>cur_thread_index\<close> alone), a thread that stays runnable
  gets the processor within \<open>THREAD_NUM\<close> calls.
\<close>

theorem round_robin_fair:
  assumes "\<forall>n. table_ok (run n)" "\<forall>n. runnable (run n) j" "j < THREAD_NUM"
    and "\<forall>n. \<exists>s'. thread_scheduler (ra n) (run n) = Inr s' \<and>
      cur_thread_index (run (Suc n)) = cur_thread_index s'"
  shows "\<exists>n. 0 < n \<and> n \<le> THREAD_NUM \<and> cur_thread_index (run n) = int j"
proof -
  have "\<exists>r s'. thread_scheduler r (run n) = Inr s' \<and> nat (cur_thread_index (run (Suc n))) = nat (cur_thread_index s')" for n
    using assms(4) by metis
  from ts.fair [of run j, OF assms(1,2) [rule_format] assms(3) this]
  obtain n where "0 < n" "n \<le> THREAD_NUM" "nat (cur_thread_index (run n)) = j" by blast
  then show ?thesis using table_okD(3) [OF assms(1) [rule_format, of n]] by (intro exI [of _ n]) auto
qed

theorem round_robin_fair_witness:
  "\<exists>n. 0 < n \<and> n \<le> THREAD_NUM \<and> cur_thread_index (demo_run n) = int 1"
proof -
  have r: "runnable (demo_table RUNNABLE RUNNABLE) 1" using demo_runnable [of 1] by simp
  have n: "1 < THREAD_NUM" by (simp add: THREAD_NUM_def)
  have "\<forall>n. \<exists>s'. thread_scheduler 0 (demo_run n) = Inr s' \<and> cur_thread_index (demo_run (Suc n)) = cur_thread_index s'"
    using demo_run_ok by (metis demo_run.simps(2) sum.sel(2))
  with round_robin_fair [of demo_run 1 "\<lambda>_. 0"] demo_run_ok r n show ?thesis by simp
qed

text \<open>
  A thread that is the only runnable one does not survive a call of the scheduler: the
  scheduler picks it again, but \<open>switch_context\<close> is given the stack pointer saved at the thread's
  previous switch, read before the current one is saved, so the processor goes back to where
  that old frame leads instead of returning to the caller.
\<close>

theorem scheduler_self_switch_stale:
  assumes "table_ok s" "c = nat (cur_thread_index s)" "{k. k < THREAD_NUM \<and> runnable s k} = {c}"
    and "frame_at (stk s) (t_rsp (thr_mem s (threads s ! c))) old_regs old_ra"
    and "\<forall>i<16. 128 \<le> t_rsp (thr_mem s (threads s ! c)) + 8 * of_nat i - (sp s - 128)"
  shows "\<exists>s'. thread_scheduler ra s = Inr s' \<and> cur_thread_index s' = cur_thread_index s \<and>
    pc s' = old_ra \<and> regs s' = old_regs \<and> sp s' = t_rsp (thr_mem s (threads s ! c)) + 128"
proof -
  have c: "c < THREAD_NUM" "runnable s c" using assms(3) by auto
  obtain i where i: "0 < i" "i \<le> THREAD_NUM" "sched_find (io_cli s) c 1 = Some ((c + i) mod THREAD_NUM)"
    "runnable s ((c + i) mod THREAD_NUM)"
    using sched_find_pick [OF c(1), of "io_cli s"] c by auto
  have "(c + i) mod THREAD_NUM < THREAD_NUM" by (simp add: THREAD_NUM_def)
  then have ic: "(c + i) mod THREAD_NUM = c" using assms(3) i(4) by blast
  have "sched_find (io_cli s) (nat (cur_thread_index s)) 1 = Some c" using i(3) ic assms(2) by simp
  from thread_scheduler_eq [OF this, of ra, folded assms(2)] obtain s1
    where s1: "thread_scheduler ra s = Inr (switch_to ra (threads s ! c) (threads s ! c) s1)"
      "thr_mem s1 = thr_mem s" "cur_thread_index s1 = int c" "stk s1 = stk s" "sp s1 = sp s" by blast
  have "int c = cur_thread_index s" using table_okD(3) [OF assms(1)] assms(2) by simp
  then show ?thesis
    using s1 switch_to_resumes [of s1 "threads s ! c" old_regs old_ra ra "threads s ! c"] assms(4,5)
    by (simp add: switch_to_table)
qed

theorem scheduler_self_switch_stale_witness:
  "\<exists>s'. thread_scheduler 0x101234 (demo_table RUNNABLE WAIT) = Inr s' \<and> pc s' = 0"
proof -
  let ?s = "demo_table RUNNABLE WAIT"
  have rsp: "t_rsp (thr_mem ?s (threads ?s ! nat (cur_thread_index ?s))) = 0xa000"
    by (simp add: demo_fields demo_thread_def)
  have "{k. k < THREAD_NUM \<and> runnable ?s k} = {nat (cur_thread_index ?s)}"
    using demo_runnable [of _ RUNNABLE WAIT] by (auto simp: THREAD_NUM_def demo_fields)
  moreover have "frame_at (stk ?s) 0xa000 (\<lambda>_. 0) 0"
    unfolding frame_at_iff by (simp add: demo_fields machine0_def screen.defs ctx.defs blank_screen_def)
  moreover have "\<forall>i<16. 128 \<le> 0xa000 + 8 * of_nat i - (sp ?s - 128)"
  proof (intro allI impI)
    fix i :: nat assume "i < 16"
    then have "unat (0x1180 + 8 * of_nat i :: u64) = 0x1180 + 8 * i"
      by (simp add: unat_word_ariths unat_of_nat take_bit_nat_eq_self)
    moreover have "0xa000 + 8 * of_nat i - (sp ?s - 128) = 0x1180 + 8 * of_nat i"
      by (simp add: demo_fields)
    ultimately show "128 \<le> 0xa000 + 8 * of_nat i - (sp ?s - 128)" by (simp add: word_le_nat_alt)
  qed
  ultimately show ?thesis
    using scheduler_self_switch_stale [OF demo_table_ok refl, of RUNNABLE WAIT "\<lambda>_. 0" 0 "0x101234"] rsp
    by auto
qed

text \<open>
  The tid of a live thread leads to its structure, although unused entries of
  \<open>tid_index_dict\<close> hold 0, the tid of the first thread; and the current tid is the tid of the
  thread in the current slot. \<open>get_cur_thread_tid\<close> leaves interrupts enabled.
\<close>

theorem thread_lookup:
  assumes "table_ok s" "live s i"
  shows "get_thread_ptr (t_tid (thr_mem s (threads s ! i))) s = Inr (threads s ! i, s) \<and>
    (cur_thread_index s = int i \<longrightarrow>
      get_cur_thread_tid s = Inr (t_tid (thr_mem s (threads s ! i)), s\<lparr>int_flag := True\<rparr>))"
  using get_thread_ptr_live [OF assms] get_cur_thread_tid_ok [OF assms(1)] table_ok_live(2) [OF assms]
  by (auto simp: io_sti_def io_cli_def)

theorem thread_lookup_witness:
  "get_thread_ptr 1 (demo_table RUNNABLE WAIT) = Inr (0x300080, demo_table RUNNABLE WAIT)"
  using thread_lookup [OF demo_table_ok, of RUNNABLE WAIT 1]
  by (simp add: demo_live) (simp add: demo_fields demo_thread_def)

end
