(* ===== verification/Semaphore.thy ===== *)
theory Semaphore
  imports Scheduler
begin

text \<open>
  kernel/semaphore.c: the table of counting semaphores, each with a circular queue of waiting
  threads. A return value behind a call of \<open>thread_scheduler\<close> is what the caller gets when it is
  switched back to; the state is the one right after the switch.
\<close>

section \<open>Operations\<close>

definition NSEM :: nat where "NSEM = 100"

definition NSEMQUEUE :: nat where "NSEMQUEUE = 30"

definition S_FREE :: int where "S_FREE = 0"

definition S_USED :: int where "S_USED = 1"

definition isbadsem :: "int \<Rightarrow> bool" where
  "isbadsem s \<longleftrightarrow> s < 0 \<or> s \<ge> int NSEM"

definition sem_entry :: "int \<Rightarrow> 'z sys_scheme \<Rightarrow> semtable_entry outcome" where
  "sem_entry sem s = array_get (semtable s) sem"

definition put_entry :: "int \<Rightarrow> semtable_entry \<Rightarrow> 'z sys_scheme \<Rightarrow> 'z sys_scheme" where
  "put_entry sem e s = s\<lparr>semtable := (semtable s)[nat sem := e]\<rparr>"

definition flush_que :: "queue_sem \<Rightarrow> queue_sem" where
  "flush_que que = que\<lparr>qs_que := array_fill NSEMQUEUE (- 1) (qs_que que), qs_head := 0, qs_num := 0\<rparr>"

definition flush_queue_sem :: "int \<Rightarrow> 'z sys_scheme \<Rightarrow> 'z sys_scheme outcome" where
  "flush_queue_sem sem s =
     and_then (sem_entry sem s) (\<lambda>e. Inr (put_entry sem (e\<lparr>semqueue := flush_que (semqueue e)\<rparr>) s))"

definition enqueue_que :: "queue_sem \<Rightarrow> int \<Rightarrow> int \<times> queue_sem" where
  "enqueue_que que tid =
     (if qs_num que < NSEMQUEUE
      then (1, que\<lparr>qs_que := (qs_que que)[(qs_head que + qs_num que) mod NSEMQUEUE := tid],
                   qs_num := qs_num que + 1\<rparr>)
      else (0, que))"

definition dequeue_que :: "queue_sem \<Rightarrow> int \<Rightarrow> int \<times> int \<times> queue_sem" where
  "dequeue_que que tid =
     (if qs_num que > 0
      then (1, qs_que que ! qs_head que,
            que\<lparr>qs_head := (qs_head que + 1) mod NSEMQUEUE, qs_num := qs_num que - 1\<rparr>)
      else (0, tid, que))"

definition enqueue_sem :: "int \<Rightarrow> int \<Rightarrow> 'z sys_scheme \<Rightarrow> (int \<times> 'z sys_scheme) outcome" where
  "enqueue_sem tid sem s =
     and_then (sem_entry sem s) (\<lambda>e.
       let (r, q) = enqueue_que (semqueue e) tid in Inr (r, put_entry sem (e\<lparr>semqueue := q\<rparr>) s))"

definition dequeue_sem :: "int \<Rightarrow> int \<Rightarrow> 'z sys_scheme \<Rightarrow> (int \<times> int \<times> 'z sys_scheme) outcome" where
  "dequeue_sem tid sem s =
     and_then (sem_entry sem s) (\<lambda>e.
       let (r, tid, q) = dequeue_que (semqueue e) tid
       in Inr (r, tid, put_entry sem (e\<lparr>semqueue := q\<rparr>) s))"

definition get_semcount :: "int \<Rightarrow> 'z sys_scheme \<Rightarrow> int outcome" where
  "get_semcount sem s = and_then (sem_entry sem s) (\<lambda>e. Inr (semcount e))"

definition newsem :: "'z sys_scheme \<Rightarrow> int \<times> 'z sys_scheme" where
  "newsem s =
     (case find_up NSEM (\<lambda>i. semstate (semtable s ! i) = S_FREE) 0 of
        Some i \<Rightarrow> (int i, put_entry (int i) ((semtable s ! i)\<lparr>semstate := S_USED\<rparr>) s)
      | None \<Rightarrow> (- 1, s))"

definition create_sem :: "int \<Rightarrow> 'z sys_scheme \<Rightarrow> (int \<times> 'z sys_scheme) outcome" where
  "create_sem init_count s =
     (if init_count < 0 then Inr (- 1, s)
      else let (sid, s) = newsem s in
        if sid < 0 then Inr (- 1, s)
        else and_then (sem_entry sid s) (\<lambda>e.
          Inr (sid, put_entry sid (e\<lparr>semcount := init_count, semqueue := flush_que (semqueue e)\<rparr>) s)))"

text \<open>\<open>STI_RET0_IF_ERR(x)\<close>: leave with 0 and interrupts enabled unless \<open>x\<close>.\<close>

definition sti_ret0_if_err ::
  "bool \<Rightarrow> 'z sys_scheme \<Rightarrow> (int \<times> 'z sys_scheme) outcome \<Rightarrow> (int \<times> 'z sys_scheme) outcome" where
  "sti_ret0_if_err x s continue = (if \<not> x then Inr (0, io_sti s) else continue)"

text \<open>
  After \<open>thread_scheduler\<close> the processor runs another thread. The state returned here is the one that
  thread starts from; the number is what the caller of \<open>wait\<close> or \<open>signal\<close> gets once the scheduler
  comes back to it. Its last \<open>io_sti\<close>, executed then, is kept in the definition: interrupts are
  enabled by the switch already.
\<close>

definition wait_sem :: "u64 \<Rightarrow> int \<Rightarrow> 'z sys_scheme \<Rightarrow> (int \<times> 'z sys_scheme) outcome" where
  "wait_sem ra sem s =
     (let s = io_cli s in
      sti_ret0_if_err (\<not> isbadsem sem) s (
      and_then (sem_entry sem s) (\<lambda>e.
      sti_ret0_if_err (semstate e = S_USED) s (
        let s = put_entry sem (e\<lparr>semcount := semcount e - 1\<rparr>) s in
        and_then (sem_entry sem s) (\<lambda>e.
          if semcount e < 0 then
            and_then (get_cur_thread_tid s) (\<lambda>(tid, s).
            and_then (change_state tid WAIT s) (\<lambda>(r, s).
            sti_ret0_if_err (r \<noteq> 0) s (
            and_then (get_thread_ptr tid s) (\<lambda>(t, s).
              let s = s\<lparr>sid_mem := (sid_mem s)(t_sid_ptr (thr_mem s t) := sem)\<rparr> in
              and_then (enqueue_sem tid sem s) (\<lambda>(r, s).
              sti_ret0_if_err (r \<noteq> 0) s (
                let s = say_num ''enqueue tid: '' (word_of_int tid) s in
                and_then (thread_scheduler ra s) (\<lambda>s. Inr (1, io_sti s))))))))
          else Inr (1, io_sti s))))))"

definition signal_sem :: "u64 \<Rightarrow> int \<Rightarrow> 'z sys_scheme \<Rightarrow> (int \<times> 'z sys_scheme) outcome" where
  "signal_sem ra sem s =
     (let s = io_cli s in
      sti_ret0_if_err (\<not> isbadsem sem) s (
      and_then (sem_entry sem s) (\<lambda>e.
      sti_ret0_if_err (semstate e = S_USED) s (
        if semcount e < 0 then
          let s = put_entry sem (e\<lparr>semcount := semcount e + 1\<rparr>) s in
          and_then (dequeue_sem 0 sem s) (\<lambda>(r, tid, s).
          sti_ret0_if_err (r \<noteq> 0) s (
            let s = say_num ''dequeue tid: '' (word_of_int tid) s in
            and_then (change_state tid RUNNABLE s) (\<lambda>(r, s).
            sti_ret0_if_err (r \<noteq> 0) s (
              and_then (thread_scheduler ra s) (\<lambda>s. Inr (1, io_sti s))))))
        else Inr (1, io_sti s)))))"

primrec wake_all :: "nat \<Rightarrow> int \<Rightarrow> 'z sys_scheme \<Rightarrow> (int \<times> 'z sys_scheme) outcome" where
  "wake_all 0 sem s = Inr (1, io_sti s)"
| "wake_all (Suc n) sem s =
     and_then (dequeue_sem 0 sem s) (\<lambda>(r, tid, s).
     sti_ret0_if_err (r \<noteq> 0) s (
       and_then (change_state tid RUNNABLE s) (\<lambda>(r, s).
       sti_ret0_if_err (r \<noteq> 0) s (wake_all n sem s))))"

text \<open>The two guards of \<open>delete_sem\<close> are written without the negation that \<open>wait\<close> has.\<close>

definition delete_sem :: "int \<Rightarrow> 'z sys_scheme \<Rightarrow> (int \<times> 'z sys_scheme) outcome" where
  "delete_sem sem s =
     (let s = io_cli s in
      sti_ret0_if_err (isbadsem sem) s (
      and_then (sem_entry sem s) (\<lambda>e.
      sti_ret0_if_err (semstate e = S_FREE) s (
        let s = put_entry sem (e\<lparr>semstate := S_FREE\<rparr>) s
        in wake_all (qs_num (semqueue e)) sem s))))"

section \<open>The queue is a bounded FIFO\<close>

definition que_ok :: "queue_sem \<Rightarrow> bool" where
  "que_ok que \<longleftrightarrow> qs_head que < NSEMQUEUE \<and> qs_num que \<le> NSEMQUEUE \<and> length (qs_que que) = NSEMQUEUE"

definition waiting :: "queue_sem \<Rightarrow> int list" where
  "waiting que = ring_list NSEMQUEUE (qs_head que) (qs_num que) (qs_que que)"

interpretation qs: bounded_fifo enqueue_que dequeue_que waiting que_ok NSEMQUEUE
proof unfold_locales
  fix q x
  assume "que_ok q" "length (waiting q) < NSEMQUEUE"
  then show "\<exists>q'. enqueue_que q x = (1, q') \<and> que_ok q' \<and> waiting q' = waiting q @ [x]"
    by (auto simp: enqueue_que_def que_ok_def waiting_def ring_list_snoc)
next
  fix q x
  assume "que_ok q" "NSEMQUEUE \<le> length (waiting q)"
  then show "enqueue_que q x = (0, q)" by (simp add: enqueue_que_def waiting_def)
next
  fix q y ys d
  assume a: "que_ok q" "waiting q = y # ys"
  then have "0 < qs_num q" by (cases "qs_num q") (auto simp: waiting_def)
  moreover have "(qs_head q + 1) mod NSEMQUEUE < NSEMQUEUE" by (simp add: NSEMQUEUE_def)
  ultimately show "\<exists>q'. dequeue_que q d = (1, y, q') \<and> que_ok q' \<and> waiting q' = ys"
    using a ring_list_Cons [of "qs_num q" "qs_head q" NSEMQUEUE "qs_que q"]
    by (auto simp: dequeue_que_def que_ok_def waiting_def)
next
  fix q d
  assume "que_ok q" "waiting q = []"
  then show "dequeue_que q d = (0, d, q)" by (simp add: dequeue_que_def waiting_def)
next
  fix q
  assume "que_ok q"
  then show "length (waiting q) \<le> NSEMQUEUE" by (simp add: waiting_def que_ok_def)
qed

lemma flush_que_ok:
  "length (qs_que que) = NSEMQUEUE \<Longrightarrow> que_ok (flush_que que) \<and> waiting (flush_que que) = []"
  by (simp add: que_ok_def waiting_def flush_que_def NSEMQUEUE_def)

section \<open>The invariant\<close>

text \<open>In a used semaphore the queue holds as many threads as the counter is below zero.\<close>

definition entry_ok :: "semtable_entry \<Rightarrow> bool" where
  "entry_ok e \<longleftrightarrow> que_ok (semqueue e) \<and>
     (semstate e = S_USED \<longrightarrow> int (length (waiting (semqueue e))) = max 0 (- semcount e))"

definition sems_ok :: "'z sys_scheme \<Rightarrow> bool" where
  "sems_ok s \<longleftrightarrow> length (semtable s) = NSEM \<and> (\<forall>i<NSEM. entry_ok (semtable s ! i))"

lemma sems_ok_put:
  "sems_ok s \<Longrightarrow> entry_ok e \<Longrightarrow> sems_ok (put_entry sem e s)"
  by (cases "nat sem < length (semtable s)")
    (auto simp: sems_ok_def put_entry_def nth_list_update list_update_beyond)

lemma sems_ok_cong: "semtable s' = semtable s \<Longrightarrow> sems_ok s' = sems_ok s"
  by (simp add: sems_ok_def)

lemma sem_entry_good:
  assumes "sems_ok s" "\<not> isbadsem sem"
  shows "sem_entry sem s = Inr (semtable s ! nat sem)" "entry_ok (semtable s ! nat sem)" "nat sem < NSEM"
  using assms by (auto simp: sem_entry_def array_get_def isbadsem_def sems_ok_def nat_less_iff)

lemma put_entry_sys [simp]:
  "semtable (put_entry sem e s) = (semtable s)[nat sem := e]"
  "thr_mem (put_entry sem e s) = thr_mem s" "threads (put_entry sem e s) = threads s"
  "tid_index_dict (put_entry sem e s) = tid_index_dict s" "tid_global (put_entry sem e s) = tid_global s"
  "cur_thread_index (put_entry sem e s) = cur_thread_index s" "empty_at (put_entry sem e s) = empty_at s"
  "sid_mem (put_entry sem e s) = sid_mem s" "pipe_mem (put_entry sem e s) = pipe_mem s"
  by (simp_all add: put_entry_def)

lemma table_ok_put [simp]: "table_ok (put_entry sem e s) = table_ok s" "live (put_entry sem e s) = live s"
  by (rule table_ok_cong; simp)+

section \<open>Creating\<close>

lemma newsem_some:
  assumes "find_up NSEM (\<lambda>i. semstate (semtable s ! i) = S_FREE) 0 = Some i"
  shows "newsem s = (int i, put_entry (int i) ((semtable s ! i)\<lparr>semstate := S_USED\<rparr>) s)"
  using assms by (simp add: newsem_def)

lemma create_sem_spec:
  assumes ok: "sems_ok s" and c: "0 \<le> c"
    and i: "find_up NSEM (\<lambda>i. semstate (semtable s ! i) = S_FREE) 0 = Some i"
  obtains s' e where "create_sem c s = Inr (int i, s')" "sems_ok s'" "i < NSEM"
    "semtable s' = (semtable s)[i := e]" "semstate e = S_USED" "semcount e = c"
    "waiting (semqueue e) = []" "entry_ok e" "semstate (semtable s ! i) = S_FREE"
    "threads s' = threads s" "thr_mem s' = thr_mem s" "tid_index_dict s' = tid_index_dict s"
    "cur_thread_index s' = cur_thread_index s" "tid_global s' = tid_global s" "empty_at s' = empty_at s"
proof -
  note first = find_up_Some [OF i]
  let ?used = "(semtable s ! i)\<lparr>semstate := S_USED\<rparr>"
  let ?e = "?used\<lparr>semcount := c, semqueue := flush_que (semqueue ?used)\<rparr>"
  have len: "length (semtable s) = NSEM" and e0: "que_ok (semqueue (semtable s ! i))"
    using ok first by (auto simp: sems_ok_def entry_ok_def)
  have fl: "que_ok (flush_que (semqueue ?used)) \<and> waiting (flush_que (semqueue ?used)) = []"
    using e0 flush_que_ok [of "semqueue (semtable s ! i)"] by (simp add: que_ok_def)
  have e: "entry_ok ?e" using fl c by (simp add: entry_ok_def)
  have "create_sem c s = Inr (int i, put_entry (int i) ?e (put_entry (int i) ?used s))"
    using c first len by (simp add: create_sem_def newsem_some [OF i] sem_entry_def array_get_def)
  moreover have "put_entry (int i) ?e (put_entry (int i) ?used s) = put_entry (int i) ?e s"
    by (simp add: put_entry_def)
  ultimately show thesis
    using first fl e sems_ok_put [OF ok e, of "int i"] by (intro that [of "put_entry (int i) ?e s" ?e]) simp_all
qed

section \<open>wait\<close>

lemma wait_sem_bad:
  "isbadsem sem \<Longrightarrow> wait_sem ra sem s = Inr (0, io_sti s)"
  "sems_ok s \<Longrightarrow> \<not> isbadsem sem \<Longrightarrow> semstate (semtable s ! nat sem) \<noteq> S_USED \<Longrightarrow>
     wait_sem ra sem s = Inr (0, io_sti s)"
proof -
  show "isbadsem sem \<Longrightarrow> wait_sem ra sem s = Inr (0, io_sti s)"
    by (simp add: wait_sem_def sti_ret0_if_err_def Let_def)
  assume a: "sems_ok s" "\<not> isbadsem sem" "semstate (semtable s ! nat sem) \<noteq> S_USED"
  have "sem_entry sem (io_cli s) = Inr (semtable s ! nat sem)"
    using sem_entry_good(1) [of "io_cli s" sem] a(1,2) sems_ok_cong [of "io_cli s" s] by simp
  then show "wait_sem ra sem s = Inr (0, io_sti s)"
    using a by (simp add: wait_sem_def sti_ret0_if_err_def Let_def)
qed

lemma wait_sem_free:
  assumes ok: "sems_ok s" "\<not> isbadsem sem" and e: "semtable s ! nat sem = e"
    and used: "semstate e = S_USED" "0 < semcount e"
  shows "wait_sem ra sem s = Inr (1, put_entry sem (e\<lparr>semcount := semcount e - 1\<rparr>) (io_sti s))"
proof -
  note g = sem_entry_good [OF ok]
  have len: "length (semtable s) = NSEM" using ok by (simp add: sems_ok_def)
  have s1: "sem_entry sem (io_cli s) = Inr e" using g(1) e by (simp add: sem_entry_def)
  have s2: "sem_entry sem (put_entry sem e' (io_cli s)) = Inr e'" for e'
    using ok(2) g(3) len by (auto simp: sem_entry_def array_get_def isbadsem_def)
  have "put_entry sem e' (io_cli s)\<lparr>int_flag := True\<rparr> = put_entry sem e' (io_sti s)" for e'
    by (simp add: put_entry_def io_cli_def io_sti_def)
  then show ?thesis
    using ok(2) used s1 s2 by (simp add: wait_sem_def sti_ret0_if_err_def Let_def) (simp add: io_sti_def)
qed

text \<open>The current thread blocks: the state handed to the scheduler.\<close>

lemma wait_sem_block:
  assumes ok: "table_ok s" "sems_ok s" "\<not> isbadsem sem" and e: "semtable s ! nat sem = e"
    and used: "semstate e = S_USED" "semcount e \<le> 0" and room: "qs_num (semqueue e) < NSEMQUEUE"
    and i: "live s i" "cur_thread_index s = int i" "threads s ! i \<noteq> 0"
  obtains s1 e1 where
    "wait_sem ra sem s = and_then (thread_scheduler ra s1) (\<lambda>s. Inr (1, io_sti s))"
    "semtable s1 = (semtable s)[nat sem := e1]" "semcount e1 = semcount e - 1" "entry_ok e1"
    "waiting (semqueue e1) = waiting (semqueue e) @ [t_tid (thr_mem s (threads s ! i))]"
    "semstate e1 = S_USED"
    "thr_mem s1 = (thr_mem s)(threads s ! i := (thr_mem s (threads s ! i))\<lparr>t_state := WAIT\<rparr>)"
    "threads s1 = threads s" "table_ok s1" "live s1 = live s" "cur_thread_index s1 = cur_thread_index s"
    "sid_mem s1 = (sid_mem s)(t_sid_ptr (thr_mem s (threads s ! i)) := sem)" "sems_ok s1"
    "tid_index_dict s1 = tid_index_dict s"
proof -
  let ?t = "threads s ! i" and ?tid = "tid_index_dict s ! i"
  note g = sem_entry_good [OF ok(2,3)]
  have len: "length (semtable s) = NSEM" using ok by (simp add: sems_ok_def)
  have tid: "t_tid (thr_mem s ?t) = ?tid" using table_ok_live(2) [OF ok(1) i(1)] .
  have qok: "que_ok (semqueue e)" and cnt: "int (length (waiting (semqueue e))) = max 0 (- semcount e)"
    using g(2) e used by (auto simp: entry_ok_def)
  obtain q where q: "enqueue_que (semqueue e) ?tid = (1, q)" "que_ok q"
    "waiting q = waiting (semqueue e) @ [?tid]"
    using qs.enq_room [OF qok, of ?tid] room by (auto simp: waiting_def)
  define e1 where "e1 = e\<lparr>semcount := semcount e - 1, semqueue := q\<rparr>"
  have e1: "entry_ok e1" using q cnt used by (simp add: entry_ok_def e1_def)
  define sa where "sa = put_entry sem (e\<lparr>semcount := semcount e - 1\<rparr>) (io_cli s)"
  have sa_ok: "table_ok sa" "live sa = live s" "threads sa = threads s" "tid_index_dict sa = tid_index_dict s"
    "cur_thread_index sa = int i" "thr_mem sa = thr_mem s"
    using ok(1) i(2) by (simp_all add: sa_def)
  define sb where "sb = io_sti (io_cli sa)"
  have sb_ok: "table_ok sb" "live sb = live s" "threads sb = threads s" "tid_index_dict sb = tid_index_dict s"
    "cur_thread_index sb = int i" "thr_mem sb = thr_mem s"
    "semtable sb = (semtable s)[nat sem := e\<lparr>semcount := semcount e - 1\<rparr>]" "sid_mem sb = sid_mem s"
    using sa_ok by (simp_all add: sb_def sa_def)
  have cur: "get_cur_thread_tid sa = Inr (?tid, sb)"
    using get_cur_thread_tid_ok [OF sa_ok(1)] sa_ok by (simp add: sb_def)
  define sc where "sc = upd_thread ?t (\<lambda>x. x\<lparr>t_state := WAIT\<rparr>) sb"
  have chg: "change_state ?tid WAIT sb = Inr (1, sc)" and sc_ok: "table_ok sc" "live sc = live s"
    using change_state_live [OF sb_ok(1), of i WAIT] sb_ok i by (simp_all add: sc_def)
  have ptr: "get_thread_ptr ?tid sc = Inr (?t, sc)"
    using get_thread_ptr_live [OF sc_ok(1), of i] sc_ok(2) i(1) by (simp add: sc_def sb_ok)
  define sd where "sd = sc\<lparr>sid_mem := (sid_mem sc)(t_sid_ptr (thr_mem sc ?t) := sem)\<rparr>"
  have enq: "enqueue_sem ?tid sem sd = Inr (1, put_entry sem e1 sd)"
    using ok(3) g(3) len q
    by (simp add: enqueue_sem_def sem_entry_def array_get_def sd_def sc_def sb_ok e1_def isbadsem_def)
  define s1 where "s1 = say_num ''enqueue tid: '' (word_of_int ?tid) (put_entry sem e1 sd)"
  have ent: "sem_entry sem (io_cli s) = Inr e" "sem_entry sem sa = Inr (e\<lparr>semcount := semcount e - 1\<rparr>)"
    using g(1,3) e len ok(3) by (auto simp: sem_entry_def sa_def array_get_def isbadsem_def)
  have w: "wait_sem ra sem s = and_then (thread_scheduler ra s1) (\<lambda>s. Inr (1, io_sti s))"
    using ok(3) used ent cur chg ptr enq
    by (simp add: wait_sem_def sti_ret0_if_err_def Let_def flip: sa_def sd_def s1_def)
  have td: "table_ok sd" "live sd = live s"
    using sc_ok table_ok_cong [of sd sc] by (simp_all add: sd_def)
  have st: "semtable s1 = (semtable s)[nat sem := e1]" by (simp add: s1_def sd_def sc_def sb_ok)
  have "sems_ok s1" using sems_ok_put [OF ok(2) e1, of sem] by (simp add: sems_ok_def st)
  with w e1 q td st show thesis
    by (intro that [OF w st]) (simp_all add: e1_def used s1_def sd_def sc_def sb_ok tid i(2))
qed

section \<open>signal\<close>

lemma signal_sem_bad:
  "isbadsem sem \<Longrightarrow> signal_sem ra sem s = Inr (0, io_sti s)"
  "sems_ok s \<Longrightarrow> \<not> isbadsem sem \<Longrightarrow> semstate (semtable s ! nat sem) \<noteq> S_USED \<Longrightarrow>
     signal_sem ra sem s = Inr (0, io_sti s)"
proof -
  show "isbadsem sem \<Longrightarrow> signal_sem ra sem s = Inr (0, io_sti s)"
    by (simp add: signal_sem_def sti_ret0_if_err_def Let_def)
  assume a: "sems_ok s" "\<not> isbadsem sem" "semstate (semtable s ! nat sem) \<noteq> S_USED"
  have "sem_entry sem (io_cli s) = Inr (semtable s ! nat sem)"
    using sem_entry_good(1) [OF a(1,2)] by (simp add: sem_entry_def)
  then show "signal_sem ra sem s = Inr (0, io_sti s)"
    using a by (simp add: signal_sem_def sti_ret0_if_err_def Let_def)
qed

lemma signal_sem_none:
  assumes "sems_ok s" "\<not> isbadsem sem" "semstate (semtable s ! nat sem) = S_USED"
    "0 \<le> semcount (semtable s ! nat sem)"
  shows "signal_sem ra sem s = Inr (1, io_sti s)"
proof -
  have "sem_entry sem (io_cli s) = Inr (semtable s ! nat sem)"
    using sem_entry_good(1) [OF assms(1,2)] by (simp add: sem_entry_def)
  then show ?thesis using assms by (simp add: signal_sem_def sti_ret0_if_err_def Let_def)
qed

text \<open>The first waiting thread is made runnable: the state handed to the scheduler.\<close>

lemma signal_sem_wake:
  assumes ok: "table_ok s" "sems_ok s" "\<not> isbadsem sem" and e: "semtable s ! nat sem = e"
    and used: "semstate e = S_USED" and w: "waiting (semqueue e) = tid # rest"
    and k: "live s k" "tid_index_dict s ! k = tid" "threads s ! k \<noteq> 0"
  obtains s1 e1 where
    "signal_sem ra sem s = and_then (thread_scheduler ra s1) (\<lambda>s. Inr (1, io_sti s))"
    "semtable s1 = (semtable s)[nat sem := e1]" "semcount e1 = semcount e + 1" "entry_ok e1"
    "waiting (semqueue e1) = rest" "semstate e1 = S_USED"
    "thr_mem s1 = (thr_mem s)(threads s ! k := (thr_mem s (threads s ! k))\<lparr>t_state := RUNNABLE\<rparr>)"
    "threads s1 = threads s" "table_ok s1" "live s1 = live s" "cur_thread_index s1 = cur_thread_index s"
    "sems_ok s1" "tid_index_dict s1 = tid_index_dict s"
proof -
  note g = sem_entry_good [OF ok(2,3)]
  have len: "length (semtable s) = NSEM" using ok by (simp add: sems_ok_def)
  have qok: "que_ok (semqueue e)" and cnt: "int (length (tid # rest)) = max 0 (- semcount e)"
    using g(2) e used w by (auto simp: entry_ok_def)
  then have neg: "semcount e < 0" by (auto simp: max_def split: if_splits)
  obtain q where q: "dequeue_que (semqueue e) 0 = (1, tid, q)" "que_ok q" "waiting q = rest"
    using qs.deq_some [OF qok w, of 0] by auto
  define e1 where "e1 = e\<lparr>semcount := semcount e + 1, semqueue := q\<rparr>"
  have e1: "entry_ok e1" using q cnt neg by (simp add: entry_ok_def e1_def max_def split: if_splits)
  define sa where "sa = put_entry sem (e\<lparr>semcount := semcount e + 1\<rparr>) (io_cli s)"
  have deq: "dequeue_sem 0 sem sa = Inr (1, tid, put_entry sem e1 sa)"
    using ok(3) g(3) len q
    by (simp add: dequeue_sem_def sem_entry_def array_get_def sa_def e1_def isbadsem_def)
  define sb where "sb = say_num ''dequeue tid: '' (word_of_int tid) (put_entry sem e1 sa)"
  have sb: "table_ok sb" "live sb = live s" "threads sb = threads s" "tid_index_dict sb = tid_index_dict s"
    "thr_mem sb = thr_mem s" "cur_thread_index sb = cur_thread_index s"
    "semtable sb = (semtable s)[nat sem := e1]"
    using ok(1) by (simp_all add: sb_def sa_def)
  define s1 where "s1 = upd_thread (threads s ! k) (\<lambda>x. x\<lparr>t_state := RUNNABLE\<rparr>) sb"
  have chg: "change_state tid RUNNABLE sb = Inr (1, s1)" and s1: "table_ok s1" "live s1 = live s"
    using change_state_live [OF sb(1), of k RUNNABLE] sb k by (simp_all add: s1_def)
  have ent: "sem_entry sem (io_cli s) = Inr e" using g(1) e by (simp add: sem_entry_def)
  have sg: "signal_sem ra sem s = and_then (thread_scheduler ra s1) (\<lambda>s. Inr (1, io_sti s))"
    using ok(3) used neg ent deq chg
    by (simp add: signal_sem_def sti_ret0_if_err_def Let_def flip: sa_def sb_def)
  have st: "semtable s1 = (semtable s)[nat sem := e1]" by (simp add: s1_def sb)
  have "sems_ok s1" using sems_ok_put [OF ok(2) e1, of sem] by (simp add: sems_ok_def st)
  with sg e1 q s1 st show thesis
    by (intro that [OF sg st]) (simp_all add: e1_def used s1_def sb)
qed

section \<open>Who waits where\<close>

text \<open>How often a tid stands in the queues of all semaphores.\<close>

definition queued :: "'z sys_scheme \<Rightarrow> int \<Rightarrow> nat" where
  "queued s tid = (\<Sum>j<NSEM. count_list (waiting (semqueue (semtable s ! j))) tid)"

lemma queued_update:
  fixes s s' :: "'z sys_scheme"
  assumes "length (semtable s) = NSEM" "j < NSEM" "semtable s' = (semtable s)[j := e]"
  shows "queued s' tid + count_list (waiting (semqueue (semtable s ! j))) tid =
    queued s tid + count_list (waiting (semqueue e)) tid"
proof -
  let ?f = "\<lambda>l i. count_list (waiting (semqueue (l ! i))) tid"
  have split: "queued t tid = ?f (semtable t) j + (\<Sum>i\<in>{..<NSEM} - {j}. ?f (semtable t) i)"
    for t :: "'z sys_scheme"
    unfolding queued_def using assms(2) by (intro sum.remove) auto
  have "(\<Sum>i\<in>{..<NSEM} - {j}. ?f (semtable s') i) = (\<Sum>i\<in>{..<NSEM} - {j}. ?f (semtable s) i)"
    by (rule sum.cong) (auto simp: assms(3))
  moreover have "?f (semtable s') j = count_list (waiting (semqueue e)) tid" using assms by simp
  ultimately show ?thesis using split [of s] split [of s'] by linarith
qed

lemma queued_cong: "semtable s' = semtable s \<Longrightarrow> queued s' = queued s"
  by (simp add: queued_def fun_eq_iff)

text \<open>
  The state of the whole: a thread is in state \<open>WAIT\<close> exactly when its tid stands in the queue of
  a semaphore, once; only live threads stand in queues; the current thread is runnable.
\<close>

definition core_inv :: "'z sys_scheme \<Rightarrow> bool" where
  "core_inv s \<longleftrightarrow>
     (\<forall>i. live s i \<longrightarrow> queued s (tid_index_dict s ! i) =
        (if t_state (thr_mem s (threads s ! i)) = WAIT then 1 else 0)) \<and>
     (\<forall>tid. 0 < queued s tid \<longrightarrow> (\<exists>i. live s i \<and> tid_index_dict s ! i = tid)) \<and>
     (\<forall>i. live s i \<longrightarrow> threads s ! i \<noteq> 0) \<and>
     (\<forall>j<NSEM. semstate (semtable s ! j) = S_FREE \<longrightarrow> waiting (semqueue (semtable s ! j)) = [])"

definition wait_inv :: "'z sys_scheme \<Rightarrow> bool" where
  "wait_inv s \<longleftrightarrow> core_inv s \<and> runnable s (nat (cur_thread_index s))"

definition sys_inv :: "'z sys_scheme \<Rightarrow> bool" where
  "sys_inv s \<longleftrightarrow> table_ok s \<and> sems_ok s \<and> wait_inv s"

lemma runnable_live: "table_ok s \<Longrightarrow> k < THREAD_NUM \<Longrightarrow> runnable s k \<Longrightarrow> live s k"
  by (auto simp: live_iff_not_dead slot_dead_def runnable_def)

lemma sys_inv_cur:
  assumes "sys_inv s"
  obtains i where "live s i" "cur_thread_index s = int i" "runnable s i" "threads s ! i \<noteq> 0" "i < THREAD_NUM"
proof -
  let ?c = "nat (cur_thread_index s)"
  have ok: "table_ok s" "wait_inv s" using assms by (auto simp: sys_inv_def)
  have c: "cur_thread_index s = int ?c" "?c < THREAD_NUM" using table_okD(3,4) [OF ok(1)] by auto
  have r: "runnable s ?c" using ok(2) by (simp add: wait_inv_def)
  then have l: "live s ?c" using runnable_live [OF ok(1) c(2)] by blast
  show thesis
  proof (rule that [of ?c])
    show "threads s ! ?c \<noteq> 0" using ok(2) l unfolding wait_inv_def core_inv_def by blast
  qed (use c r l in simp_all)
qed

lemma live_tid_inject:
  assumes "table_ok s" "live s i" "live s k" "tid_index_dict s ! i = tid_index_dict s ! k"
  shows "i = k"
  using table_ok_live(5) [OF assms(1,2), of k] table_ok_live(5) [OF assms(1,3), of i] assms(4)
  by (metis linorder_neqE_nat)

lemma core_invD:
  assumes "core_inv s"
  shows "live s i \<Longrightarrow> queued s (tid_index_dict s ! i) =
      (if t_state (thr_mem s (threads s ! i)) = WAIT then 1 else 0)"
    "0 < queued s tid \<Longrightarrow> \<exists>i. live s i \<and> tid_index_dict s ! i = tid"
    "live s i \<Longrightarrow> threads s ! i \<noteq> 0"
    "j < NSEM \<Longrightarrow> semstate (semtable s ! j) = S_FREE \<Longrightarrow> waiting (semqueue (semtable s ! j)) = []"
  using assms by (auto simp: core_inv_def)

text \<open>One thread changes its state and, with it, its place in the queues.\<close>

lemma core_inv_step:
  assumes c: "core_inv s" "table_ok s" and k: "live s k"
    and s1: "live s1 = live s" "threads s1 = threads s" "tid_index_dict s1 = tid_index_dict s"
      "thr_mem s1 = (thr_mem s)(threads s ! k := (thr_mem s (threads s ! k))\<lparr>t_state := st\<rparr>)"
    and q: "\<And>tid. tid \<noteq> tid_index_dict s ! k \<Longrightarrow> queued s1 tid = queued s tid"
      "queued s1 (tid_index_dict s ! k) = (if st = WAIT then 1 else 0)"
    and free: "\<And>j. j < NSEM \<Longrightarrow> semstate (semtable s1 ! j) = S_FREE \<Longrightarrow> waiting (semqueue (semtable s1 ! j)) = []"
  shows "core_inv s1"
  unfolding core_inv_def s1(1)
proof (intro conjI allI impI)
  fix i assume i: "live s i"
  show "queued s1 (tid_index_dict s1 ! i) = (if t_state (thr_mem s1 (threads s1 ! i)) = WAIT then 1 else 0)"
  proof (cases "i = k")
    case True
    then show ?thesis by (simp add: s1 q)
  next
    case False
    then have "tid_index_dict s ! i \<noteq> tid_index_dict s ! k" "threads s ! i \<noteq> threads s ! k"
      using live_tid_inject [OF c(2) i k] live_inject [OF c(2) i k] by blast+
    then show ?thesis using core_invD(1) [OF c(1) i] by (simp add: s1 q)
  qed
next
  fix tid assume "0 < queued s1 tid"
  then have "tid = tid_index_dict s ! k \<or> 0 < queued s tid"
    using q(1) [of tid] by (cases "tid = tid_index_dict s ! k") simp_all
  then show "\<exists>i. live s i \<and> tid_index_dict s1 ! i = tid"
    using core_invD(2) [OF c(1), of tid] k unfolding s1(3) by blast
next
  show "threads s1 ! i \<noteq> 0" if "live s i" for i using core_invD(3) [OF c(1) that] by (simp add: s1)
qed (use free in blast)

lemma core_inv_sched:
  assumes c: "core_inv s" and ok: "table_ok s" "sems_ok s" and sc: "thread_scheduler ra s = Inr s'"
  shows "sys_inv (io_sti s')"
proof -
  obtain i where r: "cur_thread_index s' = int ((nat (cur_thread_index s) + i) mod THREAD_NUM)" "table_ok s'" "live s' = live s"
    "runnable s' = runnable s" "threads s' = threads s" "tid_index_dict s' = tid_index_dict s"
    "semtable s' = semtable s" "\<exists>old v. thr_mem s' = (thr_mem s)(old := (thr_mem s old)\<lparr>t_rsp := v\<rparr>)"
    by (rule thread_scheduler_returned [OF ok(1) sc])
  have st: "t_state (thr_mem s' a) = t_state (thr_mem s a)" for a using r(8) by auto
  have q: "queued s' = queued s" using r(7) queued_cong by blast
  have "core_inv s'"
    using c unfolding core_inv_def q st by (simp add: r)
  moreover have "runnable s' (nat (cur_thread_index s'))" using ts.picks_ready [OF ok(1) sc] r(4) by simp
  ultimately have "wait_inv (io_sti s')"
    by (simp add: wait_inv_def core_inv_def queued_cong [of "io_sti s'" s'] runnable_def)
  then show ?thesis
    using r(2,7) ok(2) by (simp add: sys_inv_def sems_ok_def)
qed

lemma sys_inv_sti: "sys_inv s \<Longrightarrow> sys_inv (io_sti s)"
  by (simp add: sys_inv_def sems_ok_def wait_inv_def core_inv_def runnable_def
      queued_cong [of "io_sti s" s])

lemma S_neq [simp]: "S_USED \<noteq> S_FREE" "S_FREE \<noteq> S_USED"
  by (simp_all add: S_USED_def S_FREE_def)

lemma free_put:
  assumes "\<And>j. j < NSEM \<Longrightarrow> semstate (semtable s ! j) = S_FREE \<Longrightarrow> waiting (semqueue (semtable s ! j)) = []"
    and "length (semtable s) = NSEM" "semtable s1 = (semtable s)[n := e]" "semstate e = S_USED"
    and "j < NSEM" "semstate (semtable s1 ! j) = S_FREE"
  shows "waiting (semqueue (semtable s1 ! j)) = []"
  using assms by (cases "j = n") auto

lemma create_sem_keeps:
  assumes inv: "sys_inv s" and r: "create_sem c s = Inr (r, s')"
  shows "sys_inv s'"
proof (cases "c < 0 \<or> find_up NSEM (\<lambda>i. semstate (semtable s ! i) = S_FREE) 0 = None")
  case True
  then have "s' = s" using r by (auto simp: create_sem_def newsem_def Let_def split: if_splits)
  then show ?thesis using inv by simp
next
  case False
  then obtain i where i: "find_up NSEM (\<lambda>i. semstate (semtable s ! i) = S_FREE) 0 = Some i" "0 \<le> c" by auto
  have ok: "table_ok s" "sems_ok s" "core_inv s" "runnable s (nat (cur_thread_index s))"
    using inv by (auto simp: sys_inv_def wait_inv_def)
  have len: "length (semtable s) = NSEM" using ok(2) by (simp add: sems_ok_def)
  obtain s1 e where s1: "create_sem c s = Inr (int i, s1)" "sems_ok s1" "i < NSEM"
    "semtable s1 = (semtable s)[i := e]" "semstate e = S_USED" "waiting (semqueue e) = []"
    "semstate (semtable s ! i) = S_FREE"
    and same: "threads s1 = threads s" "thr_mem s1 = thr_mem s" "tid_index_dict s1 = tid_index_dict s"
    "cur_thread_index s1 = cur_thread_index s" "tid_global s1 = tid_global s" "empty_at s1 = empty_at s"
    using create_sem_spec [OF ok(2) i(2,1)] by metis
  have eq: "s' = s1" using r s1(1) by simp
  have "waiting (semqueue (semtable s ! i)) = []" using core_invD(4) [OF ok(3) s1(3,7)] .
  then have q: "queued s1 tid = queued s tid" for tid
    using queued_update [OF len s1(3,4), of tid] s1(6) by simp
  have lv: "live s1 = live s" "table_ok s1 = table_ok s" using table_ok_cong [of s1 s] same by simp_all
  have "core_inv s1"
    unfolding core_inv_def lv q same
    using core_invD [OF ok(3)] free_put [OF core_invD(4) [OF ok(3)] len s1(4,5)] by blast
  then show ?thesis
    using ok s1(2) lv by (simp add: eq sys_inv_def wait_inv_def runnable_def same)
qed

text \<open>\<open>wait\<close> keeps the invariant as long as the queue of the semaphore has room for the caller.\<close>

lemma wait_sem_keeps:
  assumes inv: "sys_inv s" and room: "\<not> isbadsem sem \<Longrightarrow> qs_num (semqueue (semtable s ! nat sem)) < NSEMQUEUE"
    and r: "wait_sem ra sem s = Inr (r, s')"
  shows "sys_inv s'"
proof -
  have ok: "table_ok s" "sems_ok s" "core_inv s" "runnable s (nat (cur_thread_index s))"
    using inv by (auto simp: sys_inv_def wait_inv_def)
  have len: "length (semtable s) = NSEM" using ok(2) by (simp add: sems_ok_def)
  consider (bad) "isbadsem sem \<or> semstate (semtable s ! nat sem) \<noteq> S_USED"
    | (free) "\<not> isbadsem sem" "semstate (semtable s ! nat sem) = S_USED" "0 < semcount (semtable s ! nat sem)"
    | (block) "\<not> isbadsem sem" "semstate (semtable s ! nat sem) = S_USED" "semcount (semtable s ! nat sem) \<le> 0"
    by linarith
  then show ?thesis
  proof cases
    case bad
    then have "s' = io_sti s" using r wait_sem_bad(1) [of sem ra s] wait_sem_bad(2) [OF ok(2), of sem ra]
      by (cases "isbadsem sem") auto
    then show ?thesis using sys_inv_sti [OF inv] by simp
  next
    case free
    let ?e = "semtable s ! nat sem"
    let ?e1 = "?e\<lparr>semcount := semcount ?e - 1\<rparr>"
    note g = sem_entry_good [OF ok(2) free(1)]
    have s': "s' = put_entry sem ?e1 (io_sti s)" using r wait_sem_free [OF ok(2) free(1) refl free(2,3), of ra] by simp
    have "entry_ok ?e1" using g(2) free(2,3) by (auto simp: entry_ok_def)
    then have "sems_ok s'" using sems_ok_put [of "io_sti s" ?e1 sem] ok(2) by (simp add: s' sems_ok_def)
    moreover have q: "queued s' tid = queued s tid" for tid
      using queued_update [OF len g(3), of s' ?e1 tid] by (simp add: s')
    moreover have "core_inv s'"
      unfolding core_inv_def q
      using core_invD [OF ok(3)] free_put [OF core_invD(4) [OF ok(3)] len, of s' "nat sem" ?e1] free(2)
      by (simp add: s')
    ultimately show ?thesis using ok by (simp add: sys_inv_def wait_inv_def runnable_def s')
  next
    case block
    let ?e = "semtable s ! nat sem"
    note g = sem_entry_good [OF ok(2) block(1)]
    obtain i where i: "live s i" "cur_thread_index s = int i" "runnable s i" "threads s ! i \<noteq> 0"
      using sys_inv_cur [OF inv] by metis
    obtain s1 e1 where s1: "wait_sem ra sem s = and_then (thread_scheduler ra s1) (\<lambda>s. Inr (1, io_sti s))"
      "semtable s1 = (semtable s)[nat sem := e1]"
      "waiting (semqueue e1) = waiting (semqueue ?e) @ [t_tid (thr_mem s (threads s ! i))]"
      "semstate e1 = S_USED"
      "thr_mem s1 = (thr_mem s)(threads s ! i := (thr_mem s (threads s ! i))\<lparr>t_state := WAIT\<rparr>)"
      "threads s1 = threads s" "table_ok s1" "live s1 = live s" "sems_ok s1" "tid_index_dict s1 = tid_index_dict s"
      using wait_sem_block [OF ok(1,2) block(1) refl block(2,3) room [OF block(1)] i(1,2,4), of ra] by metis
    have tid: "t_tid (thr_mem s (threads s ! i)) = tid_index_dict s ! i"
      using table_ok_live(2) [OF ok(1) i(1)] .
    have q: "queued s1 t = queued s t + (if t = tid_index_dict s ! i then 1 else 0)" for t
      using queued_update [OF len g(3) s1(2), of t] s1(3) tid by auto
    have "queued s (tid_index_dict s ! i) = 0"
      using core_invD(1) [OF ok(3) i(1)] i(3) by (simp add: runnable_def)
    then have "core_inv s1"
      using core_inv_step [OF ok(3,1) i(1) s1(8,6,10,5)] q
        free_put [OF core_invD(4) [OF ok(3)] len s1(2,4)] by simp
    moreover obtain s2 where "thread_scheduler ra s1 = Inr s2" "s' = io_sti s2"
      using r s1(1) by (auto simp: and_then_Inr_iff)
    ultimately show ?thesis using core_inv_sched s1(7,9) by blast
  qed
qed

lemma waiting_thread:
  assumes inv: "sys_inv s" and j: "j < NSEM" and w: "tid \<in> set (waiting (semqueue (semtable s ! j)))"
  obtains k where "live s k" "tid_index_dict s ! k = tid" "threads s ! k \<noteq> 0"
    "t_state (thr_mem s (threads s ! k)) = WAIT"
proof -
  have c: "core_inv s" using inv by (simp add: sys_inv_def wait_inv_def)
  have "0 < count_list (waiting (semqueue (semtable s ! j))) tid"
    using w by (simp add: count_list_0_iff zero_less_iff_neq_zero)
  also have "\<dots> \<le> queued s tid"
    unfolding queued_def using j by (intro member_le_sum) auto
  finally have pos: "0 < queued s tid" .
  then obtain k where k: "live s k" "tid_index_dict s ! k = tid" using core_invD(2) [OF c] by blast
  have "t_state (thr_mem s (threads s ! k)) = WAIT"
    using core_invD(1) [OF c k(1)] pos k(2) by (simp split: if_splits)
  with k core_invD(3) [OF c k(1)] that show thesis by blast
qed

lemma signal_sem_keeps:
  assumes inv: "sys_inv s" and r: "signal_sem ra sem s = Inr (r, s')"
  shows "sys_inv s'"
proof -
  have ok: "table_ok s" "sems_ok s" "core_inv s" using inv by (auto simp: sys_inv_def wait_inv_def)
  have len: "length (semtable s) = NSEM" using ok(2) by (simp add: sems_ok_def)
  let ?e = "semtable s ! nat sem"
  consider (bad) "isbadsem sem \<or> semstate ?e \<noteq> S_USED"
    | (none) "\<not> isbadsem sem" "semstate ?e = S_USED" "0 \<le> semcount ?e"
    | (wake) "\<not> isbadsem sem" "semstate ?e = S_USED" "semcount ?e < 0" by linarith
  then show ?thesis
  proof cases
    case bad
    then have "s' = io_sti s"
      using r signal_sem_bad(1) [of sem ra s] signal_sem_bad(2) [OF ok(2), of sem ra] by (cases "isbadsem sem") auto
    then show ?thesis using sys_inv_sti [OF inv] by simp
  next
    case none
    then have "s' = io_sti s" using r signal_sem_none [OF ok(2) none, of ra] by simp
    then show ?thesis using sys_inv_sti [OF inv] by simp
  next
    case wake
    note g = sem_entry_good [OF ok(2) wake(1)]
    obtain tid rest where w: "waiting (semqueue ?e) = tid # rest"
      using g(2) wake(2,3) by (cases "waiting (semqueue ?e)") (auto simp: entry_ok_def)
    obtain k where k: "live s k" "tid_index_dict s ! k = tid" "threads s ! k \<noteq> 0"
      "t_state (thr_mem s (threads s ! k)) = WAIT"
      using waiting_thread [OF inv g(3), of tid] w by auto
    obtain s1 e1 where s1: "signal_sem ra sem s = and_then (thread_scheduler ra s1) (\<lambda>s. Inr (1, io_sti s))"
      "semtable s1 = (semtable s)[nat sem := e1]" "waiting (semqueue e1) = rest" "semstate e1 = S_USED"
      "thr_mem s1 = (thr_mem s)(threads s ! k := (thr_mem s (threads s ! k))\<lparr>t_state := RUNNABLE\<rparr>)"
      "threads s1 = threads s" "table_ok s1" "live s1 = live s" "sems_ok s1" "tid_index_dict s1 = tid_index_dict s"
      using signal_sem_wake [OF ok(1,2) wake(1) refl wake(2) w k(1-3), of ra] by metis
    have q: "queued s1 t + (if t = tid then 1 else 0) = queued s t" for t
      using queued_update [OF len g(3) s1(2), of t] s1(3) w by auto
    have "queued s tid = 1" using core_invD(1) [OF ok(3) k(1)] k(2,4) by simp
    then have q1: "queued s1 (tid_index_dict s ! k) = 0" using q [of tid] k(2) by simp
    have q2: "queued s1 t = queued s t" if "t \<noteq> tid_index_dict s ! k" for t using q [of t] that k(2) by simp
    have "core_inv s1"
      using core_inv_step [OF ok(3,1) k(1) s1(8,6,10,5)] q1 q2
        free_put [OF core_invD(4) [OF ok(3)] len s1(2,4)] by simp
    moreover obtain s2 where "thread_scheduler ra s1 = Inr s2" "s' = io_sti s2"
      using r s1(1) by (auto simp: and_then_Inr_iff)
    ultimately show ?thesis using core_inv_sched s1(7,9) by blast
  qed
qed

lemma scheduler_keeps:
  assumes "sys_inv s" "thread_scheduler ra s = Inr s'"
  shows "sys_inv (io_sti s')"
  using core_inv_sched [of s ra s'] assms by (auto simp: sys_inv_def wait_inv_def)

section \<open>Runs\<close>

text \<open>
  What the threads and the timer do to the system: create semaphores, wait on and signal them,
  and be rescheduled. \<open>wait\<close> on a semaphore with thirty waiting threads is left out (see C36).
\<close>

inductive sem_run :: "'z sys_scheme \<Rightarrow> bool" where
  boot: "table_ok s \<Longrightarrow> length (semtable s) = NSEM \<Longrightarrow>
    \<forall>j<NSEM. semstate (semtable s ! j) = S_FREE \<and> que_ok (semqueue (semtable s ! j)) \<and>
      waiting (semqueue (semtable s ! j)) = [] \<Longrightarrow>
    \<forall>i. live s i \<longrightarrow> threads s ! i \<noteq> 0 \<and> t_state (thr_mem s (threads s ! i)) \<noteq> WAIT \<Longrightarrow>
    runnable s (nat (cur_thread_index s)) \<Longrightarrow> sem_run s"
| creates: "sem_run s \<Longrightarrow> create_sem c s = Inr (r, s') \<Longrightarrow> sem_run s'"
| waits: "sem_run s \<Longrightarrow> (\<not> isbadsem sem \<Longrightarrow> qs_num (semqueue (semtable s ! nat sem)) < NSEMQUEUE) \<Longrightarrow>
    wait_sem ra sem s = Inr (r, s') \<Longrightarrow> sem_run s'"
| signals: "sem_run s \<Longrightarrow> signal_sem ra sem s = Inr (r, s') \<Longrightarrow> sem_run s'"
| timer: "sem_run s \<Longrightarrow> thread_scheduler ra s = Inr s' \<Longrightarrow> sem_run (io_sti s')"

lemma sem_run_inv: "sem_run s \<Longrightarrow> sys_inv s"
proof (induction rule: sem_run.induct)
  case (boot s)
  have "queued s tid = 0" for tid using boot(3) by (simp add: queued_def)
  with boot show ?case
    by (simp add: sys_inv_def sems_ok_def entry_ok_def wait_inv_def core_inv_def)
next
  case (creates s c r s')
  then show ?case using create_sem_keeps by blast
next
  case (waits s sem ra r s')
  then show ?case using wait_sem_keeps by blast
next
  case (signals s ra sem r s')
  then show ?case using signal_sem_keeps by blast
next
  case (timer s ra s')
  then show ?case using scheduler_keeps by blast
qed

text \<open>A full queue: \<open>wait\<close> has already marked the caller when \<open>enqueue_sem\<close> refuses it.\<close>

lemma wait_sem_refused:
  assumes ok: "table_ok s" "sems_ok s" "\<not> isbadsem sem" and e: "semtable s ! nat sem = e"
    and used: "semstate e = S_USED" "semcount e \<le> 0" and full: "qs_num (semqueue e) = NSEMQUEUE"
    and i: "live s i" "cur_thread_index s = int i" "threads s ! i \<noteq> 0"
  obtains s' where "wait_sem ra sem s = Inr (0, s')"
    "semtable s' = (semtable s)[nat sem := e\<lparr>semcount := semcount e - 1\<rparr>]"
    "thr_mem s' = (thr_mem s)(threads s ! i := (thr_mem s (threads s ! i))\<lparr>t_state := WAIT\<rparr>)"
    "threads s' = threads s"
proof -
  let ?t = "threads s ! i" and ?tid = "tid_index_dict s ! i" and ?e = "e\<lparr>semcount := semcount e - 1\<rparr>"
  note g = sem_entry_good [OF ok(2,3)]
  have len: "length (semtable s) = NSEM" using ok by (simp add: sems_ok_def)
  define sa where "sa = put_entry sem ?e (io_cli s)"
  have sa_ok: "table_ok sa" "live sa = live s" "threads sa = threads s" "tid_index_dict sa = tid_index_dict s"
    "cur_thread_index sa = int i"
    using ok(1) i(2) by (simp_all add: sa_def)
  define sb where "sb = io_sti (io_cli sa)"
  have sb_ok: "table_ok sb" "live sb = live s" "threads sb = threads s" "tid_index_dict sb = tid_index_dict s"
    "thr_mem sb = thr_mem s" "semtable sb = (semtable s)[nat sem := ?e]"
    using sa_ok by (simp_all add: sb_def sa_def)
  have cur: "get_cur_thread_tid sa = Inr (?tid, sb)"
    using get_cur_thread_tid_ok [OF sa_ok(1)] sa_ok by (simp add: sb_def)
  define sc where "sc = upd_thread ?t (\<lambda>x. x\<lparr>t_state := WAIT\<rparr>) sb"
  have chg: "change_state ?tid WAIT sb = Inr (1, sc)" and sc_ok: "table_ok sc" "live sc = live s"
    using change_state_live [OF sb_ok(1), of i WAIT] sb_ok i by (simp_all add: sc_def)
  have ptr: "get_thread_ptr ?tid sc = Inr (?t, sc)"
    using get_thread_ptr_live [OF sc_ok(1), of i] sc_ok(2) i(1) by (simp add: sc_def sb_ok)
  define sd where "sd = sc\<lparr>sid_mem := (sid_mem sc)(t_sid_ptr (thr_mem sc ?t) := sem)\<rparr>"
  have "put_entry sem ?e sd = sd"
    using g(3) len by (simp add: put_entry_def sd_def sc_def sb_ok list_update_same_conv)
  then have enq: "enqueue_sem ?tid sem sd = Inr (0, sd)"
    using ok(3) g(3) len full
    by (simp add: enqueue_sem_def enqueue_que_def sem_entry_def array_get_def sd_def sc_def sb_ok isbadsem_def)
  have ent: "sem_entry sem (io_cli s) = Inr e" "sem_entry sem sa = Inr ?e"
    using g(1,3) e len ok(3) by (auto simp: sem_entry_def sa_def array_get_def isbadsem_def)
  have w: "wait_sem ra sem s = Inr (0, io_sti sd)"
    using ok(3) used ent cur chg ptr enq
    by (simp add: wait_sem_def sti_ret0_if_err_def Let_def flip: sa_def sd_def)
  show thesis by (rule that [OF w]) (simp_all add: sd_def sc_def sb_ok)
qed

text \<open>The whole of a blocking \<open>wait\<close>, the switch included.\<close>

lemma wait_sem_switches:
  assumes "sem_run s" "\<not> isbadsem sem" "semtable s ! nat sem = e" "semstate e = S_USED" "semcount e \<le> 0"
    and "qs_num (semqueue e) < NSEMQUEUE" "cur_thread_index s = int i"
    and "k < THREAD_NUM" "k \<noteq> i" "runnable s k"
  shows "\<exists>s'. wait_sem ra sem s = Inr (1, s') \<and> cur_thread_index s' \<noteq> int i \<and>
    t_state (thr_mem s' (threads s' ! i)) = WAIT \<and> semcount (semtable s' ! nat sem) = semcount e - 1 \<and>
    waiting (semqueue (semtable s' ! nat sem)) = waiting (semqueue e) @ [t_tid (thr_mem s (threads s ! i))] \<and>
    semstate (semtable s' ! nat sem) = S_USED \<and>
    (\<forall>j<THREAD_NUM. j \<noteq> i \<and> runnable s j \<longrightarrow> runnable s' j)"
proof -
  have inv: "sys_inv s" using sem_run_inv [OF assms(1)] .
  then have ok: "table_ok s" "sems_ok s" by (auto simp: sys_inv_def)
  note g = sem_entry_good [OF ok(2) assms(2)]
  have i: "live s i" "threads s ! i \<noteq> 0"
    using sys_inv_cur [OF inv] assms(7) by (metis of_nat_eq_iff)+
  obtain s1 e1 where s1: "wait_sem ra sem s = and_then (thread_scheduler ra s1) (\<lambda>s. Inr (1, io_sti s))"
    "semtable s1 = (semtable s)[nat sem := e1]" "semcount e1 = semcount e - 1" "semstate e1 = S_USED"
    "waiting (semqueue e1) = waiting (semqueue e) @ [t_tid (thr_mem s (threads s ! i))]"
    "thr_mem s1 = (thr_mem s)(threads s ! i := (thr_mem s (threads s ! i))\<lparr>t_state := WAIT\<rparr>)"
    "threads s1 = threads s" "table_ok s1"
    using wait_sem_block [OF ok assms(2-6) i(1) assms(7) i(2), of ra] by metis
  have nr: "\<not> runnable s1 i" by (simp add: runnable_def s1)
  have keep: "runnable s1 j" if "j < THREAD_NUM" "j \<noteq> i" "runnable s j" for j
    using that runnable_live [OF ok(1) that(1,3)] live_inject [OF ok(1) _ i(1), of j]
    by (auto simp: runnable_def s1)
  then have "\<exists>k<THREAD_NUM. runnable s1 k" using assms(8-10) by blast
  then obtain s2 where sc: "thread_scheduler ra s1 = Inr s2" using ts.returns [OF s1(8)] by blast
  obtain d where s2: "cur_thread_index s2 = int d" "runnable s1 d" "runnable s2 = runnable s1" "threads s2 = threads s1"
    "semtable s2 = semtable s1" "\<exists>old v. thr_mem s2 = (thr_mem s1)(old := (thr_mem s1 old)\<lparr>t_rsp := v\<rparr>)"
    by (rule thread_scheduler_returned [OF s1(8) sc])
  have "t_state (thr_mem s2 a) = t_state (thr_mem s1 a)" for a using s2(6) by auto
  then have "t_state (thr_mem s2 (threads s2 ! i)) = WAIT" by (simp add: s1 s2)
  moreover have "d \<noteq> i" using s2(2) nr by blast
  moreover have "runnable (io_sti s2) = runnable s1" using s2(3) by (simp add: runnable_def fun_eq_iff)
  ultimately show ?thesis
    using s1 sc s2 g(3) ok(2) keep by (intro exI [of _ "io_sti s2"]) (simp add: sems_ok_def)
qed

section \<open>A concrete semaphore\<close>

definition demo_sem :: sys where
  "demo_sem = snd (projr (create_sem 0 (demo_table RUNNABLE RUNNABLE)))"

lemma demo_boot: "sem_run (demo_table RUNNABLE RUNNABLE)"
proof (rule sem_run.boot)
  have "semtable (demo_table RUNNABLE RUNNABLE) ! j = demo_entry" if "j < NSEM" for j
    using that by (simp add: demo_fields NSEM_def)
  then show "\<forall>j<NSEM. semstate (semtable (demo_table RUNNABLE RUNNABLE) ! j) = S_FREE \<and>
      que_ok (semqueue (semtable (demo_table RUNNABLE RUNNABLE) ! j)) \<and>
      waiting (semqueue (semtable (demo_table RUNNABLE RUNNABLE) ! j)) = []"
    by (simp add: demo_entry_def S_FREE_def que_ok_def NSEMQUEUE_def waiting_def)
  show "\<forall>i. live (demo_table RUNNABLE RUNNABLE) i \<longrightarrow> threads (demo_table RUNNABLE RUNNABLE) ! i \<noteq> 0 \<and>
      t_state (thr_mem (demo_table RUNNABLE RUNNABLE) (threads (demo_table RUNNABLE RUNNABLE) ! i)) \<noteq> WAIT"
    by (auto simp: demo_live demo_fields demo_thread_def)
qed (use demo_table_ok [of RUNNABLE RUNNABLE] demo_runnable [of 0] in \<open>simp_all add: demo_fields NSEM_def\<close>)

lemma demo_sem_facts:
  "create_sem 0 (demo_table RUNNABLE RUNNABLE) = Inr (0, demo_sem)" "sem_run demo_sem"
  "semstate (semtable demo_sem ! 0) = S_USED" "semcount (semtable demo_sem ! 0) = 0"
  "waiting (semqueue (semtable demo_sem ! 0)) = []" "cur_thread_index demo_sem = 0"
  "runnable demo_sem = runnable (demo_table RUNNABLE RUNNABLE)"
proof -
  have ok: "sems_ok (demo_table RUNNABLE RUNNABLE)" using sem_run_inv [OF demo_boot] by (simp add: sys_inv_def)
  have "find_up NSEM (\<lambda>i. semstate (semtable (demo_table RUNNABLE RUNNABLE) ! i) = S_FREE) 0 = Some 0"
    by (rule find_up_first) (simp_all add: NSEM_def demo_fields demo_entry_def S_FREE_def)
  from create_sem_spec [OF ok order_refl this] obtain s' e where s': "create_sem 0 (demo_table RUNNABLE RUNNABLE) = Inr (int 0, s')"
    "semtable s' = (semtable (demo_table RUNNABLE RUNNABLE))[0 := e]" "semstate e = S_USED" "semcount e = 0"
    "waiting (semqueue e) = []" "threads s' = threads (demo_table RUNNABLE RUNNABLE)"
    "thr_mem s' = thr_mem (demo_table RUNNABLE RUNNABLE)" "cur_thread_index s' = cur_thread_index (demo_table RUNNABLE RUNNABLE)"
    by blast
  have eq: "demo_sem = s'" using s'(1) by (simp add: demo_sem_def)
  show c: "create_sem 0 (demo_table RUNNABLE RUNNABLE) = Inr (0, demo_sem)" using s'(1) eq by simp
  show "sem_run demo_sem" using sem_run.creates [OF demo_boot c] .
  show "semstate (semtable demo_sem ! 0) = S_USED" "semcount (semtable demo_sem ! 0) = 0"
    "waiting (semqueue (semtable demo_sem ! 0)) = []" "cur_thread_index demo_sem = 0"
    "runnable demo_sem = runnable (demo_table RUNNABLE RUNNABLE)"
    using s' by (simp_all add: eq demo_fields runnable_def fun_eq_iff)
qed

section \<open>Properties\<close>





text \<open>
  C14. \<open>signal\<close> on a semaphore with waiting threads wakes exactly the one that has waited
  longest: it becomes runnable, the others stay queued in order, the counter goes up by one.
\<close>

theorem signal_wakes_first:
  assumes "sem_run s" "\<not> isbadsem sem" "semtable s ! nat sem = e" "semstate e = S_USED"
    and "waiting (semqueue e) = tid # rest"
  shows "\<exists>s' k. signal_sem ra sem s = Inr (1, s') \<and> live s k \<and> t_tid (thr_mem s (threads s ! k)) = tid \<and>
    \<not> runnable s k \<and> runnable s' k \<and> (\<forall>j. live s j \<and> j \<noteq> k \<longrightarrow> runnable s' j = runnable s j) \<and>
    semcount (semtable s' ! nat sem) = semcount e + 1 \<and> waiting (semqueue (semtable s' ! nat sem)) = rest"
proof -
  have inv: "sys_inv s" using sem_run_inv [OF assms(1)] .
  then have ok: "table_ok s" "sems_ok s" by (auto simp: sys_inv_def)
  note g = sem_entry_good [OF ok(2) assms(2)]
  obtain k where k: "live s k" "tid_index_dict s ! k = tid" "threads s ! k \<noteq> 0"
    "t_state (thr_mem s (threads s ! k)) = WAIT"
    using waiting_thread [OF inv g(3), of tid] assms(3,5) by auto
  obtain s1 e1 where s1: "signal_sem ra sem s = and_then (thread_scheduler ra s1) (\<lambda>s. Inr (1, io_sti s))"
    "semtable s1 = (semtable s)[nat sem := e1]" "semcount e1 = semcount e + 1" "waiting (semqueue e1) = rest"
    "thr_mem s1 = (thr_mem s)(threads s ! k := (thr_mem s (threads s ! k))\<lparr>t_state := RUNNABLE\<rparr>)"
    "threads s1 = threads s" "table_ok s1"
    using signal_sem_wake [OF ok assms(2-5) k(1-3), of ra] by metis
  have "runnable s1 k" by (simp add: runnable_def s1)
  then have "\<exists>k<THREAD_NUM. runnable s1 k" using table_ok_live(6) [OF ok(1) k(1)] by blast
  from thread_scheduler_spec [OF s1(7) this, of ra] obtain s2 where s2: "thread_scheduler ra s1 = Inr s2"
    "runnable s2 = runnable s1" "semtable s2 = semtable s1" by metis
  have "t_tid (thr_mem s (threads s ! k)) = tid" using table_ok_live(2) [OF ok(1) k(1)] k(2) by simp
  moreover have "\<not> runnable s k" using k(4) by (simp add: runnable_def)
  moreover have "runnable (io_sti s2) j = runnable s j" if "live s j" "j \<noteq> k" for j
  proof -
    have "threads s ! j \<noteq> threads s ! k" using live_inject [OF ok(1) that(1) k(1)] that(2) by blast
    then have "runnable s1 j = runnable s j" by (simp add: runnable_def s1)
    moreover have "runnable (io_sti s2) = runnable s2" by (simp add: runnable_def fun_eq_iff)
    ultimately show ?thesis by (simp add: s2)
  qed
  moreover have "runnable (io_sti s2) = runnable s2" by (simp add: runnable_def fun_eq_iff)
  then have "runnable (io_sti s2) k" using \<open>runnable s1 k\<close> s2(2) by simp
  ultimately show ?thesis
    using s1 s2 g(3) ok(2) k(1) by (intro exI [of _ "io_sti s2"] exI [of _ k]) (simp add: sems_ok_def)
qed

theorem signal_wakes_first_witness:
  "\<exists>s s' k. wait_sem 0 0 demo_sem = Inr (1, s) \<and> signal_sem 0 0 s = Inr (1, s') \<and> runnable s' k \<and> \<not> runnable s k"
proof -
  have room: "qs_num (semqueue (semtable demo_sem ! nat 0)) < NSEMQUEUE"
    using demo_sem_facts(5) by (simp add: waiting_def NSEMQUEUE_def)
  have bad: "\<not> isbadsem 0" by (simp add: isbadsem_def NSEM_def)
  obtain s where s: "wait_sem 0 0 demo_sem = Inr (1, s)" "semstate (semtable s ! nat 0) = S_USED"
    "waiting (semqueue (semtable s ! nat 0)) = [t_tid (thr_mem demo_sem (threads demo_sem ! 0))]"
    using wait_sem_switches [OF demo_sem_facts(2) bad refl _ _ room, of 0 1 0] demo_sem_facts(3-7) demo_runnable [of 1]
    by (auto simp: THREAD_NUM_def)
  have "sem_run s" using sem_run.waits [OF demo_sem_facts(2) room s(1)] .
  from signal_wakes_first [OF this bad refl s(2,3), of 0] s(1) show ?thesis by blast
qed

text \<open>
  A \<open>signal\<close> that finds nobody waiting is lost: it changes nothing but the interrupt flag,
  so a later \<open>wait\<close> on a semaphore whose counter is 0 blocks, as if no signal had been sent. (The
  design in docs/doc_draft/semaphore.md increments the counter on every signal.)
\<close>

theorem signal_lost:
  assumes "sem_run s" "\<not> isbadsem sem" "semtable s ! nat sem = e" "semstate e = S_USED" "semcount e = 0"
    and "cur_thread_index s = int i" "k < THREAD_NUM" "k \<noteq> i" "runnable s k"
  shows "\<exists>s'. and_then (signal_sem ra sem s) (\<lambda>(r, s). wait_sem ra sem s) = Inr (1, s') \<and>
    t_state (thr_mem s' (threads s' ! i)) = WAIT \<and> semcount (semtable s' ! nat sem) = - 1"
proof -
  have ok: "sems_ok s" using sem_run_inv [OF assms(1)] by (simp add: sys_inv_def)
  have sig: "signal_sem ra sem s = Inr (1, io_sti s)"
    using signal_sem_none [OF ok assms(2)] assms(3-5) by simp
  have run: "sem_run (io_sti s)" using sem_run.signals [OF assms(1) sig] .
  have "length (waiting (semqueue e)) = 0"
    using sem_entry_good(2) [OF ok assms(2)] assms(3-5) by (simp add: entry_ok_def)
  then have "qs_num (semqueue e) < NSEMQUEUE" by (simp add: waiting_def NSEMQUEUE_def)
  then show ?thesis
    using wait_sem_switches [OF run assms(2), of e i k ra] assms sig by (auto simp: runnable_def)
qed

theorem signal_lost_witness:
  "\<exists>s'. and_then (signal_sem 0 0 demo_sem) (\<lambda>(r, s). wait_sem 0 0 s) = Inr (1, s') \<and>
    semcount (semtable s' ! nat 0) = - 1"
  using signal_lost [OF demo_sem_facts(2), of 0 _ 0 1 0] demo_sem_facts(3,4,6,7) demo_runnable [of 1]
  by (auto simp: isbadsem_def NSEM_def THREAD_NUM_def)

text \<open>
  \<open>delete_sem\<close> deletes nothing: for every semaphore it can be called with it returns 0 and
  leaves the table as it is, because its first guard is not negated; for an identifier outside
  the table it reads outside the table.
\<close>

theorem delete_sem_never:
  assumes "length (semtable s) = NSEM"
  shows "delete_sem sem s = (if isbadsem sem then Inl Out_of_bounds else Inr (0, io_sti s))"
  using assms
  by (cases "isbadsem sem")
    (auto simp: delete_sem_def sti_ret0_if_err_def sem_entry_def array_get_def isbadsem_def Let_def)

theorem delete_sem_never_witness: "delete_sem 0 demo_sem = Inr (0, io_sti demo_sem)"
proof -
  have "length (semtable demo_sem) = NSEM"
    using sem_run_inv [OF demo_sem_facts(2)] by (simp add: sys_inv_def sems_ok_def)
  from delete_sem_never [OF this, of 0] show ?thesis by (simp add: isbadsem_def NSEM_def)
qed

end
