(* ===== verification/Semaphore_Full.thy ===== *)
theory Semaphore_Full
  imports Semaphore
begin

text \<open>
  A full semaphore queue. The queue of a semaphore has 30 places and the thread table 40, so a
  31st thread can wait: this theory builds a system of forty runnable threads, lets thirty of them
  wait on one semaphore (through \<open>wait\<close> itself, so the state is one of a run), and states what
  \<open>wait\<close> in src/kernel/task/semaphore.c does to the next.
\<close>

section \<open>Forty runnable threads\<close>

definition crowd :: sys where
  "crowd = (demo_table RUNNABLE RUNNABLE)\<lparr>
     thr_mem := (\<lambda>a. let i = unat (a - 0x300000) div 128 in
       if a \<ge> 0x300000 \<and> i < 40 then demo_thread RUNNABLE (int i) 0xa000 else empty_thread),
     threads := map (\<lambda>i. 0x300000 + 128 * of_nat i) [0..<40],
     tid_index_dict := map int [0..<40], tid_global := 40\<rparr>"

lemma crowd_fields [simp]:
  "threads crowd = map (\<lambda>i. 0x300000 + 128 * of_nat i) [0..<40]" "tid_index_dict crowd = map int [0..<40]"
  "tid_global crowd = 40" "cur_thread_index crowd = 0" "empty_at crowd = 0x200000"
  "semtable crowd = replicate 100 demo_entry"
  by (simp_all add: crowd_def demo_fields del: upt_rec_numeral)

lemma crowd_addr:
  assumes "i < 40"
  shows "unat (128 * word_of_nat i :: u64) = 128 * i" "(0x300000 :: u64) \<le> 0x300000 + 128 * word_of_nat i"
    "0x300000 + 128 * word_of_nat i \<noteq> (0x200000 :: u64)" "0x300000 + 128 * word_of_nat i \<noteq> (0 :: u64)"
proof -
  show u: "unat (128 * word_of_nat i :: u64) = 128 * i"
    using assms by (simp add: unat_word_ariths unat_of_nat take_bit_eq_mod)
  have "unat (0x300000 + 128 * word_of_nat i :: u64) = 0x300000 + 128 * i"
    using assms by (subst unat_add_lem [THEN iffD1]) (simp_all add: u)
  then have "unat (0x300000 :: u64) \<le> unat (0x300000 + 128 * word_of_nat i :: u64)"
    "unat (0x300000 + 128 * word_of_nat i :: u64) \<noteq> unat (0x200000 :: u64)"
    "unat (0x300000 + 128 * word_of_nat i :: u64) \<noteq> unat (0 :: u64)" by simp_all
  then show "(0x300000 :: u64) \<le> 0x300000 + 128 * word_of_nat i"
    "0x300000 + 128 * word_of_nat i \<noteq> (0x200000 :: u64)" "0x300000 + 128 * word_of_nat i \<noteq> (0 :: u64)"
    by (metis word_le_nat_alt)+
qed

lemma crowd_thread:
  "i < 40 \<Longrightarrow> thr_mem crowd (0x300000 + 128 * word_of_nat i) = demo_thread RUNNABLE (int i) 0xa000"
  using crowd_addr(1,2) [of i] by (simp add: crowd_def Let_def del: upt_rec_numeral)

lemma crowd_live: "live crowd i \<longleftrightarrow> i < 40"
  using crowd_addr(3) [of i] by (auto simp: live_def THREAD_NUM_def simp del: upt_rec_numeral)

lemma crowd_runnable: "i < 40 \<Longrightarrow> runnable crowd i"
  using crowd_thread [of i] by (simp add: runnable_def demo_thread_def del: upt_rec_numeral)

lemma crowd_ok: "table_ok crowd"
proof -
  have "thr_mem crowd 0x200000 = empty_thread" by (simp add: crowd_def)
  then show ?thesis
    unfolding table_ok_def crowd_live crowd_fields(5)
    by (auto simp: crowd_thread THREAD_NUM_def empty_thread_def demo_thread_def simp del: upt_rec_numeral)
qed

lemma crowd_run: "sem_run crowd"
proof (rule sem_run.boot)
  have "semtable crowd ! j = demo_entry" if "j < NSEM" for j using that by (simp add: NSEM_def)
  then show "\<forall>j<NSEM. semstate (semtable crowd ! j) = S_FREE \<and> que_ok (semqueue (semtable crowd ! j)) \<and>
      waiting (semqueue (semtable crowd ! j)) = []"
    by (simp add: demo_entry_def S_FREE_def que_ok_def NSEMQUEUE_def waiting_def)
  show "\<forall>i. live crowd i \<longrightarrow> threads crowd ! i \<noteq> 0 \<and> t_state (thr_mem crowd (threads crowd ! i)) \<noteq> WAIT"
    using crowd_addr(4) crowd_thread by (auto simp: crowd_live demo_thread_def simp del: upt_rec_numeral)
qed (use crowd_ok crowd_runnable [of 0] in \<open>simp_all add: NSEM_def\<close>)

text \<open>Thirty of them can wait on the semaphore \<open>create_sem\<close> hands out.\<close>

lemma crowd_waits:
  assumes "m \<le> 30"
  shows "\<exists>s :: sys. sem_run s \<and> semstate (semtable s ! 0) = S_USED \<and> semcount (semtable s ! 0) = - int m \<and>
    length (waiting (semqueue (semtable s ! 0))) = m \<and> 40 - m \<le> card {k. k < 40 \<and> runnable s k}"
  using assms
proof (induction m)
  case 0
  have ok: "sems_ok crowd" using sem_run_inv [OF crowd_run] by (simp add: sys_inv_def)
  have "find_up NSEM (\<lambda>i. semstate (semtable crowd ! i) = S_FREE) 0 = Some 0"
    by (rule find_up_first) (simp_all add: NSEM_def demo_entry_def S_FREE_def)
  from create_sem_spec [OF ok order_refl this] obtain s' e where s': "create_sem 0 crowd = Inr (int 0, s')"
    "semtable s' = (semtable crowd)[0 := e]" "semstate e = S_USED" "semcount e = 0"
    "waiting (semqueue e) = []" "threads s' = threads crowd" "thr_mem s' = thr_mem crowd"
    by blast
  have "runnable s' = runnable crowd" using s'(6,7) by (simp add: runnable_def fun_eq_iff)
  then have "{k. k < 40 \<and> runnable s' k} = {..<40}" using crowd_runnable by auto
  then show ?case using sem_run.creates [OF crowd_run s'(1)] s'(2-5) by (intro exI [of _ s']) simp
next
  case (Suc m)
  then obtain s :: sys where s: "sem_run s" "semstate (semtable s ! 0) = S_USED" "semcount (semtable s ! 0) = - int m"
    "length (waiting (semqueue (semtable s ! 0))) = m" "40 - m \<le> card {k. k < 40 \<and> runnable s k}" by auto
  let ?R = "{k. k < 40 \<and> runnable s k}"
  have fin: "finite ?R" by simp
  obtain i where i: "cur_thread_index s = int i" "i < 40" "runnable s i"
    using sys_inv_cur [OF sem_run_inv [OF s(1)]] unfolding THREAD_NUM_def by metis
  have card: "card (?R - {i}) = card ?R - 1" using i by (intro card_Diff_singleton) simp
  then have "card (?R - {i}) \<noteq> 0" using s(5) Suc.prems by simp
  then obtain k where k: "k < 40" "k \<noteq> i" "runnable s k" by (auto simp: card_eq_0_iff)
  have room: "qs_num (semqueue (semtable s ! nat 0)) < NSEMQUEUE"
    using s(4) Suc.prems by (simp add: waiting_def NSEMQUEUE_def)
  have bad: "\<not> isbadsem 0" by (simp add: isbadsem_def NSEM_def)
  obtain s' where s': "wait_sem 0 0 s = Inr (1, s')" "semcount (semtable s' ! 0) = - int (Suc m)"
    "length (waiting (semqueue (semtable s' ! 0))) = Suc m" "semstate (semtable s' ! 0) = S_USED"
    "\<forall>j<40. j \<noteq> i \<and> runnable s j \<longrightarrow> runnable s' j"
    using wait_sem_switches [OF s(1) bad refl _ _ room i(1), of k 0] s(2-4) k by (auto simp: THREAD_NUM_def)
  have "?R - {i} \<subseteq> {k. k < 40 \<and> runnable s' k}" using s'(5) by auto
  then have "card (?R - {i}) \<le> card {k. k < 40 \<and> runnable s' k}" by (intro card_mono) simp_all
  moreover have "sem_run s'" using sem_run.waits [OF s(1) room s'(1)] .
  ultimately show ?case using s'(2-4) card s(5) by (intro exI [of _ s']) simp
qed

section \<open>The thirty-first waiter\<close>

text \<open>
  The thirty-first waiter is lost: when the queue is full, \<open>wait\<close> returns 0 to a caller that
  it has already put in state \<open>WAIT\<close>, whose tid is in no queue, so that no signal will ever make
  it runnable; and the counter no longer matches the queue.
\<close>

theorem wait_refused_lost:
  assumes "sem_run s" "\<not> isbadsem sem" "semtable s ! nat sem = e" "semstate e = S_USED"
    and "qs_num (semqueue e) = NSEMQUEUE" "cur_thread_index s = int i"
  shows "\<exists>s'. wait_sem ra sem s = Inr (0, s') \<and> t_state (thr_mem s' (threads s' ! i)) = WAIT \<and>
    queued s' (t_tid (thr_mem s (threads s ! i))) = 0 \<and> semcount (semtable s' ! nat sem) = - 31 \<and>
    length (waiting (semqueue (semtable s' ! nat sem))) = 30"
proof -
  have inv: "sys_inv s" using sem_run_inv [OF assms(1)] .
  then have ok: "table_ok s" "sems_ok s" "core_inv s" by (auto simp: sys_inv_def wait_inv_def)
  note g = sem_entry_good [OF ok(2) assms(2)]
  obtain j where "live s j" "cur_thread_index s = int j" "threads s ! j \<noteq> 0" "runnable s j"
    using sys_inv_cur [OF inv] by metis
  then have i: "live s i" "threads s ! i \<noteq> 0" "runnable s i" using assms(6) by auto
  have len: "length (waiting (semqueue e)) = 30" using assms(5) by (simp add: waiting_def NSEMQUEUE_def)
  then have cnt: "semcount e = - 30" using g(2) assms(3,4) by (auto simp: entry_ok_def max_def split: if_splits)
  obtain s' where s': "wait_sem ra sem s = Inr (0, s')"
    "semtable s' = (semtable s)[nat sem := e\<lparr>semcount := semcount e - 1\<rparr>]"
    "thr_mem s' = (thr_mem s)(threads s ! i := (thr_mem s (threads s ! i))\<lparr>t_state := WAIT\<rparr>)"
    "threads s' = threads s"
    using wait_sem_refused [OF ok(1,2) assms(2-4) _ assms(5) i(1) assms(6) i(2), of ra] cnt by auto
  have len_tab: "length (semtable s) = NSEM" using ok(2) by (simp add: sems_ok_def)
  have "queued s' tid = queued s tid" for tid
    using queued_update [OF len_tab g(3) s'(2), of tid] assms(3) by simp
  moreover have "queued s (t_tid (thr_mem s (threads s ! i))) = 0"
    using core_invD(1) [OF ok(3) i(1)] table_ok_live(2) [OF ok(1) i(1)] i(3) by (simp add: runnable_def)
  ultimately show ?thesis using s' cnt len g(3) len_tab by (intro exI [of _ s']) simp
qed

theorem wait_refused_lost_witness:
  "\<exists>s s' :: sys. sem_run s \<and> wait_sem 0 0 s = Inr (0, s') \<and> \<not> runnable s' (nat (cur_thread_index s))"
proof -
  obtain s :: sys where s: "sem_run s" "semstate (semtable s ! nat 0) = S_USED"
    "length (waiting (semqueue (semtable s ! nat 0))) = 30" using crowd_waits [of 30] by auto
  then have full: "qs_num (semqueue (semtable s ! nat 0)) = NSEMQUEUE" by (simp add: waiting_def NSEMQUEUE_def)
  obtain i where i: "cur_thread_index s = int i" using sys_inv_cur [OF sem_run_inv [OF s(1)]] by metis
  have "\<not> isbadsem 0" by (simp add: isbadsem_def NSEM_def)
  from wait_refused_lost [OF s(1) this refl s(2) full i, of 0] show ?thesis
    using s(1) i by (auto simp: runnable_def)
qed

end
