(* ===== verification/Bytes.thy ===== *)
theory Bytes
  imports Util
begin

text \<open>
  Little-endian integers in the flat byte memory: what a C assignment through a pointer to
  \<open>uint16_t\<close>, \<open>uint32_t\<close> or \<open>uint64_t\<close> stores and reads on x86-64. Page tables, segment and
  interrupt descriptors, AHCI command tables and ext2 structures are made of these.
\<close>

definition le_byte :: "'a::len word \<Rightarrow> nat \<Rightarrow> u8" where
  "le_byte v i = ucast (drop_bit (8 * i) v)"

primrec le_value :: "u8 list \<Rightarrow> nat" where
  "le_value [] = 0"
| "le_value (b # bs) = unat b + 256 * le_value bs"

definition load_le :: "bytemem \<Rightarrow> u64 \<Rightarrow> nat \<Rightarrow> nat" where
  "load_le m a k = le_value (map (\<lambda>i. m (a + of_nat i)) [0..<k])"

definition store_le :: "bytemem \<Rightarrow> u64 \<Rightarrow> nat \<Rightarrow> 'a::len word \<Rightarrow> bytemem" where
  "store_le m a k v = (\<lambda>b. if b - a < of_nat k then le_byte v (unat (b - a)) else m b)"

definition load64 :: "bytemem \<Rightarrow> u64 \<Rightarrow> u64" where
  "load64 m a = of_nat (load_le m a 8)"

definition store64 :: "bytemem \<Rightarrow> u64 \<Rightarrow> u64 \<Rightarrow> bytemem" where
  "store64 m a v = store_le m a 8 v"

definition load32 :: "bytemem \<Rightarrow> u64 \<Rightarrow> u32" where
  "load32 m a = of_nat (load_le m a 4)"

definition store32 :: "bytemem \<Rightarrow> u64 \<Rightarrow> u32 \<Rightarrow> bytemem" where
  "store32 m a v = store_le m a 4 v"

definition load16 :: "bytemem \<Rightarrow> u64 \<Rightarrow> u16" where
  "load16 m a = of_nat (load_le m a 2)"

definition store16 :: "bytemem \<Rightarrow> u64 \<Rightarrow> u16 \<Rightarrow> bytemem" where
  "store16 m a v = store_le m a 2 v"

section \<open>Bytes of a word\<close>

lemma le_byte_Suc: "le_byte v (Suc i) = le_byte (drop_bit 8 v) i"
  by (simp add: le_byte_def add.commute)

lemma unat_le_byte_0: "unat (le_byte v 0) = unat v mod 256"
  by (simp add: le_byte_def unsigned_ucast_eq take_bit_eq_mod)

lemma le_value_bytes: "le_value (map (le_byte v) [0..<k]) = unat v mod 256 ^ k"
proof (induction k arbitrary: v)
  case 0
  then show ?case by simp
next
  case (Suc k)
  have "map (le_byte v) [0..<Suc k] = le_byte v 0 # map (le_byte (drop_bit 8 v)) [0..<k]"
    by (subst upt_conv_Cons) (simp_all add: map_Suc_upt [symmetric] le_byte_Suc del: upt_Suc)
  moreover have "unat (drop_bit 8 v) = unat v div 256"
    using drop_bit_eq_div [of 8 "unat v"] by (simp add: unat_drop_bit_eq)
  ultimately show ?case using Suc by (simp add: unat_le_byte_0 mod_mult2_eq del: upt_Suc)
qed

section \<open>Reading back\<close>

lemma load_store_same:
  assumes "k < 2 ^ 64"
  shows "load_le (store_le m a k v) a k = unat v mod 256 ^ k"
proof -
  have "store_le m a k v (a + of_nat i) = le_byte v i" if "i < k" for i
    using that assms by (simp add: store_le_def word_less_nat_alt unat_of_nat take_bit_nat_eq_self)
  then have "map (\<lambda>i. store_le m a k v (a + of_nat i)) [0..<k] = map (le_byte v) [0..<k]" by simp
  then show ?thesis by (simp only: load_le_def le_value_bytes)
qed

lemma load_le_cong: "(\<And>i. i < k \<Longrightarrow> m' (b + of_nat i) = m (b + of_nat i)) \<Longrightarrow> load_le m' b k = load_le m b k"
  unfolding load_le_def by (rule arg_cong [where f = le_value]) simp

lemma outside_region:
  fixes a b :: u64
  assumes "unat a + k \<le> 2 ^ 64" "k < 2 ^ 64" "unat b < unat a \<or> unat a + k \<le> unat b"
  shows "\<not> b - a < of_nat k"
proof -
  have "unat (of_nat k :: u64) = k" using assms(2) by (simp add: unat_of_nat take_bit_nat_eq_self)
  then show ?thesis using assms by (auto simp: word_less_nat_alt unat_sub_if')
qed

lemma store_le_outside:
  assumes "unat a + k \<le> 2 ^ 64" "k < 2 ^ 64" "unat b < unat a \<or> unat a + k \<le> unat b"
  shows "store_le m a k v b = m b"
  using outside_region [OF assms] by (simp add: store_le_def)

lemma unat_offset: "unat b + j \<le> 2 ^ 64 \<Longrightarrow> i < j \<Longrightarrow> unat (b + of_nat i :: u64) = unat b + i"
  by (simp add: unat_word_ariths unat_of_nat take_bit_nat_eq_self)

lemma load_store_other:
  assumes "unat a + k \<le> 2 ^ 64" "k < 2 ^ 64" "unat b + j \<le> 2 ^ 64" "unat b + j \<le> unat a \<or> unat a + k \<le> unat b"
  shows "load_le (store_le m a k v) b j = load_le m b j"
  by (rule load_le_cong, rule store_le_outside [OF assms(1,2)])
    (use assms unat_offset [OF assms(3)] in auto)

lemma unat32_lt: "unat (w :: u32) < 2 ^ 32"
  using unsigned_less [of w] by simp

lemma unat16_lt: "unat (w :: u16) < 2 ^ 16"
  using unsigned_less [of w] by simp

lemma load64_store64: "load64 (store64 m a v) a = v"
  using unat64_lt [of v] by (simp add: load64_def store64_def load_store_same)

lemma load32_store32: "load32 (store32 m a v) a = v"
  using unat32_lt [of v] by (simp add: load32_def store32_def load_store_same)

lemma load16_store16: "load16 (store16 m a v) a = v"
  using unat16_lt [of v] by (simp add: load16_def store16_def load_store_same)

lemma load64_zero: "(\<And>i. i < 8 \<Longrightarrow> m (a + of_nat i) = 0) \<Longrightarrow> load64 m a = 0"
proof -
  assume "\<And>i. i < 8 \<Longrightarrow> m (a + of_nat i) = 0"
  then have "map (\<lambda>i. m (a + of_nat i)) [0..<8] = map (le_byte (0 :: u8)) [0..<8]"
    by (intro map_cong) (simp_all add: le_byte_def)
  then show ?thesis by (simp only: load64_def load_le_def le_value_bytes) simp
qed

text \<open>A table of 64-bit words filled by an upward loop, \<open>f i\<close> in the \<open>i\<close>-th place.\<close>

primrec fill64 :: "(nat \<Rightarrow> u64) \<Rightarrow> u64 \<Rightarrow> nat \<Rightarrow> bytemem \<Rightarrow> bytemem" where
  "fill64 f table 0 m = m"
| "fill64 f table (Suc i) m = store64 (fill64 f table i m) (table + 8 * of_nat i) (f i)"

lemma unat_entry:
  assumes "unat table + 8 * n \<le> 2 ^ 64" "i < n"
  shows "unat (table + 8 * of_nat i :: u64) = unat table + 8 * i"
proof -
  have "unat (8 * of_nat i :: u64) = 8 * i"
    using assms by (simp add: unat_word_ariths unat_of_nat take_bit_nat_eq_self)
  then show ?thesis using assms by (simp add: unat_word_ariths)
qed

lemma fill64_outside:
  assumes "unat table + 8 * n \<le> 2 ^ 64" "unat b < unat table \<or> unat table + 8 * n \<le> unat b"
  shows "fill64 f table n m b = m b"
  using assms
proof (induction n)
  case (Suc n)
  then have "unat (table + 8 * of_nat n :: u64) = unat table + 8 * n"
    using unat_entry [of table "Suc n" n] by simp
  with Suc show ?case unfolding fill64.simps store64_def by (subst store_le_outside) auto
qed simp

lemma load64_fill64_outside:
  assumes "unat table + 8 * n \<le> 2 ^ 64" "unat b + 8 \<le> 2 ^ 64"
    and "unat b + 8 \<le> unat table \<or> unat table + 8 * n \<le> unat b"
  shows "load64 (fill64 f table n m) b = load64 m b"
  unfolding load64_def
  by (rule arg_cong [where f = of_nat], rule load_le_cong, rule fill64_outside [OF assms(1)])
    (use assms(3) unat_offset [OF assms(2)] in auto)

lemma load64_fill64:
  assumes "unat table + 8 * n \<le> 2 ^ 64" "i < n"
  shows "load64 (fill64 f table n m) (table + 8 * of_nat i) = f i"
  using assms
proof (induction n)
  case (Suc n)
  have n: "unat (table + 8 * of_nat n :: u64) = unat table + 8 * n"
    using Suc.prems unat_entry [of table "Suc n" n] by simp
  show ?case
  proof (cases "i = n")
    case True
    then show ?thesis by (simp add: load64_store64)
  next
    case False
    then have "i < n" using Suc.prems by simp
    moreover have "unat (table + 8 * of_nat i :: u64) = unat table + 8 * i"
      using Suc.prems unat_entry [of table "Suc n" i] by simp
    ultimately show ?thesis
      using Suc n unfolding fill64.simps store64_def load64_def
      by (subst load_store_other) simp_all
  qed
qed simp

end
