(* ===== verification/Paging.thy ===== *)
theory Paging
  imports Bytes Heap
begin

unbundle bit_operations_syntax

text \<open>
  The segment descriptors and page tables of kernel/mm.c, and the translation of addresses the
  processor makes with them (4-level paging, Intel SDM volume 3, section 4.5).
\<close>

section \<open>Segment descriptors\<close>

definition make_segm_desc :: "u64 \<Rightarrow> u64 \<Rightarrow> u64" where
  "make_segm_desc type dpl =
     (let segm_desc = 0;
          segm_desc = segm_desc OR push_bit 41 type;
          segm_desc = segm_desc OR push_bit 45 dpl;
          segm_desc = segm_desc OR 0x00a0900000000000
      in segm_desc)"

definition gdt :: u64 where "gdt = 0x80"

definition GDT_LIMIT :: int where "GDT_LIMIT = 24"

text \<open>
  \<open>load_gdt\<close> and \<open>intersegment_jump\<close> are in mm_asm.S: \<open>lgdt\<close> on a base and a limit on the stack;
  interrupts off, all data selectors cleared, a far return to the new code selector, interrupts on.
\<close>

definition load_gdt :: "u64 \<Rightarrow> int \<Rightarrow> 'z cpu_scheme \<Rightarrow> 'z cpu_scheme" where
  "load_gdt base limit s = s\<lparr>gdtr := (base, word_of_int limit)\<rparr>"

definition intersegment_jump :: "u16 \<Rightarrow> 'z cpu_scheme \<Rightarrow> 'z cpu_scheme" where
  "intersegment_jump sel s =
     (let s = io_cli s; s = s\<lparr>seg_data := 0\<rparr>; s = s\<lparr>seg_cs := sel\<rparr> in io_sti s)"

definition init_gdt :: "'z cpu_scheme \<Rightarrow> 'z cpu_scheme" where
  "init_gdt s =
     (let m = bytes s;
          m = store64 m (gdt + 8 * 0) 0x00;
          m = store64 m (gdt + 8 * 1) (make_segm_desc 5 0);
          m = store64 m (gdt + 8 * 2) (make_segm_desc 1 0);
          s = s\<lparr>bytes := m\<rparr>;
          s = load_gdt gdt GDT_LIMIT s
      in intersegment_jump (push_bit 3 1) s)"

text \<open>
  The descriptors \<open>init_gdt\<close> leaves: null, a present 64-bit code segment and a present writable data
  segment, both of privilege level 0. The selector loaded into \<open>cs\<close> is that of the second.
\<close>

lemma make_segm_desc_values: "make_segm_desc 5 0 = 0x00a09a0000000000" "make_segm_desc 1 0 = 0x00a0920000000000"
  by (simp_all add: make_segm_desc_def push_bit_eq_mult)

lemma load64_store64_other:
  assumes "unat a + 8 \<le> 2 ^ 64" "unat b + 8 \<le> 2 ^ 64" "unat b + 8 \<le> unat a \<or> unat a + 8 \<le> unat b"
  shows "load64 (store64 m a v) b = load64 m b"
  using load_store_other [of a 8 b 8 m v] assms by (simp add: load64_def store64_def)

lemma init_gdt_descriptors:
  "load64 (bytes (init_gdt s)) gdt = 0" "load64 (bytes (init_gdt s)) (gdt + 8) = 0x00a09a0000000000"
  "load64 (bytes (init_gdt s)) (gdt + 16) = 0x00a0920000000000" "seg_cs (init_gdt s) = 8" "gdtr (init_gdt s) = (0x80, 24)"
  "int_flag (init_gdt s)"
  by (simp_all add: init_gdt_def Let_def load_gdt_def intersegment_jump_def io_cli_def io_sti_def gdt_def
      GDT_LIMIT_def load64_store64 load64_store64_other make_segm_desc_values)

section \<open>Page tables\<close>

definition ENTRY_NUM :: nat where "ENTRY_NUM = 512"

definition TABLE_SIZE :: nat where "TABLE_SIZE = 8 * ENTRY_NUM"

definition PAGE_4KB :: u64 where "PAGE_4KB = 0x1000"

text \<open>
  The four loops of \<open>create_kpgtable\<close> fill a table upwards (\<open>fill64\<close>); a pointer to the
  \<open>k\<close>-th \<open>uint64_t\<close> of a table is its address plus \<open>8 * k\<close>.
\<close>

definition create_kpgtable :: "u64 \<Rightarrow> bytemem \<Rightarrow> bytemem" where
  "create_kpgtable start_addr m =
     (let pt_num = 512; pd_num = 512; pdpt_num = 4; pml4_num = 1;
          pgtable_size = TABLE_SIZE * (pt_num + pd_num + pdpt_num + pml4_num);
          m = memset m start_addr 0 (of_nat pgtable_size);
          pml4 = start_addr;
          pdpt = pml4 + 8 * of_nat (ENTRY_NUM * pml4_num);
          pd = pdpt + 8 * of_nat (ENTRY_NUM * pdpt_num);
          pt = pd + 8 * of_nat (ENTRY_NUM * pd_num);
          m = fill64 (\<lambda>i. (of_nat i * PAGE_4KB) OR 0x003) pt (pdpt_num * pd_num * pt_num) m;
          m = fill64 (\<lambda>i. (pt + 8 * of_nat (ENTRY_NUM * i)) OR 0x003) pd (pdpt_num * pd_num) m;
          m = fill64 (\<lambda>i. (pd + 8 * of_nat (ENTRY_NUM * i)) OR 0x003) pdpt pdpt_num m;
          m = fill64 (\<lambda>i. (pdpt + 8 * of_nat (ENTRY_NUM * i)) OR 0x003) pml4 pml4_num m
      in m)"

definition load_pgtable :: "u64 \<Rightarrow> 'z cpu_scheme \<Rightarrow> 'z cpu_scheme" where
  "load_pgtable pgtable s = s\<lparr>cr3 := pgtable\<rparr>"

definition init_kpaging :: "'z cpu_scheme \<Rightarrow> 'z cpu_scheme" where
  "init_kpaging s =
     (let start_addr = 0x300000;
          s = s\<lparr>bytes := create_kpgtable start_addr (bytes s)\<rparr>
      in load_pgtable start_addr s)"

section \<open>Address translation\<close>

text \<open>
  The processor's walk: nine bits of the address index each table, bit 0 of an entry says that it
  is present, bit 7 of an entry of the middle levels that it maps a large page, bits 51..12 hold
  the address of the next table or of the page. An address whose bits 63..47 are not all equal
  is not canonical.
\<close>

definition table_index :: "nat \<Rightarrow> u64 \<Rightarrow> u64" where
  "table_index level v = take_bit 9 (drop_bit (12 + 9 * level) v)"

definition table_frame :: "u64 \<Rightarrow> u64" where
  "table_frame e = e AND 0x000ffffffffff000"

definition table_entry :: "bytemem \<Rightarrow> u64 \<Rightarrow> u64 \<Rightarrow> u64" where
  "table_entry m base i = load64 m (table_frame base + 8 * i)"

definition canonical :: "u64 \<Rightarrow> bool" where
  "canonical v \<longleftrightarrow> drop_bit 47 v = 0 \<or> drop_bit 47 v = mask 17"

fun walk :: "bytemem \<Rightarrow> nat \<Rightarrow> u64 \<Rightarrow> u64 \<Rightarrow> u64 option" where
  "walk m 0 base v =
     (let e = table_entry m base (table_index 0 v) in
      if bit e 0 then Some (table_frame e OR take_bit 12 v) else None)"
| "walk m (Suc l) base v =
     (let e = table_entry m base (table_index (Suc l) v) in
      if \<not> bit e 0 then None
      else if bit e 7 \<and> l < 2 then Some (push_bit (21 + 9 * l) (drop_bit (21 + 9 * l) (table_frame e)) OR take_bit (21 + 9 * l) v)
      else walk m l e v)"

definition translate :: "'z cpu_scheme \<Rightarrow> u64 \<Rightarrow> u64 option" where
  "translate s v = (if canonical v then walk (bytes s) 3 (cr3 s) v else None)"

section \<open>The entries\<close>

lemma frame_of_entry:
  assumes "k < 2 ^ 40"
  shows "table_frame (push_bit 12 (of_nat k) OR 3) = push_bit 12 (of_nat k)"
    "bit (push_bit 12 (of_nat k :: u64) OR 3) 0" "\<not> bit (push_bit 12 (of_nat k :: u64) OR 3) 7"
proof -
  have eq: "(0x000ffffffffff000 :: u64) = push_bit 12 (mask 40)" "(3 :: u64) = mask 2"
    by (simp_all add: mask_eq_exp_minus_1)
  have "(of_nat k :: u64) = take_bit 40 (of_nat k)"
    using assms by (simp add: take_bit_of_nat take_bit_nat_eq_self)
  then have high: "\<not> bit (of_nat k :: u64) n" if "40 \<le> n" for n
    using that by (metis bit_take_bit_iff not_le)
  have low: "bit (of_nat k :: u64) n \<Longrightarrow> n < 40" for n using high [of n] by (meson not_le)
  show "table_frame (push_bit 12 (of_nat k) OR 3) = push_bit 12 (of_nat k)"
    unfolding table_frame_def eq
  proof (rule bit_word_eqI)
    fix n
    assume "n < LENGTH(64)"
    then show "bit ((push_bit 12 (word_of_nat k) OR mask 2) AND push_bit 12 (mask 40) :: u64) n =
        bit (push_bit 12 (word_of_nat k) :: u64) n"
      using low [of "n - 12"] by (simp only: bit_and_iff bit_or_iff bit_push_bit_iff bit_mask_iff) auto
  qed
  show "bit (push_bit 12 (of_nat k :: u64) OR 3) 0" "\<not> bit (push_bit 12 (of_nat k :: u64) OR 3) 7"
    unfolding eq by (simp_all only: bit_or_iff bit_push_bit_iff bit_mask_iff) simp_all
qed

text \<open>Where the tables are, and what \<open>create_kpgtable\<close> puts in them.\<close>

lemma create_kpgtable_eq:
  "create_kpgtable a m =
     fill64 (\<lambda>i. (a + 0x1000 + 8 * of_nat (512 * i)) OR 3) a 1
     (fill64 (\<lambda>i. (a + 0x5000 + 8 * of_nat (512 * i)) OR 3) (a + 0x1000) 4
     (fill64 (\<lambda>i. (a + 0x205000 + 8 * of_nat (512 * i)) OR 3) (a + 0x5000) 2048
     (fill64 (\<lambda>i. (of_nat i * 0x1000) OR 3) (a + 0x205000) 1048576
     (memset m a 0 0x405000))))"
  by (simp add: create_kpgtable_def Let_def TABLE_SIZE_def ENTRY_NUM_def PAGE_4KB_def add.assoc)

definition kpg :: "bytemem \<Rightarrow> bytemem" where
  "kpg m = create_kpgtable 0x300000 m"

lemma page_address:
  "(of_nat i * 0x1000 :: u64) = push_bit 12 (of_nat i)"
  "(0x505000 + 8 * of_nat (512 * i) :: u64) = push_bit 12 (of_nat (0x505 + i))"
  "(0x305000 + 8 * of_nat (512 * i) :: u64) = push_bit 12 (of_nat (0x305 + i))"
  "(0x301000 + 8 * of_nat (512 * i) :: u64) = push_bit 12 (of_nat (0x301 + i))"
  by (simp_all add: push_bit_eq_mult)

lemma kpg_eq:
  "kpg m =
     fill64 (\<lambda>i. push_bit 12 (of_nat (0x301 + i)) OR 3) 0x300000 1
     (fill64 (\<lambda>i. push_bit 12 (of_nat (0x305 + i)) OR 3) 0x301000 4
     (fill64 (\<lambda>i. push_bit 12 (of_nat (0x505 + i)) OR 3) 0x305000 2048
     (fill64 (\<lambda>i. push_bit 12 (of_nat i) OR 3) 0x505000 1048576
     (memset m 0x300000 0 0x405000))))"
proof -
  have "(0x300000 + 0x1000 :: u64) = 0x301000" "(0x300000 + 0x5000 :: u64) = 0x305000"
    "(0x300000 + 0x205000 :: u64) = 0x505000" by simp_all
  then show ?thesis by (simp only: kpg_def create_kpgtable_eq page_address)
qed

lemma kpg_entries:
  "i < 1048576 \<Longrightarrow> load64 (kpg m) (0x505000 + 8 * of_nat i) = push_bit 12 (of_nat i) OR 3"
  "i < 2048 \<Longrightarrow> load64 (kpg m) (0x305000 + 8 * of_nat i) = push_bit 12 (of_nat (0x505 + i)) OR 3"
  "i < 4 \<Longrightarrow> load64 (kpg m) (0x301000 + 8 * of_nat i) = push_bit 12 (of_nat (0x305 + i)) OR 3"
  "load64 (kpg m) 0x300000 = push_bit 12 (of_nat 0x301) OR 3"
proof -
  show "load64 (kpg m) (0x505000 + 8 * of_nat i) = push_bit 12 (of_nat i) OR 3" if "i < 1048576"
    unfolding kpg_eq
    by (insert that unat_entry [of "0x505000" 1048576 i],
        (subst load64_fill64_outside, (simp; fail), (simp; fail), (simp; fail))+, rule load64_fill64; simp)
  show "load64 (kpg m) (0x305000 + 8 * of_nat i) = push_bit 12 (of_nat (0x505 + i)) OR 3" if "i < 2048"
    unfolding kpg_eq
    by (insert that unat_entry [of "0x305000" 2048 i],
        (subst load64_fill64_outside, (simp; fail), (simp; fail), (simp; fail))+, rule load64_fill64; simp)
  show "load64 (kpg m) (0x301000 + 8 * of_nat i) = push_bit 12 (of_nat (0x305 + i)) OR 3" if "i < 4"
    unfolding kpg_eq
    by (insert that unat_entry [of "0x301000" 4 i],
        (subst load64_fill64_outside, (simp; fail), (simp; fail), (simp; fail))+, rule load64_fill64; simp)
  show "load64 (kpg m) 0x300000 = push_bit 12 (of_nat 0x301) OR 3"
    using load64_fill64 [of "0x300000" 1 0] unfolding kpg_eq by simp
qed

lemma kpg_zero:
  "1 \<le> i \<Longrightarrow> i < 512 \<Longrightarrow> load64 (kpg m) (0x300000 + 8 * of_nat i) = 0"
  "4 \<le> i \<Longrightarrow> i < 512 \<Longrightarrow> load64 (kpg m) (0x301000 + 8 * of_nat i) = 0"
proof -
  have zero: "load64 (memset m 0x300000 0 0x405000) b = 0" if "0x300000 \<le> unat b" "unat b < 0x302000" for b
  proof (rule load64_zero)
    fix i :: nat
    assume "i < 8"
    then have "unat (b + of_nat i) = unat b + i" using that by (intro unat_offset [of b 8]) simp_all
    moreover have "unat b + i - 0x300000 < 0x405000" using that \<open>i < 8\<close> by linarith
    ultimately show "memset m 0x300000 0 0x405000 (b + of_nat i) = 0"
      using that by (simp add: memset_eq word_less_nat_alt unat_sub_if')
  qed
  show "load64 (kpg m) (0x300000 + 8 * of_nat i) = 0" if "1 \<le> i" "i < 512"
    unfolding kpg_eq
    by (insert that unat_entry [of "0x300000" 512 i],
        (subst load64_fill64_outside, (simp; fail), (simp; fail), (simp; fail))+, rule zero; simp)
  show "load64 (kpg m) (0x301000 + 8 * of_nat i) = 0" if "4 \<le> i" "i < 512"
    unfolding kpg_eq
    by (insert that unat_entry [of "0x301000" 512 i],
        (subst load64_fill64_outside, (simp; fail), (simp; fail), (simp; fail))+, rule zero; simp)
qed

text \<open>A memory that holds these tables.\<close>

definition kpg_tables :: "bytemem \<Rightarrow> bool" where
  "kpg_tables m \<longleftrightarrow>
     (\<forall>i<1048576. load64 m (0x505000 + 8 * of_nat i) = push_bit 12 (of_nat i) OR 3) \<and>
     (\<forall>i<2048. load64 m (0x305000 + 8 * of_nat i) = push_bit 12 (of_nat (0x505 + i)) OR 3) \<and>
     (\<forall>i<512. load64 m (0x301000 + 8 * of_nat i) = (if i < 4 then push_bit 12 (of_nat (0x305 + i)) OR 3 else 0)) \<and>
     (\<forall>i<512. load64 m (0x300000 + 8 * of_nat i) = (if i = 0 then push_bit 12 (of_nat 0x301) OR 3 else 0))"

lemma kpg_tables_kpg: "kpg_tables (kpg m)"
proof -
  have "load64 (kpg m) (0x300000 + 8 * of_nat i) = (if i = 0 then push_bit 12 (of_nat 0x301) OR 3 else 0)" if "i < 512" for i
    using kpg_entries(4) [of m] kpg_zero(1) [of i m] that by (cases "i = 0") simp_all
  moreover have "load64 (kpg m) (0x301000 + 8 * of_nat i) = (if i < 4 then push_bit 12 (of_nat (0x305 + i)) OR 3 else 0)" if "i < 512" for i
    using kpg_entries(3) [of i m] kpg_zero(2) [of i m] that by (cases "i < 4") simp_all
  ultimately show ?thesis unfolding kpg_tables_def using kpg_entries(1,2) [of _ m] by blast
qed

lemma kpg_tablesD:
  assumes "kpg_tables m"
  shows "i < 1048576 \<Longrightarrow> load64 m (0x505000 + 8 * of_nat i) = push_bit 12 (of_nat i) OR 3"
    "i < 2048 \<Longrightarrow> load64 m (0x305000 + 8 * of_nat i) = push_bit 12 (of_nat (0x505 + i)) OR 3"
    "i < 4 \<Longrightarrow> load64 m (0x301000 + 8 * of_nat i) = push_bit 12 (of_nat (0x305 + i)) OR 3"
    "load64 m 0x300000 = push_bit 12 (of_nat 0x301) OR 3"
    "1 \<le> i \<Longrightarrow> i < 512 \<Longrightarrow> load64 m (0x300000 + 8 * of_nat i) = 0"
    "4 \<le> i \<Longrightarrow> i < 512 \<Longrightarrow> load64 m (0x301000 + 8 * of_nat i) = 0"
proof -
  show "load64 m 0x300000 = push_bit 12 (of_nat 0x301) OR 3"
  proof -
    have "\<forall>i<512. load64 m (0x300000 + 8 * of_nat i) = (if i = 0 then push_bit 12 (of_nat 0x301) OR 3 else 0)"
      using assms unfolding kpg_tables_def by blast
    from this [rule_format, of 0] show ?thesis by simp
  qed
qed (use assms in \<open>simp_all add: kpg_tables_def\<close>)

lemma kpg_tables_cong:
  assumes "\<forall>x. 0x300000 \<le> unat x \<longrightarrow> m' x = m x" "kpg_tables m"
  shows "kpg_tables m'"
proof -
  have l: "load64 m' (b + 8 * of_nat i) = load64 m (b + 8 * of_nat i)"
    if "0x300000 \<le> unat b" "unat b + 8 * n \<le> 2 ^ 64" "i < n" for b :: u64 and i n
  proof -
    have u: "unat (b + 8 * of_nat i) = unat b + 8 * i" by (rule unat_entry [OF that(2,3)])
    have "load_le m' (b + 8 * of_nat i) 8 = load_le m (b + 8 * of_nat i) 8"
    proof (rule load_le_cong)
      fix j :: nat assume "j < 8"
      then have "unat (b + 8 * of_nat i + of_nat j) = unat b + 8 * i + j"
        using unat_offset [of "b + 8 * of_nat i" 8 j] u that by simp
      then show "m' (b + 8 * of_nat i + of_nat j) = m (b + 8 * of_nat i + of_nat j)" using assms(1) that(1) by simp
    qed
    then show ?thesis by (simp add: load64_def)
  qed
  have "load64 m' (0x505000 + 8 * of_nat i) = load64 m (0x505000 + 8 * of_nat i)" if "i < 1048576" for i
    by (rule l [OF _ _ that]) simp_all
  moreover have "load64 m' (0x305000 + 8 * of_nat i) = load64 m (0x305000 + 8 * of_nat i)" if "i < 2048" for i
    by (rule l [OF _ _ that]) simp_all
  moreover have "load64 m' (0x301000 + 8 * of_nat i) = load64 m (0x301000 + 8 * of_nat i)" if "i < 512" for i
    by (rule l [OF _ _ that]) simp_all
  moreover have "load64 m' (0x300000 + 8 * of_nat i) = load64 m (0x300000 + 8 * of_nat i)" if "i < 512" for i
    by (rule l [OF _ _ that]) simp_all
  ultimately show ?thesis using assms(2) unfolding kpg_tables_def by simp
qed

section \<open>The walk through them\<close>

lemma table_index_nat: "table_index l v = of_nat (unat v div 2 ^ (12 + 9 * l) mod 512)"
proof -
  have "unat (table_index l v) = take_bit 9 (drop_bit (12 + 9 * l) (unat v))"
    unfolding table_index_def by (simp only: unsigned_take_bit_eq unat_drop_bit_eq)
  then have "unat (table_index l v) = unat v div 2 ^ (12 + 9 * l) mod 512"
    by (simp add: take_bit_eq_mod drop_bit_eq_div)
  then show ?thesis by (metis of_nat_unat ucast_id)
qed

lemma frame_0x300000: "table_frame 0x300000 = 0x300000"
  by (simp add: table_frame_def)

lemma entry_address:
  "push_bit 12 (of_nat (a + i) :: u64) + 8 * of_nat j = 0x1000 * of_nat a + 8 * of_nat (512 * i + j)"
  by (simp add: push_bit_eq_mult algebra_simps)

lemma page_and_offset:
  fixes v :: u64
  shows "push_bit 12 (of_nat (unat v div 4096)) OR take_bit 12 v = v"
proof -
  have "unat (drop_bit 12 v) = unat v div 4096"
    using drop_bit_eq_div [of 12 "unat v"] by (simp add: unat_drop_bit_eq)
  then have "of_nat (unat v div 4096) = drop_bit 12 v" by (metis of_nat_unat ucast_id)
  then show ?thesis by (simp only:) (rule bit_word_eqI, auto simp: bit_simps)
qed

lemma walk_step:
  assumes "table_entry m base (table_index l v) = push_bit 12 (of_nat k) OR 3" "k < 2 ^ 40" "0 < l"
  shows "walk m l base v = walk m (l - 1) (push_bit 12 (of_nat k) OR 3) v"
  using assms frame_of_entry [OF assms(2)] by (cases l) simp_all

lemma walk_page:
  assumes "table_entry m base (table_index 0 v) = push_bit 12 (of_nat (unat v div 4096)) OR 3"
    and "unat v div 4096 < 2 ^ 40"
  shows "walk m 0 base v = Some v"
  using assms(1) frame_of_entry [OF assms(2)] page_and_offset [of v] by simp

lemma walk_absent: "table_entry m base (table_index l v) = 0 \<Longrightarrow> walk m l base v = None"
  by (cases l) simp_all

lemma walk_low:
  assumes "kpg_tables m" "unat v < 2 ^ 32"
  shows "walk m 3 0x300000 v = Some v"
proof -
  let ?n = "unat v"
  have lt: "?n div 2 ^ 30 < 4" "?n div 2 ^ 21 < 2048" "?n div 2 ^ 12 < 1048576" using assms(2) by auto
  have i3: "table_index 3 v = 0" using assms(2) by (simp add: table_index_nat)
  have i2: "table_index 2 v = of_nat (?n div 2 ^ 30)" using lt(1) by (simp add: table_index_nat)
  let ?e2 = "push_bit 12 (of_nat (0x305 + ?n div 2 ^ 30)) OR (3 :: u64)"
  let ?e1 = "push_bit 12 (of_nat (0x505 + ?n div 2 ^ 21)) OR (3 :: u64)"
  let ?e0 = "push_bit 12 (of_nat (?n div 2 ^ 12)) OR (3 :: u64)"
  have t3: "table_entry m 0x300000 (table_index 3 v) = push_bit 12 (of_nat 0x301) OR 3"
    using kpg_tablesD(4) [OF assms(1)] by (simp add: table_entry_def i3 frame_0x300000)
  have t2: "table_entry m (push_bit 12 (of_nat 0x301) OR 3) (table_index 2 v) = ?e2"
    using kpg_tablesD(3) [OF assms(1) lt(1)] frame_of_entry(1) [of "0x301"]
    by (simp add: table_entry_def i2)
  have j1: "512 * (?n div 2 ^ 30) + ?n div 2 ^ 21 mod 512 = ?n div 2 ^ 21"
    using div_mult2_eq [of ?n "2 ^ 21" 512] by simp
  have j0: "512 * (?n div 2 ^ 21) + ?n div 2 ^ 12 mod 512 = ?n div 2 ^ 12"
    using div_mult2_eq [of ?n "2 ^ 12" 512] by simp
  have i1: "table_index 1 v = of_nat (?n div 2 ^ 21 mod 512)" "table_index 0 v = of_nat (?n div 2 ^ 12 mod 512)"
    by (simp_all add: table_index_nat)
  have f: "table_frame ?e2 = push_bit 12 (of_nat (0x305 + ?n div 2 ^ 30))"
    "table_frame ?e1 = push_bit 12 (of_nat (0x505 + ?n div 2 ^ 21))"
    using lt by (intro frame_of_entry(1); simp)+
  have t1: "table_entry m ?e2 (table_index 1 v) = ?e1"
    using kpg_tablesD(2) [OF assms(1) lt(2)]
    unfolding table_entry_def f i1 entry_address j1 by simp
  have t0: "table_entry m ?e1 (table_index 0 v) = ?e0"
    using kpg_tablesD(1) [OF assms(1) lt(3)]
    unfolding table_entry_def f i1 entry_address j0 by simp
  have "walk m 3 0x300000 v = walk m 2 (push_bit 12 (of_nat 0x301) OR 3) v"
    using walk_step [OF t3] by simp
  also have "\<dots> = walk m 1 ?e2 v"
    using walk_step [OF t2] lt by simp
  also have "\<dots> = walk m 0 ?e1 v"
    using walk_step [OF t1] lt by simp
  also have "\<dots> = Some v"
    using t0 lt by (intro walk_page) simp_all
  finally show ?thesis .
qed

lemma walk_high:
  assumes "kpg_tables m" "2 ^ 32 \<le> unat v" "canonical v"
  shows "walk m 3 0x300000 v = None"
proof -
  let ?n = "unat v" and ?i = "unat v div 2 ^ 39 mod 512" and ?j = "unat v div 2 ^ 30 mod 512"
  have idx: "table_index 3 v = of_nat ?i" "table_index 2 v = of_nat ?j"
    by (simp_all add: table_index_nat)
  show ?thesis
  proof (cases "?i = 0")
    case False
    then have "load64 m (0x300000 + 8 * of_nat ?i) = 0" by (intro kpg_tablesD(5) [OF assms(1)]) simp_all
    then show ?thesis by (intro walk_absent) (simp add: table_entry_def idx frame_0x300000)
  next
    case True
    have "?n div 2 ^ 47 = 0"
    proof (rule ccontr)
      assume "?n div 2 ^ 47 \<noteq> 0"
      moreover have "unat (drop_bit 47 v) = ?n div 2 ^ 47"
        using drop_bit_eq_div [of 47 ?n] by (simp add: unat_drop_bit_eq)
      ultimately have "?n div 2 ^ 47 = 131071"
        using assms(3) by (auto simp: canonical_def mask_eq_exp_minus_1)
      then have "?n div 2 ^ 39 div 256 = 131071" using div_mult2_eq [of ?n "2 ^ 39" 256] by simp
      moreover obtain k where "?n div 2 ^ 39 = 512 * k" using True by auto
      then have "?n div 2 ^ 39 div 256 = 2 * k" by simp
      ultimately have "131071 = 2 * k" by metis
      then show False by presburger
    qed
    with True assms(2) have j: "4 \<le> ?j" by simp
    then have z: "load64 m (0x301000 + 8 * of_nat ?j) = 0" by (intro kpg_tablesD(6) [OF assms(1)]) simp_all
    have "table_entry m 0x300000 (table_index 3 v) = push_bit 12 (of_nat 0x301) OR 3"
      using kpg_tablesD(4) [OF assms(1)] True by (simp add: table_entry_def idx frame_0x300000)
    from walk_step [OF this] have "walk m 3 0x300000 v = walk m 2 (push_bit 12 (of_nat 0x301) OR 3) v"
      by simp
    also have "\<dots> = None"
      using z frame_of_entry(1) [of "0x301"] by (intro walk_absent) (simp add: table_entry_def idx)
    finally show ?thesis .
  qed
qed

lemma translate_tables:
  assumes "kpg_tables (bytes s)" "cr3 s = 0x300000"
  shows "translate s v = (if v < 0x100000000 then Some v else None)"
proof -
  have can: "canonical v" if "unat v < 2 ^ 32"
  proof -
    have "unat (drop_bit 47 v) = 0"
      using that drop_bit_eq_div [of 47 "unat v"] by (simp add: unat_drop_bit_eq)
    then show ?thesis by (simp add: canonical_def unsigned_eq_0_iff)
  qed
  have "v < 0x100000000 \<longleftrightarrow> unat v < 2 ^ 32" by (simp add: word_less_nat_alt)
  then show ?thesis
    using walk_low [OF assms(1), of v] walk_high [OF assms(1), of v] can
    by (auto simp: translate_def assms(2))
qed

lemma init_kpaging_tables: "kpg_tables (bytes (init_kpaging s))" "cr3 (init_kpaging s) = 0x300000"
  using kpg_tables_kpg by (simp_all add: init_kpaging_def load_pgtable_def Let_def flip: kpg_def)

section \<open>Properties\<close>

text \<open>
  C7. The kernel's page tables map the low 4 GiB to themselves and nothing else: after
  \<open>init_kpaging\<close>, whatever memory held before, the processor translates every address below 4 GiB
  to itself and finds every other address not present (or not canonical).
\<close>

theorem kpaging_identity:
  "translate (init_kpaging s) v = (if v < 0x100000000 then Some v else None)"
  by (rule translate_tables [OF init_kpaging_tables])

text \<open>
  C39. The page tables lie in the heap. The kernel is linked at 0x101000 with its heap of 4 MiB right
  behind it (\<open>__kheap_start\<close> in kernel/kernel.lds), and the tables are put at 0x300000: for every
  heap that starts between them and is no further than 4 MiB away, there is a byte of the heap
  whose overwriting with 0 leaves the processor without a single mapped address.
\<close>

theorem kpaging_inside_heap:
  assumes "a \<le> 0x300000" "0x300000 < a + HEAP_SIZE" "s' = init_kpaging s"
  shows "\<exists>b. a \<le> b \<and> b < a + HEAP_SIZE \<and> (\<forall>v. translate (s'\<lparr>bytes := (bytes s')(b := 0)\<rparr>) v = None)"
proof -
  let ?m = "(kpg (bytes s))(0x300000 := 0)"
  have s: "bytes s' = kpg (bytes s)" "cr3 s' = 0x300000"
    by (simp_all add: assms(3) init_kpaging_def load_pgtable_def kpg_def Let_def)
  have "walk ?m 3 0x300000 v = None" for v
  proof -
    let ?i = "unat v div 2 ^ 39 mod 512"
    have idx: "table_index 3 v = of_nat ?i" by (simp add: table_index_nat)
    have e: "table_entry ?m 0x300000 (table_index 3 v) = load64 ?m (0x300000 + 8 * of_nat ?i)"
      by (simp add: table_entry_def frame_0x300000 idx)
    have "\<not> bit (load64 ?m (0x300000 + 8 * of_nat ?i)) 0"
    proof (cases "?i = 0")
      case True
      have "[0..<8] = 0 # [1..<8]" by (simp add: upt_conv_Cons)
      then have "even (load_le ?m 0x300000 8)"
        unfolding load_le_def by (simp only: list.map le_value.simps) simp
      with True show ?thesis by (simp add: load64_def bit_0)
    next
      case False
      then have u: "unat (0x300000 + 8 * of_nat ?i :: u64) = 0x300000 + 8 * ?i"
        by (intro unat_entry [of _ 512, THEN trans]) simp_all
      have "load_le ?m (0x300000 + 8 * of_nat ?i) 8 = load_le (kpg (bytes s)) (0x300000 + 8 * of_nat ?i) 8"
      proof (rule load_le_cong)
        fix j :: nat
        assume "j < 8"
        then have "unat (0x300000 + 8 * of_nat ?i + of_nat j :: u64) = 0x300000 + 8 * ?i + j"
          using unat_offset [of "0x300000 + 8 * of_nat ?i" 8 j] u by simp
        moreover have "unat (0x300000 :: u64) < 0x300000 + 8 * ?i + j" using False by simp
        ultimately have "0x300000 + 8 * of_nat ?i + of_nat j \<noteq> (0x300000 :: u64)" by (metis less_irrefl)
        then show "?m (0x300000 + 8 * of_nat ?i + of_nat j) = kpg (bytes s) (0x300000 + 8 * of_nat ?i + of_nat j)"
          by simp
      qed
      then have "load64 ?m (0x300000 + 8 * of_nat ?i) = 0"
        using kpg_zero(1) [of ?i "bytes s"] False by (simp add: load64_def)
      then show ?thesis by simp
    qed
    then show ?thesis unfolding e [symmetric] by (simp add: numeral_3_eq_3)
  qed
  then have "\<forall>v. translate (s'\<lparr>bytes := (bytes s')(0x300000 := 0)\<rparr>) v = None"
    by (simp add: translate_def s)
  with assms(1,2) show ?thesis by blast
qed

theorem kpaging_inside_heap_witness:
  "\<exists>b. 0x101000 \<le> b \<and> b < 0x101000 + HEAP_SIZE \<and>
    (\<forall>v. translate ((init_kpaging (cpu0 False 0))\<lparr>bytes := (bytes (init_kpaging (cpu0 False 0)))(b := 0)\<rparr>) v = None)"
  by (rule kpaging_inside_heap [OF _ _ refl]) (simp_all add: HEAP_SIZE_def)

end
