(* ===== verification/Interrupts.thy ===== *)
theory Interrupts
  imports Scheduler Bytes
begin

unbundle bit_operations_syntax

text \<open>
  Interrupt descriptors (kernel/interrupt.c, interrupt_asm.S) and handlers (kernel/int_handler.c).
  The addresses of the handlers, which the linker assigns, are the parameter \<open>addr\<close>. A handler is
  modelled as its body: what it does between the save of the interrupted registers and the
  \<open>iretq\<close> that the compiler puts around it.
\<close>

section \<open>Interrupt descriptors\<close>

record gate_desc =
  g_low :: u32
  g_mid :: u32
  g_high :: u64

definition idt :: u64 where "idt = 0x10000"

definition create_gate_desc :: "u64 \<Rightarrow> gate_desc" where
  "create_gate_desc handler =
     \<lparr>g_low = ucast (0x80000 OR (handler AND 0xffff)),
      g_mid = ucast ((handler AND 0xffff0000) OR 0x8e00),
      g_high = drop_bit 32 (handler AND 0xffffffff00000000)\<rparr>"

text \<open>\<open>idt[i] = g\<close>, a structure of 16 bytes.\<close>

definition put_gate :: "nat \<Rightarrow> gate_desc \<Rightarrow> bytemem \<Rightarrow> bytemem" where
  "put_gate i g m =
     (let p = idt + 16 * of_nat i;
          m = store32 m p (g_low g);
          m = store32 m (p + 4) (g_mid g)
      in store64 m (p + 8) (g_high g))"

datatype handler = De | Db | Nmi | Bp | Of | Br | Ud | Nm | Df | Ts | Np | Ss | Gp | Pf | Mf | Ac | Mc | Xm
  | Timer | Com

definition idt_table :: "(nat \<times> handler) list" where
  "idt_table =
     [(0, De), (1, Db), (2, Nmi), (3, Bp), (4, Of), (5, Br), (6, Ud), (7, Nm), (8, Df), (10, Ts), (11, Np),
      (12, Ss), (13, Gp), (14, Pf), (16, Mf), (17, Ac), (18, Mc), (19, Xm),
      (32, Timer), (33, Com), (34, Com), (35, Com), (36, Com), (37, Com), (38, Com)]"

definition set_idt :: "u64 \<Rightarrow> u16 \<Rightarrow> 'z cpu_scheme \<Rightarrow> 'z cpu_scheme" where
  "set_idt idt_addr limit s = s\<lparr>idtr := (idt_addr, limit)\<rparr>"

definition init_idt :: "(handler \<Rightarrow> u64) \<Rightarrow> 'z cpu_scheme \<Rightarrow> 'z cpu_scheme" where
  "init_idt addr s =
     (let zero = \<lparr>g_low = 0, g_mid = 0, g_high = 0\<rparr>;
          m = fold (\<lambda>i. put_gate i zero) [0..<256] (bytes s);
          m = fold (\<lambda>(i, h). put_gate i (create_gate_desc (addr h))) idt_table m;
          s = s\<lparr>bytes := m\<rparr>
      in set_idt idt (16 * 256 - 1) s)"

section \<open>Dispatch\<close>

text \<open>
  What the processor does with vector \<open>v\<close> (Intel SDM volume 3, section 6.14): a gate inside the
  limit, present and of type 14 (interrupt gate) gives the code selector and the address of the
  handler; anything else is a fault.
\<close>

definition get_gate :: "bytemem \<Rightarrow> u64 \<Rightarrow> nat \<Rightarrow> gate_desc" where
  "get_gate m base v =
     (let p = base + 16 * of_nat v
      in \<lparr>g_low = load32 m p, g_mid = load32 m (p + 4), g_high = load64 m (p + 8)\<rparr>)"

definition gate_target :: "gate_desc \<Rightarrow> (u16 \<times> u64) option" where
  "gate_target g =
     (if bit (g_mid g) 15 \<and> take_bit 4 (drop_bit 8 (g_mid g)) = 14
      then Some (ucast (drop_bit 16 (g_low g)),
        push_bit 32 (g_high g) OR (ucast (g_mid g) AND 0xffff0000) OR (ucast (g_low g) AND 0xffff))
      else None)"

definition dispatch :: "'z cpu_scheme \<Rightarrow> nat \<Rightarrow> (u16 \<times> u64) option" where
  "dispatch s v =
     (if 16 * v + 15 \<le> unat (snd (idtr s)) then gate_target (get_gate (bytes s) (fst (idtr s)) v) else None)"

lemma gate_pieces:
  fixes h y w :: u64
  shows "push_bit 32 (drop_bit 32 (h AND push_bit 32 (mask 32))) OR
    (ucast (ucast ((h AND push_bit 16 (mask 16)) OR take_bit 16 y) :: u32) AND push_bit 16 (mask 16)) OR
    (ucast (ucast (push_bit 16 w OR (h AND mask 16)) :: u32) AND mask 16) = h" (is "?l = h")
proof (rule bit_word_eqI)
  fix n
  assume n: "n < LENGTH(64)"
  consider "n < 16" | "16 \<le> n" "n < 32" | "32 \<le> n" by linarith
  then show "bit ?l n = bit h n" using n by cases (auto simp: bit_simps)
qed

text \<open>The three 16-bit pieces of the address go together again.\<close>

lemma create_gate_desc_target: "gate_target (create_gate_desc h) = Some (8, h)"
proof -
  have c: "(0xffff :: u64) = mask 16" "(0xffff0000 :: u64) = push_bit 16 (mask 16)"
    "(0xffffffff00000000 :: u64) = push_bit 32 (mask 32)" "(0x8e00 :: u64) = push_bit 8 (take_bit 8 0x8e)"
    "(0x80000 :: u64) = push_bit 16 (push_bit 3 1)"
    by (simp_all add: mask_eq_exp_minus_1 push_bit_eq_mult)
  let ?g = "create_gate_desc h"
  have mid: "g_mid ?g = ucast (h AND push_bit 16 (mask 16)) OR ucast (push_bit 8 (take_bit 8 0x8e) :: u64)"
    unfolding create_gate_desc_def c by (simp only: gate_desc.simps unsigned_or_eq)
  have "bit (g_mid ?g) 15" unfolding mid by (simp add: bit_simps)
  moreover have "take_bit 4 (drop_bit 8 (g_mid ?g)) = 14"
  proof -
    have "take_bit 4 (drop_bit 8 (ucast (h AND push_bit 16 (mask 16)) :: u32)) = 0"
      by (rule bit_word_eqI) (auto simp: bit_simps)
    then show ?thesis unfolding mid by (simp add: take_bit_or drop_bit_or push_bit_eq_mult)
  qed
  moreover have "ucast (drop_bit 16 (g_low ?g)) = (8 :: u16)"
  proof -
    have "ucast (drop_bit 16 (ucast (push_bit 16 w OR (h AND mask 16)) :: u32)) = (ucast w :: u16)" for w :: u64
      by (rule bit_word_eqI) (auto simp: bit_simps)
    from this [of 8] show ?thesis unfolding create_gate_desc_def c gate_desc.simps by (simp add: push_bit_eq_mult)
  qed
  moreover have "push_bit 32 (g_high ?g) OR (ucast (g_mid ?g) AND 0xffff0000) OR (ucast (g_low ?g) AND 0xffff) = h"
    using gate_pieces [of h "0x8e00" 8] unfolding create_gate_desc_def c(1-3) gate_desc.simps
    by (simp add: push_bit_eq_mult)
  ultimately show ?thesis by (simp add: gate_target_def)
qed

lemma gate_addr:
  assumes "i < 256"
  shows "unat (idt + 16 * of_nat i) = 0x10000 + 16 * i" "unat (idt + 16 * of_nat i + 4) = 0x10000 + 16 * i + 4"
    "unat (idt + 16 * of_nat i + 8) = 0x10000 + 16 * i + 8"
proof -
  show e: "unat (idt + 16 * of_nat i) = 0x10000 + 16 * i"
    using assms by (simp add: idt_def unat_word_ariths unat_of_nat take_bit_nat_eq_self)
  show "unat (idt + 16 * of_nat i + 4) = 0x10000 + 16 * i + 4" "unat (idt + 16 * of_nat i + 8) = 0x10000 + 16 * i + 8"
    using assms e unat_offset [of "idt + 16 * of_nat i" 16 4] unat_offset [of "idt + 16 * of_nat i" 16 8] by simp_all
qed

lemmas gate_loads = load32_def load64_def store32_def store64_def load_store_other load_store_same

lemma get_put_same: "i < 256 \<Longrightarrow> get_gate (put_gate i g m) idt i = g"
  using gate_addr [of i] unat32_lt [of "g_low g"] unat32_lt [of "g_mid g"] unat64_lt [of "g_high g"]
  by (simp add: get_gate_def put_gate_def Let_def gate_loads)

lemma get_put_other: "i < 256 \<Longrightarrow> j < 256 \<Longrightarrow> i \<noteq> j \<Longrightarrow> get_gate (put_gate i g m) idt j = get_gate m idt j"
proof -
  assume ij: "i < 256" "j < 256" "i \<noteq> j"
  then have "16 * j + 16 \<le> 16 * i \<or> 16 * i + 16 \<le> 16 * j" by linarith
  then show ?thesis
    using ij gate_addr [of i] gate_addr [of j]
    by (elim disjE) (simp_all add: get_gate_def put_gate_def Let_def gate_loads)
qed

lemma get_fold_put:
  assumes "\<forall>p\<in>set ps. fst p < 256" "j < 256"
  shows "get_gate (fold (\<lambda>(i, g). put_gate i g) ps m) idt j =
    (case map_of (rev ps) j of Some g \<Rightarrow> g | None \<Rightarrow> get_gate m idt j)"
  using assms(1)
proof (induction ps arbitrary: m)
  case (Cons p ps)
  obtain i g where p: "p = (i, g)" by (cases p)
  then show ?case
    using Cons assms(2) get_put_same [of i g m] get_put_other [of i j g m]
    by (cases "map_of (rev ps) j") (auto simp: map_add_def)
qed simp

lemma map_of_rev_distinct: "distinct (map fst ps) \<Longrightarrow> map_of (rev ps) = map_of ps"
proof (induction ps)
  case (Cons p ps)
  then have "fst p \<notin> dom (map_of ps)" by (simp add: dom_map_of_conv_image_fst)
  with Cons show ?case by (cases p) (auto simp: map_add_def fun_eq_iff split: option.split)
qed simp

lemma fold_gates:
  "fold (\<lambda>i. put_gate i z) is m = fold (\<lambda>(i, g). put_gate i g) (map (\<lambda>i. (i, z)) is) m"
  "fold (\<lambda>(i, h). put_gate i (f h)) ps m = fold (\<lambda>(i, g). put_gate i g) (map (\<lambda>(i, h). (i, f h)) ps) m"
  by (simp_all add: fold_map comp_def case_prod_beta')

lemma init_idt_dispatch:
  assumes "v < 256"
  shows "dispatch (init_idt addr s) v = map_option (\<lambda>h. (8, addr h)) (map_of idt_table v)"
proof -
  let ?z = "\<lparr>g_low = 0, g_mid = 0, g_high = 0\<rparr> :: gate_desc"
  let ?f = "\<lambda>(i, h). (i :: nat, create_gate_desc (addr h))"
  let ?ps = "map (\<lambda>i. (i, ?z)) [0..<256] @ map ?f idt_table"
  have b: "bytes (init_idt addr s) = fold (\<lambda>(i, g). put_gate i g) ?ps (bytes s)"
    "idtr (init_idt addr s) = (idt, 4095)"
    by (simp_all add: init_idt_def Let_def set_idt_def fold_gates(1) [of ?z]
        fold_gates(2) [of "\<lambda>h. create_gate_desc (addr h)"] del: upt_rec_numeral)
  have "\<forall>p\<in>set idt_table. fst p < 256" by (simp add: idt_table_def)
  then have small: "\<forall>p\<in>set ?ps. fst p < 256" by (auto simp del: upt_rec_numeral)
  have d: "distinct (map fst idt_table)" by (simp add: idt_table_def)
  have "map_of (rev (map ?f idt_table)) v = map_option (\<lambda>h. create_gate_desc (addr h)) (map_of idt_table v)"
  proof -
    have "map fst (map ?f idt_table) = map fst idt_table" by (simp add: case_prod_beta' comp_def)
    then have "map_of (rev (map ?f idt_table)) = map_of (map ?f idt_table)"
      using d by (intro map_of_rev_distinct) argo
    then show ?thesis by (simp add: map_of_map)
  qed
  moreover have "map_of (rev (map (\<lambda>i. (i, ?z)) [0..<256])) v = Some ?z"
    using assms by (simp add: rev_map map_of_map_restrict restrict_map_def del: upt_rec_numeral)
  ultimately have g: "get_gate (bytes (init_idt addr s)) idt v =
      (case map_of idt_table v of Some h \<Rightarrow> create_gate_desc (addr h) | None \<Rightarrow> ?z)"
    unfolding b get_fold_put [OF small assms]
    by (cases "map_of idt_table v") (simp_all add: map_add_def)
  have "gate_target ?z = None" by (simp add: gate_target_def)
  then show ?thesis
    using assms by (cases "map_of idt_table v") (simp_all add: dispatch_def b(2) g create_gate_desc_target)
qed

text \<open>
  C10. After \<open>init_idt\<close> each vector that the table names enters its handler in the kernel's code
  segment, whatever address the handler has, and every other vector below 256 has no gate.
\<close>

theorem idt_dispatch:
  assumes "v < 256"
  shows "dispatch (init_idt addr s) v = map_option (\<lambda>h. (8, addr h)) (map_of idt_table v)"
  using assms by (rule init_idt_dispatch)

theorem idt_dispatch_witness:
  "dispatch (init_idt (\<lambda>h. if h = Timer then 0x123456789abcdef0 else 7) (cpu0 False 0)) 32 = Some (8, 0x123456789abcdef0)"
  using idt_dispatch [of 32 "\<lambda>h. if h = Timer then 0x123456789abcdef0 else 7" "cpu0 False 0"]
  by (simp add: idt_table_def)

end
