(* ===== verification/Handlers.thy ===== *)
theory Handlers
  imports Interrupts Semaphore
begin

text \<open>
  The interrupt handlers of kernel/int_handler.c, as their bodies: what a handler does between the
  save of the interrupted registers and the \<open>iretq\<close> that the compiler puts around it.
\<close>

section \<open>The timer\<close>

text \<open>
  The handler counts the tick, acknowledges the interrupt, and calls the scheduler when more than
  \<open>timer_period\<close> ticks have passed since the last time. \<open>ra\<close> is the return address of that call.
\<close>

definition timer_handler :: "u64 \<Rightarrow> 'z sys_scheme \<Rightarrow> 'z sys_scheme outcome" where
  "timer_handler ra s =
     (let s = io_cli s;
          s = s\<lparr>tick := tick s + 1\<rparr>;
          s = io_out8 0x20 0x20 s;
          s = io_sti s
      in if tick s > previous_interrupt s + timer_period s \<and> tick s > 90
         then let s = s\<lparr>previous_interrupt := tick s\<rparr> in thread_scheduler ra s
         else Inr s)"

section \<open>The console line\<close>

text \<open>The cursor \<open>x_ichi\<close>, \<open>y_ichi\<close> and the last byte read, \<open>key\<close>, a signed \<open>char\<close>.\<close>

record console = sys +
  key :: u8
  x_ichi :: u32
  y_ichi :: u32

text \<open>
  \<open>byte\<close> is what the UART's data port returns. The cursor is at (50, 50) plus \<open>x_ichi\<close>, \<open>y_ichi\<close>;
  0x7f is DEL.
\<close>

definition com_handler :: "u8 \<Rightarrow> 'z console_scheme \<Rightarrow> 'z console_scheme outcome" where
  "com_handler byte s =
     (let s = io_cli s;
          s = s\<lparr>key := byte\<rparr>;
          s = io_out8 0x20 0x20 s;
          s = io_out8 0xa0 0x20 s;
          s = say_num ''COM Interrupt: '' (scast (key s)) s
      in and_then
        (if key s \<noteq> 10 \<and> key s \<noteq> 13 \<and> key s \<noteq> 0x7f then
           and_then (printstr (50 + x_ichi s) (50 + y_ichi s) pix_green pix_black
               (takeWhile (\<lambda>c. c \<noteq> 0) [key s, 0]) s) (\<lambda>s.
             Inr (s\<lparr>x_ichi := x_ichi s + 8\<rparr>))
         else if key s = 0x7f then
           let s = s\<lparr>x_ichi := x_ichi s - 8\<rparr> in
           printstr (50 + x_ichi s) (50 + y_ichi s) pix_white pix_white (ascii '' '') s
         else
           let s = s\<lparr>x_ichi := 0\<rparr>; s = s\<lparr>y_ichi := y_ichi s + 16\<rparr> in Inr s)
        (\<lambda>s. Inr (io_sti s)))"

section \<open>Exceptions\<close>

record intr_frame =
  f_rip :: u64
  f_cs :: u64
  f_rflags :: u64
  f_rsp :: u64
  f_ss :: u64

text \<open>
  The handlers of the eighteen exceptions differ in the name they print only: they report the
  error code and the interrupted state in white on black from (100, 84) down and stop.
\<close>

definition exception_screen :: "string \<Rightarrow> intr_frame \<Rightarrow> u64 \<Rightarrow> 'z screen_scheme \<Rightarrow> 'z screen_scheme outcome" where
  "exception_screen name frame error_code g =
     and_then (printstr 100 84 pix_white pix_black (ascii name) g) (\<lambda>g.
     and_then (printstrnum 100 100 pix_white pix_black (ascii ''error code: '') error_code g) (\<lambda>g.
     and_then (printstrnum 100 116 pix_white pix_black (ascii ''rip       : '') (f_rip frame) g) (\<lambda>g.
     and_then (printstrnum 100 132 pix_white pix_black (ascii ''cs        : '') (f_cs frame) g) (\<lambda>g.
     and_then (printstrnum 100 148 pix_white pix_black (ascii ''rflags    : '') (f_rflags frame) g) (\<lambda>g.
     and_then (printstrnum 100 164 pix_white pix_black (ascii ''rsp       : '') (f_rsp frame) g) (\<lambda>g.
       printstrnum 100 180 pix_white pix_black (ascii ''ss        : '') (f_ss frame) g))))))"

definition de_handler :: "intr_frame \<Rightarrow> u64 \<Rightarrow> 'z screen_scheme \<Rightarrow> 'r outcome" where
  "de_handler frame error_code g =
     and_then (exception_screen ''#DE'' frame error_code g) (\<lambda>g. halt)"

definition db_handler :: "intr_frame \<Rightarrow> u64 \<Rightarrow> 'z screen_scheme \<Rightarrow> 'r outcome" where
  "db_handler frame error_code g =
     and_then (exception_screen ''#DB'' frame error_code g) (\<lambda>g. halt)"

definition nmi_handler :: "intr_frame \<Rightarrow> u64 \<Rightarrow> 'z screen_scheme \<Rightarrow> 'r outcome" where
  "nmi_handler frame error_code g =
     and_then (exception_screen ''#NMI'' frame error_code g) (\<lambda>g. halt)"

definition bp_handler :: "intr_frame \<Rightarrow> u64 \<Rightarrow> 'z screen_scheme \<Rightarrow> 'r outcome" where
  "bp_handler frame error_code g =
     and_then (exception_screen ''#BP'' frame error_code g) (\<lambda>g. halt)"

definition of_handler :: "intr_frame \<Rightarrow> u64 \<Rightarrow> 'z screen_scheme \<Rightarrow> 'r outcome" where
  "of_handler frame error_code g =
     and_then (exception_screen ''#OF'' frame error_code g) (\<lambda>g. halt)"

definition br_handler :: "intr_frame \<Rightarrow> u64 \<Rightarrow> 'z screen_scheme \<Rightarrow> 'r outcome" where
  "br_handler frame error_code g =
     and_then (exception_screen ''#BR'' frame error_code g) (\<lambda>g. halt)"

definition ud_handler :: "intr_frame \<Rightarrow> u64 \<Rightarrow> 'z screen_scheme \<Rightarrow> 'r outcome" where
  "ud_handler frame error_code g =
     and_then (exception_screen ''#UD'' frame error_code g) (\<lambda>g. halt)"

definition nm_handler :: "intr_frame \<Rightarrow> u64 \<Rightarrow> 'z screen_scheme \<Rightarrow> 'r outcome" where
  "nm_handler frame error_code g =
     and_then (exception_screen ''#NM'' frame error_code g) (\<lambda>g. halt)"

definition df_handler :: "intr_frame \<Rightarrow> u64 \<Rightarrow> 'z screen_scheme \<Rightarrow> 'r outcome" where
  "df_handler frame error_code g =
     and_then (exception_screen ''#DF'' frame error_code g) (\<lambda>g. halt)"

definition ts_handler :: "intr_frame \<Rightarrow> u64 \<Rightarrow> 'z screen_scheme \<Rightarrow> 'r outcome" where
  "ts_handler frame error_code g =
     and_then (exception_screen ''#TS'' frame error_code g) (\<lambda>g. halt)"

definition np_handler :: "intr_frame \<Rightarrow> u64 \<Rightarrow> 'z screen_scheme \<Rightarrow> 'r outcome" where
  "np_handler frame error_code g =
     and_then (exception_screen ''#NP'' frame error_code g) (\<lambda>g. halt)"

definition ss_handler :: "intr_frame \<Rightarrow> u64 \<Rightarrow> 'z screen_scheme \<Rightarrow> 'r outcome" where
  "ss_handler frame error_code g =
     and_then (exception_screen ''#SS'' frame error_code g) (\<lambda>g. halt)"

definition gp_handler :: "intr_frame \<Rightarrow> u64 \<Rightarrow> 'z screen_scheme \<Rightarrow> 'r outcome" where
  "gp_handler frame error_code g =
     and_then (exception_screen ''#GP'' frame error_code g) (\<lambda>g. halt)"

definition pf_handler :: "intr_frame \<Rightarrow> u64 \<Rightarrow> 'z screen_scheme \<Rightarrow> 'r outcome" where
  "pf_handler frame error_code g =
     and_then (exception_screen ''#PF'' frame error_code g) (\<lambda>g. halt)"

definition mf_handler :: "intr_frame \<Rightarrow> u64 \<Rightarrow> 'z screen_scheme \<Rightarrow> 'r outcome" where
  "mf_handler frame error_code g =
     and_then (exception_screen ''#MF'' frame error_code g) (\<lambda>g. halt)"

definition ac_handler :: "intr_frame \<Rightarrow> u64 \<Rightarrow> 'z screen_scheme \<Rightarrow> 'r outcome" where
  "ac_handler frame error_code g =
     and_then (exception_screen ''#AC'' frame error_code g) (\<lambda>g. halt)"

definition mc_handler :: "intr_frame \<Rightarrow> u64 \<Rightarrow> 'z screen_scheme \<Rightarrow> 'r outcome" where
  "mc_handler frame error_code g =
     and_then (exception_screen ''#MC'' frame error_code g) (\<lambda>g. halt)"

definition xm_handler :: "intr_frame \<Rightarrow> u64 \<Rightarrow> 'z screen_scheme \<Rightarrow> 'r outcome" where
  "xm_handler frame error_code g =
     and_then (exception_screen ''#XM'' frame error_code g) (\<lambda>g. halt)"

text \<open>Every report is printed: all its characters have a glyph.\<close>

lemma printstrnum_returns:
  assumes "\<forall>c\<in>set cs. printable c"
  shows "\<exists>g'. printstrnum ul_x ul_y color bcolor cs num g = Inr g' \<and> fb_step g g'"
proof -
  have h: "\<forall>c\<in>set (hex_bytes num). printable c"
  proof
    fix c
    assume "c \<in> set (hex_bytes num)"
    then have "c \<in> set (ascii ''0x'') \<or> (\<exists>i. c = hex_digit num i)" by (auto simp: hex_bytes_def)
    then show "printable c"
    proof
      assume "\<exists>i. c = hex_digit num i"
      then obtain d where "c = ascii ''0123456789abcdef'' ! d" "d < 16"
        unfolding hex_digit_def unat_nibble by auto
      moreover have "length (ascii ''0123456789abcdef'') = 16" by (simp add: ascii_def)
      ultimately have "c \<in> set (ascii ''0123456789abcdef'')" by (metis nth_mem)
      then show ?thesis by (auto simp: ascii_def printable_def)
    qed (auto simp: ascii_def printable_def)
  qed
  obtain g1 where g1: "printstr ul_x ul_y color bcolor cs g = Inr g1" "fb_step g g1"
    using printstr_from_returns [OF assms] unfolding printstr_def by blast
  obtain g2 where "printstr (ul_x + of_nat (length cs) * 8) ul_y color bcolor (hex_bytes num) g1 = Inr g2" "fb_step g1 g2"
    using printstr_from_returns [OF h] unfolding printstr_def by blast
  with g1 show ?thesis using fb_step_trans by (auto simp: printstrnum_def printnum_hex)
qed

lemma exception_screen_returns:
  assumes "\<forall>c\<in>set (ascii name). printable c"
  shows "\<exists>g'. exception_screen name frame error_code g = Inr g' \<and> fb_step g g'"
proof -
  have step: "\<exists>g'. and_then (printstrnum x y c b (ascii msg) num g) f = Inr g' \<and> fb_step g g'"
    if msg: "\<forall>c\<in>set (ascii msg). printable c" and f: "\<And>g. \<exists>g'. f g = Inr g' \<and> fb_step g g'"
    for x y c b msg num and g :: "'z screen_scheme" and f
  proof -
    obtain g1 where "printstrnum x y c b (ascii msg) num g = Inr g1" "fb_step g g1"
      using printstrnum_returns [OF msg] by blast
    then show ?thesis using f [of g1] fb_step_trans by fastforce
  qed
  have tail: "\<exists>g'. printstrnum x y c b (ascii msg) num g = Inr g' \<and> fb_step g g'"
    if "\<forall>c\<in>set (ascii msg). printable c" for x y c b msg num and g :: "'z screen_scheme"
    using printstrnum_returns [OF that] .
  obtain g1 where g1: "printstr 100 84 pix_white pix_black (ascii name) g = Inr g1" "fb_step g g1"
    using printstr_from_returns [OF assms] unfolding printstr_def by blast
  have "\<exists>g'. exception_screen name frame error_code g = Inr g' \<and> fb_step g1 g'"
    unfolding exception_screen_def g1(1) and_then.simps
    by (intro step tail; simp add: ascii_def printable_def)
  then show ?thesis using g1(2) fb_step_trans by blast
qed

section \<open>The clock\<close>

lemma timer_handler_eq:
  obtains s1 where "runnable s1 = runnable s" "table_ok s1 = table_ok s" "cur_thread_index s1 = cur_thread_index s"
    "tick s1 = tick s + 1" "timer_period s1 = timer_period s"
    "timer_handler ra s =
       (if tick s + 1 > previous_interrupt s + timer_period s \<and> tick s + 1 > 90
        then thread_scheduler ra s1 else Inr s1)"
    "previous_interrupt s1 =
       (if tick s + 1 > previous_interrupt s + timer_period s \<and> tick s + 1 > 90
        then tick s + 1 else previous_interrupt s)"
proof -
  let ?due = "tick s + 1 > previous_interrupt s + timer_period s \<and> tick s + 1 > 90"
  define s0 where "s0 = io_sti (io_out8 0x20 0x20 ((io_cli s)\<lparr>tick := tick (io_cli s) + 1\<rparr>))"
  define s1 where "s1 = (if ?due then s0\<lparr>previous_interrupt := tick s + 1\<rparr> else s0)"
  have s0: "tick s0 = tick s + 1" "timer_period s0 = timer_period s" "previous_interrupt s0 = previous_interrupt s"
    by (simp_all add: s0_def io_cli_def io_sti_def io_out8_def)
  then have s1: "tick s1 = tick s + 1" "timer_period s1 = timer_period s"
    "previous_interrupt s1 = (if ?due then tick s + 1 else previous_interrupt s)" by (simp_all add: s1_def)
  have tab: "threads s1 = threads s" "thr_mem s1 = thr_mem s" "tid_index_dict s1 = tid_index_dict s"
    "cur_thread_index s1 = cur_thread_index s" "tid_global s1 = tid_global s" "empty_at s1 = empty_at s"
    by (simp_all add: s1_def s0_def io_cli_def io_sti_def io_out8_def)
  have same: "runnable s1 = runnable s" "table_ok s1 = table_ok s"
    by (rule ext, simp add: runnable_def tab) (simp only: table_ok_def live_def tab)
  have "timer_handler ra s = (if tick s0 > previous_interrupt s0 + timer_period s0 \<and> tick s0 > 90
      then thread_scheduler ra (s0\<lparr>previous_interrupt := tick s0\<rparr>) else Inr s0)"
    by (simp only: timer_handler_def Let_def s0_def)
  then have "timer_handler ra s = (if ?due then thread_scheduler ra s1 else Inr s1)"
    by (cases ?due) (simp_all only: s0 s1_def if_True if_False simp_thms)
  with same tab(4) s1 show thesis by (intro that [of s1])
qed

lemma timer_handler_cases:
  assumes "timer_handler ra s = Inr s'"
  obtains s1 where "runnable s1 = runnable s" "table_ok s1 = table_ok s" "cur_thread_index s1 = cur_thread_index s"
    "tick s' = tick s + 1" "timer_period s' = timer_period s"
    "if tick s + 1 > previous_interrupt s + timer_period s \<and> tick s + 1 > 90
     then thread_scheduler ra s1 = Inr s' \<and> previous_interrupt s' = tick s + 1
     else s' = s1 \<and> previous_interrupt s' = previous_interrupt s"
proof -
  obtain s1 where s1: "runnable s1 = runnable s" "table_ok s1 = table_ok s" "cur_thread_index s1 = cur_thread_index s"
    "tick s1 = tick s + 1" "timer_period s1 = timer_period s"
    "timer_handler ra s =
       (if tick s + 1 > previous_interrupt s + timer_period s \<and> tick s + 1 > 90
        then thread_scheduler ra s1 else Inr s1)"
    "previous_interrupt s1 =
       (if tick s + 1 > previous_interrupt s + timer_period s \<and> tick s + 1 > 90
        then tick s + 1 else previous_interrupt s)"
    by (rule timer_handler_eq [of s ra])
  then have "tick s' = tick s + 1" "timer_period s' = timer_period s"
    using assms thread_scheduler_clock [of ra s1 s'] by (auto split: if_splits)
  with s1 assms show thesis
    using thread_scheduler_clock(3) [of ra s1 s'] by (intro that [of s1]) (auto split: if_splits)
qed

lemma timer_handler_returns:
  assumes "table_ok s" "\<exists>k<THREAD_NUM. runnable s k"
  shows "\<exists>s'. timer_handler ra s = Inr s' \<and> table_ok s' \<and> runnable s' = runnable s"
proof -
  obtain s1 where s1: "runnable s1 = runnable s" "table_ok s1 = table_ok s"
    "timer_handler ra s =
       (if tick s + 1 > previous_interrupt s + timer_period s \<and> tick s + 1 > 90
        then thread_scheduler ra s1 else Inr s1)"
    by (rule timer_handler_eq [of s ra])
  have ok: "table_ok s1" using assms(1) s1(2) by simp
  obtain s' where s': "thread_scheduler ra s1 = Inr s'" using ts.returns [OF ok] assms(2) s1(1) by auto
  note s' ts.keeps_ok [OF ok s'] ts.keeps_ready [OF ok s']
  with s1 assms(1) show ?thesis by auto
qed

text \<open>
  A bound on the timer ticks until thread \<open>j\<close> gets the processor: a whole period for each slot
  between the current one and \<open>j\<close>, and what is left of the running period.
\<close>

definition turn_bound :: "nat \<Rightarrow> 'z sys_scheme \<Rightarrow> nat" where
  "turn_bound j s = (ahead (nat (cur_thread_index s)) j - 1) * (unat (timer_period s) + 1) +
     max 1 (max (unat (previous_interrupt s) + unat (timer_period s) + 1 - unat (tick s)) (91 - unat (tick s)))"

lemma turn_bound_le:
  assumes "unat (previous_interrupt s) \<le> unat (tick s)"
  shows "turn_bound j s \<le> THREAD_NUM * (unat (timer_period s) + 1) + 91"
proof -
  let ?p = "unat (timer_period s) + 1"
  have "(ahead (nat (cur_thread_index s)) j - 1) * ?p \<le> (THREAD_NUM - 1) * ?p"
    using ahead_pos(2) by (intro mult_right_mono) (simp_all add: diff_le_mono)
  moreover have "max 1 (max (unat (previous_interrupt s) + ?p - unat (tick s)) (91 - unat (tick s))) \<le> ?p + 91"
    by (intro max.boundedI; use assms in linarith)
  ultimately have "turn_bound j s \<le> (THREAD_NUM - 1) * ?p + (?p + 91)"
    unfolding turn_bound_def add.assoc [of "unat (previous_interrupt s)"] by (rule add_mono)
  also have "\<dots> = THREAD_NUM * ?p + 91" by (simp add: THREAD_NUM_def)
  finally show ?thesis .
qed

lemma turn_bound_step:
  assumes ok: "table_ok s" and j: "runnable s j" "j < THREAD_NUM" and s': "timer_handler ra s = Inr s'"
    and P: "unat (previous_interrupt s) \<le> unat (tick s)"
    and fits: "unat (tick s) + unat (timer_period s) + 1 < 2 ^ 64"
  shows "(cur_thread_index s' = int j \<and> previous_interrupt s' = tick s') \<or> turn_bound j s' < turn_bound j s"
    "unat (previous_interrupt s') \<le> unat (tick s')" "unat (tick s') = unat (tick s) + 1"
proof -
  let ?due = "tick s + 1 > previous_interrupt s + timer_period s \<and> tick s + 1 > 90"
  let ?T = "unat (tick s)" and ?P = "unat (previous_interrupt s)" and ?p = "unat (timer_period s)"
  obtain s1 where s1: "runnable s1 = runnable s" "table_ok s1 = table_ok s" "cur_thread_index s1 = cur_thread_index s"
    "tick s' = tick s + 1" "timer_period s' = timer_period s"
    "if ?due then thread_scheduler ra s1 = Inr s' \<and> previous_interrupt s' = tick s + 1
     else s' = s1 \<and> previous_interrupt s' = previous_interrupt s"
    using timer_handler_cases [OF s'] .
  have T: "unat (tick s + 1) = ?T + 1" using fits by (simp add: unat_word_ariths)
  have Pp: "unat (previous_interrupt s + timer_period s) = ?P + ?p" using fits P by (simp add: unat_word_ariths)
  have due: "?due \<longleftrightarrow> ?P + ?p < ?T + 1 \<and> 90 < ?T + 1" by (simp add: word_less_nat_alt T Pp)
  show "unat (tick s') = ?T + 1" by (simp add: s1 T)
  show "unat (previous_interrupt s') \<le> unat (tick s')" using s1(4,6) P T by (auto split: if_splits)
  show "(cur_thread_index s' = int j \<and> previous_interrupt s' = tick s') \<or> turn_bound j s' < turn_bound j s"
  proof (cases ?due)
    case True
    then have sch: "thread_scheduler ra s1 = Inr s'" "previous_interrupt s' = tick s'" using s1(4,6) by auto
    let ?a = "ahead (nat (cur_thread_index s)) j" and ?a' = "ahead (nat (cur_thread_index s')) j"
    have "cur_thread_index s' = int j \<or> ?a' < ?a"
      using ts.progress [OF _ sch(1) j(2)] ts.keeps_ok [OF _ sch(1)] table_okD(3) ok j(1) s1(1-3) by force
    moreover have "turn_bound j s' < turn_bound j s" if "?a' < ?a"
    proof -
      have "turn_bound j s' = (?a' - 1) * (?p + 1) + (?p + 1)"
        using True T unfolding due turn_bound_def sch(2) s1(4,5) by simp
      also have "\<dots> = ?a' * (?p + 1)"
        using ahead_pos(1) [of "nat (cur_thread_index s')" j] by (cases ?a') simp_all
      also have "\<dots> \<le> (?a - 1) * (?p + 1)" using that by (intro mult_right_mono) simp_all
      also have "\<dots> < turn_bound j s" by (simp add: turn_bound_def)
      finally show ?thesis .
    qed
    ultimately show ?thesis using sch(2) by blast
  next
    case False
    then have s: "cur_thread_index s' = cur_thread_index s" "previous_interrupt s' = previous_interrupt s"
      using s1(3,6) by auto
    have "?T + 1 \<le> ?P + ?p \<or> ?T + 1 \<le> 90" using False unfolding due by linarith
    then show ?thesis unfolding turn_bound_def s s1(4,5) T by auto
  qed
qed

section \<open>Properties\<close>

text \<open>
  C6. Preemption is fair: if the kernel is interrupted by the timer again and again, with
  anything in between that leaves \<open>cur_thread_index\<close> and the clock alone, then a thread that stays
  runnable is given the processor within 40 periods (of \<open>timer_period\<close> + 1 ticks each) and the
  91 ticks during which the kernel starts up. (50 is the period \<open>entry_point\<close> sets: 2131 ticks.)
\<close>

theorem timer_fair:
  assumes "\<forall>n. table_ok (run n)" "\<forall>n. runnable (run n) j" "j < THREAD_NUM"
    and "\<forall>n. \<exists>s'. timer_handler (ra n) (run n) = Inr s' \<and> cur_thread_index (run (Suc n)) = cur_thread_index s' \<and>
      tick (run (Suc n)) = tick s' \<and> previous_interrupt (run (Suc n)) = previous_interrupt s' \<and>
      timer_period (run (Suc n)) = timer_period s'"
    and "previous_interrupt (run 0) \<le> tick (run 0)" "unat (timer_period (run 0)) = p"
    and "unat (tick (run 0)) + (THREAD_NUM + 1) * (p + 1) + 91 < 2 ^ 64"
  shows "\<exists>n \<le> THREAD_NUM * (p + 1) + 91. 0 < n \<and> cur_thread_index (run n) = int j \<and>
    previous_interrupt (run n) = tick (run n)"
proof -
  let ?B = "THREAD_NUM * (p + 1) + 91"
  let ?hit = "\<lambda>m. 0 < m \<and> cur_thread_index (run m) = int j \<and> previous_interrupt (run m) = tick (run m)"
  have "(\<exists>m\<le>n. ?hit m) \<or> turn_bound j (run n) + n \<le> ?B \<and> unat (previous_interrupt (run n)) \<le> unat (tick (run n)) \<and>
      unat (tick (run n)) = unat (tick (run 0)) + n \<and> unat (timer_period (run n)) = p" if "n \<le> ?B" for n
    using that
  proof (induction n)
    case 0
    then show ?case using assms(5,6) turn_bound_le [of "run 0" j] by (simp add: word_le_nat_alt)
  next
    case (Suc n)
    show ?case
    proof (cases "\<exists>m\<le>n. ?hit m")
      case True
      then show ?thesis by (meson le_SucI)
    next
      case False
      with Suc have IH: "turn_bound j (run n) + n \<le> ?B" "unat (previous_interrupt (run n)) \<le> unat (tick (run n))"
        "unat (tick (run n)) = unat (tick (run 0)) + n" "unat (timer_period (run n)) = p" by auto
      obtain s' where s': "timer_handler (ra n) (run n) = Inr s'" "cur_thread_index (run (Suc n)) = cur_thread_index s'"
        "tick (run (Suc n)) = tick s'" "previous_interrupt (run (Suc n)) = previous_interrupt s'"
        "timer_period (run (Suc n)) = timer_period s'" using assms(4) by blast
      have fits: "unat (tick (run n)) + unat (timer_period (run n)) + 1 < 2 ^ 64"
        using assms(7) Suc.prems IH(3,4) by simp
      note st = turn_bound_step [OF assms(1) [rule_format] assms(2) [rule_format] assms(3) s'(1) IH(2) fits]
      have tb: "turn_bound j (run (Suc n)) = turn_bound j s'" by (simp add: turn_bound_def s')
      have "timer_period s' = timer_period (run n)" using timer_handler_cases [OF s'(1)] by metis
      then show ?thesis using st IH tb s' by (auto intro: exI [of _ "Suc n"])
    qed
  qed
  from this [of ?B] have "(\<exists>m\<le>?B. ?hit m) \<or> turn_bound j (run ?B) + ?B \<le> ?B" by blast
  moreover have "0 < turn_bound j (run ?B)"
    unfolding turn_bound_def by (rule add_nonneg_pos) (simp_all add: less_max_iff_disj del: One_nat_def)
  ultimately show ?thesis by auto
qed

text \<open>
  A byte received on the serial line is handled without a fault exactly when it is a printable
  character, NUL, newline, carriage return or DEL: any other byte, such as ESC, TAB or a byte of a
  UTF-8 character, sends the interrupt handler outside the font array.
\<close>

theorem com_handler_returns_iff:
  "(\<exists>s'. com_handler byte s = Inr s') \<longleftrightarrow> (0x20 \<le> byte \<and> byte \<le> 0x7e) \<or> byte \<in> {0, 10, 13, 0x7f}"
proof -
  define x where "x = io_out8 0xa0 0x20 (io_out8 0x20 0x20 ((io_cli s)\<lparr>key := byte\<rparr>))"
  define s1 where "s1 = say_num ''COM Interrupt: '' (scast (key x)) x"
  have k: "key s1 = byte" by (simp add: s1_def x_def say_num_upd io_out8_def io_cli_def)
  have e: "com_handler byte s = and_then
        (if key s1 \<noteq> 10 \<and> key s1 \<noteq> 13 \<and> key s1 \<noteq> 0x7f then
           and_then (printstr (50 + x_ichi s1) (50 + y_ichi s1) pix_green pix_black
               (takeWhile (\<lambda>c. c \<noteq> 0) [key s1, 0]) s1) (\<lambda>s. Inr (s\<lparr>x_ichi := x_ichi s + 8\<rparr>))
         else if key s1 = 0x7f then
           let s = s1\<lparr>x_ichi := x_ichi s1 - 8\<rparr> in
           printstr (50 + x_ichi s) (50 + y_ichi s) pix_white pix_white (ascii '' '') s
         else
           let s = s1\<lparr>x_ichi := 0\<rparr>; s = s\<lparr>y_ichi := y_ichi s + 16\<rparr> in Inr s)
        (\<lambda>s. Inr (io_sti s))"
    by (simp only: com_handler_def Let_def s1_def x_def)
  consider "byte \<in> {10, 13}" | "byte = 0x7f" | "byte = 0" | "byte \<notin> {0, 10, 13, 0x7f}" by blast
  then show ?thesis
  proof cases
    case 1
    then show ?thesis unfolding e k by auto
  next
    case 2
    have "\<forall>c\<in>set (ascii '' ''). printable c" by (simp add: ascii_def printable_def)
    from printstr_from_returns [OF this] show ?thesis
      unfolding e k Let_def printstr_def using 2 by (fastforce simp: and_then_Inr_iff)
  next
    case 3
    then show ?thesis unfolding e k by (simp add: printstr_def)
  next
    case 4
    then have "com_handler byte s = and_then (and_then (and_then
        (printchar (50 + x_ichi s1) (50 + y_ichi s1) pix_green pix_black byte s1) Inr)
        (\<lambda>s. Inr (s\<lparr>x_ichi := x_ichi s + 8\<rparr>))) (\<lambda>s. Inr (io_sti s))"
      unfolding e k by (simp add: printstr_def)
    then have "(\<exists>s'. com_handler byte s = Inr s') \<longleftrightarrow>
        (\<exists>g. printchar (50 + x_ichi s1) (50 + y_ichi s1) pix_green pix_black byte s1 = Inr g)"
      by (simp add: and_then_Inr_iff)
    also have "\<dots> \<longleftrightarrow> printable byte" by (rule printchar_Inr_iff)
    finally show ?thesis using 4 by (simp add: printable_def)
  qed
qed

text \<open>Two runnable threads and a timer of period 50.\<close>

primrec demo_ticks :: "nat \<Rightarrow> sys" where
  "demo_ticks 0 = (demo_table RUNNABLE RUNNABLE)\<lparr>timer_period := 50, tick := 0, previous_interrupt := 0\<rparr>"
| "demo_ticks (Suc n) = projr (timer_handler 0 (demo_ticks n))"

lemma demo_ticks_ok:
  "table_ok (demo_ticks n) \<and> runnable (demo_ticks n) = runnable (demo_table RUNNABLE RUNNABLE) \<and>
   (\<exists>s'. timer_handler 0 (demo_ticks n) = Inr s')"
proof (induction n)
  case 0
  have "table_ok (demo_ticks 0)" using demo_table_ok [of RUNNABLE RUNNABLE] by (simp add: table_ok_def live_def)
  moreover have r: "runnable (demo_ticks 0) = runnable (demo_table RUNNABLE RUNNABLE)"
    by (simp add: runnable_def fun_eq_iff)
  moreover have "\<exists>k<THREAD_NUM. runnable (demo_ticks 0) k"
    using demo_runnable [of 0 RUNNABLE RUNNABLE] unfolding r by (intro exI [of _ 0]) (simp add: THREAD_NUM_def)
  ultimately show ?case using timer_handler_returns by metis
next
  case (Suc n)
  have some: "\<exists>k<THREAD_NUM. runnable (demo_ticks n) k"
    using Suc demo_runnable [of 0 RUNNABLE RUNNABLE] by (intro exI [of _ 0]) (simp add: THREAD_NUM_def)
  then obtain s' where s': "timer_handler 0 (demo_ticks n) = Inr s'" "table_ok s'" "runnable s' = runnable (demo_ticks n)"
    using timer_handler_returns [of "demo_ticks n" 0] Suc by metis
  with Suc some show ?case using timer_handler_returns [of s' 0] by (metis demo_ticks.simps(2) sum.sel(2))
qed

theorem timer_fair_witness:
  "\<exists>n \<le> THREAD_NUM * (50 + 1) + 91. 0 < n \<and> cur_thread_index (demo_ticks n) = int 1 \<and>
    previous_interrupt (demo_ticks n) = tick (demo_ticks n)"
proof (rule timer_fair [where ra = "\<lambda>_. 0"])
  have "demo_ticks (Suc n) = s'" if "timer_handler 0 (demo_ticks n) = Inr s'" for n s' using that by simp
  then show "\<forall>n. \<exists>s'. timer_handler 0 (demo_ticks n) = Inr s' \<and>
      cur_thread_index (demo_ticks (Suc n)) = cur_thread_index s' \<and> tick (demo_ticks (Suc n)) = tick s' \<and>
      previous_interrupt (demo_ticks (Suc n)) = previous_interrupt s' \<and>
      timer_period (demo_ticks (Suc n)) = timer_period s'"
    using demo_ticks_ok by metis
qed (use demo_ticks_ok demo_runnable [of 1 RUNNABLE RUNNABLE] in \<open>auto simp: THREAD_NUM_def\<close>)

end
