(* ===== verification/Heap_Client.thy ===== *)
theory Heap_Client
  imports Heap_Run
begin

text \<open>
  The heap as its clients use it: \<open>heap_has s L k\<close> says that the heap is partitioned into its free
  blocks and the blocks at the pointers \<open>L\<close>, and that one free block has \<open>k\<close> units or more. Unlike
  a run, it looks only at the heap's own part of the state, so other operations keep it.
\<close>

definition heap_has :: "'z heap_scheme \<Rightarrow> u64 set \<Rightarrow> nat \<Rightarrow> bool" where
  "heap_has s L k \<longleftrightarrow> (\<exists>bs. heap_ok s bs \<and> kh_owned s (free_bytes s bs) L (heap_region s) \<and>
     (k = 0 \<or> (\<exists>b\<in>set bs. k \<le> unat (sz s b))))"

text \<open>The units of a request of \<open>n\<close> bytes, header included.\<close>

definition units :: "int \<Rightarrow> nat" where
  "units n = nat ((n + 15) div 16) + 1"

lemma unat_nunits: "kh_request n \<Longrightarrow> unat (nunits_of n) = units n"
  by (simp add: kh_request_def units_def unat_nunits_of)

lemma path_cong_hdr: "hdr s' = hdr s \<Longrightarrow> path s' q ps = path s q ps"
  by (induction ps arbitrary: q) simp_all

lemma heap_part_cong:
  assumes "hdr s' = hdr s" "base_at s' = base_at s" "kheap s' = kheap s"
  shows "blk_end s' = blk_end s" "blk_bytes s' = blk_bytes s" "blk_ok s' = blk_ok s" "placed s' = placed s"
    "heap_lo s' = heap_lo s" "heap_hi s' = heap_hi s" "free_bytes s' = free_bytes s"
    "kh_block s' = kh_block s" "kh_extent s' = kh_extent s" "path s' = path s"
proof -
  show e: "blk_end s' = blk_end s" "heap_lo s' = heap_lo s" "heap_hi s' = heap_hi s" "placed s' = placed s"
    "path s' = path s"
    using assms path_cong_hdr [OF assms(1)]
    by (simp_all add: blk_end_def heap_lo_def heap_hi_def placed_def fun_eq_iff)
  then show b: "blk_bytes s' = blk_bytes s" "blk_ok s' = blk_ok s"
    using assms by (simp_all add: blk_bytes_def blk_ok_def fun_eq_iff)
  then show "free_bytes s' = free_bytes s" "kh_block s' = kh_block s" "kh_extent s' = kh_extent s"
    by (simp_all add: free_bytes_def kh_block_def kh_extent_def fun_eq_iff)
qed

lemma heap_has_cong:
  assumes "hdr s' = hdr s" "base_at s' = base_at s" "kheap s' = kheap s" "freep s' = freep s"
  shows "heap_has s' L k = heap_has s L k" "heap_region s' = heap_region s" "kh_extent s' = kh_extent s"
    "heap_ok s' = heap_ok s"
proof -
  note c = heap_part_cong [OF assms(1-3)]
  show ok: "heap_ok s' = heap_ok s" using assms c by (simp add: heap_ok_def fun_eq_iff)
  then have "kh_free s' = kh_free s" by (simp add: kh_free_def c fun_eq_iff)
  then have "kh_owned s' F L R = kh_owned s F L R" for F R by (simp add: owns_def c)
  then show "heap_has s' L k = heap_has s L k" using ok assms c by (simp add: heap_has_def)
  show "heap_region s' = heap_region s" "kh_extent s' = kh_extent s" by (simp_all add: c)
qed

lemma heap_hasE:
  assumes "heap_has s L k"
  obtains bs where "heap_ok s bs" "kh_owned s (free_bytes s bs) L (heap_region s)"
    "k = 0 \<or> (\<exists>b\<in>set bs. k \<le> unat (sz s b))"
  using assms by (auto simp: heap_has_def)

lemma heap_has_mono: "heap_has s L k \<Longrightarrow> j \<le> k \<Longrightarrow> heap_has s L j"
  unfolding heap_has_def by (metis le_trans le_zero_eq)

lemma heap_has_boot:
  assumes "placed (s\<lparr>kheap := k\<rparr>)" "freep s = base_at s"
  shows "heap_has (init_kheap k s) {} 0x40000"
proof -
  note i = init_kheap_ok [OF assms]
  have "kh_free (init_kheap k s) (heap_region (init_kheap k s))" using i by (auto simp: kh_free_def)
  then have "kh_owned (init_kheap k s) (free_bytes (init_kheap k s) [k]) {} (heap_region (init_kheap k s))"
    using i by (simp add: owns_def)
  moreover have "0x40000 \<le> unat (sz (init_kheap k s) k)"
    using assms(1) by (auto simp: init_kheap_def placed_def HEAP_SIZE_def)
  ultimately show ?thesis using i(1) unfolding heap_has_def by (metis list.set_intros(1))
qed

text \<open>A request that fits leaves the rest of the free block, or another one, for the next request.\<close>

lemma kmalloc_room:
  assumes ok: "heap_ok s bs" and n: "kh_request n" and k: "0 < k"
    and b: "b \<in> set bs" "units n + k \<le> unat (sz s b)"
    and m: "kmalloc n s = Some (p, s')"
  obtains bs' b' where "heap_ok s' bs'" "free_bytes s' bs' = free_bytes s bs - kh_extent s' p"
    "b' \<in> set bs'" "k \<le> unat (sz s' b')"
proof -
  let ?n = "nunits_of n"
  note pos = kh_request_pos [OF n]
  show thesis
  proof (cases rule: kmalloc_cases [OF ok pos])
    case 2
    then have "unat (sz s b) < units n" using b(1) unat_nunits [OF n] by (simp add: word_less_nat_alt)
    with b(2) show thesis by simp
  next
    case found: (1 xs q ys)
    let ?l = "last (base_at s # xs)"
    have qbs: "q \<in> set bs" using found(1) by simp
    show thesis
    proof (cases "sz s q = ?n")
      case True
      then have eq: "p = hplus q 1" and s': "s' = (set_next ?l (nx s q) s)\<lparr>freep := ?l\<rparr>"
        using found(3) m by (simp_all add: kmalloc_take_def)
      note U = unlink_block [OF ok found(1) s']
      have same: "sz s' c = sz s c" for c by (simp add: s')
      have "b \<noteq> q" using True b(2) k unat_nunits [OF n] by auto
      then have "b \<in> set (xs @ ys)" using b(1) found(1) by auto
      moreover have "kh_extent s' p = blk_bytes s q"
        by (simp add: eq kh_extent_def s' blk_bytes_def blk_end_def)
      ultimately show thesis using U b(2) by (intro that [of "xs @ ys" b]) (simp_all add: same)
    next
      case False
      then have lt: "?n < sz s q" using found(2) by simp
      define a where "a = hplus q (sz s q - ?n)"
      have eq: "p = hplus a 1" and s': "s' = (set_size a ?n (set_size q (sz s q - ?n) s))\<lparr>freep := ?l\<rparr>"
        using False found(3) m by (simp_all add: kmalloc_take_def Let_def a_def)
      have lmem: "?l \<in> set (base_at s # bs)" using heap_ok_parts(5) [OF ok found(1)] found(1) by auto
      note S = shrink_block [OF ok qbs pos lt lmem a_def s']
      have "a \<notin> set bs" using S(1,2) S(4) disjoint_outside(2) [OF S(1) S(4)] by auto
      then have "k \<le> unat (sz s' b)"
        using b S(1) lt unat_nunits [OF n]
        by (auto simp: s' unat_sub word_less_nat_alt word_le_nat_alt)
      moreover have "kh_extent s' p = blk_bytes s' a" by (simp add: eq kh_extent_def)
      ultimately show thesis using S b(1) by (intro that [of bs b]) simp_all
    qed
  qed
qed

lemma kmalloc_has:
  assumes h: "heap_has s L (units n + k)" and n: "kh_request n"
  obtains p s' where "kmalloc n s = Some (p, s')" "p \<noteq> 0" "p \<notin> L" "heap_has s' (insert p L) k"
    "heap_step s s'" "{unat p..<unat p + nat n} \<subseteq> kh_extent s' p" "kh_extent s' p \<subseteq> heap_region s"
    "\<forall>q\<in>L. kh_extent s' q = kh_extent s q \<and> kh_extent s' p \<inter> kh_extent s q = {}"
proof -
  obtain bs where ok: "heap_ok s bs" and o: "kh_owned s (free_bytes s bs) L (heap_region s)"
    and b: "\<exists>b\<in>set bs. units n + k \<le> unat (sz s b)"
    using heap_hasE [OF h] by (metis add_is_0 units_def One_nat_def nat.distinct(1))
  show thesis
  proof (cases rule: kmalloc_spec [OF ok kh_request_pos [OF n]])
    case 2
    then show thesis using b unat_nunits [OF n] by (force simp: word_less_nat_alt)
  next
    case got: (1 r s' bs')
    let ?p = "hplus r 1"
    note pl = heap_ok_placed [OF got(2)]
    have nz: "?p \<noteq> 0" by (rule hplus_1_nonzero [OF pl got(3)])
    note a = kh.alloc_owned [OF o n got(1)]
    have ext: "kh_extent s' ?p = blk_bytes s' r" by (simp add: kh_extent_def)
    have own: "?p \<notin> L" "kh_owned s' (free_bytes s' bs') (insert ?p L) (heap_region s')"
      using a nz got(6) heap_region_step [OF got(7)] by (simp_all add: ext)
    have fm: "kh_free s (free_bytes s bs)" using ok by (auto simp: kh_free_def)
    have keep: "kh_extent s' q = kh_extent s q" "kh_extent s' ?p \<inter> kh_extent s q = {}" if "q \<in> L" for q
    proof -
      have q: "kh_block s q" "kh_extent s q \<inter> free_bytes s bs = {}" using o that by (auto simp: owns_def)
      then show "kh_extent s' q = kh_extent s q" using kh.alloc_keeps [OF fm n got(1)] by blast
      show "kh_extent s' ?p \<inter> kh_extent s q = {}" using q(2) got(5) unfolding ext by blast
    qed
    have "k = 0 \<or> (\<exists>b\<in>set bs'. k \<le> unat (sz s' b))"
    proof (cases "k = 0")
      case False
      with b obtain b0 where b0: "b0 \<in> set bs" "units n + k \<le> unat (sz s b0)" "0 < k" by blast
      obtain cs c where c: "heap_ok s' cs" "free_bytes s' cs = free_bytes s bs - kh_extent s' ?p"
        "c \<in> set cs" "k \<le> unat (sz s' c)"
        using kmalloc_room [OF ok n b0(3,1,2) got(1)] .
      have "cs = bs'" using heap_ok_unique(1) [OF got(2) c(1)] c(2) got(6) ext by simp
      with c show ?thesis by blast
    qed simp
    then have "heap_has s' (insert ?p L) k" unfolding heap_has_def using got(2) own(2) by metis
    moreover have "{unat ?p..<unat ?p + nat n} \<subseteq> kh_extent s' ?p"
      using nunits_room(1) [OF n pl got(3,4)] ext by simp
    moreover have "kh_extent s' ?p \<subseteq> heap_region s" using got(5) o ext unfolding owns_def by blast
    ultimately show thesis using that [OF got(1) nz own(1) _ got(7)] keep by blast
  qed
qed

lemma kfree_has:
  assumes h: "heap_has s L k" and p: "p \<in> L"
  obtains s' where "kfree p s = Some s'" "heap_has s' (L - {p}) 0" "heap_step s s'"
    "\<forall>q\<in>L - {p}. kh_extent s' q = kh_extent s q"
proof -
  obtain bs where ok: "heap_ok s bs" and o: "kh_owned s (free_bytes s bs) L (heap_region s)"
    using heap_hasE [OF h] .
  note d = kh_ownedD [OF o p]
  obtain s' where s': "kfree p s = Some s'"
      "kh_owned s' (free_bytes s bs \<union> kh_extent s p) (L - {p}) (heap_region s)"
    using kh.release_owned [OF o p] by blast
  have "outside s bs (p - 16)"
    using disjoint_outside(1) [OF ok, of "p - 16"] d by (auto simp: kh_block_def kh_extent_def)
  then have step: "heap_step s s'"
    using kfree_heap_step [OF ok] d(1) s'(1) by (simp add: kh_block_def)
  obtain bs' where bs': "heap_ok s' bs'" "free_bytes s bs \<union> kh_extent s p = free_bytes s' bs'"
    using s'(2) by (auto simp: owns_def kh_free_def)
  have "kh_extent s' q = kh_extent s q" if "q \<in> L - {p}" for q
  proof -
    have "kh_block s q" "kh_extent s q \<inter> (free_bytes s bs \<union> kh_extent s p) = {}"
      using o that p unfolding owns_def by blast+
    then show ?thesis using kh.release_keeps [OF d(4,1,2) s'(1)] by blast
  qed
  moreover have "heap_has s' (L - {p}) 0"
    using s'(2) bs' heap_region_step [OF step] by (auto simp: heap_has_def)
  ultimately show thesis using that [OF s'(1) _ step] by blast
qed

text \<open>No free block is large enough: NULL, and nothing has changed.\<close>

lemma kmalloc_none:
  assumes "heap_ok s bs" "kh_request n" "\<forall>b\<in>set bs. unat (sz s b) < units n"
  shows "kmalloc n s = Some (0, s)"
  using kmalloc_null_iff [OF assms(1,2), of s] assms(3) unat_nunits [OF assms(2)]
  by (simp add: word_less_nat_alt)

text \<open>Pointers in use are not 0, lie in the heap, and the first bytes behind them belong to them.\<close>

lemma heap_has_ptr:
  assumes "heap_has s L k" "p \<in> L"
  shows "unat p \<in> heap_region s \<or> unat p = heap_hi s" "p \<noteq> 0"
proof -
  obtain bs where ok: "heap_ok s bs" and o: "kh_owned s (free_bytes s bs) L (heap_region s)"
    using heap_hasE [OF assms(1)] .
  have blk: "blk_ok s (p - 16)" using o assms(2) by (simp add: owns_def kh_block_def)
  note b = blk_ok_bounds [OF heap_ok_placed [OF ok] blk]
  have "hplus (p - 16) 1 = p" by simp
  moreover have "unat (hplus (p - 16) 1) = unat (p - 16) + 16"
    using b(2,4) unat_hplus [of "p - 16" 1] by simp
  ultimately have u: "unat p = unat (p - 16) + 16" by simp
  then show "p \<noteq> 0" by auto
  show "unat p \<in> heap_region s \<or> unat p = heap_hi s"
    using blk b u by (auto simp: blk_ok_def blk_end_def word_less_nat_alt)
qed

end
