(* ===== verification/Thread_Life.thy ===== *)
theory Thread_Life
  imports Semaphore Heap_Client Heap_Aligned
begin

text \<open>
  kernel/task.c, second part: how threads come into being and end. \<open>te\<close> is the address of
  \<open>thread_exec\<close>, \<open>ra\<close> the return address of a call that switches, \<open>code\<close> what the function at an
  address does. Memory for the structures comes from the model of kmalloc.
\<close>

section \<open>Creation\<close>

primrec heap_call :: "'a option \<Rightarrow> 'a outcome" where
  "heap_call None = Inl Spins"
| "heap_call (Some x) = Inr x"

definition thread_gen2 :: "u64 \<Rightarrow> u64 \<Rightarrow> u64 \<Rightarrow> int \<Rightarrow> u64 \<Rightarrow> 'z sys_scheme \<Rightarrow> 'z sys_scheme outcome" where
  "thread_gen2 te t func argc argv s =
     and_then (heap_call (kmalloc_alignas (uint STACK_LENGTH) 16 s)) (\<lambda>(stack, s).
     let s = upd_thread t (\<lambda>x. x\<lparr>t_stack := stack\<rparr>) s;
         s = upd_thread t (\<lambda>x. x\<lparr>t_stack_btm := t_stack x + STACK_LENGTH\<rparr>) s;
         s = upd_thread t (\<lambda>x. x\<lparr>t_rsp := t_stack x + STACK_LENGTH\<rparr>) s;
         s = upd_thread t (\<lambda>x. x\<lparr>t_rip := te\<rparr>) s;
         s = upd_thread t (\<lambda>x. x\<lparr>t_func := func, t_argc := argc, t_argv := argv\<rparr>) s
     in and_then (heap_call (kmalloc 4 s)) (\<lambda>(sid_ptr, s).
     let s = upd_thread t (\<lambda>x. x\<lparr>t_sid_ptr := sid_ptr\<rparr>) s
     in and_then (heap_call (kmalloc 16 s)) (\<lambda>(pstruct, s).
     let s = upd_thread t (\<lambda>x. x\<lparr>t_pstruct := pstruct\<rparr>) s;
         ps = t_pstruct (thr_mem s t);
         s = s\<lparr>pipe_mem := (pipe_mem s)(ps := (pipe_mem s ps)\<lparr>pstate := EMPTY\<rparr>)\<rparr>;
         s = upd_thread t (\<lambda>x. x\<lparr>t_ctid := array_fill NTHREAD_CHILD (- 1) (t_ctid x)\<rparr>) s
     in Inr (thread_stack_init t s))))"

text \<open>\<open>sizeof(thread)\<close> is 128; no pointer is compared with NULL.\<close>

definition create_thread :: "u64 \<Rightarrow> u64 \<Rightarrow> int \<Rightarrow> u64 \<Rightarrow> 'z sys_scheme \<Rightarrow> (int \<times> 'z sys_scheme) outcome" where
  "create_thread te func argc argv s =
     and_then (heap_call (kmalloc_alignas 128 16 (io_cli s))) (\<lambda>(t, s).
     and_then (thread_gen2 te t func argc argv s) (\<lambda>s.
     and_then (thread_run t s) (\<lambda>s.
       let s = io_sti s in Inr (t_tid (thr_mem s t), s))))"

section \<open>End\<close>

definition thread_end :: "u64 \<Rightarrow> 'z sys_scheme \<Rightarrow> 'z sys_scheme outcome" where
  "thread_end t s =
     and_then (array_set (threads s) (t_index (thr_mem s t)) (empty_at s)) (\<lambda>ths.
     let s = s\<lparr>threads := ths\<rparr>;
         tid = t_tid (thr_mem s t)
     in and_then (get_thread_ptr (t_ptid (thr_mem s t)) s) (\<lambda>(parent_t, s).
     let s = snd (clear_ctid parent_t tid s)
     in and_then (array_set (tid_index_dict s) (t_index (thr_mem s t)) (- 1)) (\<lambda>dict.
     let s = s\<lparr>tid_index_dict := dict\<rparr>;
         sid = sid_mem s (t_sid_ptr (thr_mem s t));
         pstruct = t_pstruct (thr_mem s t)
     in and_then (get_semcount sid s) (\<lambda>count.
     and_then (if count = 0
               then and_then (delete_sem sid s) (\<lambda>(r, s).
                    and_then (heap_call (kfree (pipe_ptr (pipe_mem s pstruct)) s)) (\<lambda>s.
                    heap_call (kfree pstruct s)))
               else Inr s) (\<lambda>s.
     and_then (heap_call (kfree (t_sid_ptr (thr_mem s t)) s)) (\<lambda>s.
     and_then (heap_call (kfree t s)) (\<lambda>s.
       Inr (say (''THREAD END!!'' @ [CHR 0x0D, CHR 0x0A]) s))))))))"

text \<open>
  A thread's first and last code: its function, then the release of what it holds, then the
  scheduler. The stack it is running on is the first thing it gives back.
\<close>

definition thread_exec ::
  "(u64 \<Rightarrow> int \<Rightarrow> u64 \<Rightarrow> 'z sys_scheme \<Rightarrow> 'z sys_scheme outcome) \<Rightarrow> u64 \<Rightarrow> u64 \<Rightarrow>
    'z sys_scheme \<Rightarrow> 'z sys_scheme outcome" where
  "thread_exec code ra t s =
     and_then (code (t_func (thr_mem s t)) (t_argc (thr_mem s t)) (t_argv (thr_mem s t)) s) (\<lambda>s.
     and_then (heap_call (kfree (t_stack (thr_mem s t)) s)) (\<lambda>s.
     and_then (thread_end t s) (\<lambda>s.
     thread_scheduler ra s)))"

section \<open>Fork\<close>

primrec put_ctids :: "int list \<Rightarrow> 'z sys_scheme \<Rightarrow> 'z sys_scheme" where
  "put_ctids [] s = s"
| "put_ctids (c # cs) s =
     (if c = - 1 then s
      else let s = say_bytes (hex_bytes (word_of_int c)) s; s = say ''\<newline>'' s in put_ctids cs s)"

definition put_thread_info :: "u64 \<Rightarrow> 'z sys_scheme \<Rightarrow> 'z sys_scheme" where
  "put_thread_info t s =
     (let s = say ''=== put thread info ===\<newline>'' s;
          s = say_num ''stack:     '' (t_stack (thr_mem s t)) s;
          s = say_num ''stack_btm: '' (t_stack_btm (thr_mem s t)) s;
          s = say_num ''rsp:       '' (t_rsp (thr_mem s t)) s;
          s = say_num ''rip:       '' (t_rip (thr_mem s t)) s;
          s = say_num ''pipe_ptr:  '' (pipe_ptr (pipe_mem s (t_pstruct (thr_mem s t)))) s;
          s = say_num ''sid_ptr:   '' (t_sid_ptr (thr_mem s t)) s;
          s = say_num ''tid:       '' (word_of_int (t_tid (thr_mem s t))) s;
          s = say_num ''ptid:      '' (word_of_int (t_ptid (thr_mem s t))) s;
          s = say ''ctid:\<newline>'' s;
          s = put_ctids (take NTHREAD_CHILD (t_ctid (thr_mem s t))) s;
          s = say ''======================\<newline>'' s
      in s)"

definition thread_gen_for_fork :: "u64 \<Rightarrow> u64 \<Rightarrow> u64 \<Rightarrow> u64 \<Rightarrow> 'z sys_scheme \<Rightarrow> 'z sys_scheme" where
  "thread_gen_for_fork te newt curt stack s =
     (let s = upd_thread newt (\<lambda>x. x\<lparr>t_stack := stack\<rparr>) s;
          s = upd_thread newt (\<lambda>x. x\<lparr>t_stack_btm := stack + STACK_LENGTH\<rparr>) s;
          s = upd_thread newt (\<lambda>x. x\<lparr>t_rsp := stack + STACK_LENGTH\<rparr>) s;
          s = upd_thread newt (\<lambda>x. x\<lparr>t_rip := te\<rparr>) s;
          s = upd_thread newt (\<lambda>x. x\<lparr>t_func := t_func (thr_mem s curt)\<rparr>) s;
          s = upd_thread newt (\<lambda>x. x\<lparr>t_argc := t_argc (thr_mem s curt)\<rparr>) s;
          s = upd_thread newt (\<lambda>x. x\<lparr>t_argv := t_argv (thr_mem s curt)\<rparr>) s;
          s = upd_thread newt (\<lambda>x. x\<lparr>t_sid_ptr := t_sid_ptr (thr_mem s curt)\<rparr>) s;
          s = upd_thread newt (\<lambda>x. x\<lparr>t_pstruct := t_pstruct (thr_mem s curt)\<rparr>) s
      in upd_thread newt (\<lambda>x. x\<lparr>t_ctid := array_fill NTHREAD_CHILD (- 1) (t_ctid x)\<rparr>) s)"

text \<open>\<open>new_thread->stack[i] = cur_thread->stack[i]\<close>, for the first \<open>n\<close> words.\<close>

primrec copy_stack_upto :: "u64 \<Rightarrow> u64 \<Rightarrow> nat \<Rightarrow> 'z sys_scheme \<Rightarrow> 'z sys_scheme" where
  "copy_stack_upto new cur 0 s = s"
| "copy_stack_upto new cur (Suc i) s =
     (let s = copy_stack_upto new cur i s
      in store (t_stack (thr_mem s new) + 8 * of_nat i) (stk s (t_stack (thr_mem s cur) + 8 * of_nat i)) s)"

text \<open>
  \<open>switch_fork\<close> returns twice, first as the child, later, when the parent is scheduled again, as
  the parent. So the function is cut there: \<open>fork_thread\<close> ends at the moment the processor returns
  from \<open>switch_fork\<close> as the child (\<open>ra\<close> is the return address of that call), and \<open>fork_return\<close> is the
  rest, which child and parent execute with their copies of the local variables. The second
  component is \<open>t_index\<close>, here \<open>index\<close>.
\<close>

definition fork_thread :: "u64 \<Rightarrow> u64 \<Rightarrow> 'z sys_scheme \<Rightarrow> ('z sys_scheme \<times> int) outcome" where
  "fork_thread te ra s =
     and_then (heap_call (kmalloc_alignas (uint STACK_LENGTH) 16 s)) (\<lambda>(newstack, s).
     and_then (heap_call (kmalloc_alignas 128 16 s)) (\<lambda>(new_thread, s).
     and_then (get_cur_thread_tid s) (\<lambda>(tid, s).
     and_then (get_thread_ptr tid s) (\<lambda>(cur_thread, s).
     let s = put_thread_info cur_thread s;
         s = thread_gen_for_fork te new_thread cur_thread newstack s
     in and_then (thread_register new_thread s) (\<lambda>(index, s).
     let s = snd (set_ctid cur_thread (t_tid (thr_mem s new_thread)) s);
         s = io_cli s;
         s = upd_thread new_thread (\<lambda>x. x\<lparr>t_state := RUNNABLE\<rparr>) s;
         s = s\<lparr>cur_thread_index := index\<rparr>;
         s = copy_stack_upto new_thread cur_thread (unat STACK_LENGTH div 8) s;
         s = set_reg RDI (cur_thread + 16) s;
         s = set_reg RSI (t_stack_btm (thr_mem s new_thread)) s;
         s = set_reg RDX (t_stack_btm (thr_mem s cur_thread)) s;
         s = call_from ra s;
         s = fork_save s;
         s = upd_thread cur_thread (\<lambda>x. x\<lparr>t_rsp := sp s\<rparr>) s
     in Inr (fork_load s, index))))))"

definition fork_return :: "int \<Rightarrow> int \<Rightarrow> 'z sys_scheme \<Rightarrow> (int \<times> 'z sys_scheme) outcome" where
  "fork_return index child_tid s =
     (let s = io_sti s;
          s = io_cli s
      in and_then (get_cur_thread_tid s) (\<lambda>(tid, s).
     and_then (get_thread_ptr tid s) (\<lambda>(t, s).
       if find_ctid t s = - 1
       then let s = say_num ''cur_thread_index: '' (word_of_int (cur_thread_index s)) s;
                s = say_num ''t_index: '' (word_of_int index) s;
                s = say ''this is child thread\<newline>'' s
            in Inr (- 1, s)
       else let s = say_num ''cur_thread_index: '' (word_of_int (cur_thread_index s)) s;
                s = say_num ''t_index: '' (word_of_int index) s;
                s = say_num ''child_tid: '' (word_of_int child_tid) s;
                ctid = find_ctid t s;
                s = say_num ''ctid: '' (word_of_int ctid) s
            in Inr (ctid, s))))"

section \<open>What the operations of the table do to the heap: nothing\<close>

lemma sys_heap [simp]:
  "hdr (upd_thread t f s) = hdr s" "base_at (upd_thread t f s) = base_at s"
  "kheap (upd_thread t f s) = kheap s" "freep (upd_thread t f s) = freep s"
  "hdr (say_num m n s) = hdr s" "base_at (say_num m n s) = base_at s"
  "kheap (say_num m n s) = kheap s" "freep (say_num m n s) = freep s"
  "hdr (say m s) = hdr s" "base_at (say m s) = base_at s" "kheap (say m s) = kheap s" "freep (say m s) = freep s"
  "hdr (io_cli s) = hdr s" "base_at (io_cli s) = base_at s" "kheap (io_cli s) = kheap s" "freep (io_cli s) = freep s"
  "hdr (io_sti s) = hdr s" "base_at (io_sti s) = base_at s" "kheap (io_sti s) = kheap s" "freep (io_sti s) = freep s"
  for s :: "'z sys_scheme"
  by (simp_all add: upd_thread_def say_num_upd say_upd io_cli_def io_sti_def)

lemma heap_step_sys:
  fixes s :: "'z sys_scheme"
  assumes "heap_step s s'"
  shows "s' = s\<lparr>hdr := hdr s', freep := freep s'\<rparr>" "base_at s' = base_at s" "kheap s' = kheap s"
    "thr_mem s' = thr_mem s" "threads s' = threads s" "tid_index_dict s' = tid_index_dict s"
    "tid_global s' = tid_global s" "cur_thread_index s' = cur_thread_index s" "empty_at s' = empty_at s"
    "semtable s' = semtable s" "sid_mem s' = sid_mem s" "pipe_mem s' = pipe_mem s" "stk s' = stk s"
    "sp s' = sp s" "regs s' = regs s" "int_flag s' = int_flag s" "bytes s' = bytes s"
proof -
  show e: "s' = s\<lparr>hdr := hdr s', freep := freep s'\<rparr>" using assms by (simp add: heap_step_def)
  obtain h f where "s' = s\<lparr>hdr := h, freep := f\<rparr>" using e by blast
  then show "base_at s' = base_at s" "kheap s' = kheap s"
    "thr_mem s' = thr_mem s" "threads s' = threads s" "tid_index_dict s' = tid_index_dict s"
    "tid_global s' = tid_global s" "cur_thread_index s' = cur_thread_index s" "empty_at s' = empty_at s"
    "semtable s' = semtable s" "sid_mem s' = sid_mem s" "pipe_mem s' = pipe_mem s" "stk s' = stk s"
    "sp s' = sp s" "regs s' = regs s" "int_flag s' = int_flag s" "bytes s' = bytes s" by simp_all
qed

lemma kmalloc_alignas_16 [simp]: "kmalloc_alignas n 16 s = kmalloc n s"
  by (simp add: kmalloc_alignas_def)

lemma requests: "kh_request 4" "kh_request 16" "kh_request 128" "kh_request 4096" "kh_request (uint STACK_LENGTH)"
  "units 4 = 2" "units 16 = 2" "units 128 = 9" "units 4096 = 257" "units (uint STACK_LENGTH) = 257"
  by (simp_all add: kh_request_def units_def STACK_LENGTH_def)

lemma init_stack_sys [simp]:
  "snd (init_stack b r t s) = s\<lparr>stk := snd (push_words (init_stack_words r t) (b, stk s)), int_flag := True\<rparr>"
  by (simp add: init_stack_def Let_def split_beta io_cli_def io_sti_def)

lemma thread_stack_init_run:
  "thr_mem (thread_stack_init t s) = (thr_mem s)(t := (thr_mem s t)\<lparr>t_rsp := t_rsp (thr_mem s t) - 128\<rparr>)"
  "frame_at (stk (thread_stack_init t s)) (t_rsp (thr_mem s t) - 128) ((\<lambda>_. 0)(RDI := t)) (t_rip (thr_mem s t))"
  "threads (thread_stack_init t s) = threads s" "tid_index_dict (thread_stack_init t s) = tid_index_dict s"
  "tid_global (thread_stack_init t s) = tid_global s"
  "cur_thread_index (thread_stack_init t s) = cur_thread_index s"
  "empty_at (thread_stack_init t s) = empty_at s" "semtable (thread_stack_init t s) = semtable s"
  "sid_mem (thread_stack_init t s) = sid_mem s" "pipe_mem (thread_stack_init t s) = pipe_mem s"
  "hdr (thread_stack_init t s) = hdr s" "base_at (thread_stack_init t s) = base_at s"
  "kheap (thread_stack_init t s) = kheap s" "freep (thread_stack_init t s) = freep s"
  using init_stack_run(1,2) [of "t_rsp (thr_mem s t)" "t_rip (thr_mem s t)" t "say_num ''thread address: '' t s"]
  by (simp_all add: thread_stack_init_def Let_def split_beta)

section \<open>A new thread\<close>

text \<open>The fields \<open>thread_gen2\<close> sets.\<close>

definition newborn :: "u64 \<Rightarrow> u64 \<Rightarrow> u64 \<Rightarrow> u64 \<Rightarrow> u64 \<Rightarrow> int \<Rightarrow> u64 \<Rightarrow> thread \<Rightarrow> thread" where
  "newborn te stack sid_ptr pstruct func argc argv x =
     x\<lparr>t_stack := stack, t_stack_btm := stack + STACK_LENGTH, t_rsp := stack + STACK_LENGTH - 128,
       t_rip := te, t_func := func, t_argc := argc, t_argv := argv, t_sid_ptr := sid_ptr,
       t_pstruct := pstruct, t_ctid := array_fill NTHREAD_CHILD (- 1) (t_ctid x)\<rparr>"

text \<open>A state that differs only in what the table's operations do not look at.\<close>

definition same_table :: "'z sys_scheme \<Rightarrow> 'z sys_scheme \<Rightarrow> bool" where
  "same_table s s' \<longleftrightarrow> threads s' = threads s \<and> tid_index_dict s' = tid_index_dict s \<and>
     tid_global s' = tid_global s \<and> cur_thread_index s' = cur_thread_index s \<and> empty_at s' = empty_at s \<and>
     semtable s' = semtable s \<and> sid_mem s' = sid_mem s"

lemma heap_step_region: "heap_step s s' \<Longrightarrow> heap_lo s' = heap_lo s \<and> heap_hi s' = heap_hi s"
  by (simp add: heap_step_fields heap_lo_def heap_hi_def)

lemma thread_gen2_spec:
  fixes s :: "'z sys_scheme"
  assumes h: "heap_has s L (261 + k)"
  obtains stack sid_ptr pstruct s' where "thread_gen2 te t func argc argv s = Inr s'"
    "heap_has s' (insert pstruct (insert sid_ptr (insert stack L))) k" "distinct [stack, sid_ptr, pstruct]"
    "{stack, sid_ptr, pstruct} \<inter> L = {}" "{unat stack..<unat stack + 4096} \<subseteq> kh_extent s' stack"
    "thr_mem s' = (thr_mem s)(t := newborn te stack sid_ptr pstruct func argc argv (thr_mem s t))"
    "frame_at (stk s') (stack + STACK_LENGTH - 128) ((\<lambda>_. 0)(RDI := t)) te"
    "same_table s s'" "pstate (pipe_mem s' pstruct) = EMPTY" "heap_lo s' = heap_lo s"
proof -
  have h1: "heap_has s L (units (uint STACK_LENGTH) + (4 + k))" using h by (simp add: requests)
  obtain p1 s1 where 1: "kmalloc (uint STACK_LENGTH) s = Some (p1, s1)" "p1 \<notin> L" "heap_has s1 (insert p1 L) (4 + k)"
    "heap_step s s1" "{unat p1..<unat p1 + nat (uint STACK_LENGTH)} \<subseteq> kh_extent s1 p1"
    using kmalloc_has [OF h1 requests(5)] by metis
  define s1' where "s1' = upd_thread t (\<lambda>x. x\<lparr>t_stack := p1, t_stack_btm := p1 + STACK_LENGTH,
    t_rsp := p1 + STACK_LENGTH, t_rip := te, t_func := func, t_argc := argc, t_argv := argv\<rparr>) s1"
  have sum: "units 4 + (2 + k) = 4 + k" "units 16 + k = 2 + k" by (simp_all add: requests)
  have "heap_has s1' (insert p1 L) (units 4 + (2 + k))"
    unfolding sum using 1(3) heap_has_cong(1) [of s1' s1] by (simp add: s1'_def)
  from kmalloc_has [OF this requests(1)] obtain p2 s2 where 2: "kmalloc 4 s1' = Some (p2, s2)"
    "p2 \<notin> insert p1 L" "heap_has s2 (insert p2 (insert p1 L)) (2 + k)" "heap_step s1' s2"
    "kh_extent s2 p1 = kh_extent s1' p1" by (metis insertI1)
  define s2' where "s2' = upd_thread t (\<lambda>x. x\<lparr>t_sid_ptr := p2\<rparr>) s2"
  have "heap_has s2' (insert p2 (insert p1 L)) (units 16 + k)"
    unfolding sum using 2(3) heap_has_cong(1) [of s2' s2] by (simp add: s2'_def)
  from kmalloc_has [OF this requests(2)] obtain p3 s3 where 3: "kmalloc 16 s2' = Some (p3, s3)"
    "p3 \<notin> insert p2 (insert p1 L)" "heap_has s3 (insert p3 (insert p2 (insert p1 L))) k" "heap_step s2' s3"
    "kh_extent s3 p1 = kh_extent s2' p1" by (metis insertI1 insertI2)
  define s3' where "s3' = upd_thread t (\<lambda>x. x\<lparr>t_ctid := array_fill NTHREAD_CHILD (- 1) (t_ctid x)\<rparr>)
    ((upd_thread t (\<lambda>x. x\<lparr>t_pstruct := p3\<rparr>) s3)\<lparr>pipe_mem := (pipe_mem s3)(p3 := (pipe_mem s3 p3)\<lparr>pstate := EMPTY\<rparr>)\<rparr>)"
  have eq: "thread_gen2 te t func argc argv s = Inr (thread_stack_init t s3')"
    using 1(1) 2(1) 3(1) unfolding s1'_def s2'_def s3'_def
    by (simp add: thread_gen2_def Let_def upd_thread_def)
  note hs = heap_step_sys [OF 1(4)] heap_step_sys [OF 2(4)] heap_step_sys [OF 3(4)]
  have mem: "thr_mem s3' = (thr_mem s)(t := (newborn te p1 p2 p3 func argc argv (thr_mem s t))\<lparr>t_rsp := p1 + STACK_LENGTH\<rparr>)"
    unfolding s3'_def s2'_def s1'_def using hs(4,21,38)
    by (auto simp: newborn_def s2'_def s1'_def fun_eq_iff intro!: thread.equality)
  have part: "hdr (thread_stack_init t s3') = hdr s3" "base_at (thread_stack_init t s3') = base_at s3"
    "kheap (thread_stack_init t s3') = kheap s3" "freep (thread_stack_init t s3') = freep s3"
    by (simp_all add: thread_stack_init_run s3'_def upd_thread_def)
  note c = heap_has_cong [OF part]
  have ext: "kh_extent (thread_stack_init t s3') p1 = kh_extent s1 p1"
    using c(3) 3(5) 2(5) heap_has_cong(3) [of s2' s2] heap_has_cong(3) [of s1' s1]
    by (simp add: s2'_def s1'_def)
  show thesis
  proof (rule that [OF eq])
    show "heap_has (thread_stack_init t s3') (insert p3 (insert p2 (insert p1 L))) k"
      using 3(3) c(1) by simp
    show "distinct [p1, p2, p3]" "{p1, p2, p3} \<inter> L = {}" using 1(2) 2(2) 3(2) by auto
    show "{unat p1..<unat p1 + 4096} \<subseteq> kh_extent (thread_stack_init t s3') p1"
      using 1(5) by (simp add: ext STACK_LENGTH_def)
    show "thr_mem (thread_stack_init t s3') =
        (thr_mem s)(t := newborn te p1 p2 p3 func argc argv (thr_mem s t))"
      by (auto simp: thread_stack_init_run mem newborn_def fun_eq_iff intro!: thread.equality)
    show "frame_at (stk (thread_stack_init t s3')) (p1 + STACK_LENGTH - 128) ((\<lambda>_. 0)(RDI := t)) te"
      using thread_stack_init_run(2) [of t s3'] by (simp add: mem newborn_def)
    show "same_table s (thread_stack_init t s3')"
      unfolding same_table_def thread_stack_init_run using hs by (simp add: s3'_def s2'_def s1'_def)
    show "pstate (pipe_mem (thread_stack_init t s3') p3) = EMPTY"
      by (simp add: thread_stack_init_run s3'_def)
    have "heap_lo s1' = heap_lo s1" "heap_lo s2' = heap_lo s2" "heap_lo (thread_stack_init t s3') = heap_lo s3"
      using part by (simp_all add: heap_lo_def s1'_def s2'_def)
    then show "heap_lo (thread_stack_init t s3') = heap_lo s"
      using heap_step_region [OF 1(4)] heap_step_region [OF 2(4)] heap_step_region [OF 3(4)] by simp
  qed
qed

lemma same_table_ok:
  assumes "same_table s s'" "thr_mem s' = (thr_mem s)(t := x)" "t \<notin> set (threads s)" "t \<noteq> empty_at s"
    "length (threads s) = THREAD_NUM"
  shows "table_ok s' = table_ok s" "live s' = live s" "i < THREAD_NUM \<Longrightarrow> slot_dead s' i = slot_dead s i"
proof -
  have neq: "threads s ! k \<noteq> t" if "k < THREAD_NUM" for k using assms(3,5) that by (metis nth_mem)
  show l: "live s' = live s" using assms(1) by (simp add: live_def same_table_def fun_eq_iff)
  have liv: "thr_mem s' (threads s ! k) = thr_mem s (threads s ! k)" if "live s k" for k
    using that neq assms(2) by (simp add: live_def)
  show "table_ok s' = table_ok s"
    using assms(1,2,4) l liv unfolding table_ok_def same_table_def by simp
  show "slot_dead s' i = slot_dead s i" if "i < THREAD_NUM"
    using assms(1,2) neq [OF that] by (simp add: slot_dead_def same_table_def)
qed

lemma find_up_cong: "(\<And>i. i < n \<Longrightarrow> P i = Q i) \<Longrightarrow> find_up n P k = find_up n Q k"
proof (induction n P k rule: find_up.induct)
  case (1 n P i)
  then show ?case by (simp add: find_up.simps [of n P i] find_up.simps [of n Q i])
qed

lemma fill_slot_heap:
  "fill_slot i t st s = Inr s' \<Longrightarrow> hdr s' = hdr s \<and> base_at s' = base_at s \<and> kheap s' = kheap s \<and> freep s' = freep s \<and>
     stk s' = stk s \<and> sp s' = sp s \<and> regs s' = regs s \<and> pipe_mem s' = pipe_mem s \<and> sid_mem s' = sid_mem s \<and> semtable s' = semtable s \<and> empty_at s' = empty_at s"
  by (auto simp: fill_slot_def get_cur_thread_tid_def Let_def and_then_Inr_iff upd_thread_def io_cli_def io_sti_def)

lemma thread_run_heap:
  assumes "thread_run t s = Inr s'"
  shows "hdr s' = hdr s" "base_at s' = base_at s" "kheap s' = kheap s" "freep s' = freep s" "stk s' = stk s"
    "pipe_mem s' = pipe_mem s" "sid_mem s' = sid_mem s" "semtable s' = semtable s" "empty_at s' = empty_at s"
    "sp s' = sp s" "regs s' = regs s"
  using assms fill_slot_heap [of _ t RUNNABLE s]
  by (auto simp: thread_run_def and_then_Inr_iff Let_def split: option.splits)

lemma thread_register_heap:
  assumes "thread_register t s = Inr (i, s')"
  shows "hdr s' = hdr s" "base_at s' = base_at s" "kheap s' = kheap s" "freep s' = freep s" "stk s' = stk s"
    "pipe_mem s' = pipe_mem s" "sid_mem s' = sid_mem s" "semtable s' = semtable s" "empty_at s' = empty_at s"
    "sp s' = sp s" "regs s' = regs s"
  using assms fill_slot_heap [of _ t SLEEP s]
  by (auto simp: thread_register_def and_then_Inr_iff Let_def split: option.splits)

text \<open>
  The kernel between two operations: the table is well formed, the structures of the live threads
  are blocks of the heap in use, and \<open>empty_thread\<close> lies before the heap. \<open>k\<close> units are free in one
  piece.
\<close>

definition threads_ok :: "'z sys_scheme \<Rightarrow> u64 set \<Rightarrow> nat \<Rightarrow> bool" where
  "threads_ok s L k \<longleftrightarrow> table_ok s \<and> heap_has s L k \<and> set (threads s) \<subseteq> insert (empty_at s) L \<and>
     unat (empty_at s) < heap_lo s"

lemma threads_ok_new:
  assumes "threads_ok s L k" "p \<notin> L" "heap_has s' (insert p L) j" "heap_lo s' = heap_lo s" "heap_hi s' = heap_hi s"
  shows "p \<notin> set (threads s)" "p \<noteq> empty_at s"
proof -
  have "unat p \<in> heap_region s \<or> unat p = heap_hi s" using heap_has_ptr(1) [OF assms(3)] assms(4,5) by auto
  moreover have "heap_lo s \<le> heap_hi s" by (simp add: heap_lo_def heap_hi_def)
  ultimately show "p \<noteq> empty_at s" using assms(1) by (auto simp: threads_ok_def)
  then show "p \<notin> set (threads s)" using assms(1,2) by (auto simp: threads_ok_def)
qed

lemma threads_ok_above:
  assumes "threads_ok s L k" "q \<in> L"
  shows "unat (empty_at s) < unat q"
proof -
  have "heap_lo s \<le> unat q"
    using heap_has_ptr(1) [of s L k q] assms by (auto simp: threads_ok_def heap_lo_def heap_hi_def)
  then show ?thesis using assms(1) by (simp add: threads_ok_def)
qed

lemma create_thread_spec:
  fixes s :: "'z sys_scheme"
  assumes ok: "threads_ok s L (270 + k)" and i: "find_up THREAD_NUM (slot_dead s) 0 = Some i"
  obtains t stack sid_ptr pstruct s' where "create_thread te func argc argv s = Inr (tid_global s, s')"
    "threads_ok s' ({t, stack, sid_ptr, pstruct} \<union> L) k" "live s' = (live s)(i := True)"
    "threads s' = (threads s)[i := t]" "distinct [t, stack, sid_ptr, pstruct]" "{t, stack, sid_ptr, pstruct} \<inter> L = {}"
    "thr_mem s' = (thr_mem s)(t := filled i t RUNNABLE
       (s\<lparr>thr_mem := (thr_mem s)(t := newborn te stack sid_ptr pstruct func argc argv (thr_mem s t))\<rparr>))"
    "frame_at (stk s') (stack + STACK_LENGTH - 128) ((\<lambda>_. 0)(RDI := t)) te"
    "{unat stack..<unat stack + 4096} \<subseteq> kh_extent s' stack"
    "pstate (pipe_mem s' pstruct) = EMPTY" "sid_mem s' = sid_mem s" "semtable s' = semtable s"
    "tid_index_dict s' = (tid_index_dict s)[i := tid_global s]" "tid_global s' = tid_global s + 1"
    "cur_thread_index s' = cur_thread_index s" "empty_at s' = empty_at s"
    "{stack, sid_ptr, pstruct} \<inter> set (threads s') = {}"
proof -
  have sum: "units 128 + (261 + k) = 270 + k" by (simp add: requests)
  have "heap_has (io_cli s) L (units 128 + (261 + k))"
    unfolding sum using ok heap_has_cong(1) [of "io_cli s" s] by (simp add: threads_ok_def)
  then obtain t s1 where 1: "kmalloc 128 (io_cli s) = Some (t, s1)" "t \<notin> L"
    "heap_has s1 (insert t L) (261 + k)" "heap_step (io_cli s) s1"
    using kmalloc_has [OF _ requests(3)] by metis
  note hs = heap_step_sys [OF 1(4)]
  have reg: "heap_lo s1 = heap_lo s" "heap_hi s1 = heap_hi s" using hs(3) by (simp_all add: heap_lo_def heap_hi_def)
  note new = threads_ok_new [OF ok 1(2,3) reg]
  obtain stack sid_ptr pstruct s2 where 2: "thread_gen2 te t func argc argv s1 = Inr s2"
    "heap_has s2 (insert pstruct (insert sid_ptr (insert stack (insert t L)))) k" "distinct [stack, sid_ptr, pstruct]"
    "{stack, sid_ptr, pstruct} \<inter> insert t L = {}" "{unat stack..<unat stack + 4096} \<subseteq> kh_extent s2 stack"
    "thr_mem s2 = (thr_mem s1)(t := newborn te stack sid_ptr pstruct func argc argv (thr_mem s1 t))"
    "frame_at (stk s2) (stack + STACK_LENGTH - 128) ((\<lambda>_. 0)(RDI := t)) te"
    "same_table s1 s2" "pstate (pipe_mem s2 pstruct) = EMPTY" "heap_lo s2 = heap_lo s1"
    using thread_gen2_spec [OF 1(3), of te t func argc argv] by metis
  have st: "same_table s s2" using 2(8) hs by (simp add: same_table_def)
  have mem2: "thr_mem s2 = (thr_mem s)(t := newborn te stack sid_ptr pstruct func argc argv (thr_mem s t))"
    using 2(6) hs(4) by simp
  have len: "length (threads s) = THREAD_NUM" using ok by (simp add: threads_ok_def table_ok_def)
  note tab = same_table_ok [OF st mem2 new len]
  have ok2: "table_ok s2" using tab(1) ok by (simp add: threads_ok_def)
  have i2: "find_up THREAD_NUM (slot_dead s2) 0 = Some i"
    using find_up_cong [of THREAD_NUM "slot_dead s2" "slot_dead s"] tab(3) i by simp
  have t2: "t \<noteq> empty_at s2" "t \<notin> set (threads s2)" using st new by (simp_all add: same_table_def)
  obtain s3 where 3: "thread_run t s2 = Inr s3" "table_ok s3" "live s3 = (live s2)(i := True)"
    "threads s3 = (threads s2)[i := t]" "thr_mem s3 = (thr_mem s2)(t := filled i t RUNNABLE s2)"
    "tid_index_dict s3 = (tid_index_dict s2)[i := tid_global s2]" "tid_global s3 = tid_global s2 + 1"
    "cur_thread_index s3 = cur_thread_index s2"
    using thread_run_spec [OF ok2 i2 t2] by metis
  note hp = thread_run_heap [OF 3(1)]
  have fill: "filled i t RUNNABLE s2 = filled i t RUNNABLE
      (s\<lparr>thr_mem := (thr_mem s)(t := newborn te stack sid_ptr pstruct func argc argv (thr_mem s t))\<rparr>)"
    using st mem2 by (simp add: filled_def same_table_def)
  have part: "hdr (io_sti s3) = hdr s2" "base_at (io_sti s3) = base_at s2" "kheap (io_sti s3) = kheap s2"
    "freep (io_sti s3) = freep s2"
    using hp by simp_all
  note c = heap_has_cong [OF part]
  have sub: "set (threads s3) \<subseteq> insert (empty_at s3) ({t, stack, sid_ptr, pstruct} \<union> L)"
    using set_update_subset_insert [of "threads s" i t] ok 3(4) st hp(9) by (auto simp: threads_ok_def same_table_def)
  have lo: "unat (empty_at (io_sti s3)) < heap_lo (io_sti s3)"
    using ok hp(9) st 2(10) reg part(3) by (simp add: threads_ok_def same_table_def heap_lo_def)
  have final: "threads_ok (io_sti s3) ({t, stack, sid_ptr, pstruct} \<union> L) k"
    using 2(2) c(1) 3(2) sub lo by (simp add: threads_ok_def insert_commute)
  have above: "unat (empty_at s) < unat q" if "q \<in> {t, stack, sid_ptr, pstruct} \<union> L" for q
    using threads_ok_above [OF final that] hp(9) st by (simp add: same_table_def)
  have fresh: "{stack, sid_ptr, pstruct} \<inter> set (threads s3) = {}"
    using set_update_subset_insert [of "threads s" i t] ok 3(4) st 2(3,4) above [of stack] above [of sid_ptr]
      above [of pstruct] by (auto simp: threads_ok_def same_table_def)
  have tid: "t_tid (filled i t RUNNABLE s2) = tid_global s" using st by (simp add: filled_def same_table_def)
  show thesis
  proof (rule that)
    show "create_thread te func argc argv s = Inr (tid_global s, io_sti s3)"
      using 1(1) 2(1) 3(1,5) tid by (simp add: create_thread_def)
    show "threads_ok (io_sti s3) ({t, stack, sid_ptr, pstruct} \<union> L) k" by (rule final)
    show "{stack, sid_ptr, pstruct} \<inter> set (threads (io_sti s3)) = {}" using fresh by simp
    show "{unat stack..<unat stack + 4096} \<subseteq> kh_extent (io_sti s3) stack" using 2(5) c(3) by simp
    show "thr_mem (io_sti s3) = (thr_mem s)(t := filled i t RUNNABLE
       (s\<lparr>thr_mem := (thr_mem s)(t := newborn te stack sid_ptr pstruct func argc argv (thr_mem s t))\<rparr>))"
      using 3(5) mem2 fill by simp
    show "frame_at (stk (io_sti s3)) (stack + STACK_LENGTH - 128) ((\<lambda>_. 0)(RDI := t)) te"
      using 2(7) hp(5) by simp
    show "distinct [t, stack, sid_ptr, pstruct]" "{t, stack, sid_ptr, pstruct} \<inter> L = {}"
      using 1(2) 2(3,4) by auto
  qed (use 3 tab(2) st hp 2(9) in \<open>simp_all add: same_table_def\<close>)
qed

section \<open>The end of a thread\<close>

lemma live_empty_slot:
  "i < length (threads s) \<Longrightarrow> live (s\<lparr>threads := (threads s)[i := empty_at s]\<rparr>) = (live s)(i := False)"
  by (auto simp: live_def fun_eq_iff nth_list_update)

lemma table_ok_empty_slot:
  assumes "table_ok s"
  shows "table_ok (s\<lparr>threads := (threads s)[i := empty_at s]\<rparr>)"
proof (cases "i < THREAD_NUM")
  case True
  then have l: "live (s\<lparr>threads := (threads s)[i := empty_at s]\<rparr>) = (live s)(i := False)"
    using assms by (intro live_empty_slot) (simp add: table_ok_def)
  show ?thesis using assms unfolding table_ok_def l by (auto simp: live_def)
next
  case False
  then have "(threads s)[i := empty_at s] = threads s" using table_okD(1) [OF assms] by (simp add: list_update_beyond)
  then show ?thesis using assms by simp
qed

lemma table_ok_clear_dict:
  assumes ok: "table_ok s" and i: "i < THREAD_NUM" "\<not> live s i"
  shows "table_ok (s\<lparr>tid_index_dict := (tid_index_dict s)[i := - 1]\<rparr>)" (is "table_ok ?s")
proof -
  have l: "live ?s = live s" by (simp add: live_def fun_eq_iff)
  have other: "tid_index_dict ?s ! k = (if k = i then - 1 else tid_index_dict s ! k)" if "k < THREAD_NUM" for k
    using that table_okD(2) [OF ok] by (simp add: nth_list_update)
  have row: "t_index (thr_mem s (threads s ! k)) = int k \<and>
      t_tid (thr_mem s (threads s ! k)) = tid_index_dict ?s ! k \<and> 0 \<le> tid_index_dict ?s ! k \<and>
      t_state (thr_mem s (threads s ! k)) \<noteq> DEAD \<and> (\<forall>j<k. tid_index_dict ?s ! j \<noteq> tid_index_dict ?s ! k)"
    if k: "live s k" for k
  proof -
    note t = table_ok_live [OF ok k]
    have "k \<noteq> i" using k i(2) by auto
    moreover have "tid_index_dict ?s ! j \<noteq> tid_index_dict s ! k" if "j < k" for j
      using t(3) t(5) [OF that] t(6) that other [of j] by auto
    ultimately show ?thesis using t other [OF t(6)] by simp
  qed
  have "tid_index_dict ?s ! k < max 1 (tid_global s)" if "k < THREAD_NUM" for k
    using other [OF that] table_okD(8) [OF ok that] by (auto simp: max_def)
  with ok row show ?thesis unfolding table_ok_def l by simp
qed

lemma clear_ctid_fields:
  fixes s :: "'z sys_scheme" and p :: u64 and c :: int
  defines "s' \<equiv> snd (clear_ctid p c s)"
  shows "threads s' = threads s" "tid_index_dict s' = tid_index_dict s" "tid_global s' = tid_global s"
    "cur_thread_index s' = cur_thread_index s" "empty_at s' = empty_at s" "semtable s' = semtable s"
    "sid_mem s' = sid_mem s" "pipe_mem s' = pipe_mem s" "hdr s' = hdr s" "base_at s' = base_at s"
    "kheap s' = kheap s" "freep s' = freep s" "q \<noteq> p \<Longrightarrow> thr_mem s' q = thr_mem s q" "stk s' = stk s"
  unfolding s'_def by (auto simp: clear_ctid_def Let_def split: option.splits)

lemma get_thread_ptr_missing:
  assumes "\<forall>k<THREAD_NUM. tid_index_dict s ! k \<noteq> tid"
  shows "get_thread_ptr tid s = Inl Out_of_bounds"
proof -
  have "find_up THREAD_NUM (\<lambda>k. tid_index_dict s ! k = tid) 0 = None" using assms by (simp add: find_up_None)
  then show ?thesis by (simp add: get_thread_ptr_def search_index_from_tid_def)
qed

lemma sem_entry_in: "length (semtable s) = NSEM \<Longrightarrow> 0 \<le> sid \<Longrightarrow> sid < int NSEM \<Longrightarrow>
    sem_entry sid s = Inr (semtable s ! nat sid)"
  by (simp add: sem_entry_def array_get_def nat_less_iff)

text \<open>\<open>delete_sem\<close> answers 0 for every semaphore of the table, and does nothing.\<close>

lemma delete_sem_in: "0 \<le> sid \<Longrightarrow> sid < int NSEM \<Longrightarrow> delete_sem sid s = Inr (0, io_sti s)"
  by (simp add: delete_sem_def isbadsem_def sti_ret0_if_err_def Let_def)

text \<open>What \<open>thread_end\<close> gives back: the pipe only while the count of its semaphore is 0.\<close>

definition released :: "u64 \<Rightarrow> 'z sys_scheme \<Rightarrow> u64 list" where
  "released t s =
     (let x = thr_mem s t in
      (if semcount (semtable s ! nat (sid_mem s (t_sid_ptr x))) = 0
       then [pipe_ptr (pipe_mem s (t_pstruct x)), t_pstruct x] else []) @ [t_sid_ptr x, t])"

primrec kfree_all :: "u64 list \<Rightarrow> 'z sys_scheme \<Rightarrow> 'z sys_scheme outcome" where
  "kfree_all [] s = Inr s"
| "kfree_all (p # ps) s = and_then (heap_call (kfree p s)) (kfree_all ps)"

lemma kfree_all_has:
  fixes s :: "'z sys_scheme"
  shows "heap_has s L k \<Longrightarrow> set ps \<subseteq> L \<Longrightarrow> distinct ps \<Longrightarrow>
    \<exists>s'. kfree_all ps s = Inr s' \<and> heap_has s' (L - set ps) 0 \<and> heap_step s s'"
proof (induction ps arbitrary: s L k)
  case Nil
  then show ?case using heap_has_mono [of s L k 0] by (simp add: heap_step_def)
next
  case (Cons p ps)
  then have p: "p \<in> L" by simp
  obtain s1 where s1: "kfree p s = Some s1" "heap_has s1 (L - {p}) 0" "heap_step s s1"
    using kfree_has [OF Cons.prems(1) p] by metis
  have "set ps \<subseteq> L - {p}" "distinct ps" using Cons.prems by auto
  from Cons.IH [OF s1(2) this] obtain s2 where s2: "kfree_all ps s1 = Inr s2"
    "heap_has s2 (L - {p} - set ps) 0" "heap_step s1 s2" by blast
  obtain h1 f1 h2 f2 where "s1 = s\<lparr>hdr := h1, freep := f1\<rparr>" "s2 = s1\<lparr>hdr := h2, freep := f2\<rparr>"
    using s1(3) s2(3) unfolding heap_step_def by blast
  then have "heap_step s s2" by (simp add: heap_step_def)
  moreover have "L - {p} - set ps = L - set (p # ps)" by auto
  ultimately show ?case using s1(1) s2(1,2) by simp
qed

lemma heap_call_Inr [simp]: "heap_call m = Inr x \<longleftrightarrow> m = Some x"
  by (cases m) auto

lemma kfree_step: "kfree p s = Some s' \<Longrightarrow> heap_step s s'"
  by (auto simp: kfree_def kfree_link_def Let_def heap_step_def set_next_def set_size_def
      split: bind_splits)

lemma thread_end_spec:
  fixes s :: "'z sys_scheme"
  assumes ok: "threads_ok s L k" and i: "live s i" and j: "live s j" "i \<noteq> j"
    and parent: "t_ptid (thr_mem s (threads s ! i)) = tid_index_dict s ! j"
    and sem: "length (semtable s) = NSEM" "0 \<le> sid_mem s (t_sid_ptr (thr_mem s (threads s ! i)))"
      "sid_mem s (t_sid_ptr (thr_mem s (threads s ! i))) < int NSEM"
    and rel: "distinct (released (threads s ! i) s)" "set (released (threads s ! i) s) \<subseteq> L"
      "set (released (threads s ! i) s) \<inter> set (threads s) \<subseteq> {threads s ! i}"
  obtains s' where "thread_end (threads s ! i) s = Inr s'"
    "threads_ok s' (L - set (released (threads s ! i) s)) 0" "live s' = (live s)(i := False)"
    "threads s' = (threads s)[i := empty_at s]" "tid_index_dict s' = (tid_index_dict s)[i := - 1]"
    "thr_mem s' = thr_mem (snd (clear_ctid (threads s ! j) (tid_index_dict s ! i) s))"
    "semtable s' = semtable s" "sid_mem s' = sid_mem s" "pipe_mem s' = pipe_mem s"
    "cur_thread_index s' = cur_thread_index s" "tid_global s' = tid_global s"
proof -
  let ?t = "threads s ! i" and ?p = "threads s ! j"
  have tab: "table_ok s" using ok by (simp add: threads_ok_def)
  note ti = table_ok_live [OF tab i] and d = table_okD [OF tab]
  define x where "x = thr_mem s ?t"
  define s1 where "s1 = s\<lparr>threads := (threads s)[i := empty_at s]\<rparr>"
  have tab1: "table_ok s1" unfolding s1_def by (rule table_ok_empty_slot [OF tab])
  have len: "i < length (threads s)" using d(1) ti(6) by simp
  have live1: "live s1 = (live s)(i := False)" unfolding s1_def by (rule live_empty_slot [OF len])
  have jl: "live s1 j" "threads s1 ! j = ?p" "tid_index_dict s1 = tid_index_dict s"
    using j by (simp_all add: live1) (simp_all add: s1_def)
  have pt: "get_thread_ptr (t_ptid x) s1 = Inr (?p, s1)"
    using get_thread_ptr_live [OF tab1 jl(1)] jl parent by (simp add: x_def)
  have tp: "?t \<noteq> ?p" using live_inject [OF tab i j(1)] j(2) by blast
  define s2 where "s2 = snd (clear_ctid ?p (tid_index_dict s ! i) s1)"
  note c2 = clear_ctid_fields [where p = ?p and c = "tid_index_dict s ! i" and s = s1, folded s2_def]
  have tab2: "table_ok s2" "live s2 = live s1" unfolding s2_def by (rule clear_ctid_table [OF tab1])+
  define s3 where "s3 = s2\<lparr>tid_index_dict := (tid_index_dict s)[i := - 1]\<rparr>"
  have mem3: "thr_mem s3 ?t = x" using c2(13) [OF tp] by (simp add: s3_def x_def s1_def)
  have tab3: "table_ok s3"
    using table_ok_clear_dict [OF tab2(1) ti(6)] tab2(2) live1 c2(2) jl(3) by (simp add: s3_def)
  have live3: "live s3 = (live s)(i := False)"
    using tab2(2) live1 by (simp add: s3_def live_def fun_eq_iff)
  have f3: "hdr s3 = hdr s" "base_at s3 = base_at s" "kheap s3 = kheap s" "freep s3 = freep s"
    "semtable s3 = semtable s" "sid_mem s3 = sid_mem s" "pipe_mem s3 = pipe_mem s" "empty_at s3 = empty_at s"
    "threads s3 = (threads s)[i := empty_at s]" "tid_index_dict s3 = (tid_index_dict s)[i := - 1]"
    "cur_thread_index s3 = cur_thread_index s" "tid_global s3 = tid_global s"
    unfolding s3_def using c2 by (simp_all add: s1_def)
  define sid where "sid = sid_mem s (t_sid_ptr x)"
  define s4 where "s4 = (if semcount (semtable s ! nat sid) = 0 then io_sti s3 else s3)"
  have f4: "hdr s4 = hdr s" "base_at s4 = base_at s" "kheap s4 = kheap s" "freep s4 = freep s"
    "threads s4 = threads s3" "thr_mem s4 = thr_mem s3" "pipe_mem s4 = pipe_mem s"
    "tid_index_dict s4 = tid_index_dict s3" "live s4 = live s3" "table_ok s4" "empty_at s4 = empty_at s"
    "semtable s4 = semtable s" "sid_mem s4 = sid_mem s" "cur_thread_index s4 = cur_thread_index s"
    "tid_global s4 = tid_global s"
    using f3 tab3 by (simp_all add: s4_def)
  have "heap_has s4 L k" using ok heap_has_cong(1) [OF f4(1-4)] by (simp add: threads_ok_def)
  then obtain s5 where s5: "kfree_all (released ?t s) s4 = Inr s5"
    "heap_has s5 (L - set (released ?t s)) 0" "heap_step s4 s5"
    using kfree_all_has rel(1,2) by metis
  note h5 = heap_step_sys [OF s5(3)]
  have rl: "released ?t s = (if semcount (semtable s ! nat sid) = 0
      then [pipe_ptr (pipe_mem s (t_pstruct x)), t_pstruct x] else []) @ [t_sid_ptr x, ?t]"
    by (simp add: released_def Let_def x_def sid_def)
  have kept: "thr_mem s' ?t = x" "pipe_mem s' = pipe_mem s" if "heap_step s4 s'" for s'
    using heap_step_sys(4,12) [OF that] f4(6,7) mem3 by simp_all
  have keep: "thr_mem u' ?t = thr_mem u ?t" "pipe_mem u' = pipe_mem u"
    if "kfree q u = Some u'" for q u and u' :: "'z sys_scheme"
    using heap_step_sys(4,12) [OF kfree_step [OF that]] by simp_all
  have tail: "and_then (if semcount (semtable s ! nat sid) = 0
               then and_then (delete_sem sid s3) (\<lambda>(r, s).
                    and_then (heap_call (kfree (pipe_ptr (pipe_mem s (t_pstruct x))) s)) (\<lambda>s.
                    heap_call (kfree (t_pstruct x) s)))
               else Inr s3) (\<lambda>s. and_then (heap_call (kfree (t_sid_ptr (thr_mem s ?t)) s)) (\<lambda>s.
             and_then (heap_call (kfree ?t s)) (\<lambda>s. Inr (g s)))) = Inr (g s5)" for g :: "'z sys_scheme \<Rightarrow> 'z sys_scheme"
  proof (cases "semcount (semtable s ! nat sid) = 0")
    case True
    obtain u1 u2 u3 where u: "kfree (pipe_ptr (pipe_mem s (t_pstruct x))) s4 = Some u1" "kfree (t_pstruct x) u1 = Some u2"
      "kfree (t_sid_ptr x) u2 = Some u3" "kfree ?t u3 = Some s5"
      using s5(1) True by (auto simp: rl and_then_Inr_iff)
    then have "thr_mem u2 ?t = x" using keep(1) f4(6) mem3 by metis
    then show ?thesis
      using True u sem(2,3) f3(7) by (simp add: delete_sem_in s4_def sid_def x_def)
  next
    case False
    obtain u3 where u: "kfree (t_sid_ptr x) s4 = Some u3" "kfree ?t u3 = Some s5"
      using s5(1) False by (auto simp: rl and_then_Inr_iff)
    then show ?thesis using False mem3 by (simp add: s4_def)
  qed
  have eq: "thread_end ?t s = Inr (say (''THREAD END!!'' @ [CHR 0x0D, CHR 0x0A]) s5)" (is "_ = Inr ?s'")
  proof -
    have 2: "thr_mem s1 ?t = x" "t_tid x = tid_index_dict s ! i" "t_index x = int i"
      using ti(1,2) by (simp_all add: s1_def x_def)
    have 1: "array_set (threads s) (int i) (empty_at s) = Inr ((threads s)[i := empty_at s])"
      using len by simp
    have 3: "thr_mem s2 ?t = x" using c2(13) [OF tp] 2(1) by simp
    have 4: "array_set (tid_index_dict s2) (int i) (- 1) = Inr ((tid_index_dict s)[i := - 1])"
      using c2(2) jl(3) d(2) ti(6) by simp
    have 5: "get_semcount sid s3 = Inr (semcount (semtable s ! nat sid))"
      using sem f3(5) sem_entry_in [of s3 sid] by (simp add: get_semcount_def sid_def x_def)
    have 6: "sid_mem s2 (t_sid_ptr x) = sid" "sid_mem s3 (t_sid_ptr x) = sid"
      using c2(7) by (simp_all add: f3(6) sid_def) (simp add: s1_def)
    show ?thesis
      using pt tail [of "say (''THREAD END!!'' @ [CHR 0x0D, CHR 0x0A])"]
      by (cases "semcount (semtable s ! nat sid) = 0")
        (simp_all add: thread_end_def 1 2 3 4 5 6 mem3 Let_def flip: s1_def s2_def s3_def x_def)
  qed
  have part: "hdr ?s' = hdr s5" "base_at ?s' = base_at s5" "kheap ?s' = kheap s5" "freep ?s' = freep s5"
    by simp_all
  note c = heap_has_cong [OF part]
  have mem': "thr_mem ?s' = thr_mem (snd (clear_ctid ?p (tid_index_dict s ! i) s))"
    using h5(4) f4(6)
    by (simp add: s3_def s2_def s1_def clear_ctid_def Let_def io_cli_def io_sti_def upd_thread_def split: option.splits)
  have ths: "threads ?s' = (threads s)[i := empty_at s]" "empty_at ?s' = empty_at s"
    using h5(5,9) f4(5,11) f3(9) by simp_all
  have sub: "set ((threads s)[i := empty_at s]) \<subseteq> insert (empty_at s) (L - set (released ?t s))"
  proof
    fix q assume "q \<in> set ((threads s)[i := empty_at s])"
    then obtain m where m: "m < length (threads s)" "q = (threads s)[i := empty_at s] ! m"
      by (auto simp: in_set_conv_nth)
    show "q \<in> insert (empty_at s) (L - set (released ?t s))"
    proof (cases "m = i \<or> q = empty_at s")
      case True
      then show ?thesis using m len by auto
    next
      case False
      then have q: "q = threads s ! m" "q \<in> set (threads s)" "q \<noteq> empty_at s" using m by auto
      then have "live s m" using m(1) d(1) by (simp add: live_def)
      then have "q \<noteq> ?t" using live_inject [OF tab _ i] False q(1) by metis
      then show ?thesis using q ok rel(3) by (auto simp: threads_ok_def)
    qed
  qed
  show thesis
  proof (rule that [OF eq])
    have "table_ok ?s'" "live ?s' = live s4"
      using table_ok_cong [of s5 s4] h5 f4(10) by simp_all
    moreover have "unat (empty_at s) < heap_lo ?s'"
      using ok h5(3) f4(3) by (simp add: threads_ok_def heap_lo_def)
    ultimately show "threads_ok ?s' (L - set (released ?t s)) 0" "live ?s' = (live s)(i := False)"
      using s5(2) c(1) sub ths f4(9) live3 by (simp_all add: threads_ok_def)
  qed (use ths mem' h5 f4 f3 in simp_all)
qed

section \<open>No memory\<close>

lemma kmalloc_returns:
  fixes s :: "'z sys_scheme"
  assumes "heap_ok s bs" "kh_request n"
  obtains p s' bs' where "kmalloc n s = Some (p, s')" "heap_ok s' bs'" "heap_step s s'"
  using assms kmalloc_spec [OF assms(1) kh_request_pos [OF assms(2)]] kmalloc_heap_step [OF assms]
  by metis

lemma same_table_trans: "same_table s s' \<Longrightarrow> same_table s' s'' \<Longrightarrow> same_table s s''"
  by (simp add: same_table_def)

lemma heap_step_same_table: "heap_step s s' \<Longrightarrow> same_table s s'"
  by (frule heap_step_sys) (simp add: same_table_def heap_step_sys)

text \<open>Without a block for the stack \<open>thread_gen2\<close> goes on with a null pointer.\<close>

lemma thread_gen2_no_stack:
  fixes s :: "'z sys_scheme"
  assumes ok: "heap_ok s bs" and small: "\<forall>b\<in>set bs. unat (sz s b) < 257"
  obtains sid_ptr pstruct s' where "thread_gen2 te t func argc argv s = Inr s'" "same_table s s'"
    "thr_mem s' = (thr_mem s)(t := newborn te 0 sid_ptr pstruct func argc argv (thr_mem s t))"
proof -
  have 1: "kmalloc (uint STACK_LENGTH) s = Some (0, s)"
    using small by (intro kmalloc_none [OF ok requests(5)]) (simp add: requests)
  define s1 where "s1 = upd_thread t (\<lambda>x. x\<lparr>t_stack := 0, t_stack_btm := STACK_LENGTH,
    t_rsp := STACK_LENGTH, t_rip := te, t_func := func, t_argc := argc, t_argv := argv\<rparr>) s"
  have "heap_ok s1 bs" using ok heap_has_cong(4) [of s1 s] by (simp add: s1_def)
  then obtain p2 s2 bs2 where 2: "kmalloc 4 s1 = Some (p2, s2)" "heap_ok s2 bs2" "heap_step s1 s2"
    using kmalloc_returns [OF _ requests(1)] by metis
  define s2' where "s2' = upd_thread t (\<lambda>x. x\<lparr>t_sid_ptr := p2\<rparr>) s2"
  have "heap_ok s2' bs2" using 2(2) heap_has_cong(4) [of s2' s2] by (simp add: s2'_def)
  then obtain p3 s3 bs3 where 3: "kmalloc 16 s2' = Some (p3, s3)" "heap_step s2' s3"
    using kmalloc_returns [OF _ requests(2)] by metis
  define s3' where "s3' = upd_thread t (\<lambda>x. x\<lparr>t_ctid := array_fill NTHREAD_CHILD (- 1) (t_ctid x)\<rparr>)
    ((upd_thread t (\<lambda>x. x\<lparr>t_pstruct := p3\<rparr>) s3)\<lparr>pipe_mem := (pipe_mem s3)(p3 := (pipe_mem s3 p3)\<lparr>pstate := EMPTY\<rparr>)\<rparr>)"
  have eq: "thread_gen2 te t func argc argv s = Inr (thread_stack_init t s3')"
    using 1 2(1) 3(1) unfolding s1_def s2'_def s3'_def
    by (simp add: thread_gen2_def Let_def upd_thread_def)
  note hs = heap_step_sys [OF 2(3)] heap_step_sys [OF 3(2)]
  show thesis
  proof (rule that [OF eq])
    show "same_table s (thread_stack_init t s3')"
      using hs by (simp add: same_table_def thread_stack_init_run s3'_def s2'_def s1_def)
    show "thr_mem (thread_stack_init t s3') =
        (thr_mem s)(t := newborn te 0 p2 p3 func argc argv (thr_mem s t))"
      using hs(4,21)
      by (auto simp: thread_stack_init_run s3'_def s2'_def s1_def newborn_def fun_eq_iff intro!: thread.equality)
  qed
qed

section \<open>A booted kernel\<close>

definition boot_sys :: sys where
  "boot_sys = threads_init (init_kheap 0x101000 (ctx.extend machine0 (sys.fields
     (\<lambda>_. empty_thread) (\<lambda>_. 7) (\<lambda>_. \<lparr>pipe_ptr = 0, pstate = EMPTY\<rparr>) 0xff000
     (replicate 40 0) 0 0 tid_index_dict_init 0 0 0 (replicate 100 (demo_entry\<lparr>semcount := 1\<rparr>)))))"

lemma boot_fields:
  "threads boot_sys = replicate 40 0xff000" "tid_index_dict boot_sys = tid_index_dict_init"
  "cur_thread_index boot_sys = 0" "tid_global boot_sys = 0" "empty_at boot_sys = 0xff000"
  "thr_mem boot_sys = (\<lambda>_. empty_thread)" "sid_mem boot_sys = (\<lambda>_. 7)"
  "semtable boot_sys = replicate 100 (demo_entry\<lparr>semcount := 1\<rparr>)" "kheap boot_sys = 0x101000"
  by (simp_all add: boot_sys_def threads_init_def init_kheap_def set_next_def set_size_def ctx.defs sys.defs machine0_def
      screen.defs blank_screen_def THREAD_NUM_def array_fill_all)

lemma boot_ok: "threads_ok boot_sys {} 0x40000"
proof -
  let ?s = "ctx.extend machine0 (sys.fields
     (\<lambda>_. empty_thread) (\<lambda>_. 7) (\<lambda>_. \<lparr>pipe_ptr = 0, pstate = EMPTY\<rparr>) 0xff000
     (replicate 40 0) 0 0 tid_index_dict_init 0 0 0 (replicate 100 (demo_entry\<lparr>semcount := 1\<rparr>)))"
  have "placed (?s\<lparr>kheap := 0x101000\<rparr>)" "freep ?s = base_at ?s"
    by (simp_all add: placed_def heap_hi_def ctx.defs sys.defs machine0_def screen.defs blank_screen_def)
  from heap_has_boot [OF this] have "heap_has boot_sys {} 0x40000"
    using heap_has_cong(1) [of boot_sys "init_kheap 0x101000 ?s"] by (simp add: boot_sys_def threads_init_def)
  moreover have "table_ok boot_sys"
    unfolding boot_sys_def
    by (rule threads_init_table)
      (simp_all add: init_kheap_def set_next_def set_size_def ctx.defs sys.defs machine0_def screen.defs blank_screen_def THREAD_NUM_def)
  ultimately show ?thesis by (simp add: threads_ok_def boot_fields heap_lo_def)
qed

lemma boot_slot: "find_up THREAD_NUM (slot_dead boot_sys) 0 = Some 0"
  by (rule find_up_first) (simp_all add: slot_dead_def boot_fields empty_thread_def THREAD_NUM_def)

text \<open>The first two threads after boot; the second one is a child of the first.\<close>

lemma find_dead:
  assumes "table_ok s" "i < THREAD_NUM" "\<not> live s i" "\<forall>j<i. live s j"
  shows "find_up THREAD_NUM (slot_dead s) 0 = Some i"
  using assms live_iff_not_dead [OF assms(1)] by (intro find_up_first) auto

lemma boot_not_live: "\<not> live boot_sys i"
  by (simp add: live_def boot_fields THREAD_NUM_def)

lemma boot_dict: "tid_index_dict_init = - 1 # replicate 39 0"
  by (simp add: tid_index_dict_init_def THREAD_NUM_def)

lemma boot_first:
  obtains s1 L1 where "create_thread 0x100400 0x100500 0 0 boot_sys = Inr (0, s1)" "live s1 = (\<lambda>i. i = 0)"
    "t_ptid (thr_mem s1 (threads s1 ! 0)) = - 1" "tid_index_dict s1 = replicate 40 0"
    "threads_ok s1 L1 (270 + 261604)" "cur_thread_index s1 = 0" "tid_global s1 = 1"
    "sid_mem s1 = (\<lambda>_. 7)" "semtable s1 = replicate 100 (demo_entry\<lparr>semcount := 1\<rparr>)"
proof -
  have ok: "threads_ok boot_sys {} (270 + 261874)" using boot_ok by simp
  have r: "replicate 40 (0 :: int) = 0 # replicate 39 0" by (simp add: numeral_eq_Suc)
  show thesis
    by (rule create_thread_spec [OF ok boot_slot, where te = "0x100400" and func = "0x100500" and argc = 0 and argv = 0])
      (rule that, simp_all add: boot_fields filled_def boot_dict r boot_not_live fun_eq_iff)
qed

lemma boot_second:
  obtains s1 s2 L2 sid_ptr where "create_thread 0x100400 0x100500 0 0 boot_sys = Inr (0, s1)"
    "create_thread 0x100400 0x100600 0 0 s1 = Inr (1, s2)" "live s2 = (\<lambda>i. i = 0 \<or> i = 1)"
    "t_ptid (thr_mem s2 (threads s2 ! 1)) = tid_index_dict s2 ! 0" "threads_ok s2 L2 0"
    "semtable s2 = replicate 100 (demo_entry\<lparr>semcount := 1\<rparr>)" "sid_mem s2 = (\<lambda>_. 7)"
    "released (threads s2 ! 1) s2 = [sid_ptr, threads s2 ! 1]" "sid_ptr \<noteq> threads s2 ! 1"
    "{sid_ptr, threads s2 ! 1} \<subseteq> L2" "sid_ptr \<notin> set (threads s2)"
proof -
  obtain s1 L1 where 1: "create_thread 0x100400 0x100500 0 0 boot_sys = Inr (0, s1)" "live s1 = (\<lambda>i. i = 0)"
    "tid_index_dict s1 = replicate 40 0" "threads_ok s1 L1 (270 + 261604)" "cur_thread_index s1 = 0" "tid_global s1 = 1"
    "sid_mem s1 = (\<lambda>_. 7)" "semtable s1 = replicate 100 (demo_entry\<lparr>semcount := 1\<rparr>)"
    using boot_first by metis
  have tab: "table_ok s1" using 1(4) by (simp add: threads_ok_def)
  have i: "find_up THREAD_NUM (slot_dead s1) 0 = Some 1"
    using find_dead [OF tab, of 1] 1(2) by (simp add: THREAD_NUM_def)
  obtain t stack sid_ptr pstruct s2 where 2: "create_thread 0x100400 0x100600 0 0 s1 = Inr (tid_global s1, s2)"
    "threads_ok s2 ({t, stack, sid_ptr, pstruct} \<union> L1) 261604" "live s2 = (live s1)(1 := True)"
    "threads s2 = (threads s1)[1 := t]" "distinct [t, stack, sid_ptr, pstruct]" "{t, stack, sid_ptr, pstruct} \<inter> L1 = {}"
    "thr_mem s2 = (thr_mem s1)(t := filled 1 t RUNNABLE
       (s1\<lparr>thr_mem := (thr_mem s1)(t := newborn 0x100400 stack sid_ptr pstruct 0x100600 0 0 (thr_mem s1 t))\<rparr>))"
    "sid_mem s2 = sid_mem s1" "semtable s2 = semtable s1"
    "tid_index_dict s2 = (tid_index_dict s1)[1 := tid_global s1]" "{stack, sid_ptr, pstruct} \<inter> set (threads s2) = {}"
    using create_thread_spec [OF 1(4) i, where te = "0x100400" and func = "0x100600" and argc = 0 and argv = 0]
    by metis
  have len: "length (threads s1) = 40" using table_okD(1) [OF tab] by (simp add: THREAD_NUM_def)
  have t: "threads s2 ! 1 = t" using len 2(4) by simp
  have x: "thr_mem s2 (threads s2 ! 1) = filled 1 t RUNNABLE
       (s1\<lparr>thr_mem := (thr_mem s1)(t := newborn 0x100400 stack sid_ptr pstruct 0x100600 0 0 (thr_mem s1 t))\<rparr>)"
    using 2(7) t by simp
  have rel: "released t s2 = [sid_ptr, t]"
    using x t 2(8,9) 1(7,8) by (simp add: released_def filled_def newborn_def demo_entry_def)
  have pt: "t_ptid (thr_mem s2 t) = tid_index_dict s2 ! 0"
    using x t 1(3,5) 2(10) by (simp add: filled_def)
  have "threads_ok s2 ({t, stack, sid_ptr, pstruct} \<union> L1) 0"
    using 2(2) heap_has_mono [of s2 "{t, stack, sid_ptr, pstruct} \<union> L1" 261604 0] by (simp add: threads_ok_def)
  then show thesis
    using 1(1) 2(1,3,5,8,9,11) 1(2,6-8) t pt rel
    by (intro that [of s1 s2 "{t, stack, sid_ptr, pstruct} \<union> L1" sid_ptr]) (auto simp: fun_eq_iff)
qed

section \<open>Properties\<close>

text \<open>
  C29. \<open>create_thread\<close> makes a thread that can run: with a free slot and room for its four blocks it
  returns a fresh tid; the structure, the stack, the semaphore cell and the pipe structure are
  four blocks of the heap that nobody else holds, the stack has its 4096 bytes; the structure is in
  the first free slot, RUNNABLE, with the creator as parent; and the first switch to its saved
  stack pointer enters \<open>thread_exec\<close> with the structure as argument and an empty stack. Other
  threads are untouched.
\<close>

theorem create_thread_ready:
  assumes "threads_ok s L (270 + k)" "find_up THREAD_NUM (slot_dead s) 0 = Some i"
  shows "\<exists>s' t x. create_thread te func argc argv s = Inr (tid_global s, s') \<and>
    t = threads s' ! i \<and> x = thr_mem s' t \<and> threads s' = (threads s)[i := t] \<and> live s' = (live s)(i := True) \<and>
    distinct [t, t_stack x, t_sid_ptr x, t_pstruct x] \<and> {t, t_stack x, t_sid_ptr x, t_pstruct x} \<inter> L = {} \<and>
    threads_ok s' ({t, t_stack x, t_sid_ptr x, t_pstruct x} \<union> L) k \<and>
    {unat (t_stack x)..<unat (t_stack x) + 4096} \<subseteq> kh_extent s' (t_stack x) \<and>
    t_state x = RUNNABLE \<and> t_tid x = tid_global s \<and> tid_global s' = tid_global s + 1 \<and>
    t_ptid x = tid_index_dict s ! nat (cur_thread_index s) \<and>
    load_context (t_rsp x) s' =
      s'\<lparr>regs := (\<lambda>_. 0)(RDI := t), sp := t_stack_btm x, pc := te, int_flag := True\<rparr> \<and>
    (\<forall>p. p \<noteq> t \<longrightarrow> thr_mem s' p = thr_mem s p)"
proof -
  have len: "i < length (threads s)"
    using assms find_up_Some [OF assms(2)] by (simp add: threads_ok_def table_ok_def)
  show ?thesis
  proof (rule create_thread_spec [OF assms, where te = te and func = func and argc = argc and argv = argv])
    fix t stack sid_ptr pstruct s'
    assume c: "create_thread te func argc argv s = Inr (tid_global s, s')"
      "threads_ok s' ({t, stack, sid_ptr, pstruct} \<union> L) k" "live s' = (live s)(i := True)"
      "threads s' = (threads s)[i := t]" "distinct [t, stack, sid_ptr, pstruct]"
      "{t, stack, sid_ptr, pstruct} \<inter> L = {}"
      "thr_mem s' = (thr_mem s)(t := filled i t RUNNABLE
       (s\<lparr>thr_mem := (thr_mem s)(t := newborn te stack sid_ptr pstruct func argc argv (thr_mem s t))\<rparr>))"
      "frame_at (stk s') (stack + STACK_LENGTH - 128) ((\<lambda>_. 0)(RDI := t)) te"
      "{unat stack..<unat stack + 4096} \<subseteq> kh_extent s' stack" "tid_global s' = tid_global s + 1"
    have x: "t_stack (thr_mem s' t) = stack" "t_sid_ptr (thr_mem s' t) = sid_ptr" "t_pstruct (thr_mem s' t) = pstruct"
      "t_rsp (thr_mem s' t) = stack + STACK_LENGTH - 128" "t_stack_btm (thr_mem s' t) = stack + STACK_LENGTH"
      "t_state (thr_mem s' t) = RUNNABLE" "t_tid (thr_mem s' t) = tid_global s"
      "t_ptid (thr_mem s' t) = tid_index_dict s ! nat (cur_thread_index s)"
      by (simp_all add: c(7) filled_def newborn_def)
    have others: "\<forall>p. p \<noteq> t \<longrightarrow> thr_mem s' p = thr_mem s p" by (simp add: c(7))
    show ?thesis
      by (intro exI [of _ s'] exI [of _ t] exI [of _ "thr_mem s' t"])
        (use c(1-6,9,10) len load_context_frame [OF c(8)] others in \<open>simp add: x\<close>)
  qed
qed

theorem create_thread_ready_witness:
  "\<exists>s'. create_thread 0x100400 0x100500 0 0 boot_sys = Inr (0, s') \<and> live s' 0 \<and>
    pc (load_context (t_rsp (thr_mem s' (threads s' ! 0))) s') = 0x100400"
proof -
  have "threads_ok boot_sys {} (270 + 261874)" using boot_ok by simp
  from create_thread_ready [OF this boot_slot, of "0x100400" "0x100500" 0 0]
  obtain s' where "create_thread 0x100400 0x100500 0 0 boot_sys = Inr (tid_global boot_sys, s')" "live s' = (live boot_sys)(0 := True)"
    "load_context (t_rsp (thr_mem s' (threads s' ! 0))) s' = s'\<lparr>regs := (\<lambda>_. 0)(RDI := threads s' ! 0),
      sp := t_stack_btm (thr_mem s' (threads s' ! 0)), pc := 0x100400, int_flag := True\<rparr>"
    by blast
  then show ?thesis by (intro exI [of _ s']) (simp add: boot_fields)
qed



text \<open>
  A thread whose parent is not in the table cannot end: \<open>thread_end\<close> looks the parent up, gets the
  index -1 and reads \<open>threads[-1]\<close>. So it is for the first thread, whose parent tid is -1, and for
  every thread whose parent has ended before it.
\<close>

theorem thread_end_orphan:
  assumes "table_ok s" "live s i"
    and "\<forall>k<THREAD_NUM. tid_index_dict s ! k \<noteq> t_ptid (thr_mem s (threads s ! i))"
  shows "thread_end (threads s ! i) s = Inl Out_of_bounds"
proof -
  have "get_thread_ptr (t_ptid (thr_mem s (threads s ! i))) (s\<lparr>threads := ths\<rparr>) = Inl Out_of_bounds" for ths
    using assms(3) by (intro get_thread_ptr_missing) simp
  moreover have "array_set (threads s) (t_index (thr_mem s (threads s ! i))) (empty_at s) =
      Inr ((threads s)[i := empty_at s])"
    using table_ok_live(1,6) [OF assms(1,2)] table_okD(1) [OF assms(1)] by simp
  ultimately show ?thesis by (simp add: thread_end_def Let_def)
qed

theorem thread_end_orphan_witness:
  "\<exists>s1. create_thread 0x100400 0x100500 0 0 boot_sys = Inr (0, s1) \<and>
    thread_end (threads s1 ! 0) s1 = Inl Out_of_bounds"
proof -
  obtain s1 L1 where b: "create_thread 0x100400 0x100500 0 0 boot_sys = Inr (0, s1)" "live s1 = (\<lambda>i. i = 0)"
    "t_ptid (thr_mem s1 (threads s1 ! 0)) = - 1" "tid_index_dict s1 = replicate 40 0" "threads_ok s1 L1 (270 + 261604)"
    using boot_first by metis
  have "thread_end (threads s1 ! 0) s1 = Inl Out_of_bounds"
    using b by (intro thread_end_orphan) (simp_all add: threads_ok_def THREAD_NUM_def)
  with b(1) show ?thesis by blast
qed

text \<open>
  \<open>create_thread\<close> does not notice that the heap is exhausted: it returns a tid as if nothing had
  happened, with a null pointer as the thread structure in the table, RUNNABLE, and a null pointer
  as its stack, whose first frame has been written below address 0x1000.
\<close>

theorem create_thread_no_memory:
  assumes "table_ok s" "heap_ok s bs" "\<forall>b\<in>set bs. unat (sz s b) < 9"
    and "find_up THREAD_NUM (slot_dead s) 0 = Some i" "0 \<notin> set (threads s)" "empty_at s \<noteq> 0"
  shows "\<exists>s'. create_thread te func argc argv s = Inr (tid_global s, s') \<and> threads s' ! i = 0 \<and> live s' i \<and>
    t_state (thr_mem s' 0) = RUNNABLE \<and> t_stack (thr_mem s' 0) = 0 \<and> t_rsp (thr_mem s' 0) = 0x1000 - 128"
proof -
  have ok: "heap_ok (io_cli s) bs" using assms(2) heap_has_cong(4) [of "io_cli s" s] by simp
  have 1: "kmalloc 128 (io_cli s) = Some (0, io_cli s)"
    using assms(3) by (intro kmalloc_none [OF ok requests(3)]) (simp add: requests)
  have "\<forall>b\<in>set bs. unat (sz s b) < 257" using assms(3) by (meson less_trans numeral_less_iff semiring_norm)
  then have small: "\<forall>b\<in>set bs. unat (sz (io_cli s) b) < 257" by simp
  obtain sid_ptr pstruct s2 where 2: "thread_gen2 te 0 func argc argv (io_cli s) = Inr s2" "same_table (io_cli s) s2"
    "thr_mem s2 = (thr_mem (io_cli s))(0 := newborn te 0 sid_ptr pstruct func argc argv (thr_mem (io_cli s) 0))"
    by (rule thread_gen2_no_stack [OF ok small])
  have st: "same_table s s2" using 2(2) by (simp add: same_table_def)
  have mem: "thr_mem s2 = (thr_mem s)(0 := newborn te 0 sid_ptr pstruct func argc argv (thr_mem s 0))"
    using 2(3) by simp
  note tab = same_table_ok [OF st mem assms(5) assms(6) [symmetric] table_okD(1) [OF assms(1)]]
  have i2: "find_up THREAD_NUM (slot_dead s2) 0 = Some i"
    using find_up_cong [of THREAD_NUM "slot_dead s2" "slot_dead s"] tab(3) assms(4) by simp
  have "table_ok s2" "0 \<noteq> empty_at s2" "0 \<notin> set (threads s2)" using tab(1) assms st by (auto simp: same_table_def)
  from thread_run_spec [OF this(1) i2 this(2,3)]
  obtain s3 where 3: "thread_run 0 s2 = Inr s3" "live s3 = (live s2)(i := True)"
    "threads s3 = (threads s2)[i := 0]" "thr_mem s3 = (thr_mem s2)(0 := filled i 0 RUNNABLE s2)" by metis
  have "i < length (threads s)" using find_up_Some [OF assms(4)] table_okD(1) [OF assms(1)] by simp
  then have "threads s3 ! i = 0" using 3(3) st by (simp add: same_table_def)
  moreover have "live s3 i" using 3(2) by simp
  moreover have "thr_mem s3 0 = filled i 0 RUNNABLE s2" using 3(4) by simp
  moreover have "t_stack (thr_mem s2 0) = 0" "t_rsp (thr_mem s2 0) = 0x1000 - 128" "tid_global s2 = tid_global s"
    using mem st by (simp_all add: newborn_def STACK_LENGTH_def same_table_def)
  moreover have "create_thread te func argc argv s = Inr (t_tid (thr_mem s3 0), io_sti s3)"
    using 1 2(1) 3(1) by (simp add: create_thread_def)
  ultimately show ?thesis by (intro exI [of _ "io_sti s3"]) (simp add: filled_def)
qed

theorem create_thread_no_memory_witness:
  "\<exists>s'. create_thread 0x100400 0x100500 0 0 (set_size 0x101000 4 boot_sys) = Inr (0, s') \<and> threads s' ! 0 = 0"
proof -
  let ?s = "set_size 0x101000 4 boot_sys"
  obtain bs where bs: "heap_ok boot_sys bs" "kh_owned boot_sys (free_bytes boot_sys bs) {} (heap_region boot_sys)"
    using boot_ok heap_hasE [of boot_sys "{}" "0x40000"] by (metis threads_ok_def)
  have bs1: "bs = [0x101000]"
    using whole_region_free(1) [OF bs(1)] bs(2) by (simp add: owns_def boot_fields)
  have f: "threads ?s = threads boot_sys" "table_ok ?s = table_ok boot_sys" "slot_dead ?s = slot_dead boot_sys"
    "tid_global ?s = 0" "empty_at ?s = 0xff000"
    "sz ?s 0x101000 = 4"
    using table_ok_cong [of ?s boot_sys] by (simp_all add: set_size_def slot_dead_def fun_eq_iff boot_fields)
  have "heap_ok ?s [0x101000]"
    using bs(1) unfolding bs1
    by (auto simp: heap_ok_def set_size_def placed_def blk_ok_def blk_end_def heap_lo_def heap_hi_def boot_fields)
  then have "\<exists>s'. create_thread 0x100400 0x100500 0 0 ?s = Inr (tid_global ?s, s') \<and> threads s' ! 0 = 0 \<and> live s' 0 \<and>
    t_state (thr_mem s' 0) = RUNNABLE \<and> t_stack (thr_mem s' 0) = 0 \<and> t_rsp (thr_mem s' 0) = 0x1000 - 128"
    using boot_ok boot_slot
    by (intro create_thread_no_memory [of ?s "[0x101000]"]) (simp_all add: f boot_fields(1) threads_ok_def)
  then show ?thesis by (auto simp: f)
qed

end
