(* ===== verification/Fork.thy ===== *)
theory Fork
  imports Thread_Life
begin

text \<open>
  What \<open>fork_thread\<close> does (its model is in Thread_Life): the copy of the stack, the two frames
  \<open>switch_fork\<close> leaves, the child in the table, and the answers of the two returns.
\<close>

section \<open>Steps that only print\<close>

definition only_prints :: "'z sys_scheme \<Rightarrow> 'z sys_scheme \<Rightarrow> bool" where
  "only_prints s s' \<longleftrightarrow> (\<exists>p f. s' = s\<lparr>port_out := p, int_flag := f\<rparr>)"

lemma only_prints_refl: "only_prints s s"
  unfolding only_prints_def by (rule exI [of _ "port_out s"], rule exI [of _ "int_flag s"]) simp

lemma only_prints_say: "only_prints s u \<Longrightarrow> only_prints s (say m u)" "only_prints s u \<Longrightarrow> only_prints s (say_num m n u)"
    "only_prints s u \<Longrightarrow> only_prints s (say_bytes xs u)"
  by (clarsimp simp: only_prints_def say_upd say_num_upd say_bytes_def sent_def io_sti_def;
      rule exI, rule exI, rule refl)+

lemma only_prints_ctids: "only_prints s u \<Longrightarrow> only_prints s (put_ctids cs u)"
  by (induction cs arbitrary: u) (auto simp: Let_def intro: only_prints_say)

lemma put_thread_info_only: "only_prints s (put_thread_info t s)"
  unfolding put_thread_info_def Let_def
  by (intro only_prints_say only_prints_ctids only_prints_refl)

lemma only_prints_fields:
  assumes "only_prints s s'"
  shows "thr_mem s' = thr_mem s" "threads s' = threads s" "tid_index_dict s' = tid_index_dict s"
    "tid_global s' = tid_global s" "cur_thread_index s' = cur_thread_index s" "empty_at s' = empty_at s"
    "semtable s' = semtable s" "sid_mem s' = sid_mem s" "pipe_mem s' = pipe_mem s" "stk s' = stk s"
    "sp s' = sp s" "regs s' = regs s" "hdr s' = hdr s" "base_at s' = base_at s" "kheap s' = kheap s"
    "freep s' = freep s"
  using assms by (auto simp: only_prints_def)

section \<open>The new structure\<close>

text \<open>The fields \<open>thread_gen_for_fork\<close> sets; the semaphore cell and the pipe are the parent's.\<close>

definition forked :: "u64 \<Rightarrow> u64 \<Rightarrow> thread \<Rightarrow> thread \<Rightarrow> thread" where
  "forked te stack y x =
     x\<lparr>t_stack := stack, t_stack_btm := stack + STACK_LENGTH, t_rsp := stack + STACK_LENGTH, t_rip := te,
       t_func := t_func y, t_argc := t_argc y, t_argv := t_argv y, t_sid_ptr := t_sid_ptr y,
       t_pstruct := t_pstruct y, t_ctid := array_fill NTHREAD_CHILD (- 1) (t_ctid x)\<rparr>"

lemma thread_gen_for_fork_eq:
  "newt \<noteq> curt \<Longrightarrow> thread_gen_for_fork te newt curt stack s =
     s\<lparr>thr_mem := (thr_mem s)(newt := forked te stack (thr_mem s curt) (thr_mem s newt))\<rparr>"
  by (simp add: thread_gen_for_fork_def upd_thread_def forked_def Let_def)

section \<open>The copy of the stack\<close>

lemma copy_stack_only: "copy_stack_upto new cur n s = s\<lparr>stk := stk (copy_stack_upto new cur n s)\<rparr>"
proof (induction n)
  case 0
  show ?case by simp
next
  case (Suc n)
  obtain m where "copy_stack_upto new cur n s = s\<lparr>stk := m\<rparr>" using Suc by blast
  then show ?case by (simp add: store_def Let_def fun_upd_def)
qed

lemma copy_stack_fields:
  "thr_mem (copy_stack_upto new cur n s) = thr_mem s" "threads (copy_stack_upto new cur n s) = threads s"
  "sp (copy_stack_upto new cur n s) = sp s" "regs (copy_stack_upto new cur n s) = regs s"
  by (subst copy_stack_only; simp)+

lemma word_slot_eq:
  fixes a :: u64
  assumes "i < 2 ^ 60" "j < 2 ^ 60"
  shows "a + 8 * of_nat i = a + 8 * of_nat j \<longleftrightarrow> i = j"
proof -
  have "unat (8 * of_nat i :: u64) = 8 * i" "unat (8 * of_nat j :: u64) = 8 * j"
    using assms by (simp_all add: unat_word_ariths unat_of_nat take_bit_nat_eq_self)
  then show ?thesis by (metis add_left_cancel mult_left_cancel zero_neq_numeral)
qed

lemma copy_stack_run:
  assumes apart: "\<forall>i<512. \<forall>j<512. t_stack (thr_mem s new) + 8 * of_nat i \<noteq> t_stack (thr_mem s cur) + 8 * of_nat j"
  shows "n \<le> 512 \<Longrightarrow> (\<forall>i<n. stk (copy_stack_upto new cur n s) (t_stack (thr_mem s new) + 8 * of_nat i) =
      stk s (t_stack (thr_mem s cur) + 8 * of_nat i)) \<and>
    (\<forall>a. (\<forall>i<n. a \<noteq> t_stack (thr_mem s new) + 8 * of_nat i) \<longrightarrow> stk (copy_stack_upto new cur n s) a = stk s a)"
proof (induction n)
  case 0
  show ?case by simp
next
  case (Suc n)
  let ?u = "copy_stack_upto new cur n s" and ?n = "t_stack (thr_mem s new)" and ?c = "t_stack (thr_mem s cur)"
  have IH: "\<forall>i<n. stk ?u (?n + 8 * of_nat i) = stk s (?c + 8 * of_nat i)"
    "\<forall>a. (\<forall>i<n. a \<noteq> ?n + 8 * of_nat i) \<longrightarrow> stk ?u a = stk s a" using Suc by simp_all
  have "\<forall>i<n. ?c + 8 * of_nat n \<noteq> ?n + 8 * of_nat i"
  proof (intro allI impI)
    fix i assume "i < n"
    then have "?n + 8 * of_nat i \<noteq> ?c + 8 * of_nat n" using apart Suc.prems by simp
    then show "?c + 8 * of_nat n \<noteq> ?n + 8 * of_nat i" by (rule not_sym)
  qed
  then have src: "stk ?u (?c + 8 * of_nat n) = stk s (?c + 8 * of_nat n)" using IH(2) by blast
  have eq: "stk (copy_stack_upto new cur (Suc n) s) = (stk ?u)(?n + 8 * of_nat n := stk s (?c + 8 * of_nat n))"
    using src by (simp add: store_def Let_def copy_stack_fields)
  have "?n + 8 * of_nat i \<noteq> ?n + 8 * of_nat n" if "i < n" for i
    using that Suc.prems by (subst word_slot_eq) auto
  with IH show ?case unfolding eq by (auto simp: less_Suc_eq)
qed

section \<open>The switch\<close>

lemma fork_regs_only: "\<exists>p m. fork_regs k rs s = s\<lparr>sp := p, stk := m\<rparr>"
proof (induction rs arbitrary: k s)
  case Nil
  show ?case by (rule exI [of _ "sp s"], rule exI [of _ "stk s"]) simp
next
  case (Cons r rs)
  obtain p m where "fork_regs (Suc k) rs (fork_reg (8 * of_nat k) r s) = (fork_reg (8 * of_nat k) r s)\<lparr>sp := p, stk := m\<rparr>"
    using Cons.IH by blast
  then show ?case by (simp add: fork_reg_def store_def push_reg_def push_def) blast
qed

lemma fork_save_eq:
  "fork_save u = u\<lparr>int_flag := False, regs := fork_image u, sp := sp u - 120, stk := stk (fork_save u)\<rparr>"
proof -
  obtain p m where pm: "fork_save u = (fork_setup u)\<lparr>sp := p, stk := m\<rparr>"
    unfolding fork_save_regs using fork_regs_only by blast
  moreover have "length fork_order = 16" by (simp add: fork_order_def)
  then have "sp (fork_save u) = sp u - 120"
    by (simp add: fork_save_regs fork_regs_fields fork_setup_def)
  ultimately show ?thesis by (simp add: fork_setup_def)
qed

lemma fork_save_other:
  assumes "\<forall>j<16. a \<noteq> sp u + 8 - 8 * of_nat (Suc j) \<and> a \<noteq> fork_image u RSI - 8 * of_nat j"
  shows "stk (fork_save u) a = stk u a"
proof -
  have "stk (fork_regs 0 fork_order (fork_setup u)) a = stk (fork_setup u) a"
    using assms by (intro fork_regs_other) (simp add: fork_setup_def fork_order_def)
  then show ?thesis by (simp add: fork_save_regs fork_setup_def)
qed

lemma fork_switch:
  fixes w :: "'z sys_scheme" and nb cb d ra cur :: u64
  assumes far: "128 \<le> nb - cb" "128 \<le> - (nb - cb)"
  defines "u \<equiv> call_from ra (set_reg RDX cb (set_reg RSI nb (set_reg RDI d w)))"
  defines "v \<equiv> fork_load (upd_thread cur (\<lambda>x. x\<lparr>t_rsp := sp (fork_save u)\<rparr>) (fork_save u))"
  shows "v = w\<lparr>int_flag := True, regs := regs v, sp := nb - (cb - sp w), pc := ra, stk := stk v,
      thr_mem := (thr_mem w)(cur := (thr_mem w cur)\<lparr>t_rsp := sp w - 128\<rparr>)\<rparr>"
    "r \<notin> {RDI, RSI, RDX, RCX} \<Longrightarrow> regs v r = regs w r"
    "frame_at (stk v) (sp w - 128) (regs v) ra"
    "(\<forall>j<16. a \<noteq> sp w - 8 * of_nat (Suc j) \<and> a \<noteq> nb - (cb - sp w) - 8 * of_nat (Suc j)) \<Longrightarrow> stk v a = stk w a"
proof -
  have u: "sp u = sp w - 8" "stk u = (stk w)(sp w - 8 := ra)" "regs u RSI = nb" "regs u RDX = cb"
    "u = w\<lparr>sp := sp w - 8, stk := (stk w)(sp w - 8 := ra), regs := regs u\<rparr>"
    "r \<notin> {RDI, RSI, RDX, RCX} \<Longrightarrow> regs u r = regs w r" for r
    by (simp_all add: u_def call_from_def push_def set_reg_def)
  have img: "fork_image u RSI = nb - (cb - sp w) - 8" "stk u (sp u) = ra"
    "r \<notin> {RDI, RSI, RDX, RCX} \<Longrightarrow> fork_image u r = regs w r" for r
    using u by (simp_all add: fork_image_def)
  have far': "128 \<le> regs u RSI - regs u RDX" "128 \<le> - (regs u RSI - regs u RDX)" using far u by simp_all
  note fr = fork_save_frames [OF far', unfolded img(2)]
  let ?f = "fork_save u"
  define z where "z = set_reg RSI (fork_image u RSI - 120) (upd_thread cur (\<lambda>x. x\<lparr>t_rsp := sp ?f\<rparr>) ?f)"
  have zf: "stk z = stk ?f" by (simp add: z_def set_reg_def)
  have over: "u\<lparr>int_flag := False, regs := g, sp := p, stk := m\<rparr> = w\<lparr>int_flag := False, regs := g, sp := p, stk := m\<rparr>"
    for g p m by (simp add: u_def call_from_def push_def set_reg_def)
  obtain m where fm: "?f = w\<lparr>int_flag := False, regs := fork_image u, sp := sp w - 128, stk := m\<rparr>" and m: "m = stk ?f"
    using fork_save_eq [of u] over [where g = "fork_image u" and p = "sp u - 120" and m = "stk ?f"] u(1) by simp
  have rs: "regs ?f RSI = fork_image u RSI" by (simp add: fm)
  have v: "v = z\<lparr>regs := fork_image u, sp := fork_image u RSI - 120 + 128, pc := ra, int_flag := True\<rparr>"
    using load_context_frame [of z "fork_image u RSI - 120" "fork_image u" ra] fr(2) rs
    by (simp add: v_def fork_load_def zf z_def set_reg_def upd_thread_def)
  have spv: "fork_image u RSI - 120 + 128 = nb - (cb - sp w)" by (simp add: img(1))
  have z: "z = w\<lparr>int_flag := False, regs := regs z, sp := sp w - 128, stk := stk ?f,
      thr_mem := (thr_mem w)(cur := (thr_mem w cur)\<lparr>t_rsp := sp w - 128\<rparr>)\<rparr>"
    unfolding z_def m [symmetric] by (simp add: fm upd_thread_def set_reg_def)
  have stkv: "stk v = stk ?f" and regv: "regs v = fork_image u" using v zf by simp_all
  show "v = w\<lparr>int_flag := True, regs := regs v, sp := nb - (cb - sp w), pc := ra, stk := stk v,
      thr_mem := (thr_mem w)(cur := (thr_mem w cur)\<lparr>t_rsp := sp w - 128\<rparr>)\<rparr>"
    unfolding stkv regv by (subst v, subst z) (simp add: spv)
  show "regs v r = regs w r" if "r \<notin> {RDI, RSI, RDX, RCX}" using img(3) [OF that] regv by simp
  show "frame_at (stk v) (sp w - 128) (regs v) ra" using fr(1) by (simp add: stkv regv u(1))
  show "stk v a = stk w a"
    if a: "\<forall>j<16. a \<noteq> sp w - 8 * of_nat (Suc j) \<and> a \<noteq> nb - (cb - sp w) - 8 * of_nat (Suc j)"
  proof -
    have "a \<noteq> sp u + 8 - 8 * of_nat (Suc j) \<and> a \<noteq> fork_image u RSI - 8 * of_nat j" if "j < 16" for j
      using a [rule_format, OF that] by (simp add: u(1) img(1) algebra_simps)
    then have "stk ?f a = stk u a" by (intro fork_save_other) blast
    moreover have "a \<noteq> sp w - 8" using a [rule_format, of 0] by simp
    ultimately show ?thesis by (simp add: stkv u(2))
  qed
qed

section \<open>fork_thread\<close>

text \<open>The children the parent then lists.\<close>

definition fork_ctids :: "int list \<Rightarrow> int \<Rightarrow> int list" where
  "fork_ctids cs tid =
     (case find_up NTHREAD_CHILD (\<lambda>i. cs ! i = - 1) 0 of Some m \<Rightarrow> cs[m := tid] | None \<Rightarrow> cs)"

lemma set_ctid_eq:
  fixes s :: "'z sys_scheme" and p :: u64 and c :: int
  assumes "0 \<le> c"
  shows "snd (set_ctid p c s) = s\<lparr>int_flag := True, thr_mem := (thr_mem s)(p := (thr_mem s p)\<lparr>t_ctid :=
    fork_ctids (t_ctid (thr_mem s p)) c\<rparr>)\<rparr>"
  using assms
  by (auto simp: set_ctid_def fork_ctids_def Let_def io_cli_def io_sti_def upd_thread_def split: option.splits)

lemma table_ok_cur: "table_ok s \<Longrightarrow> j < THREAD_NUM \<Longrightarrow> table_ok (s\<lparr>cur_thread_index := int j\<rparr>)"
  by (simp add: table_ok_def live_def)

lemma ranges_apart:
  fixes a b :: u64
  assumes "{unat a..<unat a + 4096} \<inter> {unat b..<unat b + 4096} = {}"
    and "lo \<le> unat a" "unat a + 4096 \<le> hi" "lo \<le> unat b" "unat b + 4096 \<le> hi" "hi < 2 ^ 64" "hi - lo \<le> 0x400000"
  shows "i < 512 \<Longrightarrow> j < 512 \<Longrightarrow> a + 8 * of_nat i \<noteq> b + 8 * of_nat j"
    "128 \<le> (a + d) - (b + d)" "128 \<le> - ((a + d) - (b + d))"
proof -
  have sep: "unat a + 4096 \<le> unat b \<or> unat b + 4096 \<le> unat a"
  proof (rule ccontr)
    assume "\<not> ?thesis"
    then have "max (unat a) (unat b) \<in> {unat a..<unat a + 4096} \<inter> {unat b..<unat b + 4096}" by auto
    with assms(1) show False by blast
  qed
  have slot: "unat (p + 8 * of_nat i) = unat p + 8 * i" if "i < 512" "unat p + 4096 \<le> hi" for p :: u64 and i
  proof -
    have "unat (8 * of_nat i :: u64) = 8 * i" using that(1)
      by (simp add: unat_word_ariths unat_of_nat take_bit_nat_eq_self)
    then show ?thesis using that assms(6) by (subst unat_add_no_wrap) simp_all
  qed
  show "a + 8 * of_nat i \<noteq> b + 8 * of_nat j" if "i < 512" "j < 512"
  proof
    assume "a + 8 * of_nat i = b + 8 * of_nat j"
    then have "unat a + 8 * i = unat b + 8 * j"
      using slot [OF that(1) assms(3)] slot [OF that(2) assms(5)] by simp
    with sep that show False by linarith
  qed
  have diff: "128 \<le> y - x" "128 \<le> - (y - x)" if "unat x + 4096 \<le> unat y" "unat y - unat x \<le> 0x400000" for x y :: u64
  proof -
    have u: "unat (y - x) = unat y - unat x" using that(1) by (simp add: unat_sub word_le_nat_alt)
    then show "128 \<le> y - x" using that by (simp add: word_le_nat_alt)
    show "128 \<le> - (y - x)"
    proof (rule ccontr)
      assume "\<not> 128 \<le> - (y - x)"
      then have "unat (- (y - x)) < 128" by (simp add: word_le_nat_alt)
      then have "unat ((y - x) + (- (y - x))) = unat (y - x) + unat (- (y - x))"
        using u that(2) by (intro unat_add_no_wrap) simp
      then show False using u that(1) by simp
    qed
  qed
  have e: "(a + d) - (b + d) = a - b" by simp
  show "128 \<le> (a + d) - (b + d)" "128 \<le> - ((a + d) - (b + d))"
    unfolding e using sep diff [of a b] diff [of b a] assms by auto
qed

text \<open>The structure of the child.\<close>

definition fork_child :: "u64 \<Rightarrow> u64 \<Rightarrow> nat \<Rightarrow> thread \<Rightarrow> thread \<Rightarrow> 'z sys_scheme \<Rightarrow> thread" where
  "fork_child te ns i y x s = (forked te ns y x)\<lparr>t_index := int i,
     t_ptid := tid_index_dict s ! nat (cur_thread_index s), t_tid := tid_global s, t_state := RUNNABLE\<rparr>"

text \<open>Everything up to the switch: the child is entered in the table, made current, and has its copy.\<close>

lemma fork_prepared:
  fixes s :: "'z sys_scheme"
  assumes ok: "threads_ok s L (266 + k)" and c: "live s c" "cur_thread_index s = int c"
    and i: "find_up THREAD_NUM (slot_dead s) 0 = Some i"
  defines "cur \<equiv> threads s ! c"
  obtains ns new w where "fork_thread te ra s = Inr
      (let w' = copy_stack_upto new cur 512 w;
           u = call_from ra (set_reg RDX (t_stack_btm (thr_mem w cur)) (set_reg RSI (t_stack_btm (thr_mem w new)) (set_reg RDI (cur + 16) w')))
       in fork_load (upd_thread cur (\<lambda>x. x\<lparr>t_rsp := sp (fork_save u)\<rparr>) (fork_save u)), int i)"
    "threads_ok w ({new, ns} \<union> L) k" "live w = (live s)(i := True)" "threads w = (threads s)[i := new]"
    "cur_thread_index w = int i" "{new, ns} \<inter> L = {}" "new \<noteq> ns" "new \<noteq> cur"
    "\<forall>q\<in>L. {unat ns..<unat ns + 4096} \<inter> kh_extent s q = {}" "{unat ns..<unat ns + 4096} \<subseteq> heap_region s"
    "thr_mem w = (thr_mem s)(new := fork_child te ns i (thr_mem s cur) (thr_mem s new) s,
      cur := (thr_mem s cur)\<lparr>t_ctid := fork_ctids (t_ctid (thr_mem s cur)) (tid_global s)\<rparr>)"
    "tid_index_dict w = (tid_index_dict s)[i := tid_global s]" "tid_global w = tid_global s + 1"
    "empty_at w = empty_at s" "sp w = sp s" "regs w = regs s" "stk w = stk s"
proof -
  have tab: "table_ok s" using ok by (simp add: threads_ok_def)
  have "heap_has s L (units (uint STACK_LENGTH) + (9 + k))" using ok by (simp add: requests threads_ok_def)
  then obtain ns s1 where 1: "kmalloc (uint STACK_LENGTH) s = Some (ns, s1)" "ns \<notin> L" "heap_has s1 (insert ns L) (9 + k)"
    "heap_step s s1" "{unat ns..<unat ns + nat (uint STACK_LENGTH)} \<subseteq> kh_extent s1 ns" "kh_extent s1 ns \<subseteq> heap_region s"
    "\<forall>q\<in>L. kh_extent s1 ns \<inter> kh_extent s q = {}"
    using kmalloc_has [OF _ requests(5)] by metis
  have range: "{unat ns..<unat ns + 4096} \<subseteq> kh_extent s1 ns" using 1(5) by (simp add: STACK_LENGTH_def)
  have "heap_has s1 (insert ns L) (units 128 + k)" using 1(3) by (simp add: requests)
  then obtain new s2 where 2: "kmalloc 128 s1 = Some (new, s2)" "new \<notin> insert ns L"
    "heap_has s2 (insert new (insert ns L)) k" "heap_step s1 s2"
    using kmalloc_has [OF _ requests(3)] by metis
  note h = heap_step_sys [OF 1(4)] heap_step_sys [OF 2(4)]
  have reg: "heap_lo s2 = heap_lo s" "heap_hi s2 = heap_hi s"
    using heap_step_region [OF 1(4)] heap_step_region [OF 2(4)] by simp_all
  have "cur \<in> set (threads s)" using c(1) table_okD(1) [OF tab] by (simp add: live_def cur_def)
  then have curL: "cur \<in> L" using ok c(1) by (auto simp: threads_ok_def live_def cur_def)
  have "heap_lo s \<le> unat new"
    using heap_has_ptr(1) [OF 2(3), of new] reg by (auto simp: heap_lo_def heap_hi_def)
  then have "new \<noteq> empty_at s" using ok by (auto simp: threads_ok_def)
  then have new: "new \<notin> set (threads s)" "new \<noteq> empty_at s" "new \<noteq> cur"
    using ok 2(2) curL by (auto simp: threads_ok_def)
  define s3 where "s3 = io_sti s2"
  have t3: "table_ok s3" "live s3 = live s" "threads s3 = threads s" "tid_index_dict s3 = tid_index_dict s"
    using tab table_ok_cong [of s3 s] h by (simp_all add: s3_def)
  have 3: "get_cur_thread_tid s2 = Inr (tid_index_dict s ! c, s3)"
    using get_cur_thread_tid_ok [of s2] t3(1) h c(2) by (simp add: s3_def)
  have 4: "get_thread_ptr (tid_index_dict s ! c) s3 = Inr (cur, s3)"
    using get_thread_ptr_live [OF t3(1), of c] t3(2-4) c(1) by (simp add: cur_def)
  define s4 where "s4 = put_thread_info cur s3"
  note p4 = only_prints_fields [OF put_thread_info_only [of s3 cur], folded s4_def]
  define s5 where "s5 = thread_gen_for_fork te new cur ns s4"
  have e5: "s5 = s4\<lparr>thr_mem := (thr_mem s)(new := forked te ns (thr_mem s cur) (thr_mem s new))\<rparr>"
    using p4(1) h(4,21) by (simp add: s5_def s3_def thread_gen_for_fork_eq [OF new(3)])
  have st: "same_table s s5" using p4 h by (simp add: same_table_def e5 s3_def)
  have m5: "thr_mem s5 = (thr_mem s)(new := forked te ns (thr_mem s cur) (thr_mem s new))" by (simp add: e5)
  note tab5 = same_table_ok [OF st m5 new(1,2) table_okD(1) [OF tab]]
  have i5: "find_up THREAD_NUM (slot_dead s5) 0 = Some i"
    using find_up_cong [of THREAD_NUM "slot_dead s5" "slot_dead s"] tab5(3) i by simp
  have n5: "new \<noteq> empty_at s5" "new \<notin> set (threads s5)" using st new by (simp_all add: same_table_def)
  obtain s6 where 6: "thread_register new s5 = Inr (int i, s6)" "table_ok s6" "live s6 = (live s5)(i := True)"
    "threads s6 = (threads s5)[i := new]" "thr_mem s6 = (thr_mem s5)(new := filled i new SLEEP s5)"
    "tid_index_dict s6 = (tid_index_dict s5)[i := tid_global s5]" "tid_global s6 = tid_global s5 + 1"
    "cur_thread_index s6 = cur_thread_index s5"
    using thread_register_spec [OF _ i5 n5] tab5(1) tab by metis
  note h6 = thread_register_heap [OF 6(1)]
  have tid6: "t_tid (thr_mem s6 new) = tid_global s" using 6(5) st by (simp add: filled_def same_table_def)
  have cur6: "thr_mem s6 cur = thr_mem s cur" using 6(5) m5 new(3) by simp
  define s7 where "s7 = snd (set_ctid cur (tid_global s) s6)"
  have e7: "s7 = s6\<lparr>int_flag := True, thr_mem := (thr_mem s6)(cur := (thr_mem s cur)\<lparr>t_ctid :=
      fork_ctids (t_ctid (thr_mem s cur)) (tid_global s)\<rparr>)\<rparr>"
    using set_ctid_eq [of "tid_global s" cur s6] table_okD(5) [OF tab] by (simp add: s7_def cur6)
  define w where "w = (upd_thread new (\<lambda>x. x\<lparr>t_state := RUNNABLE\<rparr>) (io_cli s7))\<lparr>cur_thread_index := int i\<rparr>"
  have mem: "thr_mem w = (thr_mem s)(new := fork_child te ns i (thr_mem s cur) (thr_mem s new) s,
      cur := (thr_mem s cur)\<lparr>t_ctid := fork_ctids (t_ctid (thr_mem s cur)) (tid_global s)\<rparr>)"
    using new(3) 6(5) m5 st
    by (auto simp: w_def e7 fork_child_def filled_def same_table_def fun_eq_iff intro!: thread.equality)
  have eq: "fork_thread te ra s = Inr
      (let w' = copy_stack_upto new cur 512 w;
           u = call_from ra (set_reg RDX (t_stack_btm (thr_mem w cur)) (set_reg RSI (t_stack_btm (thr_mem w new)) (set_reg RDI (cur + 16) w')))
       in fork_load (upd_thread cur (\<lambda>x. x\<lparr>t_rsp := sp (fork_save u)\<rparr>) (fork_save u)), int i)"
  proof -
    have len: "unat STACK_LENGTH div 8 = 512" by (simp add: STACK_LENGTH_def)
    have r: "regs s7 = regs w" "t_stack_btm (thr_mem s7 new) = t_stack_btm (thr_mem w new)"
      "t_stack_btm (thr_mem s7 cur) = t_stack_btm (thr_mem w cur)"
      using new(3) by (simp_all add: w_def)
    show ?thesis
      using 1(1) 2(1) 3 4 6(1) tid6
      by (simp add: fork_thread_def Let_def len r new(3) [symmetric] set_reg_def copy_stack_fields
          flip: s4_def s5_def s7_def w_def)
  qed
  have part: "hdr w = hdr s2" "base_at w = base_at s2" "kheap w = kheap s2" "freep w = freep s2"
    using h6 p4 by (simp_all add: w_def e7 e5 s3_def)
  note cw = heap_has_cong [OF part]
  have ths: "threads w = (threads s)[i := new]" "empty_at w = empty_at s" "cur_thread_index w = int i"
    "tid_index_dict w = (tid_index_dict s)[i := tid_global s]" "tid_global w = tid_global s + 1"
    using 6 st h6 by (simp_all add: w_def e7 same_table_def)
  have tabw: "table_ok w" "live w = (live s)(i := True)"
  proof -
    have 7: "table_ok s7" "live s7 = live s6" unfolding s7_def using set_ctid_table [OF 6(2)] by blast+
    have dead: "t_state (thr_mem (io_cli s7) new) \<noteq> DEAD"
      using new(3) 6(5) by (simp add: e7 filled_def)
    have u: "table_ok (upd_thread new (\<lambda>x. x\<lparr>t_state := RUNNABLE\<rparr>) (io_cli s7))"
      "live (upd_thread new (\<lambda>x. x\<lparr>t_state := RUNNABLE\<rparr>) (io_cli s7)) = live s7"
      using table_ok_upd [of "io_cli s7" "\<lambda>x. x\<lparr>t_state := RUNNABLE\<rparr>" new] 7(1) dead by simp_all
    have "i < THREAD_NUM" using find_up_Some [OF i] by simp
    from table_ok_cur [OF u(1) this] show "table_ok w" by (simp add: w_def)
    have "live w = live s7" using u(2) by (simp add: w_def live_def fun_eq_iff)
    then show "live w = (live s)(i := True)" using 7(2) 6(3) tab5(2) by simp
  qed
  have sub: "set (threads w) \<subseteq> insert (empty_at w) ({new, ns} \<union> L)"
    using set_update_subset_insert [of "threads s" i new] ok ths by (auto simp: threads_ok_def)
  have lo: "unat (empty_at w) < heap_lo w"
    using ok ths(2) part(3) reg(1) by (simp add: threads_ok_def heap_lo_def)
  show thesis
  proof (rule that [OF eq])
    show "threads_ok w ({new, ns} \<union> L) k"
      using tabw(1) 2(3) cw(1) sub lo by (simp add: threads_ok_def insert_commute)
    show "\<forall>q\<in>L. {unat ns..<unat ns + 4096} \<inter> kh_extent s q = {}" using range 1(7) by blast
    show "{unat ns..<unat ns + 4096} \<subseteq> heap_region s" using range 1(6) by blast
    show "{new, ns} \<inter> L = {}" "new \<noteq> ns" using 1(2) 2(2) by auto
    show "sp w = sp s" "regs w = regs s" "stk w = stk s"
      using h6 p4 h by (simp_all add: w_def e7 e5 s3_def)
  qed (use ths mem tabw new in simp_all)
qed

section \<open>The two answers\<close>

lemma find_ctid_below_none: "(\<forall>j<n. cs ! j = - 1) \<Longrightarrow> find_ctid_below cs n = - 1"
  by (induction n) auto

lemma find_ctid_below_last:
  "m < n \<Longrightarrow> cs ! m \<noteq> - 1 \<Longrightarrow> \<forall>j. m < j \<and> j < n \<longrightarrow> cs ! j = - 1 \<Longrightarrow> find_ctid_below cs n = cs ! m"
proof (induction n)
  case 0
  then show ?case by simp
next
  case (Suc n)
  then show ?case by (cases "m = n") auto
qed

lemma fork_return_eq:
  assumes "table_ok s" "live s c" "cur_thread_index s = int c"
  shows "\<exists>u. fork_return idx ct s = Inr (find_ctid (threads s ! c) s, u)"
proof -
  let ?s = "io_cli (io_sti s)"
  have tab: "table_ok ?s" "live ?s c" using assms by simp_all
  have "get_cur_thread_tid ?s = Inr (tid_index_dict s ! c, io_sti s)"
    using get_cur_thread_tid_ok [OF tab(1)] assms(3) by simp
  moreover have "get_thread_ptr (tid_index_dict s ! c) (io_sti s) = Inr (threads s ! c, io_sti s)"
    using get_thread_ptr_live [of "io_sti s" c] assms by simp
  moreover have "find_ctid t (say_num m n u) = find_ctid t u" "find_ctid t (io_sti u) = find_ctid t u"
    for t m n and u :: "'a sys_scheme"
    by (simp_all add: find_ctid_def)
  ultimately show ?thesis by (simp add: fork_return_def Let_def)
qed

section \<open>Properties\<close>

lemma fork_far:
  assumes heap: "heap_has s L k" and cs: "cs \<in> L" "{unat cs..<unat cs + 4096} \<subseteq> kh_extent s cs"
    and ns: "\<forall>q\<in>L. {unat ns..<unat ns + 4096} \<inter> kh_extent s q = {}" "{unat ns..<unat ns + 4096} \<subseteq> heap_region s"
  shows "i < 512 \<Longrightarrow> j < 512 \<Longrightarrow> ns + 8 * of_nat i \<noteq> cs + 8 * of_nat j"
    "128 \<le> (ns + d) - (cs + d)" "128 \<le> - ((ns + d) - (cs + d))"
proof -
  obtain bs where bs: "heap_ok s bs" "kh_owned s (free_bytes s bs) L (heap_region s)" using heap_hasE [OF heap] .
  have placed: "heap_hi s < 2 ^ 64" "heap_hi s - heap_lo s \<le> 0x400000"
    using heap_ok_placed [OF bs(1)] by (simp_all add: placed_def heap_hi_def heap_lo_def)
  have csreg: "{unat cs..<unat cs + 4096} \<subseteq> heap_region s" using kh_ownedD(3) [OF bs(2) cs(1)] cs(2) by blast
  have disj: "{unat ns..<unat ns + 4096} \<inter> {unat cs..<unat cs + 4096} = {}" using ns(1) cs by blast
  have bounds: "heap_lo s \<le> unat ns" "unat ns + 4096 \<le> heap_hi s" "heap_lo s \<le> unat cs" "unat cs + 4096 \<le> heap_hi s"
    using atLeastLessThan_subset_iff [OF ns(2)] atLeastLessThan_subset_iff [OF csreg] by simp_all
  note apart = ranges_apart [OF disj bounds placed]
  show "i < 512 \<Longrightarrow> j < 512 \<Longrightarrow> ns + 8 * of_nat i \<noteq> cs + 8 * of_nat j" by (rule apart(1))
  show "128 \<le> (ns + d) - (cs + d)" "128 \<le> - ((ns + d) - (cs + d))" by (rule apart(2,3))+
qed

text \<open>The switch stores 16 words below the two stack pointers; what is above them is the copy.\<close>

lemma fork_words:
  fixes ns cs :: u64
  assumes keep: "\<forall>p. (\<forall>q<16. p \<noteq> cs + 8 * of_nat m - 8 * of_nat (Suc q) \<and> p \<noteq> ns + 8 * of_nat m - 8 * of_nat (Suc q)) \<longrightarrow> f p = g p"
    and apart: "\<And>i j. i < 512 \<Longrightarrow> j < 512 \<Longrightarrow> ns + 8 * of_nat i \<noteq> cs + 8 * of_nat j"
    and m: "16 \<le> m" "m \<le> 512" "m \<le> j" "j < 512"
  shows "f (ns + 8 * of_nat j) = g (ns + 8 * of_nat j)" "f (cs + 8 * of_nat j) = g (cs + 8 * of_nat j)"
proof -
  have lower: "p + 8 * of_nat m - 8 * of_nat (Suc q) = p + 8 * of_nat (m - Suc q)" if "q < 16" for p :: u64 and q
    using that m(1) by (simp add: of_nat_diff algebra_simps)
  have q: "m - Suc q < 512" "p + 8 * of_nat j \<noteq> p + 8 * of_nat (m - Suc q)" for p :: u64 and q
    using m word_slot_eq [of j "m - Suc q" p] by auto
  show "f (ns + 8 * of_nat j) = g (ns + 8 * of_nat j)"
  proof (rule keep [THEN spec, THEN mp], intro allI impI conjI)
    fix k :: nat assume k: "k < 16"
    show "ns + 8 * of_nat j \<noteq> cs + 8 * of_nat m - 8 * of_nat (Suc k)" unfolding lower [OF k] by (rule apart [OF m(4) q(1)])
    show "ns + 8 * of_nat j \<noteq> ns + 8 * of_nat m - 8 * of_nat (Suc k)" unfolding lower [OF k] by (rule q(2))
  qed
  show "f (cs + 8 * of_nat j) = g (cs + 8 * of_nat j)"
  proof (rule keep [THEN spec, THEN mp], intro allI impI conjI)
    fix k :: nat assume k: "k < 16"
    show "cs + 8 * of_nat j \<noteq> cs + 8 * of_nat m - 8 * of_nat (Suc k)" unfolding lower [OF k] by (rule q(2))
    show "cs + 8 * of_nat j \<noteq> ns + 8 * of_nat m - 8 * of_nat (Suc k)"
      unfolding lower [OF k] by (rule not_sym [OF apart [OF q(1) m(4)]])
  qed
qed

text \<open>
  C31. \<open>fork_thread\<close>, with a free slot and room, returns first as the child: the child is a live,
  RUNNABLE thread with a fresh tid and the caller as its parent, it is the current thread, and the
  processor is right after the call of \<open>switch_fork\<close>, at the same depth of the child's own stack,
  which holds what the parent's holds above that depth. The parent's stack is untouched above that
  depth, and its saved stack pointer is that of a frame that resumes it after the same call. The
  child gets the answer -1. It shares the parent's semaphore cell and pipe structure, and the frame
  pointer is still the parent's.
\<close>

theorem fork_thread_child:
  assumes "threads_ok s L (266 + k)" "live s c" "cur_thread_index s = int c"
    and "find_up THREAD_NUM (slot_dead s) 0 = Some i"
    and y: "y = thr_mem s (threads s ! c)"
    and "t_stack y \<in> L" "{unat (t_stack y)..<unat (t_stack y) + 4096} \<subseteq> kh_extent s (t_stack y)"
      "t_stack_btm y = t_stack y + STACK_LENGTH"
    and "sp s = t_stack y + 8 * of_nat m" "16 \<le> m" "m \<le> 512"
    and "\<forall>p. length (t_ctid (thr_mem s p)) = NTHREAD_CHILD"
  shows "\<exists>s' x z u. fork_thread te ra s = Inr (s', int i) \<and> x = thr_mem s' (threads s' ! i) \<and>
    z = thr_mem s' (threads s ! c) \<and> table_ok s' \<and> live s' = (live s)(i := True) \<and> cur_thread_index s' = int i \<and>
    t_state x = RUNNABLE \<and> t_tid x = tid_global s \<and> t_ptid x = tid_index_dict s ! c \<and>
    pc s' = ra \<and> sp s' = t_stack x + 8 * of_nat m \<and>
    (\<forall>j. m \<le> j \<and> j < 512 \<longrightarrow> stk s' (t_stack x + 8 * of_nat j) = stk s (t_stack y + 8 * of_nat j) \<and>
      stk s' (t_stack y + 8 * of_nat j) = stk s (t_stack y + 8 * of_nat j)) \<and>
    t_rsp z = sp s - 128 \<and> frame_at (stk s') (t_rsp z) (regs s') ra \<and>
    fork_return (int i) (tid_global s) s' = Inr (- 1, u) \<and>
    t_sid_ptr x = t_sid_ptr y \<and> t_pstruct x = t_pstruct y \<and> regs s' RBP = regs s RBP"
proof -
  let ?cur = "threads s ! c" and ?cs = "t_stack y"
  obtain ns new w where w: "fork_thread te ra s = Inr
      (let w' = copy_stack_upto new ?cur 512 w;
           u = call_from ra (set_reg RDX (t_stack_btm (thr_mem w ?cur)) (set_reg RSI (t_stack_btm (thr_mem w new)) (set_reg RDI (?cur + 16) w')))
       in fork_load (upd_thread ?cur (\<lambda>x. x\<lparr>t_rsp := sp (fork_save u)\<rparr>) (fork_save u)), int i)"
    "threads_ok w ({new, ns} \<union> L) k" "live w = (live s)(i := True)" "threads w = (threads s)[i := new]"
    "cur_thread_index w = int i" "{new, ns} \<inter> L = {}" "new \<noteq> ns" "new \<noteq> ?cur"
    "\<forall>q\<in>L. {unat ns..<unat ns + 4096} \<inter> kh_extent s q = {}" "{unat ns..<unat ns + 4096} \<subseteq> heap_region s"
    "thr_mem w = (thr_mem s)(new := fork_child te ns i (thr_mem s ?cur) (thr_mem s new) s,
      ?cur := (thr_mem s ?cur)\<lparr>t_ctid := fork_ctids (t_ctid (thr_mem s ?cur)) (tid_global s)\<rparr>)"
    "sp w = sp s" "regs w = regs s" "stk w = stk s"
    by (rule fork_prepared [OF assms(1-4)])
  have hs: "heap_has s L (266 + k)" using assms(1) by (simp add: threads_ok_def)
  note apart = fork_far [OF hs assms(6,7) w(9,10)]
  have mem: "t_stack (thr_mem w new) = ns" "t_stack (thr_mem w ?cur) = ?cs"
    "t_stack_btm (thr_mem w new) = ns + STACK_LENGTH" "t_stack_btm (thr_mem w ?cur) = ?cs + STACK_LENGTH"
    using w(8) assms(8) by (simp_all add: w(11) fork_child_def forked_def y)
  define w' where "w' = copy_stack_upto new ?cur 512 w"
  have w'eq: "w' = w\<lparr>stk := stk w'\<rparr>" unfolding w'_def by (rule copy_stack_only)
  have w'f: "thr_mem w' = thr_mem w" "threads w' = threads w" "sp w' = sp s" "regs w' = regs s"
    "tid_index_dict w' = tid_index_dict w" "tid_global w' = tid_global w" "cur_thread_index w' = cur_thread_index w"
    "empty_at w' = empty_at w"
    using w(12,13) by (subst w'eq; simp)+
  have copied: "stk w' (ns + 8 * of_nat j) = stk s (?cs + 8 * of_nat j)" "stk w' (?cs + 8 * of_nat j) = stk s (?cs + 8 * of_nat j)"
    if "j < 512" for j
    using copy_stack_run [of w new ?cur 512] apart(1) that not_sym [OF apart(1) [OF _ that]]
    by (simp_all add: mem w(14) w'_def)
  define v where "v = (let u = call_from ra (set_reg RDX (?cs + STACK_LENGTH) (set_reg RSI (ns + STACK_LENGTH) (set_reg RDI (?cur + 16) w')))
       in fork_load (upd_thread ?cur (\<lambda>x. x\<lparr>t_rsp := sp (fork_save u)\<rparr>) (fork_save u)))"
  have eq: "fork_thread te ra s = Inr (v, int i)" using w(1) by (simp add: v_def mem flip: w'_def)
  note sw = fork_switch [OF apart(2,3) [of STACK_LENGTH], where w = w' and ra = ra and d = "?cur + 16" and cur = ?cur,
      folded v_def [unfolded Let_def]]
  have depth: "ns + STACK_LENGTH - (?cs + STACK_LENGTH - sp w') = ns + 8 * of_nat m"
    using w'f(3) assms(9) by simp
  have v0: "v = w'\<lparr>int_flag := True, regs := regs v, sp := ns + 8 * of_nat m, pc := ra, stk := stk v,
      thr_mem := (thr_mem w')(?cur := (thr_mem w' ?cur)\<lparr>t_rsp := sp s - 128\<rparr>)\<rparr>"
    using sw(1) unfolding depth unfolding w'f(3) .
  obtain r a where v: "v = w'\<lparr>int_flag := True, regs := r, sp := ns + 8 * of_nat m, pc := ra, stk := a,
      thr_mem := (thr_mem w')(?cur := (thr_mem w' ?cur)\<lparr>t_rsp := sp s - 128\<rparr>)\<rparr>"
    by (rule that [OF v0])
  have vt: "thr_mem v = (thr_mem w)(?cur := (thr_mem w ?cur)\<lparr>t_rsp := sp s - 128\<rparr>)"
    "threads v = (threads s)[i := new]" "tid_index_dict v = tid_index_dict w" "tid_global v = tid_global w"
    "cur_thread_index v = int i" "empty_at v = empty_at w" "pc v = ra" "sp v = ns + 8 * of_nat m"
    using w(4,5) w'f by (simp_all add: v)
  let ?f = "upd_thread ?cur (\<lambda>x. x\<lparr>t_rsp := sp s - 128\<rparr>) w"
  have tw: "table_ok w" using w(2) by (simp add: threads_ok_def)
  have tab: "table_ok v" "live v = (live s)(i := True)"
    using table_ok_upd [OF tw, of "\<lambda>x. x\<lparr>t_rsp := sp s - 128\<rparr>" ?cur] table_ok_cong [of v ?f] vt w(3-5)
    by simp_all
  have words: "stk v (ns + 8 * of_nat j) = stk s (?cs + 8 * of_nat j) \<and> stk v (?cs + 8 * of_nat j) = stk s (?cs + 8 * of_nat j)"
    if "m \<le> j" "j < 512" for j
  proof -
    have "stk v p = stk w' p"
      if "\<forall>q<16. p \<noteq> ?cs + 8 * of_nat m - 8 * of_nat (Suc q) \<and> p \<noteq> ns + 8 * of_nat m - 8 * of_nat (Suc q)" for p
    proof -
      have e: "sp w' = ?cs + 8 * of_nat m" "ns + STACK_LENGTH - (?cs + STACK_LENGTH - (?cs + 8 * of_nat m)) = ns + 8 * of_nat m"
        using w'f(3) assms(9) by simp_all
      show ?thesis by (rule sw(4)) (unfold e, rule that)
    qed
    then have keep: "\<forall>p. (\<forall>q<16. p \<noteq> ?cs + 8 * of_nat m - 8 * of_nat (Suc q) \<and> p \<noteq> ns + 8 * of_nat m - 8 * of_nat (Suc q)) \<longrightarrow> stk v p = stk w' p"
      by blast
    show ?thesis using fork_words [OF keep apart(1) assms(10,11) that] copied [OF that(2)] by simp
  qed
  have new: "threads v ! i = new"
    using vt(2) find_up_Some [OF assms(4)] assms(1) by (simp add: threads_ok_def table_ok_def)
  have x: "thr_mem v new = fork_child te ns i y (thr_mem s new) s" using vt(1) w(8,11) y by simp
  have z: "t_rsp (thr_mem v ?cur) = sp s - 128" using vt(1) by simp
  have "t_ctid (thr_mem v new) = replicate NTHREAD_CHILD (- 1)"
    using assms(12) by (simp add: x fork_child_def forked_def array_fill_all)
  then have "find_ctid new v = - 1" by (simp add: find_ctid_def find_ctid_below_none)
  moreover have "live v i" using tab(2) by simp
  ultimately obtain u where u: "fork_return (int i) (tid_global s) v = Inr (- 1, u)"
    using fork_return_eq [OF tab(1), of i] vt(5) new by metis
  have fr: "frame_at (stk v) (sp s - 128) (regs v) ra" "regs v RBP = regs s RBP"
    using sw(2) [of RBP] sw(3) w'f(3,4) by simp_all
  show ?thesis
    using assms(3) fr u words
    by (intro exI [of _ v] exI [of _ "thr_mem v (threads v ! i)"] exI [of _ "thr_mem v ?cur"] exI [of _ u])
      (simp add: eq tab vt(5,7,8) new x z fork_child_def forked_def)
qed

theorem fork_thread_child_witness:
  "\<exists>s1 s2. create_thread 0x100400 0x100500 0 0 boot_sys = Inr (0, s1) \<and>
    fork_thread 0x100400 0x100700 (s1\<lparr>sp := t_stack (thr_mem s1 (threads s1 ! 0)) + 2048\<rparr>) = Inr (s2, 1) \<and>
    cur_thread_index s2 = 1 \<and> pc s2 = 0x100700 \<and> live s2 0 \<and> live s2 1"
proof -
  have ok: "threads_ok boot_sys {} (270 + 261874)" using boot_ok by simp
  obtain t stack sid_ptr pstruct s1 where 1: "create_thread 0x100400 0x100500 0 0 boot_sys = Inr (tid_global boot_sys, s1)"
    "threads_ok s1 ({t, stack, sid_ptr, pstruct} \<union> {}) 261874" "live s1 = (live boot_sys)(0 := True)"
    "threads s1 = (threads boot_sys)[0 := t]"
    "thr_mem s1 = (thr_mem boot_sys)(t := filled 0 t RUNNABLE
       (boot_sys\<lparr>thr_mem := (thr_mem boot_sys)(t := newborn 0x100400 stack sid_ptr pstruct 0x100500 0 0 (thr_mem boot_sys t))\<rparr>))"
    "{unat stack..<unat stack + 4096} \<subseteq> kh_extent s1 stack" "cur_thread_index s1 = cur_thread_index boot_sys"
    by (rule create_thread_spec [OF ok boot_slot, where te = "0x100400" and func = "0x100500" and argc = 0 and argv = 0])
  define s where "s = s1\<lparr>sp := stack + 8 * of_nat 256\<rparr>"
  have th: "threads s1 ! 0 = t" using 1(4) by (simp add: boot_fields)
  have x: "t_stack (thr_mem s1 t) = stack" "t_stack_btm (thr_mem s1 t) = stack + STACK_LENGTH"
    by (simp_all add: 1(5) filled_def newborn_def)
  have live: "live s = (\<lambda>i. i = 0)"
    using 1(3) boot_not_live by (simp add: s_def live_def fun_eq_iff)
  have c: "heap_has s = heap_has s1" "kh_extent s = kh_extent s1" "heap_lo s = heap_lo s1"
    using heap_has_cong [of s s1] by (simp_all add: s_def fun_eq_iff heap_lo_def)
  have tab: "table_ok s" using 1(2) table_ok_cong(1) [of s s1] by (simp add: threads_ok_def s_def)
  have "threads_ok s {t, stack, sid_ptr, pstruct} (266 + 261608)"
    using 1(2) tab c by (simp add: threads_ok_def) (simp add: s_def)
  moreover have "find_up THREAD_NUM (slot_dead s) 0 = Some 1"
    using find_dead [OF tab, of 1] live by (simp add: THREAD_NUM_def)
  moreover have "\<forall>p. length (t_ctid (thr_mem s p)) = NTHREAD_CHILD"
    by (simp add: s_def 1(5) boot_fields empty_thread_def filled_def newborn_def)
  ultimately obtain s2 where "fork_thread 0x100400 0x100700 s = Inr (s2, int 1)" "cur_thread_index s2 = int 1"
    "pc s2 = 0x100700" "live s2 = (live s)(1 := True)"
    using fork_thread_child [of s "{t, stack, sid_ptr, pstruct}" 261608 0 1 "thr_mem s t" 256 "0x100400" "0x100700"]
      live 1(6,7) x th c(2)
    by (auto simp: s_def boot_fields)
  then show ?thesis using 1(1) live by (auto simp: s_def th x boot_fields)
qed



end
