(* ===== verification/Pipe.thy ===== *)
theory Pipe
  imports Thread_Life
begin

text \<open>
  kernel/stdcall/pipe.c: a pipe between a thread and the child it forks, which share a pipe
  structure (\<open>pipe_mem\<close>), a buffer of 4096 bytes and a semaphore. The buffer and the callers' buffers
  are byte memory (\<open>bytes\<close>).
\<close>

section \<open>Operations\<close>

definition NPIPEQUEUE :: int where "NPIPEQUEUE = 0x1000"

text \<open>\<open>p->pstate = st\<close> and \<open>get_thread_ptr(get_cur_thread_tid())\<close>.\<close>

definition set_pstate :: "u64 \<Rightarrow> pipe_state \<Rightarrow> 'z sys_scheme \<Rightarrow> 'z sys_scheme" where
  "set_pstate p st s = s\<lparr>pipe_mem := (pipe_mem s)(p := (pipe_mem s p)\<lparr>pstate := st\<rparr>)\<rparr>"

definition cur_thread :: "'z sys_scheme \<Rightarrow> (u64 \<times> 'z sys_scheme) outcome" where
  "cur_thread s = and_then (get_cur_thread_tid s) (\<lambda>(tid, s). get_thread_ptr tid s)"

definition gen_pipe :: "u64 \<Rightarrow> 'z sys_scheme \<Rightarrow> (int \<times> 'z sys_scheme) outcome" where
  "gen_pipe t s =
     and_then (heap_call (kmalloc NPIPEQUEUE s)) (\<lambda>(p, s).
     let ps = t_pstruct (thr_mem s t);
         s = s\<lparr>pipe_mem := (pipe_mem s)(ps := (pipe_mem s ps)\<lparr>pipe_ptr := p\<rparr>)\<rparr>
     in if pipe_ptr (pipe_mem s ps) \<noteq> 0
        then let s = set_pstate ps EMPTY s
             in and_then (create_sem 0 s) (\<lambda>(sid, s).
                Inr (1, s\<lparr>sid_mem := (sid_mem s)(t_sid_ptr (thr_mem s t) := sid)\<rparr>))
        else Inr (0, s))"

definition pread :: "u64 \<Rightarrow> u64 \<Rightarrow> 'z sys_scheme \<Rightarrow> (int \<times> 'z sys_scheme) outcome" where
  "pread buf n s =
     and_then (cur_thread s) (\<lambda>(t, s).
     let ps = t_pstruct (thr_mem s t)
     in if pstate (pipe_mem s ps) = EXIST
        then let s = set_pstate ps RECEIVING s;
                 s = s\<lparr>bytes := memcpy (bytes s) buf (pipe_ptr (pipe_mem s ps)) n\<rparr>;
                 s = set_pstate ps EMPTY s
             in Inr (1, s)
        else Inr (0, s))"

definition pwrite :: "u64 \<Rightarrow> u64 \<Rightarrow> 'z sys_scheme \<Rightarrow> (int \<times> 'z sys_scheme) outcome" where
  "pwrite buf n s =
     and_then (cur_thread s) (\<lambda>(t, s).
     let ps = t_pstruct (thr_mem s t)
     in if pstate (pipe_mem s ps) = EMPTY
        then let s = set_pstate ps SENDING s;
                 s = s\<lparr>bytes := memcpy (bytes s) (pipe_ptr (pipe_mem s ps)) buf n\<rparr>;
                 s = set_pstate ps EXIST s
             in Inr (1, s)
        else Inr (0, s))"

definition waitp :: "u64 \<Rightarrow> int \<Rightarrow> 'z sys_scheme \<Rightarrow> (int \<times> 'z sys_scheme) outcome" where
  "waitp ra sem s =
     and_then (cur_thread s) (\<lambda>(t, s).
     let st = pstate (pipe_mem s (t_pstruct (thr_mem s t)))
     in if st = EMPTY \<or> st = SENDING then wait_sem ra sem s else Inr (1, s))"

definition signalp :: "u64 \<Rightarrow> int \<Rightarrow> 'z sys_scheme \<Rightarrow> (int \<times> 'z sys_scheme) outcome" where
  "signalp ra sem s =
     and_then (cur_thread s) (\<lambda>(t, s).
     if pstate (pipe_mem s (t_pstruct (thr_mem s t))) = EXIST then signal_sem ra sem s else Inr (0, s))"

section \<open>A one-place buffer\<close>

text \<open>The abstract pipe holds at most one message. \<open>n\<close> is the length both sides use.\<close>

primrec cell_put :: "'a \<Rightarrow> 'a option \<Rightarrow> int \<times> 'a option" where
  "cell_put m None = (1, Some m)"
| "cell_put m (Some x) = (0, Some x)"

primrec cell_take :: "'a option \<Rightarrow> int \<times> 'a option" where
  "cell_take None = (0, None)"
| "cell_take (Some x) = (1, None)"

definition text_at :: "bytemem \<Rightarrow> u64 \<Rightarrow> u64 \<Rightarrow> u8 list" where
  "text_at m buf n = map (\<lambda>i. m (buf + of_nat i)) [0..<unat n]"

definition pipe_cell :: "u64 \<Rightarrow> u64 \<Rightarrow> 'z sys_scheme \<Rightarrow> u8 list option" where
  "pipe_cell p n s =
     (if pstate (pipe_mem s p) = EXIST then Some (text_at (bytes s) (pipe_ptr (pipe_mem s p)) n) else None)"

definition at_rest :: "u64 \<Rightarrow> 'z sys_scheme \<Rightarrow> bool" where
  "at_rest p s \<longleftrightarrow> pstate (pipe_mem s p) = EMPTY \<or> pstate (pipe_mem s p) = EXIST"

text \<open>Two buffers of \<open>n\<close> bytes that do not overlap.\<close>

definition apart :: "u64 \<Rightarrow> u64 \<Rightarrow> u64 \<Rightarrow> bool" where
  "apart a b n \<longleftrightarrow> n \<le> a - b \<and> n \<le> b - a"

lemma apart_sym: "apart a b n \<Longrightarrow> apart b a n"
  by (simp add: apart_def)

lemma text_at_eqI: "(\<And>i. i < unat n \<Longrightarrow> m (a + of_nat i) = m' (b + of_nat i)) \<Longrightarrow> text_at m a n = text_at m' b n"
  by (simp add: text_at_def)

lemma text_at_memcpy:
  assumes "apart dst src n"
  shows "text_at (memcpy m dst src n) dst n = text_at m src n"
proof (rule text_at_eqI)
  fix i assume i: "i < unat n"
  then have "of_nat i < n"
    by (simp add: word_less_nat_alt unat_of_nat take_bit_nat_eq_self unat64_lt less_trans [OF _ unat64_lt])
  then show "memcpy m dst src n (dst + of_nat i) = m (src + of_nat i)"
    using assms memcpy_eq [of dst src n m] by (simp add: apart_def)
qed

lemma memcpy_outside: "apart dst src n \<Longrightarrow> n \<le> a - dst \<Longrightarrow> memcpy m dst src n a = m a"
  using memcpy_eq [of dst src n m] by (simp add: apart_def leD)

lemma cur_thread_ok:
  assumes "table_ok s" "live s c" "cur_thread_index s = int c"
  shows "cur_thread s = Inr (threads s ! c, io_sti s)"
  using get_cur_thread_tid_ok [OF assms(1)] get_thread_ptr_live [of "io_sti s" c] assms
  by (simp add: cur_thread_def)

lemma pwrite_eq:
  assumes "table_ok s" "live s c" "cur_thread_index s = int c"
  shows "pwrite buf n s =
    (let p = t_pstruct (thr_mem s (threads s ! c))
     in if pstate (pipe_mem s p) = EMPTY
        then Inr (1, s\<lparr>int_flag := True, bytes := memcpy (bytes s) (pipe_ptr (pipe_mem s p)) buf n,
          pipe_mem := (pipe_mem s)(p := (pipe_mem s p)\<lparr>pstate := EXIST\<rparr>)\<rparr>)
        else Inr (0, io_sti s))"
  by (simp add: pwrite_def cur_thread_ok [OF assms] Let_def set_pstate_def) (simp add: io_sti_def)

lemma pread_eq:
  assumes "table_ok s" "live s c" "cur_thread_index s = int c"
  shows "pread buf n s =
    (let p = t_pstruct (thr_mem s (threads s ! c))
     in if pstate (pipe_mem s p) = EXIST
        then Inr (1, s\<lparr>int_flag := True, bytes := memcpy (bytes s) buf (pipe_ptr (pipe_mem s p)) n,
          pipe_mem := (pipe_mem s)(p := (pipe_mem s p)\<lparr>pstate := EMPTY\<rparr>)\<rparr>)
        else Inr (0, io_sti s))"
  by (simp add: pread_def cur_thread_ok [OF assms] Let_def set_pstate_def) (simp add: io_sti_def)

lemma pipe_mem_upd_same:
  "pipe_ptr (((pipe_mem s)(p := (pipe_mem s p)\<lparr>pstate := st\<rparr>)) p) = pipe_ptr (pipe_mem s p)"
  by simp

lemma pwrite_cell:
  assumes "table_ok s" "live s c" "cur_thread_index s = int c"
    and p: "p = t_pstruct (thr_mem s (threads s ! c))" and rest: "at_rest p s" "apart (pipe_ptr (pipe_mem s p)) buf n"
  obtains s' where "pwrite buf n s = Inr (fst (cell_put (text_at (bytes s) buf n) (pipe_cell p n s)), s')"
    "pipe_cell p n s' = snd (cell_put (text_at (bytes s) buf n) (pipe_cell p n s))" "at_rest p s'"
    "s' = s\<lparr>int_flag := True, bytes := bytes s', pipe_mem := (pipe_mem s)(p := (pipe_mem s p)\<lparr>pstate := EXIST\<rparr>)\<rparr>"
    "\<forall>a. n \<le> a - pipe_ptr (pipe_mem s p) \<longrightarrow> bytes s' a = bytes s a"
proof (cases "pstate (pipe_mem s p) = EMPTY")
  case True
  let ?s = "s\<lparr>int_flag := True, bytes := memcpy (bytes s) (pipe_ptr (pipe_mem s p)) buf n,
    pipe_mem := (pipe_mem s)(p := (pipe_mem s p)\<lparr>pstate := EXIST\<rparr>)\<rparr>"
  have "pwrite buf n s = Inr (1, ?s)" using pwrite_eq [OF assms(1-3)] True p by (simp add: Let_def)
  then show thesis
    using True text_at_memcpy [OF rest(2)] memcpy_outside [OF rest(2)]
    by (intro that [of ?s]) (simp_all add: pipe_cell_def at_rest_def)
next
  case False
  then have ex: "pstate (pipe_mem s p) = EXIST" using rest(1) by (simp add: at_rest_def)
  have "(pipe_mem s)(p := (pipe_mem s p)\<lparr>pstate := EXIST\<rparr>) = pipe_mem s"
    using ex by (auto simp: fun_eq_iff intro!: pipe_struct.equality)
  moreover have "pwrite buf n s = Inr (0, io_sti s)" using pwrite_eq [OF assms(1-3)] False p by (simp add: Let_def)
  ultimately show thesis
    using ex by (intro that [of "io_sti s"]) (simp_all add: pipe_cell_def at_rest_def io_sti_def)
qed

lemma pread_cell:
  assumes "table_ok s" "live s c" "cur_thread_index s = int c"
    and p: "p = t_pstruct (thr_mem s (threads s ! c))" and rest: "at_rest p s" "apart (pipe_ptr (pipe_mem s p)) buf n"
  obtains s' where "pread buf n s = Inr (fst (cell_take (pipe_cell p n s)), s')"
    "pipe_cell p n s' = snd (cell_take (pipe_cell p n s))" "at_rest p s'"
    "\<forall>m. pipe_cell p n s = Some m \<longrightarrow> text_at (bytes s') buf n = m"
    "s' = s\<lparr>int_flag := True, bytes := bytes s', pipe_mem := (pipe_mem s)(p := (pipe_mem s p)\<lparr>pstate := EMPTY\<rparr>)\<rparr>"
    "\<forall>a. n \<le> a - buf \<longrightarrow> bytes s' a = bytes s a"
proof (cases "pstate (pipe_mem s p) = EXIST")
  case True
  let ?s = "s\<lparr>int_flag := True, bytes := memcpy (bytes s) buf (pipe_ptr (pipe_mem s p)) n,
    pipe_mem := (pipe_mem s)(p := (pipe_mem s p)\<lparr>pstate := EMPTY\<rparr>)\<rparr>"
  have "pread buf n s = Inr (1, ?s)" using pread_eq [OF assms(1-3)] True p by (simp add: Let_def)
  then show thesis
    using True text_at_memcpy [OF apart_sym [OF rest(2)]] memcpy_outside [OF apart_sym [OF rest(2)]]
    by (intro that [of ?s]) (simp_all add: pipe_cell_def at_rest_def)
next
  case False
  then have ex: "pstate (pipe_mem s p) = EMPTY" using rest(1) by (simp add: at_rest_def)
  have "(pipe_mem s)(p := (pipe_mem s p)\<lparr>pstate := EMPTY\<rparr>) = pipe_mem s"
    using ex by (auto simp: fun_eq_iff intro!: pipe_struct.equality)
  moreover have "pread buf n s = Inr (0, io_sti s)" using pread_eq [OF assms(1-3)] False p by (simp add: Let_def)
  ultimately show thesis
    using ex by (intro that [of "io_sti s"]) (simp_all add: pipe_cell_def at_rest_def io_sti_def)
qed

section \<open>What waiting and signalling leave alone\<close>

definition same_pipes :: "'z sys_scheme \<Rightarrow> 'z sys_scheme \<Rightarrow> bool" where
  "same_pipes s s' \<longleftrightarrow> bytes s' = bytes s \<and> pipe_mem s' = pipe_mem s"

lemma switch_to_pipes:
  "bytes (switch_to ra old new s) = bytes s" "pipe_mem (switch_to ra old new s) = pipe_mem s"
proof -
  have "bytes (save_context t) = bytes t" "bytes (load_context a t) = bytes t" for a and t :: "'a sys_scheme"
    by (simp_all add: save_context_def load_context_def Let_def push_reg_def push_def pop_reg_def ret_def io_cli_def io_sti_def)
  then show "bytes (switch_to ra old new s) = bytes s"
    by (simp add: switch_to_def Let_def upd_thread_def call_from_def push_def set_reg_def)
qed (rule switch_to_table)

lemma same_pipes_scheduler: "thread_scheduler ra s = Inr s' \<Longrightarrow> same_pipes s s'"
  by (auto simp: thread_scheduler_def Let_def same_pipes_def switch_to_pipes split: option.splits)

lemma same_pipes_steps:
  "get_cur_thread_tid s = Inr (tid, s') \<Longrightarrow> same_pipes s s'"
  "get_thread_ptr tid s = Inr (t, s') \<Longrightarrow> same_pipes s s'"
  "change_state tid st s = Inr (r, s') \<Longrightarrow> same_pipes s s'"
  "enqueue_sem tid sem s = Inr (r, s') \<Longrightarrow> same_pipes s s'"
  "dequeue_sem tid sem s = Inr (r, tid', s') \<Longrightarrow> same_pipes s s'"
proof -
  show 1: "get_cur_thread_tid s = Inr (tid, s') \<Longrightarrow> same_pipes s s'" for s s' :: "'a sys_scheme" and tid
    by (auto simp: get_cur_thread_tid_def Let_def and_then_Inr_iff same_pipes_def io_cli_def io_sti_def)
  show 2: "get_thread_ptr tid s = Inr (t, s') \<Longrightarrow> same_pipes s s'" for s s' :: "'a sys_scheme" and tid t
    by (auto simp: get_thread_ptr_def search_index_from_tid_def and_then_Inr_iff same_pipes_def say_upd split: option.splits)
  show "change_state tid st s = Inr (r, s') \<Longrightarrow> same_pipes s s'"
    by (clarsimp simp: change_state_def and_then_Inr_iff) (drule 2, auto simp: same_pipes_def split: if_splits)
  show "enqueue_sem tid sem s = Inr (r, s') \<Longrightarrow> same_pipes s s'"
    by (auto simp: enqueue_sem_def and_then_Inr_iff same_pipes_def put_entry_def split_beta)
  show "dequeue_sem tid sem s = Inr (r, tid', s') \<Longrightarrow> same_pipes s s'"
    by (auto simp: dequeue_sem_def and_then_Inr_iff same_pipes_def put_entry_def split_beta)
qed

lemma wait_sem_pipes:
  assumes "wait_sem ra sem s = Inr (r, s')"
  shows "same_pipes s s'"
  using assms
  by (auto simp: wait_sem_def Let_def sti_ret0_if_err_def and_then_Inr_iff split: if_splits
      dest!: same_pipes_steps same_pipes_scheduler) (auto simp: same_pipes_def io_cli_def io_sti_def put_entry_def say_num_upd)

lemma signal_sem_pipes:
  assumes "signal_sem ra sem s = Inr (r, s')"
  shows "same_pipes s s'"
  using assms
  by (auto simp: signal_sem_def Let_def sti_ret0_if_err_def and_then_Inr_iff split: if_splits
      dest!: same_pipes_steps same_pipes_scheduler) (auto simp: same_pipes_def io_cli_def io_sti_def put_entry_def say_num_upd)

lemma same_pipes_trans: "same_pipes s t \<Longrightarrow> same_pipes t u \<Longrightarrow> same_pipes s u"
  by (simp add: same_pipes_def)

lemma same_pipes_local [simp]:
  "same_pipes s s" "same_pipes s (io_cli s)" "same_pipes s (io_sti s)" "same_pipes s (put_entry sem e s)"
  "same_pipes s (say_num m n s)" "same_pipes s (s\<lparr>sid_mem := f\<rparr>)"
  by (simp_all add: same_pipes_def io_cli_def io_sti_def put_entry_def say_num_upd)

section \<open>The hand-over\<close>

text \<open>With two runnable threads the scheduler gives the processor to the other one.\<close>

lemma scheduler_other:
  assumes ok: "table_ok s" and lt: "r < THREAD_NUM" "w < THREAD_NUM" and c: "cur_thread_index s = int w" "w \<noteq> r"
    and run: "\<forall>k<THREAD_NUM. runnable s k \<longleftrightarrow> k = r \<or> k = w"
  obtains s' where "thread_scheduler ra s = Inr s'" "cur_thread_index s' = int r" "table_ok s'" "live s' = live s"
    "runnable s' = runnable s" "threads s' = threads s" "semtable s' = semtable s" "same_pipes s s'"
    "\<exists>old v. thr_mem s' = (thr_mem s)(old := (thr_mem s old)\<lparr>t_rsp := v\<rparr>)"
proof -
  have w: "nat (cur_thread_index s) = w" using c(1) by simp
  obtain s' where s': "thread_scheduler ra s = Inr s'" using ts.returns [OF ok lt(1)] run lt(1) by blast
  have n: "nat (cur_thread_index s') = r"
    by (rule ts.other [OF ok s' lt(1)]) (use run c(2) w in auto)
  from ok s' show thesis
  proof (rule thread_scheduler_returned, goal_cases)
    case 1
    have "cur_thread_index s' = int r" using n 1(6) table_okD(3) by fastforce
    from that [OF s' this 1(6-9,11) same_pipes_scheduler [OF s'] 1(13)] show ?thesis .
  qed
qed

text \<open>The reader comes first: it blocks, and the only other runnable thread gets the processor.\<close>

lemma reader_blocks:
  assumes ok: "table_ok s" "sems_ok s" "\<not> isbadsem sem" and e: "semtable s ! nat sem = e" "semstate e = S_USED" "semcount e = 0"
    and r: "live s r" "cur_thread_index s = int r" "threads s ! r \<noteq> 0"
    and w: "w < THREAD_NUM" "w \<noteq> r" "\<forall>k<THREAD_NUM. runnable s k \<longleftrightarrow> k = r \<or> k = w"
    and p: "pstate (pipe_mem s (t_pstruct (thr_mem s (threads s ! r)))) = EMPTY"
  obtains s1 e1 where "waitp ra sem s = Inr (1, s1)" "cur_thread_index s1 = int w" "table_ok s1" "sems_ok s1"
    "live s1 = live s" "threads s1 = threads s" "tid_index_dict s1 = tid_index_dict s" "same_pipes s s1"
    "semtable s1 ! nat sem = e1" "semstate e1 = S_USED" "semcount e1 = - 1"
    "waiting (semqueue e1) = [tid_index_dict s ! r]"
    "t_state (thr_mem s1 (threads s ! r)) = WAIT" "\<forall>k<THREAD_NUM. runnable s1 k \<longleftrightarrow> k = w"
    "\<forall>a. t_pstruct (thr_mem s1 a) = t_pstruct (thr_mem s a)"
proof -
  have eok: "entry_ok e" using sem_entry_good(2) [OF ok(2,3)] e(1) by simp
  then have empty: "waiting (semqueue e) = []" using e(2,3) by (simp add: entry_ok_def)
  then have room: "qs_num (semqueue e) < NSEMQUEUE" by (simp add: waiting_def NSEMQUEUE_def)
  have ok': "table_ok (io_sti s)" "sems_ok (io_sti s)" using ok by (simp_all add: sems_ok_def)
  have pre: "semtable (io_sti s) ! nat sem = e" "semcount e \<le> 0" "live (io_sti s) r" "cur_thread_index (io_sti s) = int r"
    "threads (io_sti s) ! r \<noteq> 0"
    using e r by simp_all
  have tid: "t_tid (thr_mem s (threads s ! r)) = tid_index_dict s ! r" using table_ok_live(2) [OF ok(1) r(1)] .
  obtain sa e1 where sa: "wait_sem ra sem (io_sti s) = and_then (thread_scheduler ra sa) (\<lambda>s. Inr (1, io_sti s))"
    "semtable sa = (semtable s)[nat sem := e1]" "semcount e1 = semcount e - 1" "semstate e1 = S_USED"
    "waiting (semqueue e1) = waiting (semqueue e) @ [t_tid (thr_mem s (threads s ! r))]"
    "thr_mem sa = (thr_mem s)(threads s ! r := (thr_mem s (threads s ! r))\<lparr>t_state := WAIT\<rparr>)"
    "threads sa = threads s" "table_ok sa" "live sa = live s" "cur_thread_index sa = int r"
    "sems_ok sa" "tid_index_dict sa = tid_index_dict s"
    using wait_sem_block [OF ok' ok(3) pre(1) e(2) pre(2) room pre(3-5), of ra] r(2) by simp metis
  have ptr: "threads s ! k \<noteq> threads s ! r" if "live s k" "k \<noteq> r" for k
    using live_inject [OF ok(1) that(1) r(1)] that(2) by blast
  have run: "runnable sa k \<longleftrightarrow> k = w" if "k < THREAD_NUM" for k
  proof (cases "k = r")
    case True
    then show ?thesis using w(2) by (simp add: runnable_def sa)
  next
    case False
    have "runnable s k \<Longrightarrow> threads s ! k \<noteq> threads s ! r" using ptr runnable_live [OF ok(1) that] False by blast
    moreover have "threads s ! k = threads s ! r \<Longrightarrow> runnable s k"
      using w(3) table_ok_live(6) [OF ok(1) r(1)] by (simp add: runnable_def)
    ultimately have "threads s ! k \<noteq> threads s ! r" by blast
    then have "runnable sa k = runnable s k" by (simp add: runnable_def sa)
    then show ?thesis using w(3) that False by blast
  qed
  have some: "\<exists>k<THREAD_NUM. runnable sa k" using run w(1) by blast
  obtain i s' where s': "thread_scheduler ra sa = Inr s'" "cur_thread_index s' = int ((nat (cur_thread_index sa) + i) mod THREAD_NUM)"
    "runnable sa ((nat (cur_thread_index sa) + i) mod THREAD_NUM)" "table_ok s'" "live s' = live sa"
    "runnable s' = runnable sa" "threads s' = threads sa" "tid_index_dict s' = tid_index_dict sa"
    "semtable s' = semtable sa" "\<exists>old v. thr_mem s' = (thr_mem sa)(old := (thr_mem sa old)\<lparr>t_rsp := v\<rparr>)"
    by (rule thread_scheduler_spec [OF sa(8) some, of ra])
  obtain old v where mem: "thr_mem s' = (thr_mem sa)(old := (thr_mem sa old)\<lparr>t_rsp := v\<rparr>)" using s'(10) by blast
  have cur: "cur_thread_index s' = int w" using s'(2,3) run [of "(nat (cur_thread_index sa) + i) mod THREAD_NUM"]
    by (simp add: THREAD_NUM_def)
  have eq: "waitp ra sem s = Inr (1, io_sti s')"
    using p sa(1) s'(1) cur_thread_ok [OF ok(1) r(1,2)] by (simp add: waitp_def)
  have "same_pipes (io_sti s) (io_sti s')" using wait_sem_pipes [of ra sem "io_sti s" 1 "io_sti s'"] sa(1) s'(1) by simp
  then have sp: "same_pipes s (io_sti s')" by (simp add: same_pipes_def)
  have len: "nat sem < length (semtable s)" using sem_entry_good(3) [OF ok(2,3)] ok(2) by (simp add: sems_ok_def)
  show thesis
  proof (rule that [OF eq])
    show "\<forall>k<THREAD_NUM. runnable (io_sti s') k \<longleftrightarrow> k = w" using run s'(6) by (simp add: runnable_def fun_eq_iff)
    show "t_state (thr_mem (io_sti s') (threads s ! r)) = WAIT" by (simp add: mem sa)
    show "\<forall>a. t_pstruct (thr_mem (io_sti s') a) = t_pstruct (thr_mem s a)" by (simp add: mem sa)
    show "semtable (io_sti s') ! nat sem = e1" using len by (simp add: s' sa)
    show "waiting (semqueue e1) = [tid_index_dict s ! r]" using sa(5) empty tid by simp
    show "semcount e1 = - 1" using sa(3) e(3) by simp
    show "sems_ok (io_sti s')" using sa(11) s'(9) by (simp add: sems_ok_def)
  qed (use cur s' sa sp in simp_all)
qed

text \<open>The writer signals: the reader that waits is made runnable and gets the processor.\<close>

lemma writer_wakes:
  assumes ok: "table_ok s" "sems_ok s" "\<not> isbadsem sem" and e: "semtable s ! nat sem = e" "semstate e = S_USED"
      "semcount e = - 1" "waiting (semqueue e) = [tid_index_dict s ! r]"
    and r: "live s r" "threads s ! r \<noteq> 0"
    and w: "live s w" "cur_thread_index s = int w" "w \<noteq> r" "\<forall>k<THREAD_NUM. runnable s k \<longleftrightarrow> k = w"
    and p: "pstate (pipe_mem s (t_pstruct (thr_mem s (threads s ! w)))) = EXIST"
  obtains s1 e1 where "signalp ra sem s = Inr (1, s1)" "cur_thread_index s1 = int r" "table_ok s1"
    "live s1 = live s" "threads s1 = threads s" "same_pipes s s1" "semtable s1 ! nat sem = e1" "semcount e1 = 0"
    "waiting (semqueue e1) = []" "runnable s1 r" "\<forall>a. t_pstruct (thr_mem s1 a) = t_pstruct (thr_mem s a)"
proof -
  have ok': "table_ok (io_sti s)" "sems_ok (io_sti s)" using ok by (simp_all add: sems_ok_def)
  have pre: "semtable (io_sti s) ! nat sem = e" "live (io_sti s) r" "tid_index_dict (io_sti s) ! r = tid_index_dict s ! r"
    "threads (io_sti s) ! r \<noteq> 0"
    using e r by simp_all
  obtain sa e1 where sa: "signal_sem ra sem (io_sti s) = and_then (thread_scheduler ra sa) (\<lambda>s. Inr (1, io_sti s))"
    "semtable sa = (semtable (io_sti s))[nat sem := e1]" "semcount e1 = semcount e + 1" "waiting (semqueue e1) = []"
    "thr_mem sa = (thr_mem (io_sti s))(threads (io_sti s) ! r := (thr_mem (io_sti s) (threads (io_sti s) ! r))\<lparr>t_state := RUNNABLE\<rparr>)"
    "threads sa = threads (io_sti s)" "table_ok sa" "live sa = live (io_sti s)" "cur_thread_index sa = cur_thread_index (io_sti s)"
    "tid_index_dict sa = tid_index_dict (io_sti s)"
    by (rule signal_sem_wake [OF ok' ok(3) pre(1) e(2) _ pre(2-4), of "[]" ra]) (use e(4) in simp)
  have lt: "r < THREAD_NUM" "w < THREAD_NUM" using table_ok_live(6) [OF ok(1)] r(1) w(1) by blast+
  have run: "runnable sa k \<longleftrightarrow> k = r \<or> k = w" if "k < THREAD_NUM" for k
  proof (cases "threads s ! k = threads s ! r")
    case True
    then have rk: "runnable sa k" by (simp add: runnable_def sa)
    have "k = r"
    proof (rule ccontr)
      assume "k \<noteq> r"
      have "live s k" using True r(1) that by (simp add: live_def)
      then show False using live_inject [OF ok(1) _ r(1) True] \<open>k \<noteq> r\<close> by blast
    qed
    then show ?thesis using rk by simp
  next
    case False
    then have "k \<noteq> r" by blast
    moreover have "runnable sa k = runnable s k" using False by (simp add: runnable_def sa)
    ultimately show ?thesis using w(4) that by blast
  qed
  have cw: "cur_thread_index sa = int w" using sa(9) w(2) by simp
  have two: "\<forall>k<THREAD_NUM. runnable sa k \<longleftrightarrow> k = r \<or> k = w" using run by blast
  obtain s' where s': "thread_scheduler ra sa = Inr s'" "cur_thread_index s' = int r" "table_ok s'" "live s' = live sa"
    "runnable s' = runnable sa" "threads s' = threads sa" "semtable s' = semtable sa" "same_pipes sa s'"
    "\<exists>old v. thr_mem s' = (thr_mem sa)(old := (thr_mem sa old)\<lparr>t_rsp := v\<rparr>)"
    by (rule scheduler_other [OF sa(7) lt cw w(3) two, of ra])
  obtain old v where mem: "thr_mem s' = (thr_mem sa)(old := (thr_mem sa old)\<lparr>t_rsp := v\<rparr>)" using s'(9) by blast
  have eq: "signalp ra sem s = Inr (1, io_sti s')"
    using p sa(1) s'(1) cur_thread_ok [OF ok(1) w(1,2)] by (simp add: signalp_def)
  have "same_pipes (io_sti s) (io_sti s')" using signal_sem_pipes [of ra sem "io_sti s" 1 "io_sti s'"] sa(1) s'(1) by simp
  then have sp: "same_pipes s (io_sti s')" by (simp add: same_pipes_def)
  have len: "nat sem < length (semtable s)" using sem_entry_good(3) [OF ok(2,3)] ok(2) by (simp add: sems_ok_def)
  show thesis
  proof (rule that [OF eq])
    show "cur_thread_index (io_sti s') = int r" using s'(2) by simp
    show "runnable (io_sti s') r" using run [OF lt(1)] s'(5) by (simp add: runnable_def fun_eq_iff)
    show "semtable (io_sti s') ! nat sem = e1" using len by (simp add: s' sa)
    show "\<forall>a. t_pstruct (thr_mem (io_sti s') a) = t_pstruct (thr_mem s a)" by (simp add: mem sa)
    show "semcount e1 = 0" using sa(3) e(3) by simp
  qed (use s' sa sp in simp_all)
qed

section \<open>Opening\<close>

lemma create_sem_frame:
  assumes "create_sem c s = Inr (r, s')"
  shows "s' = s\<lparr>semtable := semtable s'\<rparr>"
  using assms
  by (auto simp: create_sem_def newsem_def and_then_Inr_iff sem_entry_def put_entry_def split: if_splits option.splits)

lemma create_sem_full:
  assumes "find_up NSEM (\<lambda>i. semstate (semtable s ! i) = S_FREE) 0 = None"
  shows "create_sem 0 s = Inr (- 1, s)"
  using assms by (simp add: create_sem_def newsem_def)

text \<open>The pipe structure after a successful request.\<close>

definition opened :: "u64 \<Rightarrow> u64 \<Rightarrow> 'z sys_scheme \<Rightarrow> 'z sys_scheme" where
  "opened ps q s = s\<lparr>pipe_mem := (pipe_mem s)(ps := (pipe_mem s ps)\<lparr>pipe_ptr := q, pstate := EMPTY\<rparr>)\<rparr>"

lemma opened_fields [simp]:
  "semtable (opened ps q s) = semtable s" "thr_mem (opened ps q s) = thr_mem s" "sid_mem (opened ps q s) = sid_mem s"
  "hdr (opened ps q s) = hdr s" "base_at (opened ps q s) = base_at s" "kheap (opened ps q s) = kheap s"
  "freep (opened ps q s) = freep s" "pipe_mem (opened ps q s) ps = \<lparr>pipe_ptr = q, pstate = EMPTY\<rparr>"
  "threads (opened ps q s) = threads s"
  by (simp_all add: opened_def)

lemma gen_pipe_eq:
  assumes "kmalloc NPIPEQUEUE s = Some (q, s1)" "q \<noteq> 0" "thr_mem s1 = thr_mem s"
  shows "gen_pipe t s = and_then (create_sem 0 (opened (t_pstruct (thr_mem s t)) q s1)) (\<lambda>(sid, s).
    Inr (1, s\<lparr>sid_mem := (sid_mem s)(t_sid_ptr (thr_mem s t) := sid)\<rparr>))"
  using assms by (simp add: gen_pipe_def Let_def set_pstate_def opened_def)

lemma gen_pipe_open:
  assumes h: "heap_has s L (257 + k)" and sems: "sems_ok s"
  obtains q s' where "gen_pipe t s = Inr (1, s')" "q \<noteq> 0" "q \<notin> L" "heap_has s' (insert q L) k"
    "{unat q..<unat q + 4096} \<subseteq> kh_extent s' q"
    "pipe_mem s' (t_pstruct (thr_mem s t)) = \<lparr>pipe_ptr = q, pstate = EMPTY\<rparr>" "thr_mem s' = thr_mem s"
    "case find_up NSEM (\<lambda>i. semstate (semtable s ! i) = S_FREE) 0 of
       None \<Rightarrow> sid_mem s' (t_sid_ptr (thr_mem s t)) = - 1 \<and> semtable s' = semtable s
     | Some i \<Rightarrow> sid_mem s' (t_sid_ptr (thr_mem s t)) = int i \<and> semstate (semtable s' ! i) = S_USED \<and>
         semcount (semtable s' ! i) = 0 \<and> waiting (semqueue (semtable s' ! i)) = []"
proof -
  have "heap_has s L (units 4096 + k)" using h by (simp add: requests)
  from kmalloc_has [OF this requests(4)] obtain q s1 where m: "kmalloc 4096 s = Some (q, s1)" "q \<noteq> 0" "q \<notin> L"
    "heap_has s1 (insert q L) k" "heap_step s s1" "{unat q..<unat q + nat 4096} \<subseteq> kh_extent s1 q" by metis
  note st = heap_step_sys(2-) [OF m(5)]
  let ?ps = "t_pstruct (thr_mem s t)"
  have eq: "gen_pipe t s = and_then (create_sem 0 (opened ?ps q s1)) (\<lambda>(sid, s).
    Inr (1, s\<lparr>sid_mem := (sid_mem s)(t_sid_ptr (thr_mem s t) := sid)\<rparr>))"
    using gen_pipe_eq [of s q s1] m(1,2) st by (simp add: NPIPEQUEUE_def)
  have heap: "heap_has s2 (insert q L) k" "kh_extent s2 = kh_extent s1"
    if "hdr s2 = hdr s1" "base_at s2 = base_at s1" "kheap s2 = kheap s1" "freep s2 = freep s1" for s2 :: "'a sys_scheme"
    using heap_has_cong [OF that] m(4) by simp_all
  have ok: "sems_ok (opened ?ps q s1)" using sems by (simp add: sems_ok_def st)
  show thesis
  proof (cases "find_up NSEM (\<lambda>i. semstate (semtable s ! i) = S_FREE) 0")
    case None
    then have c: "create_sem 0 (opened ?ps q s1) = Inr (- 1, opened ?ps q s1)"
      by (intro create_sem_full) (simp add: st)
    let ?s = "(opened ?ps q s1)\<lparr>sid_mem := (sid_mem s)(t_sid_ptr (thr_mem s t) := - 1)\<rparr>"
    have "gen_pipe t s = Inr (1, ?s)" using eq c by (simp add: st)
    then show thesis
      by (rule that [OF _ m(2,3)]) (use m(6) None heap [of ?s] in \<open>simp_all add: st\<close>)
  next
    case (Some i)
    then have "find_up NSEM (\<lambda>i. semstate (semtable (opened ?ps q s1) ! i) = S_FREE) 0 = Some i" by (simp add: st)
    from create_sem_spec [OF ok order_refl this] obtain s2 e where c: "create_sem 0 (opened ?ps q s1) = Inr (int i, s2)"
      "semtable s2 = (semtable (opened ?ps q s1))[i := e]" "semstate e = S_USED" "semcount e = 0"
      "waiting (semqueue e) = []" "i < NSEM" by metis
    obtain T where s2: "s2 = (opened ?ps q s1)\<lparr>semtable := T\<rparr>" using create_sem_frame [OF c(1)] by blast
    have "i < length (semtable s)" using sems c(6) by (simp add: sems_ok_def)
    then have T: "T ! i = e" using c(2) s2 by (simp add: st)
    let ?s = "s2\<lparr>sid_mem := (sid_mem s)(t_sid_ptr (thr_mem s t) := int i)\<rparr>"
    have "gen_pipe t s = Inr (1, ?s)" using eq c(1) by (simp add: st s2)
    then show thesis
      by (rule that [OF _ m(2,3)]) (use m(6) Some c(3-5) T heap [of ?s] in \<open>simp_all add: st s2\<close>)
  qed
qed

section \<open>Properties\<close>

text \<open>
  \<open>gen_pipe\<close> opens an empty pipe: a buffer of 4096 bytes that no other block of the heap
  overlaps, state \<open>EMPTY\<close>, and at \<open>sid_ptr\<close> a fresh semaphore without credit or waiting threads.
  When no semaphore is free it reports success all the same and leaves -1 at \<open>sid_ptr\<close>.
\<close>

theorem gen_pipe_opens:
  assumes "heap_has s L (257 + k)" "sems_ok s"
  shows "\<exists>q s'. gen_pipe t s = Inr (1, s') \<and> q \<noteq> 0 \<and> q \<notin> L \<and> heap_has s' (insert q L) k \<and>
    {unat q..<unat q + 4096} \<subseteq> kh_extent s' q \<and>
    pipe_mem s' (t_pstruct (thr_mem s t)) = \<lparr>pipe_ptr = q, pstate = EMPTY\<rparr> \<and>
    (case find_up NSEM (\<lambda>i. semstate (semtable s ! i) = S_FREE) 0 of
       None \<Rightarrow> sid_mem s' (t_sid_ptr (thr_mem s t)) = - 1 \<and> semtable s' = semtable s
     | Some i \<Rightarrow> sid_mem s' (t_sid_ptr (thr_mem s t)) = int i \<and> semstate (semtable s' ! i) = S_USED \<and>
         semcount (semtable s' ! i) = 0 \<and> waiting (semqueue (semtable s' ! i)) = [])"
  by (rule gen_pipe_open [OF assms, of t]) blast

theorem gen_pipe_opens_witness:
  "\<exists>q s'. gen_pipe 0x200000 boot_sys = Inr (1, s') \<and> pipe_mem s' 0 = \<lparr>pipe_ptr = q, pstate = EMPTY\<rparr> \<and>
     sid_mem s' 0 = 0 \<and> semcount (semtable s' ! 0) = 0"
proof -
  have "heap_has boot_sys {} (257 + 261887)" using boot_ok by (simp add: threads_ok_def)
  moreover have "sems_ok boot_sys"
    by (simp add: sems_ok_def boot_fields entry_ok_def demo_entry_def NSEM_def que_ok_def NSEMQUEUE_def S_USED_def)
  moreover have "find_up NSEM (\<lambda>i. semstate (semtable boot_sys ! i) = S_FREE) 0 = Some 0"
    by (rule find_up_first) (simp_all add: NSEM_def boot_fields demo_entry_def S_FREE_def)
  ultimately show ?thesis
    using gen_pipe_opens [of boot_sys "{}" 261887 "0x200000"] by (auto simp: boot_fields empty_thread_def)
qed

text \<open>
  C27. The pipe is a one-place buffer: seen through \<open>pipe_cell\<close> (the message in the buffer, if
  there is one) \<open>pwrite\<close> and \<open>pread\<close> by any thread that shares it are the operations of a cell.
  \<open>pwrite\<close> puts the caller's bytes when the cell is empty and is refused otherwise, \<open>pread\<close>
  takes the message into the caller's buffer, or is refused when there is none.
\<close>

theorem pipe_refines_cell:
  assumes "table_ok s" "live s c" "cur_thread_index s = int c" "p = t_pstruct (thr_mem s (threads s ! c))"
    and "at_rest p s" "apart (pipe_ptr (pipe_mem s p)) buf n"
  shows "(\<exists>s'. pwrite buf n s = Inr (fst (cell_put (text_at (bytes s) buf n) (pipe_cell p n s)), s') \<and>
      pipe_cell p n s' = snd (cell_put (text_at (bytes s) buf n) (pipe_cell p n s)) \<and> at_rest p s') \<and>
    (\<exists>s'. pread buf n s = Inr (fst (cell_take (pipe_cell p n s)), s') \<and>
      pipe_cell p n s' = snd (cell_take (pipe_cell p n s)) \<and> at_rest p s' \<and>
      (\<forall>m. pipe_cell p n s = Some m \<longrightarrow> text_at (bytes s') buf n = m))"
  by (rule conjI; rule pwrite_cell [OF assms] pread_cell [OF assms]) blast+

lemma demo_sem_frame: "demo_sem = (demo_table RUNNABLE RUNNABLE)\<lparr>semtable := semtable demo_sem\<rparr>"
  using create_sem_frame [OF demo_sem_facts(1)] .

lemma demo_sem_fields:
  "threads demo_sem = threads (demo_table RUNNABLE RUNNABLE)" "thr_mem demo_sem = thr_mem (demo_table RUNNABLE RUNNABLE)"
  "pipe_mem demo_sem = (\<lambda>_. \<lparr>pipe_ptr = 0, pstate = EMPTY\<rparr>)" "tid_index_dict demo_sem = tid_index_dict (demo_table RUNNABLE RUNNABLE)"
  "empty_at demo_sem = 0x200000"
  by (subst demo_sem_frame, simp add: demo_table_def ctx.defs sys.defs machine0_def screen.defs blank_screen_def)+

lemma demo_sem_ok: "table_ok demo_sem" "sems_ok demo_sem" "live demo_sem i \<longleftrightarrow> i = 0 \<or> i = 1"
    "t_pstruct (thr_mem demo_sem (threads demo_sem ! i)) = t_pstruct (thr_mem demo_sem (threads demo_sem ! j))"
    "k < THREAD_NUM \<Longrightarrow> runnable demo_sem k \<longleftrightarrow> k = 0 \<or> k = 1"
proof -
  show "table_ok demo_sem" "sems_ok demo_sem" using sem_run_inv [OF demo_sem_facts(2)] by (simp_all add: sys_inv_def)
  show "live demo_sem i \<longleftrightarrow> i = 0 \<or> i = 1" using demo_live [of RUNNABLE RUNNABLE i] by (simp add: live_def demo_sem_fields demo_fields)
  show "t_pstruct (thr_mem demo_sem (threads demo_sem ! i)) = t_pstruct (thr_mem demo_sem (threads demo_sem ! j))"
    by (simp add: demo_sem_fields demo_fields demo_thread_def)
  show "k < THREAD_NUM \<Longrightarrow> runnable demo_sem k \<longleftrightarrow> k = 0 \<or> k = 1"
    using demo_runnable [of k RUNNABLE RUNNABLE] demo_sem_facts(7) by (simp add: THREAD_NUM_def)
qed

theorem pipe_refines_cell_witness:
  "\<exists>s'. pwrite 0x5000 6 demo_sem = Inr (1, s') \<and> pipe_cell 0 6 s' = Some (text_at (bytes demo_sem) 0x5000 6)"
proof -
  have c: "live demo_sem 0" "cur_thread_index demo_sem = int 0" "at_rest 0 demo_sem"
    "0 = t_pstruct (thr_mem demo_sem (threads demo_sem ! 0))" "apart (pipe_ptr (pipe_mem demo_sem 0)) 0x5000 6"
    "pipe_cell 0 6 demo_sem = None"
    using demo_sem_facts(6)
    by (simp_all add: demo_sem_ok at_rest_def demo_sem_fields demo_fields demo_thread_def empty_thread_def apart_def pipe_cell_def)
  show ?thesis using pipe_refines_cell [OF demo_sem_ok(1) c(1,2,4,3,5)] c(6) by auto
qed

text \<open>
  C26. The hand-over of a message. When the reader comes first to an empty pipe and the only other
  runnable thread is the writer that shares it, \<open>waitp\<close> blocks the reader and the writer gets the
  processor; its \<open>pwrite\<close> and \<open>signalp\<close> give the processor back to the reader, whose \<open>pread\<close> then
  finds exactly the bytes written. The semaphore is left as it was found, without credit or
  waiters, and the pipe is empty again.
\<close>

theorem pipe_handover:
  assumes "table_ok s" "sems_ok s" "\<not> isbadsem sem" "semstate (semtable s ! nat sem) = S_USED" "semcount (semtable s ! nat sem) = 0"
    and "live s r" "cur_thread_index s = int r" "threads s ! r \<noteq> 0" "live s w" "w \<noteq> r"
    and "\<forall>k<THREAD_NUM. runnable s k \<longleftrightarrow> k = r \<or> k = w"
    and "t_pstruct (thr_mem s (threads s ! r)) = p" "t_pstruct (thr_mem s (threads s ! w)) = p"
    and "pstate (pipe_mem s p) = EMPTY" "pipe_ptr (pipe_mem s p) = q" "apart q buf n" "apart q out n"
  shows "\<exists>s1 s2 s3 s4. waitp ra sem s = Inr (1, s1) \<and> cur_thread_index s1 = int w \<and>
    t_state (thr_mem s1 (threads s1 ! r)) = WAIT \<and>
    pwrite buf n s1 = Inr (1, s2) \<and> signalp ra' sem s2 = Inr (1, s3) \<and> cur_thread_index s3 = int r \<and>
    pread out n s3 = Inr (1, s4) \<and> text_at (bytes s4) out n = text_at (bytes s) buf n \<and>
    pipe_cell p n s4 = None \<and> semcount (semtable s4 ! nat sem) = 0 \<and> waiting (semqueue (semtable s4 ! nat sem)) = []"
proof -
  have wl: "w < THREAD_NUM" using table_ok_live(6) [OF assms(1,9)] .
  obtain s1 e1 where 1: "waitp ra sem s = Inr (1, s1)" "cur_thread_index s1 = int w" "table_ok s1" "sems_ok s1"
    "live s1 = live s" "threads s1 = threads s" "tid_index_dict s1 = tid_index_dict s" "same_pipes s s1"
    "semtable s1 ! nat sem = e1" "semstate e1 = S_USED" "semcount e1 = - 1"
    "waiting (semqueue e1) = [tid_index_dict s ! r]"
    "t_state (thr_mem s1 (threads s ! r)) = WAIT" "\<forall>k<THREAD_NUM. runnable s1 k \<longleftrightarrow> k = w"
    "\<forall>a. t_pstruct (thr_mem s1 a) = t_pstruct (thr_mem s a)"
    by (rule reader_blocks [OF assms(1-3) refl assms(4-8) wl assms(10,11), of ra]) (use assms(12,14) in simp_all)
  have mem1: "bytes s1 = bytes s" "pipe_mem s1 = pipe_mem s" using 1(8) by (simp_all add: same_pipes_def)
  have p1: "p = t_pstruct (thr_mem s1 (threads s1 ! w))" using 1(6,15) assms(13) by simp
  obtain s2 where 2: "pwrite buf n s1 = Inr (fst (cell_put (text_at (bytes s1) buf n) (pipe_cell p n s1)), s2)"
    "pipe_cell p n s2 = snd (cell_put (text_at (bytes s1) buf n) (pipe_cell p n s1))"
    "at_rest p s2"
    "s2 = s1\<lparr>int_flag := True, bytes := bytes s2, pipe_mem := (pipe_mem s1)(p := (pipe_mem s1 p)\<lparr>pstate := EXIST\<rparr>)\<rparr>"
    "\<forall>a. n \<le> a - pipe_ptr (pipe_mem s1 p) \<longrightarrow> bytes s2 a = bytes s1 a"
    by (rule pwrite_cell [OF 1(3) _ 1(2) p1, of buf n])
      (use 1(5) assms(9,14-16) mem1 in \<open>simp_all add: at_rest_def\<close>)
  have cell2: "pwrite buf n s1 = Inr (1, s2)" "pipe_cell p n s2 = Some (text_at (bytes s) buf n)"
    using 2(1,2) assms(14) by (simp_all add: pipe_cell_def mem1)
  obtain B where s2: "s2 = s1\<lparr>int_flag := True, bytes := B, pipe_mem := (pipe_mem s1)(p := (pipe_mem s1 p)\<lparr>pstate := EXIST\<rparr>)\<rparr>"
    using 2(4) by blast
  have f2: "table_ok s2 = table_ok s1" "sems_ok s2 = sems_ok s1" "live s2 = live s1" "runnable s2 = runnable s1"
    using table_ok_cong [of s2 s1] by (simp_all add: s2 sems_ok_def live_def runnable_def fun_eq_iff)
  have "pstate (pipe_mem s2 (t_pstruct (thr_mem s2 (threads s2 ! w)))) = EXIST" using p1 by (simp add: s2)
  moreover have "table_ok s2" "sems_ok s2" "semtable s2 ! nat sem = e1" "waiting (semqueue e1) = [tid_index_dict s2 ! r]"
    "live s2 r" "threads s2 ! r \<noteq> 0" "live s2 w" "cur_thread_index s2 = int w" "\<forall>k<THREAD_NUM. runnable s2 k \<longleftrightarrow> k = w"
    using 1 f2 assms by (simp_all add: s2)
  ultimately obtain s3 e3 where 3: "signalp ra' sem s2 = Inr (1, s3)" "cur_thread_index s3 = int r" "table_ok s3"
    "live s3 = live s2" "threads s3 = threads s2" "same_pipes s2 s3" "semtable s3 ! nat sem = e3" "semcount e3 = 0"
    "waiting (semqueue e3) = []" "\<forall>a. t_pstruct (thr_mem s3 a) = t_pstruct (thr_mem s2 a)"
    using writer_wakes [of s2 sem e1 r w ra'] assms(3,10) 1(10,11) by metis
  have mem3: "bytes s3 = bytes s2" "pipe_mem s3 = pipe_mem s2" using 3(6) by (simp_all add: same_pipes_def)
  have cell3: "pipe_cell p n s3 = Some (text_at (bytes s) buf n)" using cell2(2) unfolding pipe_cell_def mem3 .
  have l3: "live s3 r" using 3(4) f2(3) 1(5) assms(6) by simp
  have p3: "p = t_pstruct (thr_mem s3 (threads s3 ! r))" "at_rest p s3" "pipe_ptr (pipe_mem s3 p) = q"
    using 1(6,15) 3(5,10) assms(12,15) mem1 by (simp_all add: s2 at_rest_def mem3)
  have apart4: "apart (pipe_ptr (pipe_mem s3 p)) out n" using p3(3) assms(17) by simp
  obtain s4 where 4: "pread out n s3 = Inr (fst (cell_take (pipe_cell p n s3)), s4)"
    "pipe_cell p n s4 = snd (cell_take (pipe_cell p n s3))"
    "at_rest p s4" "\<forall>m. pipe_cell p n s3 = Some m \<longrightarrow> text_at (bytes s4) out n = m"
    "s4 = s3\<lparr>int_flag := True, bytes := bytes s4, pipe_mem := (pipe_mem s3)(p := (pipe_mem s3 p)\<lparr>pstate := EMPTY\<rparr>)\<rparr>"
    "\<forall>a. n \<le> a - out \<longrightarrow> bytes s4 a = bytes s3 a"
    using apart4 by (rule pread_cell [OF 3(3) l3 3(2) p3(1,2)])
  have "semtable s4 = semtable s3" using arg_cong [OF 4(5), of semtable] by simp
  then have "pread out n s3 = Inr (1, s4)" "text_at (bytes s4) out n = text_at (bytes s) buf n" "pipe_cell p n s4 = None"
    "semcount (semtable s4 ! nat sem) = 0" "waiting (semqueue (semtable s4 ! nat sem)) = []"
    using 4(1,2,4) cell3 3(7-9) by simp_all
  moreover have "t_state (thr_mem s1 (threads s1 ! r)) = WAIT" using 1(6,13) by simp
  ultimately show ?thesis using 1(1,2) cell2(1) 3(1,2) by blast
qed

theorem pipe_handover_witness:
  "\<exists>s1 s2 s3 s4. waitp 0 0 demo_sem = Inr (1, s1) \<and> pwrite 0x5000 6 s1 = Inr (1, s2) \<and> signalp 0 0 s2 = Inr (1, s3) \<and>
    pread 0x6000 6 s3 = Inr (1, s4) \<and> text_at (bytes s4) 0x6000 6 = text_at (bytes demo_sem) 0x5000 6"
proof -
  have c: "live demo_sem 0" "live demo_sem 1" "cur_thread_index demo_sem = int 0" "threads demo_sem ! 0 \<noteq> 0"
    "t_pstruct (thr_mem demo_sem (threads demo_sem ! 0)) = 0" "t_pstruct (thr_mem demo_sem (threads demo_sem ! 1)) = 0"
    "pstate (pipe_mem demo_sem 0) = EMPTY" "pipe_ptr (pipe_mem demo_sem 0) = 0"
    "semstate (semtable demo_sem ! nat 0) = S_USED" "semcount (semtable demo_sem ! nat 0) = 0"
    "\<forall>k<THREAD_NUM. runnable demo_sem k \<longleftrightarrow> k = 0 \<or> k = 1" "\<not> isbadsem 0"
    "apart 0 (0x5000::u64) 6" "apart 0 (0x6000::u64) 6"
    using demo_sem_facts(3,4,6) demo_sem_ok(3) [of 0] demo_sem_ok(3) [of 1] demo_sem_ok(5)
    by (simp_all add: demo_sem_fields demo_fields demo_thread_def empty_thread_def isbadsem_def NSEM_def apart_def)
  from pipe_handover [OF demo_sem_ok(1,2) c(12,9,10,1,3,4,2) _ c(11,5-8,13,14), of 0 0] show ?thesis by auto
qed

end
