(* ===== verification/Pci.thy ===== *)
theory Pci
  imports Threads
begin

text \<open>
  kernel/device/pci.c: the configuration space of PCI functions and the search for the AHCI
  controller. The host bridge is a parameter: \<open>rd w port\<close> is the dword that reading \<open>port\<close> returns
  when \<open>w\<close> gives the dwords last written to the ports.
\<close>

definition CRLF :: string where "CRLF = [CHR 0x0D, CHR 0x0A]"

section \<open>Configuration space\<close>

record pci = sys +
  out32 :: "u16 \<Rightarrow> u32"
  abar :: u64

record pci_config_space =
  vendor :: u16
  device :: u16
  command :: u16
  status :: u16
  revision_id :: u8
  prog_if :: u8
  sub_class :: u8
  class_code :: u8
  cache_line_size :: u8
  latency_timer :: u8
  header_type :: u8
  bist :: u8
  capabilities_pointer :: u8
  interrupt_line :: u8
  interrupt_pin :: u8

type_synonym ports = "(u16 \<Rightarrow> u32) \<Rightarrow> u16 \<Rightarrow> u32"

definition io_out32 :: "u16 \<Rightarrow> u32 \<Rightarrow> 'z pci_scheme \<Rightarrow> 'z pci_scheme" where
  "io_out32 port val s = s\<lparr>out32 := (out32 s)(port := val)\<rparr>"

definition io_in32 :: "ports \<Rightarrow> u16 \<Rightarrow> 'z pci_scheme \<Rightarrow> u32" where
  "io_in32 rd port s = rd (out32 s) port"

definition PCI_CONFIG_ADDRESS :: u16 where "PCI_CONFIG_ADDRESS = 0xcf8"
definition PCI_CONFIG_DATA :: u16 where "PCI_CONFIG_DATA = 0xcfc"

definition pci_address :: "u8 \<Rightarrow> u8 \<Rightarrow> u8 \<Rightarrow> u8 \<Rightarrow> u32" where
  "pci_address bus slot func offset =
     (let bus_number = ucast bus; device_number = ucast slot; func_number = ucast func
      in or (or (or (or (push_bit 16 bus_number) (push_bit 11 device_number)) (push_bit 8 func_number))
           (and (ucast offset) 0xfc)) 0x80000000)"

definition pci_config_read_byte ::
  "ports \<Rightarrow> u8 \<Rightarrow> u8 \<Rightarrow> u8 \<Rightarrow> u8 \<Rightarrow> 'z pci_scheme \<Rightarrow> u16 \<times> 'z pci_scheme" where
  "pci_config_read_byte rd bus slot func offset s =
     (let s = io_out32 PCI_CONFIG_ADDRESS (pci_address bus slot func offset) s;
          v = and (drop_bit (unat (offset mod 4) * 8) (io_in32 rd PCI_CONFIG_DATA s)) 0xffff
      in (ucast (ucast v :: u8), s))"

definition pci_config_read_word ::
  "ports \<Rightarrow> u8 \<Rightarrow> u8 \<Rightarrow> u8 \<Rightarrow> u8 \<Rightarrow> 'z pci_scheme \<Rightarrow> u16 \<times> 'z pci_scheme" where
  "pci_config_read_word rd bus slot func offset s =
     (let s = io_out32 PCI_CONFIG_ADDRESS (pci_address bus slot func offset) s
      in (ucast (and (drop_bit (unat (and offset 2) * 8) (io_in32 rd PCI_CONFIG_DATA s)) 0xffff), s))"

definition pci_config_read_dword ::
  "ports \<Rightarrow> u8 \<Rightarrow> u8 \<Rightarrow> u8 \<Rightarrow> u8 \<Rightarrow> 'z pci_scheme \<Rightarrow> u32 \<times> 'z pci_scheme" where
  "pci_config_read_dword rd bus slot func offset s =
     (let s = io_out32 PCI_CONFIG_ADDRESS (pci_address bus slot func offset) s
      in (io_in32 rd PCI_CONFIG_DATA s, s))"

text \<open>\<open>config\<close> is what the uninitialised local structure holds.\<close>

definition pci_check_parameters ::
  "ports \<Rightarrow> pci_config_space \<Rightarrow> u8 \<Rightarrow> u8 \<Rightarrow> u8 \<Rightarrow> 'z pci_scheme \<Rightarrow> pci_config_space \<times> 'z pci_scheme" where
  "pci_check_parameters rd config bus slot func s =
     (let (v, s) = pci_config_read_word rd bus slot func 0x00 s;
          config = config\<lparr>vendor := v\<rparr>
      in if v \<noteq> 0xffff then
        let (v, s) = pci_config_read_word rd bus slot func 0x02 s; config = config\<lparr>device := v\<rparr>;
            (v, s) = pci_config_read_word rd bus slot func 0x04 s; config = config\<lparr>command := v\<rparr>;
            (v, s) = pci_config_read_word rd bus slot func 0x06 s; config = config\<lparr>status := v\<rparr>;
            (v, s) = pci_config_read_byte rd bus slot func 0x08 s; config = config\<lparr>revision_id := ucast v\<rparr>;
            (v, s) = pci_config_read_byte rd bus slot func 0x09 s; config = config\<lparr>prog_if := ucast v\<rparr>;
            (v, s) = pci_config_read_byte rd bus slot func 0x0a s; config = config\<lparr>sub_class := ucast v\<rparr>;
            (v, s) = pci_config_read_byte rd bus slot func 0x0b s; config = config\<lparr>class_code := ucast v\<rparr>;
            (v, s) = pci_config_read_byte rd bus slot func 0x0c s; config = config\<lparr>cache_line_size := ucast v\<rparr>;
            (v, s) = pci_config_read_byte rd bus slot func 0x0d s; config = config\<lparr>latency_timer := ucast v\<rparr>;
            (v, s) = pci_config_read_byte rd bus slot func 0x0e s; config = config\<lparr>header_type := ucast v\<rparr>;
            (v, s) = pci_config_read_byte rd bus slot func 0x0f s; config = config\<lparr>bist := ucast v\<rparr>;
            (v, s) = pci_config_read_byte rd bus slot func 0x34 s; config = config\<lparr>capabilities_pointer := ucast v\<rparr>;
            (v, s) = pci_config_read_byte rd bus slot func 0x3c s; config = config\<lparr>interrupt_line := ucast v\<rparr>;
            (v, s) = pci_config_read_byte rd bus slot func 0x3d s; config = config\<lparr>interrupt_pin := ucast v\<rparr>
        in (config, s)
      else (config, s))"

definition print_device_info :: "nat \<Rightarrow> nat \<Rightarrow> nat \<Rightarrow> pci_config_space \<Rightarrow> 'z cpu_scheme \<Rightarrow> 'z cpu_scheme" where
  "print_device_info bus dev func config s =
     (let s = say_num ''bus: '' (of_nat bus) s;
          s = say_num ''device: '' (of_nat dev) s;
          s = say_num ''function: '' (of_nat func) s;
          s = say_num ''vendor: '' (ucast (vendor config)) s;
          s = say_num ''device: '' (ucast (device config)) s;
          s = say_num ''command: '' (ucast (command config)) s;
          s = say_num ''status: '' (ucast (status config)) s;
          s = say_num ''revision_id: '' (ucast (revision_id config)) s;
          s = say_num ''prog_if: '' (ucast (prog_if config)) s;
          s = say_num ''subclass: '' (ucast (sub_class config)) s;
          s = say_num ''class_code: '' (ucast (class_code config)) s;
          s = say_num ''cache_line_size: '' (ucast (cache_line_size config)) s;
          s = say_num ''latency_timer: '' (ucast (latency_timer config)) s;
          s = say_num ''header_type: '' (ucast (header_type config)) s;
          s = say_num ''bist: '' (ucast (bist config)) s;
          s = say_num ''capabilities_pointer: '' (ucast (capabilities_pointer config)) s;
          s = say_num ''interrupt_line: '' (ucast (interrupt_line config)) s;
          s = say_num ''interrupt_pin: '' (ucast (interrupt_pin config)) s
      in say ''\<newline>'' s)"

definition get_ahci_base_address :: "ports \<Rightarrow> nat \<Rightarrow> nat \<Rightarrow> nat \<Rightarrow> 'z pci_scheme \<Rightarrow> u64 \<times> 'z pci_scheme" where
  "get_ahci_base_address rd bus dev func s =
     (let (v, s) = pci_config_read_dword rd (of_nat bus) (of_nat dev) (of_nat func) 0x24 s in (ucast v, s))"

text \<open>The body of the three loops of \<open>check_all_buses\<close>, and the loops.\<close>

definition check_function ::
  "ports \<Rightarrow> pci_config_space \<Rightarrow> nat \<Rightarrow> nat \<Rightarrow> nat \<Rightarrow> 'z pci_scheme \<Rightarrow> 'z pci_scheme" where
  "check_function rd junk bus dev func s =
     (let (config, s) = pci_check_parameters rd junk (of_nat bus) (of_nat dev) (of_nat func) s
      in if vendor config \<noteq> 0xffff then
           let s = print_device_info bus dev func config s
           in if class_code config = 0x01 \<and> sub_class config = 0x06 then
                let (base, s) = get_ahci_base_address rd bus dev func s;
                    s = s\<lparr>abar := base\<rparr>;
                    s = say (''AHCI device found!!!'' @ CRLF) s;
                    s = say_num ''ABAR: '' (abar s) s
                in say CRLF s
              else s
         else s)"

definition check_all_buses :: "ports \<Rightarrow> pci_config_space \<Rightarrow> 'z pci_scheme \<Rightarrow> 'z pci_scheme" where
  "check_all_buses rd junk s =
     fold (\<lambda>bus. fold (\<lambda>dev. fold (\<lambda>func. check_function rd junk bus dev func) [0..<8]) [0..<32]) [0..<256] s"


section \<open>What the reads return\<close>

text \<open>The host bridge: \<open>cfg a\<close> is the register that configuration address \<open>a\<close> selects.\<close>

definition bridge :: "(u32 \<Rightarrow> u32) \<Rightarrow> ports \<Rightarrow> bool" where
  "bridge cfg rd \<longleftrightarrow> (\<forall>w. rd w PCI_CONFIG_DATA = cfg (w PCI_CONFIG_ADDRESS))"

definition asked :: "u8 \<Rightarrow> u8 \<Rightarrow> u8 \<Rightarrow> u8 \<Rightarrow> 'z pci_scheme \<Rightarrow> 'z pci_scheme" where
  "asked bus slot func offset s = io_out32 PCI_CONFIG_ADDRESS (pci_address bus slot func offset) s"

lemma in32_asked: "bridge cfg rd \<Longrightarrow> io_in32 rd PCI_CONFIG_DATA (asked b d f off s) = cfg (pci_address b d f off)"
  by (simp add: bridge_def asked_def io_in32_def io_out32_def)

lemma config_reads:
  assumes "bridge cfg rd"
  shows "pci_config_read_dword rd b d f off s = (cfg (pci_address b d f off), asked b d f off s)"
    "pci_config_read_word rd b d f off s =
      (ucast (drop_bit (unat (and off 2) * 8) (cfg (pci_address b d f off))), asked b d f off s)"
    "pci_config_read_byte rd b d f off s =
      (ucast (ucast (drop_bit (unat (off mod 4) * 8) (cfg (pci_address b d f off))) :: u8), asked b d f off s)"
proof -
  note r = in32_asked [OF assms, of b d f off s, unfolded asked_def]
  have m: "and v 0xffff = take_bit 16 v" for v :: u32 by (simp add: take_bit_eq_mask mask_eq_exp_minus_1)
  have "(ucast (and v 0xffff) :: u16) = ucast v" "(ucast (and v 0xffff) :: u8) = ucast v" for v :: u32
    unfolding m by (rule bit_word_eqI; auto simp: bit_simps)+
  then show "pci_config_read_word rd b d f off s =
      (ucast (drop_bit (unat (and off 2) * 8) (cfg (pci_address b d f off))), asked b d f off s)"
    "pci_config_read_byte rd b d f off s =
      (ucast (ucast (drop_bit (unat (off mod 4) * 8) (cfg (pci_address b d f off))) :: u8), asked b d f off s)"
    by (simp_all add: pci_config_read_word_def pci_config_read_byte_def Let_def r asked_def)
qed (simp add: pci_config_read_dword_def Let_def in32_asked [OF assms, of b d f off s, unfolded asked_def] asked_def)


lemma asked_abar [simp]: "abar (asked b d f off s) = abar s"
  by (simp add: asked_def io_out32_def)

text \<open>Only the ports, the interrupt flag and \<open>abar\<close> change.\<close>

definition ports_only :: "'z pci_scheme \<Rightarrow> 'z pci_scheme \<Rightarrow> bool" where
  "ports_only s s' \<longleftrightarrow> (\<exists>i p w a. s' = s\<lparr>int_flag := i, port_out := p, out32 := w, abar := a\<rparr>)"

lemma ports_only_trans: "ports_only s t \<Longrightarrow> ports_only t u \<Longrightarrow> ports_only s u"
  unfolding ports_only_def by (elim exE, hypsubst, intro exI, simp)

lemma ports_only_refl: "ports_only s s"
  unfolding ports_only_def
  by (rule exI [of _ "int_flag s"], rule exI [of _ "port_out s"], rule exI [of _ "out32 s"], rule exI [of _ "abar s"]) simp

lemma ports_only_step:
  "ports_only s (asked b d f off s)" "ports_only s (say m s)" "ports_only s (say_num m n s)" "ports_only s (s\<lparr>abar := v\<rparr>)"
proof -
  have "ports_only s (s\<lparr>port_out := p, int_flag := True\<rparr>)" for p
    unfolding ports_only_def
    by (rule exI [of _ True], rule exI [of _ p], rule exI [of _ "out32 s"], rule exI [of _ "abar s"]) simp
  then show "ports_only s (say m s)" "ports_only s (say_num m n s)" by (simp_all only: say_upd say_num_upd)
  have "ports_only s (s\<lparr>out32 := w, abar := a\<rparr>)" for w a
    unfolding ports_only_def
    by (rule exI [of _ "int_flag s"], rule exI [of _ "port_out s"], rule exI [of _ w], rule exI [of _ a]) simp
  from this [where a = "abar s"] this [where w = "out32 s"]
  show "ports_only s (asked b d f off s)" "ports_only s (s\<lparr>abar := v\<rparr>)" by (simp_all add: asked_def io_out32_def)
qed

lemmas ports_only_intros = ports_only_refl ports_only_step [THEN [2] ports_only_trans]

lemma say_abar [simp]: "abar (say m s) = abar s" "abar (say_num m n s) = abar s"
  by (simp_all add: say_upd say_num_upd)

lemma print_device_info_spec: "abar (print_device_info b d f c s) = abar s" "ports_only s (print_device_info b d f c s)"
  unfolding print_device_info_def Let_def by (simp, intro ports_only_intros)


section \<open>The search for the controller\<close>

definition fun_addr :: "nat \<times> nat \<times> nat \<Rightarrow> u8 \<Rightarrow> u32" where
  "fun_addr = (\<lambda>(bus, slot, func). pci_address (of_nat bus) (of_nat slot) (of_nat func))"

text \<open>The registers of a present AHCI controller: a vendor, class 1 and subclass 6.\<close>

definition is_ahci :: "(u32 \<Rightarrow> u32) \<Rightarrow> nat \<times> nat \<times> nat \<Rightarrow> bool" where
  "is_ahci cfg f \<longleftrightarrow> (ucast (cfg (fun_addr f 0)) :: u16) \<noteq> 0xffff \<and> drop_bit 16 (cfg (fun_addr f 8)) = 0x0106"

definition pci_functions :: "(nat \<times> nat \<times> nat) list" where
  "pci_functions = concat (map (\<lambda>b. concat (map (\<lambda>d. map (\<lambda>f. (b, d, f)) [0..<8]) [0..<32])) [0..<256])"

lemma class_register:
  fixes v :: u32
  shows "(ucast (drop_bit 24 v) :: u8) = 1 \<and> (ucast (drop_bit 16 v) :: u8) = 6 \<longleftrightarrow> drop_bit 16 v = 0x0106"
proof -
  have d: "unat (drop_bit 16 v) = unat v div 65536" "unat (drop_bit 24 v) = unat v div 16777216"
    by (simp_all only: unat_drop_bit_eq) (simp_all add: drop_bit_eq_div)
  define n where "n = unat v div 65536"
  have "unat v < 4294967296" using unsigned_less [of v] by simp
  then have "n div 256 < 256" by (simp add: n_def div_mult2_eq [symmetric] less_mult_imp_div_less)
  moreover have "unat v div 16777216 = n div 256" by (simp add: n_def div_mult2_eq [symmetric])
  moreover have "n = 262" if "n div 256 = 1" "n mod 256 = 6"
  proof -
    have "n = 256 * (n div 256) + n mod 256" by simp
    then show ?thesis unfolding that by simp
  qed
  ultimately have "unat v div 16777216 mod 256 = 1 \<and> n mod 256 = 6 \<longleftrightarrow> n = 262" by auto
  moreover have "unat (ucast x :: u8) = unat x mod 256" for x :: u32 by (simp add: unsigned_ucast_eq take_bit_eq_mod)
  moreover have "y = 1 \<longleftrightarrow> unat y = 1" "y = 6 \<longleftrightarrow> unat y = 6" for y :: u8 by (auto simp: word_unat_eq_iff)
  moreover have "x = 0x0106 \<longleftrightarrow> unat x = 262" for x :: u32 by (auto simp: word_unat_eq_iff)
  ultimately show ?thesis by (metis d n_def)
qed

lemma check_parameters:
  assumes "bridge cfg rd"
  obtains c s' where "pci_check_parameters rd junk b d f s = (c, s')" "abar s' = abar s" "ports_only s s'"
    "vendor c = ucast (cfg (pci_address b d f 0))"
    "vendor c \<noteq> 0xffff \<longrightarrow> class_code c = ucast (drop_bit 24 (cfg (pci_address b d f 8))) \<and>
       sub_class c = ucast (drop_bit 16 (cfg (pci_address b d f 8)))"
proof -
  note r = config_reads [OF assms]
  have u: "(ucast (ucast x :: u16) :: u8) = x" for x :: u8 by (rule bit_word_eqI) (auto simp: bit_simps)
  have a: "pci_address b d f 0x0a = pci_address b d f 8" "pci_address b d f 0x0b = pci_address b d f 8"
    by (simp_all add: pci_address_def)
  show thesis
  proof (cases "(ucast (cfg (pci_address b d f 0)) :: u16) = 0xffff")
    case True
    then show thesis
      by (intro that [OF surjective_pairing])
        (simp_all add: pci_check_parameters_def r Let_def ports_only_step(1))
  next
    case False
    then show thesis
      by (intro that [OF surjective_pairing])
        (simp_all add: pci_check_parameters_def r Let_def a u, intro ports_only_intros)
  qed
qed


lemma check_function_spec:
  assumes "bridge cfg rd"
  shows "abar (check_function rd junk b d f s) =
      (if is_ahci cfg (b, d, f) then ucast (cfg (fun_addr (b, d, f) 0x24)) else abar s)"
    "ports_only s (check_function rd junk b d f s)"
proof -
  let ?a = "pci_address (of_nat b) (of_nat d) (of_nat f)"
  obtain c s' where c: "pci_check_parameters rd junk (of_nat b) (of_nat d) (of_nat f) s = (c, s')"
    "abar s' = abar s" "ports_only s s'" "vendor c = ucast (cfg (?a 0))"
    "vendor c \<noteq> 0xffff \<longrightarrow> class_code c = ucast (drop_bit 24 (cfg (?a 8))) \<and> sub_class c = ucast (drop_bit 16 (cfg (?a 8)))"
    using check_parameters [OF assms] .
  have p: "ports_only s (print_device_info b d f c s')"
    using c(3) print_device_info_spec(2) by (rule ports_only_trans)
  have test: "is_ahci cfg (b, d, f) \<longleftrightarrow> vendor c \<noteq> 0xffff \<and> class_code c = 1 \<and> sub_class c = 6"
    using c(4,5) class_register [of "cfg (?a 8)"] by (auto simp: is_ahci_def fun_addr_def)
  have base: "get_ahci_base_address rd b d f t = (ucast (cfg (?a 0x24)), asked (of_nat b) (of_nat d) (of_nat f) 0x24 t)"
    for t :: "'a pci_scheme"
    by (simp add: get_ahci_base_address_def config_reads [OF assms])
  show "abar (check_function rd junk b d f s) =
      (if is_ahci cfg (b, d, f) then ucast (cfg (fun_addr (b, d, f) 0x24)) else abar s)"
    using c(2) by (simp add: check_function_def c(1) test base Let_def print_device_info_spec(1) fun_addr_def)
  show "ports_only s (check_function rd junk b d f s)"
    using p c(3) by (auto simp: check_function_def c(1) base Let_def
        intro!: ports_only_step [THEN [2] ports_only_trans])
qed

lemma fold_concat: "fold f (concat xss) = fold (fold f) xss"
  by (induction xss) simp_all

lemma check_all_eq:
  "check_all_buses rd junk s = fold (\<lambda>(b, d, f). check_function rd junk b d f) pci_functions s"
  by (simp add: check_all_buses_def pci_functions_def fold_concat fold_map comp_def case_prod_beta del: upt_Suc)

lemma fold_check:
  assumes "bridge cfg rd"
  shows "abar (fold (\<lambda>(b, d, f). check_function rd junk b d f) fs s) =
      (if filter (is_ahci cfg) fs = [] then abar s else ucast (cfg (fun_addr (last (filter (is_ahci cfg) fs)) 0x24))) \<and>
    ports_only s (fold (\<lambda>(b, d, f). check_function rd junk b d f) fs s)"
proof (induction fs arbitrary: s)
  case (Cons x fs)
  obtain b d f where x: "x = (b, d, f)" by (cases x)
  show ?case
    using Cons [of "check_function rd junk b d f s"] check_function_spec [OF assms, where s = s and b = b and d = d and f = f and junk = junk]
    by (auto simp: x intro: ports_only_trans)
qed (simp add: ports_only_refl)

section \<open>Configuration addresses\<close>

lemma word_bit_lt:
  fixes x :: "'a::len word"
  assumes "unat x < 2 ^ n" "bit x m"
  shows "m < n"
proof -
  have "take_bit n (unat x) = unat x" using assms(1) by (rule take_bit_nat_eq_self)
  moreover have "bit (unat x) m" using assms(2) by (simp add: bit_unsigned_iff)
  ultimately show ?thesis by (metis bit_take_bit_iff)
qed

lemma mask_fc: "and x 0xfc = push_bit 2 (drop_bit 2 (take_bit 8 x))" for x :: u32
proof -
  have fc: "(0xfc :: 32 word) = push_bit 2 (mask 6)" by (simp add: mask_eq_exp_minus_1 push_bit_eq_mult)
  have sd: "2 \<le> n \<Longrightarrow> Suc (Suc (n - 2)) = n" for n by simp
  show ?thesis unfolding fc by (rule bit_word_eqI) (auto simp: sd bit_and_iff bit_push_bit_iff bit_drop_bit_eq bit_take_bit_iff bit_mask_iff possible_bit_word)
qed

lemma address_sum:
  fixes b d f off :: u8
  assumes "unat d < 32" "unat f < 8"
  shows "or (or (or (or (push_bit 16 (ucast b)) (push_bit 11 (ucast d))) (push_bit 8 (ucast f))) (and (ucast off) 0xfc)) (0x80000000 :: 32 word) =
    0x80000000 + push_bit 16 (ucast b) + push_bit 11 (ucast d) + push_bit 8 (ucast f) + push_bit 2 (drop_bit 2 (ucast off))"
proof -
  have d: "bit d n \<Longrightarrow> n < 5" for n using word_bit_lt [of d 5 n] assms(1) by simp
  have f: "bit f n \<Longrightarrow> n < 3" for n using word_bit_lt [of f 3 n] assms(2) by simp
  have o8: "bit off n \<Longrightarrow> n < 8" "bit b n \<Longrightarrow> n < 8" for n  using bit_imp_le_length by fastforce+
  have m: "and (ucast off) 0xfc = (push_bit 2 (drop_bit 2 (ucast off)) :: 32 word)"
    unfolding mask_fc by (rule bit_word_eqI) (auto simp: bit_simps dest: o8)
  let ?b = "push_bit 16 (ucast b) :: 32 word" and ?d = "push_bit 11 (ucast d) :: 32 word"
  let ?f = "push_bit 8 (ucast f) :: 32 word" and ?o = "push_bit 2 (drop_bit 2 (ucast off)) :: 32 word"
  define T :: u32 where "T = push_bit 31 1"
  have t: "0x80000000 = T" by (simp add: T_def push_bit_eq_mult)
  have top: "bit T n \<longleftrightarrow> n = 31" for n unfolding T_def by (simp only: bit_push_bit_iff bit_1_iff) auto
  have bits: "bit T n \<Longrightarrow> n = 31" "bit ?b n \<Longrightarrow> 16 \<le> n \<and> n < 24" "bit ?d n \<Longrightarrow> 11 \<le> n \<and> n < 16"
    "bit ?f n \<Longrightarrow> 8 \<le> n \<and> n < 11" "bit ?o n \<Longrightarrow> n < 8" for n
  proof -
    show "bit T n \<Longrightarrow> n = 31" by (simp only: top)
  qed (auto simp: bit_simps dest: d f o8)
  have 1: "or T ?b = T + ?b" by (rule disjunctive_add [symmetric]) (auto dest!: bits)
  have 2: "or (or T ?b) ?d = T + ?b + ?d" unfolding 1 [symmetric]
    by (rule disjunctive_add [symmetric]) (auto simp: bit_or_iff dest!: bits)
  have 3: "or (or (or T ?b) ?d) ?f = T + ?b + ?d + ?f" unfolding 2 [symmetric]
    by (rule disjunctive_add [symmetric]) (auto simp: bit_or_iff dest!: bits)
  have 4: "or (or (or (or T ?b) ?d) ?f) ?o = T + ?b + ?d + ?f + ?o" unfolding 3 [symmetric]
    by (rule disjunctive_add [symmetric]) (auto simp: bit_or_iff dest!: bits)
  show ?thesis unfolding m t 4 [symmetric] by (simp add: or.assoc or.commute or.left_commute)
qed

lemma address_value:
  fixes b d f off :: u8
  shows "(0x80000000 :: 32 word) + push_bit 16 (ucast b) + push_bit 11 (ucast d) + push_bit 8 (ucast f) + push_bit 2 (drop_bit 2 (ucast off)) =
    of_nat (2147483648 + 65536 * unat b + 2048 * unat d + 256 * unat f + 4 * (unat off div 4))"
proof -
  have u: "ucast x = (of_nat (unat x) :: 32 word)" for x :: u8 by simp
  have "drop_bit 2 (ucast off) = (of_nat (unat off div 4) :: 32 word)"
  proof (rule word_unat_eq_iff [THEN iffD2])
    have o: "unat off < 256" using unsigned_less [of off, where ?'a = nat] by simp
    then have "unat off div 4 < 4294967296" by simp
    then have "unat (of_nat (unat off div 4) :: 32 word) = unat off div 4" by (simp add: unat_of_nat)
    moreover have "unat (drop_bit 2 (ucast off :: 32 word)) = drop_bit 2 (unat off)"
      by (simp only: unat_drop_bit_eq) (use o in \<open>simp add: unsigned_ucast_eq take_bit_nat_eq_self\<close>)
    ultimately show "unat (drop_bit 2 (ucast off :: 32 word)) = unat (of_nat (unat off div 4) :: 32 word)"
      by (simp add: drop_bit_eq_div)
  qed
  then show ?thesis by (simp add: push_bit_eq_mult algebra_simps)
qed

lemma pci_address_nat:
  assumes "unat slot < 32" "unat func < 8"
  shows "pci_address bus slot func off =
    of_nat (2147483648 + 65536 * unat bus + 2048 * unat slot + 256 * unat func + 4 * (unat off div 4))"
  using address_sum [OF assms, of bus off] address_value [of bus slot func off] by (simp add: pci_address_def Let_def)

section \<open>Properties\<close>

text \<open>
  C34. The three configuration reads agree on one register file: for a slot and a function in range
  all of them select register \<open>off div 4\<close> of that function, at the address the PCI mechanism
  defines; the byte read returns byte \<open>off mod 4\<close> of the register, and at an even offset the word
  read returns the two bytes from there.
\<close>

theorem pci_reads_agree:
  fixes bus slot func off :: u8
  assumes "bridge cfg rd" "unat slot < 32" "unat func < 8"
  defines "v \<equiv> unat (cfg (of_nat (2147483648 + 65536 * unat bus + 2048 * unat slot + 256 * unat func + 4 * (unat off div 4))))"
  shows "unat (fst (pci_config_read_dword rd bus slot func off s)) = v \<and>
    unat (fst (pci_config_read_byte rd bus slot func off s)) = v div 256 ^ (unat off mod 4) mod 256 \<and>
    (even (unat off) \<longrightarrow> unat (fst (pci_config_read_word rd bus slot func off s)) = v div 256 ^ (unat off mod 4) mod 65536)"
proof -
  let ?r = "cfg (pci_address bus slot func off)"
  have v: "v = unat ?r" using pci_address_nat [OF assms(2,3), of bus off] by (simp add: v_def)
  have sh: "unat (drop_bit (8 * k) ?r) = v div 256 ^ k" for k
    by (simp only: unat_drop_bit_eq) (simp add: v drop_bit_eq_div power_mult)
  have m: "unat (off mod 4) * 8 = 8 * (unat off mod 4)" by (simp add: unat_mod)
  have "unat (and off 2) * 8 = 8 * (unat off mod 4)" if "even (unat off)"
  proof -
    have "and (unat off) 2 = unat off mod 4"
    proof -
      have "and (unat off) 2 = 2 * (unat off div 2 mod 2)"
        using and_rec [of "unat off" 2] by (simp add: and_one_eq)
      moreover note that
      ultimately show ?thesis by presburger
    qed
    then show ?thesis by (simp add: unsigned_and_eq)
  qed
  moreover have "unat (ucast y :: u16) = unat y" for y :: u8
    using unsigned_less [of y, where ?'a = nat] by (simp add: unsigned_ucast_eq take_bit_nat_eq_self)
  moreover have "unat (ucast x :: u8) = unat x mod 256" "unat (ucast x :: u16) = unat x mod 65536" for x :: u32
    by (simp_all add: unsigned_ucast_eq take_bit_eq_mod)
  ultimately show ?thesis
    by (auto simp: config_reads [OF assms(1)] v m sh sh [simplified mult.commute])
qed


text \<open>The example: an AHCI controller at bus 0, slot 31, function 2, and nothing else.\<close>

definition demo_cfg :: "u32 \<Rightarrow> u32" where
  "demo_cfg a = (if a = 0x8000fa00 then 0x29228086 else if a = 0x8000fa08 then 0x01060102
     else if a = 0x8000fa24 then 0xfebf1000 else 0xffffffff)"

definition demo_rd :: ports where "demo_rd w port = (if port = PCI_CONFIG_DATA then demo_cfg (w PCI_CONFIG_ADDRESS) else 0)"

lemma demo_bridge: "bridge demo_cfg demo_rd"
  by (simp add: bridge_def demo_rd_def)

theorem pci_reads_agree_witness:
  "\<forall>s :: pci. unat (fst (pci_config_read_dword demo_rd 0 31 2 0x0b s)) = 0x01060102 \<and>
     unat (fst (pci_config_read_byte demo_rd 0 31 2 0x0b s)) = 1 \<and> unat (fst (pci_config_read_word demo_rd 0 31 2 0x0a s)) = 0x106"
proof
  fix s :: pci
  show "unat (fst (pci_config_read_dword demo_rd 0 31 2 0x0b s)) = 0x01060102 \<and>
     unat (fst (pci_config_read_byte demo_rd 0 31 2 0x0b s)) = 1 \<and> unat (fst (pci_config_read_word demo_rd 0 31 2 0x0a s)) = 0x106"
    using pci_reads_agree [OF demo_bridge, of 31 2 0 "0x0b" s] pci_reads_agree [OF demo_bridge, of 31 2 0 "0x0a" s]
    by (simp add: demo_cfg_def)
qed

lemma check_all_buses_spec:
  assumes "bridge cfg rd"
  shows "abar (check_all_buses rd junk s) =
      (case filter (is_ahci cfg) pci_functions of [] \<Rightarrow> abar s | f # fs \<Rightarrow> ucast (cfg (fun_addr (last (f # fs)) 0x24))) \<and>
    (\<exists>i p w. check_all_buses rd junk s = s\<lparr>int_flag := i, port_out := p, out32 := w, abar := abar (check_all_buses rd junk s)\<rparr>)"
proof -
  note f = fold_check [OF assms, of junk pci_functions s, folded check_all_eq]
  then obtain i p w a where e: "check_all_buses rd junk s = s\<lparr>int_flag := i, port_out := p, out32 := w, abar := a\<rparr>"
    by (auto simp: ports_only_def)
  then have "abar (check_all_buses rd junk s) = a" by simp
  with e have "\<exists>i p w. check_all_buses rd junk s = s\<lparr>int_flag := i, port_out := p, out32 := w, abar := abar (check_all_buses rd junk s)\<rparr>"
    by metis
  with f show ?thesis by (auto split: list.splits)
qed

text \<open>
  C33. The search visits every function of every bus and changes nothing but ports, the interrupt
  flag and \<open>abar\<close>: afterwards \<open>abar\<close> is base address register 5 of the last present function whose
  class is 1 and subclass 6, and is what it was when there is none.
\<close>

theorem check_all_buses_abar:
  assumes "bridge cfg rd"
  shows "abar (check_all_buses rd junk s) =
      (case filter (is_ahci cfg) pci_functions of [] \<Rightarrow> abar s | f # fs \<Rightarrow> ucast (cfg (fun_addr (last (f # fs)) 0x24))) \<and>
    (\<exists>i p w. check_all_buses rd junk s = s\<lparr>int_flag := i, port_out := p, out32 := w, abar := abar (check_all_buses rd junk s)\<rparr>)"
  by (rule check_all_buses_spec [OF assms])

lemma pci_functions_mem: "(b, d, f) \<in> set pci_functions \<longleftrightarrow> b < 256 \<and> d < 32 \<and> f < 8"
  by (auto simp: pci_functions_def image_iff)

lemma demo_is_ahci: "f \<in> set pci_functions \<Longrightarrow> is_ahci demo_cfg f \<longleftrightarrow> f = (0, 31, 2)"
proof -
  assume "f \<in> set pci_functions"
  then obtain b d k where f: "f = (b, d, k)" and lt: "b < 256" "d < 32" "k < 8"
    using pci_functions_mem by (metis prod_cases3)
  have u: "unat (of_nat b :: u8) = b" "unat (of_nat d :: u8) = d" "unat (of_nat k :: u8) = k"
    using lt by (simp_all add: unat_of_nat take_bit_nat_eq_self)
  have addr: "fun_addr f 8 = of_nat (2147483656 + 65536 * b + 2048 * d + 256 * k)"
    using pci_address_nat [of "of_nat d" "of_nat k" "of_nat b" 8] u lt by (simp add: fun_addr_def f)
  have "unat (of_nat m :: u32) = m" if "m < 2 ^ 32" for m using that by (simp add: unat_of_nat take_bit_nat_eq_self)
  moreover have "2147483656 + 65536 * b + 2048 * d + 256 * k < 2 ^ 32" using lt by simp
  ultimately have n: "unat (fun_addr f 8) = 2147483656 + 65536 * b + 2048 * d + 256 * k"
    unfolding addr by blast
  have "is_ahci demo_cfg f \<Longrightarrow> fun_addr f 8 = 0x8000fa08"
    by (auto simp: is_ahci_def demo_cfg_def split: if_splits)
  then have "is_ahci demo_cfg f \<Longrightarrow> 65536 * b + 2048 * d + 256 * k = 64000" using n by simp
  moreover have "f = (0, 31, 2)" if e: "65536 * b + 2048 * d + 256 * k = 64000"
  proof -
    have "b = 0" using e by linarith
    moreover have "d > 30" using e lt(3) calculation by linarith
    ultimately have "d = 31" using lt(2) by linarith
    then show ?thesis using e \<open>b = 0\<close> by (simp add: f)
  qed
  ultimately have "is_ahci demo_cfg f \<Longrightarrow> f = (0, 31, 2)" by blast
  moreover have "is_ahci demo_cfg (0, 31, 2)" by (simp add: is_ahci_def demo_cfg_def fun_addr_def pci_address_def)
  ultimately show ?thesis by blast
qed

lemma list_ne: "x \<in> set xs \<Longrightarrow> xs \<noteq> []"
  by auto

lemma demo_last_ahci:
  "filter (is_ahci demo_cfg) pci_functions \<noteq> []" "last (filter (is_ahci demo_cfg) pci_functions) = (0, 31, 2)"
proof -
  have "(0, 31, 2) \<in> set pci_functions" by (simp add: pci_functions_mem)
  then have "(0, 31, 2) \<in> set (filter (is_ahci demo_cfg) pci_functions)" using demo_is_ahci by simp
  then show ne: "filter (is_ahci demo_cfg) pci_functions \<noteq> []" by (rule list_ne)
  from last_in_set [OF ne] demo_is_ahci show "last (filter (is_ahci demo_cfg) pci_functions) = (0, 31, 2)" unfolding set_filter by blast
qed

theorem check_all_buses_abar_witness: "\<forall>(s :: pci) junk. abar (check_all_buses demo_rd junk s) = 0xfebf1000"
proof (intro allI)
  fix s :: pci and junk
  show "abar (check_all_buses demo_rd junk s) = 0xfebf1000"
    using check_all_buses_abar [OF demo_bridge, of junk s] demo_last_ahci
    by (auto split: list.splits simp: demo_cfg_def fun_addr_def pci_address_def)
qed

end
