(* ===== verification/Layout.thy ===== *)
theory Layout
  imports Prelude Bytes
begin

text \<open>
  How the compiler lays out structures (System V ABI for x86-64): a field starts at the next multiple
  of its alignment, and the size is rounded up to the largest alignment. Types are pairs of size and
  alignment; bit fields are given as the storage unit they fill.
\<close>

type_synonym ctype = "nat \<times> nat"

abbreviation c_u8 :: ctype where "c_u8 \<equiv> (1, 1)"
abbreviation c_u16 :: ctype where "c_u16 \<equiv> (2, 2)"
abbreviation c_u32 :: ctype where "c_u32 \<equiv> (4, 4)"
abbreviation c_u64 :: ctype where "c_u64 \<equiv> (8, 8)"

definition c_array :: "nat \<Rightarrow> ctype \<Rightarrow> ctype" where
  "c_array n t = (n * fst t, snd t)"

definition round_up :: "nat \<Rightarrow> nat \<Rightarrow> nat" where
  "round_up al n = (n + al - 1) div al * al"

primrec offsets_from :: "nat \<Rightarrow> ctype list \<Rightarrow> nat list" where
  "offsets_from off [] = []"
| "offsets_from off (t # ts) = (let a = round_up (snd t) off in a # offsets_from (a + fst t) ts)"

primrec end_from :: "nat \<Rightarrow> ctype list \<Rightarrow> nat" where
  "end_from off [] = off"
| "end_from off (t # ts) = end_from (round_up (snd t) off + fst t) ts"

definition offsets :: "ctype list \<Rightarrow> nat list" where
  "offsets ts = offsets_from 0 ts"

definition c_struct :: "ctype list \<Rightarrow> ctype" where
  "c_struct ts = (let al = fold max (map snd ts) 1 in (round_up al (end_from 0 ts), al))"

lemmas layout_defs = c_array_def round_up_def offsets_def c_struct_def Let_def

lemma round_up_ge: "0 < al \<Longrightarrow> n \<le> round_up al n"
proof -
  assume al: "0 < al"
  have "n + al - 1 < (n + al - 1) div al * al + al"
    using al by (metis div_mult_mod_eq mod_less_divisor nat_add_left_cancel_less)
  then show ?thesis unfolding round_up_def by simp
qed

text \<open>Fields do not overlap.\<close>

lemma offsets_apart:
  assumes "\<forall>t\<in>set ts. 0 < snd t" "i < j" "j < length ts"
  shows "offsets ts ! i + fst (ts ! i) \<le> offsets ts ! j"
proof -
  have lo: "\<forall>t\<in>set ts. 0 < snd t \<Longrightarrow> j < length ts \<Longrightarrow> off \<le> offsets_from off ts ! j" for off j and ts :: "ctype list"
  proof (induction ts arbitrary: off j)
    case (Cons t ts)
    have "off \<le> round_up (snd t) off" by (rule round_up_ge) (use Cons.prems(1) in simp)
    then show ?case using Cons.IH [of "j - 1" "round_up (snd t) off + fst t"] Cons.prems
      by (cases j) (simp_all add: Let_def)
  qed simp
  have "\<forall>t\<in>set ts. 0 < snd t \<Longrightarrow> i < j \<Longrightarrow> j < length ts \<Longrightarrow> offsets_from off ts ! i + fst (ts ! i) \<le> offsets_from off ts ! j"
    for off i j and ts :: "ctype list"
  proof (induction ts arbitrary: off i j)
    case (Cons t ts)
    then obtain l where j: "j = Suc l" by (cases j) auto
    show ?case
    proof (cases i)
      case 0
      then show ?thesis using lo [of ts l "round_up (snd t) off + fst t"] Cons.prems j by (simp add: Let_def)
    next
      case (Suc h)
      then show ?thesis using Cons.IH [of h l] Cons.prems j by (simp add: Let_def)
    qed
  qed simp
  then show ?thesis using assms by (simp add: offsets_def)
qed

section \<open>Named fields in memory\<close>

type_synonym c_fields = "(string \<times> ctype) list"

definition c_sizeof :: "c_fields \<Rightarrow> nat" where
  "c_sizeof fs = fst (c_struct (map snd fs))"

definition field_off :: "c_fields \<Rightarrow> string \<Rightarrow> nat" where
  "field_off fs nm = (case map_of (zip (map fst fs) (offsets (map snd fs))) nm of Some a \<Rightarrow> a | None \<Rightarrow> 0)"

definition field_type :: "c_fields \<Rightarrow> string \<Rightarrow> ctype" where
  "field_type fs nm = (case map_of fs nm of Some t \<Rightarrow> t | None \<Rightarrow> c_u8)"

text \<open>An unsigned value of 1, 2, 4 or 8 bytes, widened.\<close>

definition load_val :: "bytemem \<Rightarrow> u64 \<Rightarrow> nat \<Rightarrow> u64" where
  "load_val m a n = (if n = 1 then ucast (m a) else if n = 2 then ucast (load16 m a)
     else if n = 4 then ucast (load32 m a) else load64 m a)"

text \<open>\<open>base->nm\<close>, and \<open>base->nm[k]\<close> for an array of \<open>t\<close>.\<close>

definition c_field :: "c_fields \<Rightarrow> string \<Rightarrow> bytemem \<Rightarrow> u64 \<Rightarrow> u64" where
  "c_field fs nm m base = load_val m (base + of_nat (field_off fs nm)) (fst (field_type fs nm))"

definition c_elem :: "c_fields \<Rightarrow> string \<Rightarrow> ctype \<Rightarrow> nat \<Rightarrow> bytemem \<Rightarrow> u64 \<Rightarrow> u64" where
  "c_elem fs nm t k m base = load_val m (base + of_nat (field_off fs nm + k * fst t)) (fst t)"

text \<open>Fields lie inside the structure, and two memories that agree on the structure agree on them.\<close>

lemma length_offsets_from [simp]: "length (offsets_from off ts) = length ts"
  by (induction ts arbitrary: off) (simp_all add: Let_def)

lemma end_from_ge: "\<forall>t\<in>set ts. 0 < snd t \<Longrightarrow> off \<le> end_from off ts"
proof (induction ts arbitrary: off)
  case (Cons t ts)
  have "off \<le> round_up (snd t) off" using round_up_ge Cons.prems by simp
  moreover have "round_up (snd t) off + fst t \<le> end_from (round_up (snd t) off + fst t) ts" using Cons by simp
  ultimately show ?case by simp
qed simp

lemma offsets_inside:
  assumes "\<forall>t\<in>set ts. 0 < snd t" "i < length ts"
  shows "offsets ts ! i + fst (ts ! i) \<le> fst (c_struct ts)"
proof -
  have "\<forall>t\<in>set ts. 0 < snd t \<Longrightarrow> i < length ts \<Longrightarrow> offsets_from off ts ! i + fst (ts ! i) \<le> end_from off ts" for off
  proof (induction ts arbitrary: off i)
    case (Cons t ts)
    then show ?case using end_from_ge [of ts "round_up (snd t) off + fst t"] by (cases i) (simp_all add: Let_def)
  qed simp
  moreover have "0 < fold max (map snd ts) (Suc n)" for n
    by (induction ts arbitrary: n) (simp_all add: max_def, metis Suc_le_D not_less_eq_eq zero_less_Suc)
  then have "end_from 0 ts \<le> fst (c_struct ts)" by (simp add: c_struct_def Let_def round_up_ge)
  ultimately show ?thesis using assms unfolding offsets_def by (meson le_trans)
qed

lemma map_of_zip_first:
  assumes "length os = length fs" "map_of fs nm = Some t"
  obtains i where "i < length fs" "fs ! i = (nm, t)" "map_of (zip (map fst fs) os) nm = Some (os ! i)"
proof -
  have "\<exists>i<length fs. fs ! i = (nm, t) \<and> map_of (zip (map fst fs) os) nm = Some (os ! i)" using assms
  proof (induction os fs rule: list_induct2)
    case (Cons a os f fs)
    then show ?case by (cases "fst f = nm") (auto intro: exI [of _ 0])
  qed simp
  then show thesis using that by blast
qed

lemma field_inside:
  assumes "\<forall>f\<in>set fs. 0 < snd (snd f)" "map_of fs nm = Some t"
  shows "field_off fs nm + fst t \<le> c_sizeof fs"
proof -
  have "length (offsets (map snd fs)) = length fs" by (simp add: offsets_def)
  then obtain i where i: "i < length fs" "fs ! i = (nm, t)" "field_off fs nm = offsets (map snd fs) ! i"
    using assms(2) by (rule map_of_zip_first) (simp add: field_off_def)
  then show ?thesis using offsets_inside [of "map snd fs" i] assms(1) by (simp add: c_sizeof_def)
qed

lemma load_le_agree:
  "(\<And>j. j < k \<Longrightarrow> m (a + of_nat j) = m' (a' + of_nat j)) \<Longrightarrow> load_le m a k = load_le m' a' k"
  unfolding load_le_def by (rule arg_cong [where f = le_value]) simp

lemma load_val_agree:
  assumes "\<And>j. j < n \<Longrightarrow> m (a + of_nat j) = m' (a' + of_nat j)" "n \<in> {1, 2, 4, 8}"
  shows "load_val m a n = load_val m' a' n"
proof -
  have "load_le m a n = load_le m' a' n" by (rule load_le_agree) (rule assms(1))
  then show ?thesis using assms(2) assms(1) [of 0] by (auto simp: load_val_def load16_def load32_def load64_def)
qed

lemma c_field_agree:
  assumes "\<And>i. i < c_sizeof fs \<Longrightarrow> m (b + of_nat i) = m' (b' + of_nat i)"
    and "\<forall>f\<in>set fs. 0 < snd (snd f)" "map_of fs nm = Some (n, al)" "n \<in> {1, 2, 4, 8}"
  shows "c_field fs nm m b = c_field fs nm m' b'"
proof -
  have "field_off fs nm + j < c_sizeof fs" if "j < n" for j
    using field_inside [OF assms(2,3)] that by simp
  then show ?thesis unfolding c_field_def
    by (intro load_val_agree) (use assms in \<open>simp_all add: field_type_def add.assoc flip: of_nat_add\<close>)
qed

lemma c_elem_agree:
  assumes "\<And>i. i < c_sizeof fs \<Longrightarrow> m (b + of_nat i) = m' (b' + of_nat i)"
    and "\<forall>f\<in>set fs. 0 < snd (snd f)" "map_of fs nm = Some (c_array l t)" "k < l" "fst t \<in> {1, 2, 4, 8}"
  shows "c_elem fs nm t k m b = c_elem fs nm t k m' b'"
proof -
  have "k * fst t + fst t \<le> l * fst t" using assms(4) by (metis Suc_leI add.commute mult_Suc mult_le_mono1)
  then have "field_off fs nm + k * fst t + j < c_sizeof fs" if "j < fst t" for j
    using field_inside [OF assms(2,3)] that by (simp add: c_array_def)
  then show ?thesis unfolding c_elem_def
    by (intro load_val_agree) (use assms in \<open>simp_all add: add.assoc flip: of_nat_add\<close>)
qed

end
