(* ===== verification/Ahci.thy ===== *)
theory Ahci
  imports Pci Thread_Life Layout
begin

text \<open>
  kernel/device/ahci.c: initialisation of the AHCI host bus adapter, command tables and commands. The
  adapter is a parameter, a record of two functions: what reading a register returns and what an
  access does to the adapter's own state \<open>'d\<close> and, by DMA, to memory. Command lists, tables and
  buffers are byte memory (\<open>bytes\<close>).
\<close>

section \<open>The adapter and its registers\<close>

record 'd hba =
  mmio_read :: "u64 \<Rightarrow> 'd \<Rightarrow> bytemem \<Rightarrow> u32 \<times> 'd \<times> bytemem"
  mmio_write :: "u64 \<Rightarrow> u32 \<Rightarrow> 'd \<Rightarrow> bytemem \<Rightarrow> 'd \<times> bytemem"

record 'd ahci = pci +
  cmd_tbl_base :: u64
  hba_st :: 'd

datatype hba_reg = Cap | Ghc | Is | Pi | Vs | Ccc_ctl | Ccc_pts | Em_loc | Em_ctl | Cap2 | Bohc

datatype port_reg = P_clb | P_clbu | P_fb | P_fbu | P_is | P_ie | P_cmd | P_rsv0 | P_tfd | P_sig | P_ssts
  | P_sctl | P_serr | P_sact | P_ci | P_sntf | P_fbs

primrec hba_off :: "hba_reg \<Rightarrow> u64" where
  "hba_off Cap = 0x00" | "hba_off Ghc = 0x04" | "hba_off Is = 0x08" | "hba_off Pi = 0x0c" | "hba_off Vs = 0x10"
| "hba_off Ccc_ctl = 0x14" | "hba_off Ccc_pts = 0x18" | "hba_off Em_loc = 0x1c" | "hba_off Em_ctl = 0x20"
| "hba_off Cap2 = 0x24" | "hba_off Bohc = 0x28"

primrec port_off :: "port_reg \<Rightarrow> u64" where
  "port_off P_clb = 0x00" | "port_off P_clbu = 0x04" | "port_off P_fb = 0x08" | "port_off P_fbu = 0x0c"
| "port_off P_is = 0x10" | "port_off P_ie = 0x14" | "port_off P_cmd = 0x18" | "port_off P_rsv0 = 0x1c"
| "port_off P_tfd = 0x20" | "port_off P_sig = 0x24" | "port_off P_ssts = 0x28" | "port_off P_sctl = 0x2c"
| "port_off P_serr = 0x30" | "port_off P_sact = 0x34" | "port_off P_ci = 0x38" | "port_off P_sntf = 0x3c"
| "port_off P_fbs = 0x40"

section \<open>Structures\<close>

definition FIS_REG_H2D :: "ctype list" where
  "FIS_REG_H2D = [c_u8, c_u8, c_u8, c_u8, c_u8, c_u8, c_u8, c_u8, c_u8, c_u8, c_u8, c_u8, c_u8, c_u8, c_u8, c_u8, c_array 4 c_u8]"

definition FIS_REG_D2H :: "ctype list" where
  "FIS_REG_D2H = [c_u8, c_u8, c_u8, c_u8, c_u8, c_u8, c_u8, c_u8, c_u8, c_u8, c_u8, c_u8, c_u8, c_u8, c_array 2 c_u8, c_array 4 c_u8]"

definition FIS_PIO_SETUP :: "ctype list" where
  "FIS_PIO_SETUP = [c_u8, c_u8, c_u8, c_u8, c_u8, c_u8, c_u8, c_u8, c_u8, c_u8, c_u8, c_u8, c_u8, c_u8, c_u8, c_u8, c_u16, c_array 2 c_u8]"

definition FIS_DMA_SETUP :: "ctype list" where
  "FIS_DMA_SETUP = [c_u8, c_u8, c_array 2 c_u8, c_u64, c_u32, c_u32, c_u32, c_u32]"

definition FIS_DEV_BITS :: "ctype list" where
  "FIS_DEV_BITS = [c_u8, c_u8, c_u8, c_u8, c_u32]"

definition RCVD_FIS :: "ctype list" where
  "RCVD_FIS = [c_struct FIS_DMA_SETUP, c_array 4 c_u8, c_struct FIS_PIO_SETUP, c_array 12 c_u8,
     c_struct FIS_REG_D2H, c_array 4 c_u8, c_struct FIS_DEV_BITS, c_array 64 c_u8, c_array (0x100 - 0xA0) c_u8]"

definition HBA_PORT :: "ctype list" where
  "HBA_PORT = [c_u32, c_u32, c_u32, c_u32, c_u32, c_u32, c_u32, c_u32, c_u32, c_u32, c_u32, c_u32, c_u32, c_u32,
     c_u32, c_u32, c_u32, c_array 11 c_u32, c_array 4 c_u32]"

definition HBA_MEM_REG :: "ctype list" where
  "HBA_MEM_REG = [c_u32, c_u32, c_u32, c_u32, c_u32, c_u32, c_u32, c_u32, c_u32, c_u32, c_u32,
     c_array (0xA0 - 0x2C) c_u8, c_array (0x100 - 0xA0) c_u8, c_array 1 (c_struct HBA_PORT)]"

definition HBA_CMD_HEADER :: "ctype list" where
  "HBA_CMD_HEADER = [c_u8, c_u8, c_u16, c_u32, c_u32, c_u32, c_array 4 c_u32]"

definition HBA_PRDT_ENTRY :: "ctype list" where
  "HBA_PRDT_ENTRY = [c_u32, c_u32, c_u32, c_u32]"

definition HBA_CMD_TBL :: "ctype list" where
  "HBA_CMD_TBL = [c_array 64 c_u8, c_array 16 c_u8, c_array 48 c_u8, c_array 1 (c_struct HBA_PRDT_ENTRY)]"

lemmas struct_defs = FIS_REG_H2D_def FIS_REG_D2H_def FIS_PIO_SETUP_def FIS_DMA_SETUP_def FIS_DEV_BITS_def RCVD_FIS_def
  HBA_PORT_def HBA_MEM_REG_def HBA_CMD_HEADER_def HBA_PRDT_ENTRY_def HBA_CMD_TBL_def

text \<open>The offsets above and those of the FIS, the header and the table in \<open>Ahci_Cmd\<close> are those of the
  structures.\<close>

lemma register_offsets:
  "map (unat \<circ> port_off) [P_clb, P_clbu, P_fb, P_fbu, P_is, P_ie, P_cmd, P_rsv0, P_tfd, P_sig, P_ssts, P_sctl, P_serr,
     P_sact, P_ci, P_sntf, P_fbs] = take 17 (offsets HBA_PORT)"
  "map (unat \<circ> hba_off) [Cap, Ghc, Is, Pi, Vs, Ccc_ctl, Ccc_pts, Em_loc, Em_ctl, Cap2, Bohc] = take 11 (offsets HBA_MEM_REG)"
  "offsets HBA_MEM_REG ! 13 = 0x100" "fst (c_struct HBA_PORT) = 0x80"
  by (simp_all add: struct_defs layout_defs)

lemma command_offsets:
  "offsets FIS_REG_H2D = [0, 1, 2, 3, 4, 5, 6, 7, 8, 9, 10, 11, 12, 13, 14, 15, 16]"
  "offsets HBA_CMD_HEADER = [0, 1, 2, 4, 8, 12, 16]" "fst (c_struct HBA_CMD_HEADER) = 32"
  "offsets HBA_CMD_TBL = [0, 64, 80, 128]" "fst (c_struct HBA_PRDT_ENTRY) = 16"
  by (simp_all add: struct_defs layout_defs)

text \<open>The 64-bit field of the DMA setup FIS is aligned to 8, so the received-FIS area is not the one the
  comments describe (0x20, 0x40, 0x58, 0x60, 0xA0 and 0x100 bytes in all).\<close>

lemma rcvd_fis_layout: "offsets RCVD_FIS = [0, 32, 36, 56, 68, 88, 92, 100, 164]" "fst (c_struct RCVD_FIS) = 264"
  by code_simp+

section \<open>Accesses\<close>

text \<open>\<open>&abar->ports[i]\<close>; a port is 0x80 bytes.\<close>

definition hba_port :: "nat \<Rightarrow> ('d, 'z) ahci_scheme \<Rightarrow> u64" where
  "hba_port i s = abar s + 0x100 + 0x80 * of_nat i"

definition rd32 :: "'d hba \<Rightarrow> u64 \<Rightarrow> ('d, 'z) ahci_scheme \<Rightarrow> u32 \<times> ('d, 'z) ahci_scheme" where
  "rd32 dv a s = (let (v, d, m) = mmio_read dv a (hba_st s) (bytes s) in (v, s\<lparr>hba_st := d, bytes := m\<rparr>))"

definition wr32 :: "'d hba \<Rightarrow> u64 \<Rightarrow> u32 \<Rightarrow> ('d, 'z) ahci_scheme \<Rightarrow> ('d, 'z) ahci_scheme" where
  "wr32 dv a v s = (let (d, m) = mmio_write dv a v (hba_st s) (bytes s) in s\<lparr>hba_st := d, bytes := m\<rparr>)"

text \<open>\<open>r op= v\<close> on a volatile register: a read, then a write.\<close>

definition upd32 :: "'d hba \<Rightarrow> u64 \<Rightarrow> (u32 \<Rightarrow> u32) \<Rightarrow> ('d, 'z) ahci_scheme \<Rightarrow> ('d, 'z) ahci_scheme" where
  "upd32 dv a f s = (let (v, s) = rd32 dv a s in wr32 dv a (f v) s)"

text \<open>\<open>while (c(r)) body\<close> on a volatile register; \<open>None\<close> is the loop that never ends.\<close>

partial_function (option) spin_while ::
  "'d hba \<Rightarrow> u64 \<Rightarrow> (u32 \<Rightarrow> bool) \<Rightarrow> (('d, 'z) ahci_scheme \<Rightarrow> ('d, 'z) ahci_scheme) \<Rightarrow>
     ('d, 'z) ahci_scheme \<Rightarrow> ('d, 'z) ahci_scheme option" where
  "spin_while dv a c body s =
     (let (v, s) = rd32 dv a s in if c v then spin_while dv a c body (body s) else Some s)"

definition poll ::
  "'d hba \<Rightarrow> u64 \<Rightarrow> (u32 \<Rightarrow> bool) \<Rightarrow> (('d, 'z) ahci_scheme \<Rightarrow> ('d, 'z) ahci_scheme) \<Rightarrow>
     ('d, 'z) ahci_scheme \<Rightarrow> ('d, 'z) ahci_scheme outcome" where
  "poll dv a c body s = heap_call (spin_while dv a c body s)"

text \<open>\<open>for (i ...) f(i)\<close> where the body may not return.\<close>

primrec foreach :: "('a \<Rightarrow> 's \<Rightarrow> 's outcome) \<Rightarrow> 'a list \<Rightarrow> 's \<Rightarrow> 's outcome" where
  "foreach f [] s = Inr s"
| "foreach f (x # xs) s = and_then (f x s) (foreach f xs)"

text \<open>\<open>putsn_serial(msg, r)\<close> for a register.\<close>

definition say_reg :: "'d hba \<Rightarrow> string \<Rightarrow> u64 \<Rightarrow> ('d, 'z) ahci_scheme \<Rightarrow> ('d, 'z) ahci_scheme" where
  "say_reg dv msg a s = (let (v, s) = rd32 dv a s in say_num msg (ucast v) s)"

definition CMD_LIST_SIZE :: int where "CMD_LIST_SIZE = 0x8000"
definition RCVD_FIS_SIZE :: int where "RCVD_FIS_SIZE = 0x2000"
definition PRDT_ENTRY_MAX :: int where "PRDT_ENTRY_MAX = 65536"
definition PRDT_ENTRY_SIZE :: int where "PRDT_ENTRY_SIZE = 4 * 4"
definition CMD_TBL_SIZE :: int where "CMD_TBL_SIZE = 0x80 + PRDT_ENTRY_SIZE * PRDT_ENTRY_MAX"
definition READ_DMA_EXT :: u8 where "READ_DMA_EXT = 0x25"
definition WRITE_DMA_EXT :: u8 where "WRITE_DMA_EXT = 0x35"

section \<open>Status output\<close>

definition put_hba_memory_register :: "'d hba \<Rightarrow> ('d, 'z) ahci_scheme \<Rightarrow> ('d, 'z) ahci_scheme" where
  "put_hba_memory_register dv s =
     (let s = say (''status of Generic Host Control'' @ CRLF) s;
          s = say_reg dv ''cap: '' (abar s + hba_off Cap) s;
          s = say_reg dv ''ghc: '' (abar s + hba_off Ghc) s;
          s = say_reg dv ''is: '' (abar s + hba_off Is) s;
          s = say_reg dv ''pi: '' (abar s + hba_off Pi) s;
          s = say_reg dv ''vs: '' (abar s + hba_off Vs) s;
          s = say_reg dv ''ccc_ctl: '' (abar s + hba_off Ccc_ctl) s;
          s = say_reg dv ''ccc_pts: '' (abar s + hba_off Ccc_pts) s;
          s = say_reg dv ''em_loc: '' (abar s + hba_off Em_loc) s;
          s = say_reg dv ''em_ctl: '' (abar s + hba_off Em_ctl) s;
          s = say_reg dv ''cap2: '' (abar s + hba_off Cap2) s;
          s = say_reg dv ''bohc: '' (abar s + hba_off Bohc) s
      in say CRLF s)"

definition put_port_status :: "'d hba \<Rightarrow> u64 \<Rightarrow> ('d, 'z) ahci_scheme \<Rightarrow> ('d, 'z) ahci_scheme" where
  "put_port_status dv port s =
     (let s = say (''status of HBA Port'' @ CRLF) s;
          s = say_reg dv ''clb: '' (port + port_off P_clb) s;
          s = say_reg dv ''clbu: '' (port + port_off P_clbu) s;
          s = say_reg dv ''fb: '' (port + port_off P_fb) s;
          s = say_reg dv ''fbu: '' (port + port_off P_fbu) s;
          s = say_reg dv ''is: '' (port + port_off P_is) s;
          s = say_reg dv ''ie: '' (port + port_off P_ie) s;
          s = say_reg dv ''cmd: '' (port + port_off P_cmd) s;
          s = say_reg dv ''tfd: '' (port + port_off P_tfd) s;
          s = say_reg dv ''sig: '' (port + port_off P_sig) s;
          s = say_reg dv ''ssts: '' (port + port_off P_ssts) s;
          s = say_reg dv ''sctl: '' (port + port_off P_sctl) s;
          s = say_reg dv ''serr: '' (port + port_off P_serr) s;
          s = say_reg dv ''sact: '' (port + port_off P_sact) s;
          s = say_reg dv ''ci: '' (port + port_off P_ci) s;
          s = say_reg dv ''sntf: '' (port + port_off P_sntf) s;
          s = say_reg dv ''fbs: '' (port + port_off P_fbs) s
      in say CRLF s)"

section \<open>Initialisation\<close>

definition hba_reset :: "'d hba \<Rightarrow> ('d, 'z) ahci_scheme \<Rightarrow> ('d, 'z) ahci_scheme outcome" where
  "hba_reset dv s =
     (let s = wr32 dv (abar s + hba_off Ghc) 0x80000000 s;
          s = upd32 dv (abar s + hba_off Ghc) (\<lambda>v. or v 0x00000001) s
      in and_then (poll dv (abar s + hba_off Ghc) (\<lambda>v. and v 0x1 \<noteq> 0) (say ''.'') s) (\<lambda>s.
         Inr (say CRLF s)))"

definition probe_step :: "'d hba \<Rightarrow> u32 \<Rightarrow> nat \<Rightarrow> u32 \<times> ('d, 'z) ahci_scheme \<Rightarrow> u32 \<times> ('d, 'z) ahci_scheme" where
  "probe_step dv pi i = (\<lambda>(pidle, s).
     if drop_bit i pi \<noteq> 0 then
       let (v, s) = rd32 dv (hba_port i s + port_off P_cmd) s
       in if and v 0x811 = 0 then (or pidle (push_bit i 1), s)
          else (pidle, say_reg dv ''port is busy - PxCMD: '' (hba_port i s + port_off P_cmd) s)
     else (pidle, s))"

definition probe_idle_port :: "'d hba \<Rightarrow> u32 \<Rightarrow> ('d, 'z) ahci_scheme \<Rightarrow> u32 \<times> ('d, 'z) ahci_scheme" where
  "probe_idle_port dv pi s = fold (probe_step dv pi) [0..<32] (0, s)"

definition alloc_mem_for_ports :: "'d hba \<Rightarrow> u32 \<Rightarrow> ('d, 'z) ahci_scheme \<Rightarrow> ('d, 'z) ahci_scheme outcome" where
  "alloc_mem_for_ports dv pi_list s =
     and_then (heap_call (kmalloc (CMD_LIST_SIZE + 128) s)) (\<lambda>(cmd_list, s).
     let cmd_list = align_as cmd_list 128
     in and_then (heap_call (kmalloc_alignas RCVD_FIS_SIZE 0x1000 s)) (\<lambda>(rcvd_fis, s).
     Inr (fold (\<lambda>i s.
       if drop_bit i pi_list \<noteq> 0 then
         let s = wr32 dv (hba_port i s + port_off P_clb) (ucast cmd_list + of_nat (fst (c_struct HBA_CMD_HEADER) * 32 * i)) s;
             s = wr32 dv (hba_port i s + port_off P_fb) (ucast rcvd_fis + of_nat (fst (c_struct RCVD_FIS) * i)) s
         in upd32 dv (hba_port i s + port_off P_cmd) (\<lambda>v. or v 0x10) s
       else s) [0..<32] s)))"

definition clear_ports_serr :: "'d hba \<Rightarrow> u32 \<Rightarrow> ('d, 'z) ahci_scheme \<Rightarrow> ('d, 'z) ahci_scheme outcome" where
  "clear_ports_serr dv pi_list =
     foreach (\<lambda>i s.
       if drop_bit i pi_list \<noteq> 0 then
         let s = upd32 dv (hba_port i s + port_off P_serr) (\<lambda>v. or v 0x7ff0f03) s
         in poll dv (hba_port i s + port_off P_serr) (\<lambda>v. v \<noteq> 0) (\<lambda>s. s) s
       else Inr s) [0..<32]"

definition clear_port_is :: "'d hba \<Rightarrow> u32 \<Rightarrow> nat \<Rightarrow> ('d, 'z) ahci_scheme \<Rightarrow> ('d, 'z) ahci_scheme outcome" where
  "clear_port_is dv pi_list i s =
     (if drop_bit i pi_list \<noteq> 0 then
        let s = wr32 dv (hba_port i s + port_off P_is) 0xffffffff s
        in poll dv (hba_port i s + port_off P_is) (\<lambda>v. v \<noteq> 0)
             (\<lambda>s. say_reg dv ''PxIS clear cannot be finished: '' (hba_port i s + port_off P_is) s) s
      else Inr s)"

definition clear_is :: "'d hba \<Rightarrow> ('d, 'z) ahci_scheme \<Rightarrow> ('d, 'z) ahci_scheme outcome" where
  "clear_is dv s =
     (let (w, s) = rd32 dv (abar s + hba_off Is) s;
          s = upd32 dv (abar s + hba_off Is) (\<lambda>v. and v (not w)) s
      in poll dv (abar s + hba_off Is) (\<lambda>v. v \<noteq> 0) (say (''GHC.IS.IPS clear cannot be finished.'' @ CRLF)) s)"

definition enable_ahci_interrupt :: "'d hba \<Rightarrow> u32 \<Rightarrow> ('d, 'z) ahci_scheme \<Rightarrow> ('d, 'z) ahci_scheme outcome" where
  "enable_ahci_interrupt dv pi_list s =
     and_then (foreach (clear_port_is dv pi_list) [0..<32] s) (\<lambda>s.
     and_then (clear_is dv s) (\<lambda>s.
     let s = fold (\<lambda>i s.
           if drop_bit i pi_list \<noteq> 0 then wr32 dv (hba_port i s + port_off P_ie) 0xfdc000ff s else s) [0..<32] s
     in Inr (upd32 dv (abar s + hba_off Ghc) (\<lambda>v. or v 0x2) s)))"

text \<open>The loop of step 3 changes neither \<open>pi\<close> nor \<open>pidle\<close>.\<close>

definition ahci_init :: "'d hba \<Rightarrow> ('d, 'z) ahci_scheme \<Rightarrow> ('d, 'z) ahci_scheme outcome" where
  "ahci_init dv s =
     and_then (heap_call (kmalloc (CMD_TBL_SIZE + 128) s)) (\<lambda>(p, s).
     let s = s\<lparr>cmd_tbl_base := p\<rparr>;
         s = s\<lparr>cmd_tbl_base := align_as (cmd_tbl_base s) 128\<rparr>;
         s = (if cmd_tbl_base s mod 128 = 0 then say ''cmd_tbl_base is aligned as 128 byte\<newline>'' s else s);
         s = say (''AHCI initialization start.'' @ CRLF) s
     in and_then (hba_reset dv s) (\<lambda>s.
     let s = say (''HBA reset end.'' @ CRLF) s;
         s = upd32 dv (abar s + hba_off Ghc) (\<lambda>v. or v 0x80000000) s;
         s = say (''AHCI init step 1 end.'' @ CRLF) s;
         (pi, s) = rd32 dv (abar s + hba_off Pi) s;
         s = say (''AHCI init step 2 end.'' @ CRLF) s;
         (pidle, s) = probe_idle_port dv pi s
     in if pi \<noteq> pidle then Inl Spins
        else
          let s = say (''AHCI init step 3 end.'' @ CRLF) s;
              s = say (''AHCI init step 4 end.'' @ CRLF) s
          in and_then (alloc_mem_for_ports dv pi s) (\<lambda>s.
             let s = say (''AHCI init step 5 end.'' @ CRLF) s
             in and_then (clear_ports_serr dv pi s) (\<lambda>s.
             let s = say (''AHCI init step 6 end.'' @ CRLF) s
             in and_then (enable_ahci_interrupt dv pi s) (\<lambda>s.
             let s = say (''AHCI init step 7 end.'' @ CRLF) s
             in Inr (say (''All of AHCI initialization end.'' @ CRLF) s))))))"

end
