(* ===== verification/Ahci_Cmd.thy ===== *)
theory Ahci_Cmd
  imports Ahci Bytes
begin

text \<open>
  kernel/device/ahci.c, second half: command slots, command tables, command headers and the commands
  that read and write sectors. A shift by a negative number and a header before the command list are
  \<open>Out_of_bounds\<close>.
\<close>

section \<open>Parameters and slots\<close>

record cmd_params =
  cp_fis_type :: u8
  cp_cmd_type :: u8
  cp_cfis_len :: u8
  cp_ctba :: u64
  cp_lba :: u64
  cp_count :: u16
  cp_dba :: u64
  cp_w :: u8

primrec slot_loop :: "nat \<Rightarrow> nat \<Rightarrow> u32 \<Rightarrow> nat option" where
  "slot_loop 0 i slots = None"
| "slot_loop (Suc n) i slots = (if and slots 1 = 0 then Some i else slot_loop n (i + 1) (drop_bit 1 slots))"

definition find_free_cmdslot :: "'d hba \<Rightarrow> u64 \<Rightarrow> ('d, 'z) ahci_scheme \<Rightarrow> int \<times> ('d, 'z) ahci_scheme" where
  "find_free_cmdslot dv port s =
     (let (ci, s) = rd32 dv (port + port_off P_ci) s;
          (sact, s) = rd32 dv (port + port_off P_sact) s
      in case slot_loop 32 0 (or ci sact) of
           Some i \<Rightarrow> (int i, s)
         | None \<Rightarrow> (- 1, say (''Cannot find free command list entry'' @ CRLF) s))"

section \<open>The command table\<close>

text \<open>Entries of the region table, of 16 bytes each: \<open>dba\<close>, \<open>dbau\<close>, a reserved word, and a word that
  holds the byte count (22 bits) and the interrupt flag (bit 31).\<close>

definition prdt_addr :: "u64 \<Rightarrow> nat \<Rightarrow> u64" where
  "prdt_addr t i = t + 0x80 + 16 * of_nat i"

definition set_dbc :: "u64 \<Rightarrow> u32 \<Rightarrow> bytemem \<Rightarrow> bytemem" where
  "set_dbc e v m = store32 m (e + 12) (or (and (load32 m (e + 12)) (not 0x3fffff)) (and v 0x3fffff))"

definition set_prdt_i :: "u64 \<Rightarrow> bytemem \<Rightarrow> bytemem" where
  "set_prdt_i e m = store32 m (e + 12) (or (load32 m (e + 12)) 0x80000000)"

definition prdtl_of :: "u16 \<Rightarrow> int" where
  "prdtl_of count = (int (unat count) - 1) div 16 + 1"

definition build_fis :: "cmd_params \<Rightarrow> u64 \<Rightarrow> bytemem \<Rightarrow> bytemem" where
  "build_fis params t m =
     (let m = m(t := 0x27);
          m = m(t + 1 := or (m (t + 1)) 0x80);
          m = m(t + 2 := cp_cmd_type params);
          m = m(t + 7 := 0x40);
          m = m(t + 4 := ucast (drop_bit 0 (cp_lba params)));
          m = m(t + 5 := ucast (drop_bit 8 (cp_lba params)));
          m = m(t + 6 := ucast (drop_bit 16 (cp_lba params)));
          m = m(t + 8 := ucast (drop_bit 24 (cp_lba params)));
          m = m(t + 9 := ucast (drop_bit 32 (cp_lba params)));
          m = m(t + 10 := ucast (drop_bit 40 (cp_lba params)));
          m = m(t + 12 := ucast (drop_bit 0 (cp_count params)));
          m = m(t + 13 := ucast (drop_bit 8 (cp_count params)))
      in m)"

text \<open>A full entry: 8 KiB, 16 sectors.\<close>

definition full_entry :: "u64 \<Rightarrow> nat \<Rightarrow> bytemem \<times> u64 \<times> u16 \<Rightarrow> bytemem \<times> u64 \<times> u16" where
  "full_entry t i = (\<lambda>(m, buf, count).
     let e = prdt_addr t i;
         m = store32 m e (ucast buf);
         m = store32 m (e + 4) 0;
         m = set_dbc e (8 * 1024 - 1) m;
         m = set_prdt_i e m
     in (m, buf + 2 * (4 * 1024), count - 16))"

definition build_prdt :: "cmd_params \<Rightarrow> u64 \<Rightarrow> bytemem \<Rightarrow> bytemem" where
  "build_prdt params t m =
     (let prdtl = prdtl_of (cp_count params);
          (m, buf, count) = fold (full_entry t) [0..<nat (prdtl - 1)] (m, cp_dba params, cp_count params);
          e = prdt_addr t (nat (prdtl - 1));
          m = store32 m e (ucast buf);
          m = set_dbc e (word_of_int (int (unat count) * 512 - 1)) m
      in set_prdt_i e m)"

definition build_cmd_table :: "cmd_params \<Rightarrow> u64 \<Rightarrow> ('d, 'z) ahci_scheme \<Rightarrow> ('d, 'z) ahci_scheme outcome" where
  "build_cmd_table params table_addr s =
     (let prdtl = prdtl_of (cp_count params);
          s = s\<lparr>bytes := memset (bytes s) table_addr 0 (word_of_int (0x80 + 16 * prdtl))\<rparr>
      in if cp_fis_type params = 0x27 then
           let s = s\<lparr>bytes := build_fis params table_addr (bytes s)\<rparr>
           in if is_aligned (cp_dba params) 2 = 0 then Inl Spins
              else Inr (s\<lparr>bytes := build_prdt params table_addr (bytes s)\<rparr>)
         else Inr (say (''fis type error'' @ CRLF) s))"

section \<open>The command header\<close>

definition set_header :: "u64 \<Rightarrow> u64 \<Rightarrow> cmd_params \<Rightarrow> bytemem \<Rightarrow> bytemem" where
  "set_header h tbl params m =
     (let m = store32 m (h + 8) (ucast tbl);
          m = store32 m (h + 12) 0;
          m = store16 m (h + 2) (word_of_int (prdtl_of (cp_count params)));
          m = m(h := or (and (m h) (not 0x1f)) (and (cp_cfis_len params) 0x1f));
          m = m(h := or (and (m h) (not 0x40)) (push_bit 6 (and (cp_w params) 1)))
      in m)"

definition build_cmdheader ::
  "'d hba \<Rightarrow> u64 \<Rightarrow> int \<Rightarrow> cmd_params \<Rightarrow> ('d, 'z) ahci_scheme \<Rightarrow> ('d, 'z) ahci_scheme outcome" where
  "build_cmdheader dv port slot params s =
     (let (clb, s) = rd32 dv (port + port_off P_clb) s
      in if slot < 0 then Inl Out_of_bounds
         else
           let h = ucast clb + 32 * word_of_int slot;
               s = s\<lparr>bytes := memset (bytes s) h 0 0x400\<rparr>
           in if is_aligned (cmd_tbl_base s) 128 = 0 then Inl Spins
              else Inr (s\<lparr>bytes := set_header h (cmd_tbl_base s) params (bytes s)\<rparr>))"

section \<open>Commands\<close>

definition notify_cmd_is_active :: "'d hba \<Rightarrow> u64 \<Rightarrow> int \<Rightarrow> ('d, 'z) ahci_scheme \<Rightarrow> ('d, 'z) ahci_scheme" where
  "notify_cmd_is_active dv port slot = upd32 dv (port + port_off P_ci) (\<lambda>v. or v (push_bit (nat slot) 1))"

definition build_command ::
  "'d hba \<Rightarrow> u64 \<Rightarrow> cmd_params \<Rightarrow> ('d, 'z) ahci_scheme \<Rightarrow> ('d, 'z) ahci_scheme outcome" where
  "build_command dv port params s =
     (let (slot, s) = find_free_cmdslot dv port s
      in and_then (build_cmd_table params (cmd_tbl_base s) s) (\<lambda>s.
         and_then (build_cmdheader dv port slot params s) (\<lambda>s.
         Inr (notify_cmd_is_active dv port slot s))))"

definition wait_interrupt :: "'d hba \<Rightarrow> u64 \<Rightarrow> ('d, 'z) ahci_scheme \<Rightarrow> ('d, 'z) ahci_scheme outcome" where
  "wait_interrupt dv port = poll dv (port + port_off P_is) (\<lambda>v. v = 0) (\<lambda>s. s)"

definition clear_pxis :: "'d hba \<Rightarrow> u64 \<Rightarrow> ('d, 'z) ahci_scheme \<Rightarrow> ('d, 'z) ahci_scheme outcome" where
  "clear_pxis dv port s =
     (let (w, s) = rd32 dv (port + port_off P_is) s;
          s = upd32 dv (port + port_off P_is) (\<lambda>v. or v w) s
      in poll dv (port + port_off P_is) (\<lambda>v. v \<noteq> 0) (\<lambda>s. s) s)"

definition clear_ghc_is :: "'d hba \<Rightarrow> int \<Rightarrow> ('d, 'z) ahci_scheme \<Rightarrow> ('d, 'z) ahci_scheme outcome" where
  "clear_ghc_is dv portno s =
     (if portno < 0 then Inl Out_of_bounds
      else
        let s = upd32 dv (abar s + hba_off Is) (\<lambda>v. or v (push_bit (nat portno) 1)) s
        in poll dv (abar s + hba_off Is) (\<lambda>v. v \<noteq> 0) (\<lambda>s. s) s)"

definition start_cmd :: "'d hba \<Rightarrow> u64 \<Rightarrow> ('d, 'z) ahci_scheme \<Rightarrow> ('d, 'z) ahci_scheme outcome" where
  "start_cmd dv port s =
     (let s = upd32 dv (port + port_off P_cmd) (\<lambda>v. and v 0xfffffffe) s
      in and_then (poll dv (port + port_off P_cmd) (\<lambda>v. and v 0x8000 \<noteq> 0) (\<lambda>s. s) s) (\<lambda>s.
         let s = upd32 dv (port + port_off P_cmd) (\<lambda>v. or v 0x10) s
         in Inr (upd32 dv (port + port_off P_cmd) (\<lambda>v. or v 0x01) s)))"

definition wait_pxci_clear :: "'d hba \<Rightarrow> u64 \<Rightarrow> ('d, 'z) ahci_scheme \<Rightarrow> ('d, 'z) ahci_scheme outcome" where
  "wait_pxci_clear dv port = poll dv (port + port_off P_ci) (\<lambda>v. v \<noteq> 0) (\<lambda>s. s)"

primrec impl_loop :: "nat \<Rightarrow> nat \<Rightarrow> u32 \<Rightarrow> nat option" where
  "impl_loop 0 i pi = None"
| "impl_loop (Suc n) i pi = (if and pi 1 = 1 then Some i else impl_loop n (i + 1) (drop_bit 1 pi))"

text \<open>The structure \<open>port_and_portno\<close> is the pair.\<close>

definition probe_impl_port :: "'d hba \<Rightarrow> ('d, 'z) ahci_scheme \<Rightarrow> (u64 \<times> int) \<times> ('d, 'z) ahci_scheme" where
  "probe_impl_port dv s =
     (let (pi, s) = rd32 dv (abar s + hba_off Pi) s
      in case impl_loop 32 0 pi of
           None \<Rightarrow> ((0, - 1), say (''implemented port not found'' @ CRLF) s)
         | Some k \<Rightarrow> ((hba_port k s, int k), s))"

definition rw_params :: "u8 \<Rightarrow> u8 \<Rightarrow> u64 \<Rightarrow> u16 \<Rightarrow> u64 \<Rightarrow> cmd_params" where
  "rw_params cmd wr start_lba count buf = \<lparr>cp_fis_type = 0x27, cp_cmd_type = cmd, cp_cfis_len = 5, cp_ctba = 0,
     cp_lba = start_lba, cp_count = count, cp_dba = buf, cp_w = wr\<rparr>"

text \<open>What \<open>ahci_read\<close> and \<open>ahci_write\<close> do with their parameters.\<close>

definition do_command ::
  "'d hba \<Rightarrow> u64 \<Rightarrow> int \<Rightarrow> cmd_params \<Rightarrow> ('d, 'z) ahci_scheme \<Rightarrow> (int \<times> ('d, 'z) ahci_scheme) outcome" where
  "do_command dv port portno params s =
     and_then (start_cmd dv port s) (\<lambda>s.
     and_then (build_command dv port params s) (\<lambda>s.
     and_then (wait_interrupt dv port s) (\<lambda>s.
     and_then (clear_pxis dv port s) (\<lambda>s.
     and_then (clear_ghc_is dv portno s) (\<lambda>s.
     and_then (wait_pxci_clear dv port s) (\<lambda>s. Inr (1, s)))))))"

definition ahci_read ::
  "'d hba \<Rightarrow> u64 \<Rightarrow> int \<Rightarrow> u64 \<Rightarrow> u16 \<Rightarrow> u64 \<Rightarrow> ('d, 'z) ahci_scheme \<Rightarrow> (int \<times> ('d, 'z) ahci_scheme) outcome" where
  "ahci_read dv port portno start_lba count buf s =
     do_command dv port portno (rw_params READ_DMA_EXT 0 start_lba count buf) s"

definition ahci_write ::
  "'d hba \<Rightarrow> u64 \<Rightarrow> int \<Rightarrow> u64 \<Rightarrow> u16 \<Rightarrow> u64 \<Rightarrow> ('d, 'z) ahci_scheme \<Rightarrow> (int \<times> ('d, 'z) ahci_scheme) outcome" where
  "ahci_write dv port portno start_lba count buf s =
     do_command dv port portno (rw_params WRITE_DMA_EXT 1 start_lba count buf) s"

text \<open>\<open>pool\<close> is the address of the variable-length array on the stack, of \<open>1024 * count\<close> bytes. A copy
  that would leave it is \<open>Out_of_bounds\<close>.\<close>

definition ahci_read_byte ::
  "'d hba \<Rightarrow> u64 \<Rightarrow> u64 \<Rightarrow> u16 \<Rightarrow> u64 \<Rightarrow> int \<Rightarrow> int \<Rightarrow> ('d, 'z) ahci_scheme \<Rightarrow> ('d, 'z) ahci_scheme outcome" where
  "ahci_read_byte dv pool start_sector count buf byte offset s =
     (let ((port, portno), s) = probe_impl_port dv s
      in and_then (ahci_read dv port portno start_sector count pool s) (\<lambda>(r, s).
         if 0 < byte \<and> (offset < 0 \<or> 1024 * int (unat count) < byte + offset) then Inl Out_of_bounds
         else Inr (fold (\<lambda>i s. s\<lparr>bytes := (bytes s)(buf + of_nat i := bytes s (pool + word_of_int (int i + offset)))\<rparr>)
           [0..<nat byte] s)))"

definition check_ahci :: "'d hba \<Rightarrow> u64 \<Rightarrow> ('d, 'z) ahci_scheme \<Rightarrow> ('d, 'z) ahci_scheme outcome" where
  "check_ahci dv pool s =
     and_then (ahci_init dv s) (\<lambda>s.
     let s = put_hba_memory_register dv s
     in and_then (heap_call (kmalloc (8 * 64 + 2) s)) (\<lambda>(buf, s).
     let buf_aligned = align_as buf 2;
         s = fold (\<lambda>i s. s\<lparr>bytes := store64 (bytes s) (buf_aligned + 8 * of_nat i) 0xbeeeeeeeeeeeeeef\<rparr>) [0..<64] s
     in and_then (ahci_read_byte dv pool 2 1 buf_aligned (8 * 64) 0 s) (\<lambda>s.
     let s = fold (\<lambda>i s. say CRLF (say_bytes (hex_bytes (load64 (bytes s) (buf_aligned + 8 * of_nat i))) s)) [0..<64] s;
         s = say CRLF s
     in Inr (say (''check end'' @ CRLF) s))))"

end
