(* ===== verification/Ahci_Table.thy ===== *)
theory Ahci_Table
  imports Ahci_Cmd
begin

text \<open>
  What the adapter reads in the structures the driver writes: the fields of a register FIS, of the
  region table and of a command header, as the AHCI and ATA formats define them, and the proof that a
  built table describes the transfer that was asked for.
\<close>

section \<open>Memory relative to a base\<close>

lemma unat_of_nat64: "d < 2 ^ 64 \<Longrightarrow> unat (of_nat d :: u64) = d"
  by (simp add: unat_of_nat take_bit_nat_eq_self)

lemma unat_rel:
  fixes t :: u64
  assumes "o1 \<le> d" "d < 2 ^ 64"
  shows "unat (t + of_nat d - (t + of_nat o1)) = d - o1"
proof -
  have "t + of_nat d - (t + of_nat o1) = of_nat (d - o1)" using assms by (simp add: of_nat_diff)
  moreover have "d - o1 < 2 ^ 64" using assms(2) by simp
  ultimately show ?thesis using unat_of_nat64 by simp
qed

lemma rel_below:
  fixes t :: u64
  assumes "d < o1" "o1 + k \<le> 2 ^ 64"
  shows "\<not> t + of_nat d - (t + of_nat o1) < of_nat k"
proof (cases "k = 0")
  case False
  have eq: "t + of_nat d - (t + of_nat o1) = - of_nat (o1 - d)" using assms by (simp add: of_nat_diff)
  have lt: "o1 - d < 2 ^ 64" "k < 2 ^ 64" using assms False by simp_all
  then have "unat (- of_nat (o1 - d) :: u64) = 2 ^ 64 - (o1 - d)"
    using unat_of_nat64 [OF lt(1)] assms(1) unat_sub_if' [of 0 "of_nat (o1 - d) :: u64"] by simp
  then show ?thesis unfolding eq word_less_nat_alt using unat_of_nat64 [OF lt(2)] assms by simp
qed simp

lemma store_rel:
  fixes t :: u64
  assumes "o1 + k \<le> 2 ^ 64" "k < 2 ^ 64" "d < 2 ^ 64"
  shows "store_le m (t + of_nat o1) k v (t + of_nat d) =
    (if o1 \<le> d \<and> d < o1 + k then le_byte v (d - o1) else m (t + of_nat d))"
proof (cases "o1 \<le> d")
  case True
  then have "t + of_nat d - (t + of_nat o1) < of_nat k \<longleftrightarrow> d - o1 < k"
    using unat_rel [OF True assms(3), of t] unat_of_nat64 [OF assms(2)] by (simp add: word_less_nat_alt)
  then show ?thesis using True unat_rel [OF True assms(3), of t] by (auto simp: store_le_def)
next
  case False
  then show ?thesis using rel_below [of d o1 k t] assms(1) by (simp add: store_le_def)
qed

lemma load_rel: "load_le m (t + of_nat o1) k = le_value (map (\<lambda>i. m (t + of_nat (o1 + i))) [0..<k])"
  by (simp add: load_le_def add.assoc)

lemma load_rel_cong:
  assumes "\<And>d. o1 \<le> d \<Longrightarrow> d < o1 + k \<Longrightarrow> m' (t + of_nat d) = m (t + of_nat d)"
  shows "load_le m' (t + of_nat o1) k = load_le m (t + of_nat o1) k"
  unfolding load_rel by (rule arg_cong [where f = le_value], rule map_cong [OF refl], rule assms) simp_all

lemma load32_rel_cong:
  assumes "\<And>d. o1 \<le> d \<Longrightarrow> d < o1 + 4 \<Longrightarrow> m' (t + of_nat d) = m (t + of_nat d)"
  shows "load32 m' (t + of_nat o1) = load32 m (t + of_nat o1)"
  unfolding load32_def by (rule arg_cong [where f = of_nat], rule load_rel_cong) (use assms in simp)

lemma store32_rel:
  assumes "o1 + 4 \<le> 2 ^ 64" "d < 2 ^ 64"
  shows "store32 m (t + of_nat o1) v (t + of_nat d) =
    (if o1 \<le> d \<and> d < o1 + 4 then le_byte v (d - o1) else m (t + of_nat d))"
  unfolding store32_def by (rule store_rel) (use assms in simp_all)


lemma store32_outside:
  assumes "o1 + 4 \<le> 2 ^ 64" "d < 2 ^ 64" "d < o1 \<or> o1 + 4 \<le> d"
  shows "store32 m (t + of_nat o1) v (t + of_nat d) = m (t + of_nat d)"
  using store32_rel [OF assms(1,2)] assms(3) by auto

lemma load32_store32_rel:
  assumes "o1 + 4 \<le> 2 ^ 64" "o2 + 4 \<le> 2 ^ 64" "o1 + 4 \<le> o2 \<or> o2 + 4 \<le> o1"
  shows "load32 (store32 m (t + of_nat o1) v) (t + of_nat o2) = load32 m (t + of_nat o2)"
  by (rule load32_rel_cong, subst store32_rel) (use assms in auto)

section \<open>The region table\<close>

text \<open>Entry \<open>i\<close> as the adapter reads it: where the region starts and how long it is.\<close>

definition prd_start :: "bytemem \<Rightarrow> u64 \<Rightarrow> nat \<Rightarrow> nat" where
  "prd_start m t i = unat (load32 m (prdt_addr t i)) + 2 ^ 32 * unat (load32 m (prdt_addr t i + 4))"

definition prd_len :: "bytemem \<Rightarrow> u64 \<Rightarrow> nat \<Rightarrow> nat" where
  "prd_len m t i = unat (take_bit 22 (load32 m (prdt_addr t i + 12))) + 1"

lemma prdt_addr_rel:
  "prdt_addr t i = t + of_nat (0x80 + 16 * i)" "prdt_addr t i + 4 = t + of_nat (0x84 + 16 * i)"
  "prdt_addr t i + 12 = t + of_nat (0x8c + 16 * i)"
  by (simp_all add: prdt_addr_def)

lemma mask22: "and v 0x3fffff = take_bit 22 (v :: u32)"
  by (simp add: take_bit_eq_mask mask_eq_exp_minus_1)

lemma set_dw3_len: "take_bit 22 (load32 (set_prdt_i e (set_dbc e v m)) (e + 12)) = take_bit 22 v"
proof -
  have "take_bit 22 (or (or (and x (not 0x3fffff)) (take_bit 22 v)) 0x80000000) = take_bit 22 v" for x :: u32
  proof -
    have m: "(0x3fffff :: u32) = mask 22" "(0x80000000 :: u32) = push_bit 31 1"
      by (simp_all add: mask_eq_exp_minus_1 push_bit_eq_mult)
    show ?thesis unfolding m
      by (rule bit_word_eqI) (auto simp only: bit_take_bit_iff bit_or_iff bit_and_iff bit_not_iff bit_mask_iff bit_push_bit_iff bit_1_iff)
  qed
  then show ?thesis by (simp only: set_prdt_i_def set_dbc_def load32_store32 mask22)
qed

lemma set_dw3_outside:
  assumes "o1 + 16 \<le> 2 ^ 64" "d < 2 ^ 64" "d < o1 + 12 \<or> o1 + 16 \<le> d"
  shows "set_prdt_i (t + of_nat o1) (set_dbc (t + of_nat o1) v m) (t + of_nat d) = m (t + of_nat d)"
proof -
  have e: "t + of_nat o1 + 12 = t + of_nat (o1 + 12)" by simp
  show ?thesis
    unfolding set_prdt_i_def set_dbc_def e
    by (subst store32_outside, (use assms in auto)[3])+ (rule refl)
qed

text \<open>One entry written in full.\<close>

lemma full_entry_spec:
  assumes "0x90 + 16 * i \<le> 2 ^ 64"
  obtains m' where "full_entry t i (m, buf, count) = (m', buf + 8192, count - 16)"
    "load32 m' (prdt_addr t i) = ucast buf" "load32 m' (prdt_addr t i + 4) = 0"
    "take_bit 22 (load32 m' (prdt_addr t i + 12)) = 8191"
    "\<forall>d<2 ^ 64. d < 0x80 + 16 * i \<or> 0x90 + 16 * i \<le> d \<longrightarrow> m' (t + of_nat d) = m (t + of_nat d)"
proof -
  let ?o = "0x80 + 16 * i" and ?e = "prdt_addr t i"
  let ?m1 = "store32 m ?e (ucast buf)"
  let ?m2 = "store32 ?m1 (?e + 4) 0"
  let ?m' = "set_prdt_i ?e (set_dbc ?e 8191 ?m2)"
  have e: "?e = t + of_nat ?o" "?e + 4 = t + of_nat (?o + 4)" by (simp_all add: prdt_addr_def)
  have same: "load32 ?m' (t + of_nat k) = load32 ?m2 (t + of_nat k)" if "?o \<le> k" "k + 4 \<le> ?o + 12" for k
    unfolding e(1) by (rule load32_rel_cong, rule set_dw3_outside) (use assms that in auto)
  show thesis
  proof (rule that)
    show "full_entry t i (m, buf, count) = (?m', buf + 8192, count - 16)" by (simp add: full_entry_def Let_def)
    have "load32 ?m' (t + of_nat ?o) = load32 ?m2 (t + of_nat ?o)" by (rule same) simp_all
    also have "\<dots> = load32 ?m1 (t + of_nat ?o)" unfolding e(2) unfolding e(1) by (rule load32_store32_rel) (use assms in simp_all)
    also have "\<dots> = ucast buf" unfolding e(1) by (rule load32_store32)
    finally show "load32 ?m' ?e = ucast buf" unfolding e .
    have "load32 ?m' (t + of_nat (?o + 4)) = load32 ?m2 (t + of_nat (?o + 4))" by (rule same) simp_all
    also have "\<dots> = 0" unfolding e(2) by (rule load32_store32)
    finally show "load32 ?m' (?e + 4) = 0" unfolding e(2) .
    show "take_bit 22 (load32 ?m' (?e + 12)) = 8191" unfolding set_dw3_len by (simp add: take_bit_eq_mod)
    show "\<forall>d<2 ^ 64. d < 0x80 + 16 * i \<or> 0x90 + 16 * i \<le> d \<longrightarrow> ?m' (t + of_nat d) = m (t + of_nat d)"
    proof (intro allI impI)
      fix d :: nat assume d: "d < 2 ^ 64" "d < 0x80 + 16 * i \<or> 0x90 + 16 * i \<le> d"
      have "?m' (t + of_nat d) = ?m2 (t + of_nat d)"
        unfolding e(1) by (rule set_dw3_outside) (use assms d in auto)
      also have "\<dots> = m (t + of_nat d)"
        unfolding e(2) unfolding e(1) by (subst store32_outside, (use assms d in auto)[3])+ (rule refl)
      finally show "?m' (t + of_nat d) = m (t + of_nat d)" .
    qed
  qed
qed


lemma entry_loads_cong:
  assumes "\<And>d. 0x80 + 16 * i \<le> d \<Longrightarrow> d < 0x90 + 16 * i \<Longrightarrow> m' (t + of_nat d) = m (t + of_nat d)"
  shows "load32 m' (prdt_addr t i) = load32 m (prdt_addr t i)" "load32 m' (prdt_addr t i + 4) = load32 m (prdt_addr t i + 4)"
    "load32 m' (prdt_addr t i + 12) = load32 m (prdt_addr t i + 12)"
  unfolding prdt_addr_rel(2,3) unfolding prdt_addr_rel(1) by (rule load32_rel_cong, rule assms; simp)+

lemma fold_full_entry:
  assumes "0x80 + 16 * n \<le> 2 ^ 64"
  shows "\<exists>m'. fold (full_entry t) [0..<n] (m, buf, count) = (m', buf + of_nat (8192 * n), count - of_nat (16 * n)) \<and>
    (\<forall>i<n. load32 m' (prdt_addr t i) = ucast (buf + of_nat (8192 * i)) \<and> load32 m' (prdt_addr t i + 4) = 0 \<and>
       take_bit 22 (load32 m' (prdt_addr t i + 12)) = 8191) \<and>
    (\<forall>d<2 ^ 64. d < 0x80 \<or> 0x80 + 16 * n \<le> d \<longrightarrow> m' (t + of_nat d) = m (t + of_nat d))"
  using assms
proof (induction n)
  case 0
  then show ?case by simp
next
  case (Suc n)
  then obtain m1 where 1: "fold (full_entry t) [0..<n] (m, buf, count) = (m1, buf + of_nat (8192 * n), count - of_nat (16 * n))"
    "\<forall>i<n. load32 m1 (prdt_addr t i) = ucast (buf + of_nat (8192 * i)) \<and> load32 m1 (prdt_addr t i + 4) = 0 \<and>
       take_bit 22 (load32 m1 (prdt_addr t i + 12)) = 8191"
    "\<forall>d<2 ^ 64. d < 0x80 \<or> 0x80 + 16 * n \<le> d \<longrightarrow> m1 (t + of_nat d) = m (t + of_nat d)"
    by auto
  have "0x90 + 16 * n \<le> 2 ^ 64" using Suc.prems by simp
  from full_entry_spec [OF this] obtain m2 where 2:
    "full_entry t n (m1, buf + of_nat (8192 * n), count - of_nat (16 * n)) =
       (m2, buf + of_nat (8192 * n) + 8192, count - of_nat (16 * n) - 16)"
    "load32 m2 (prdt_addr t n) = ucast (buf + of_nat (8192 * n))" "load32 m2 (prdt_addr t n + 4) = 0"
    "take_bit 22 (load32 m2 (prdt_addr t n + 12)) = 8191"
    "\<forall>d<2 ^ 64. d < 0x80 + 16 * n \<or> 0x90 + 16 * n \<le> d \<longrightarrow> m2 (t + of_nat d) = m1 (t + of_nat d)" .
  have old: "load32 m2 (prdt_addr t i) = load32 m1 (prdt_addr t i)" "load32 m2 (prdt_addr t i + 4) = load32 m1 (prdt_addr t i + 4)"
    "load32 m2 (prdt_addr t i + 12) = load32 m1 (prdt_addr t i + 12)" if "i < n" for i
  proof -
    have "m2 (t + of_nat d) = m1 (t + of_nat d)" if "d < 0x90 + 16 * i" for d
      using 2(5) that \<open>i < n\<close> Suc.prems by simp
    then show "load32 m2 (prdt_addr t i) = load32 m1 (prdt_addr t i)" "load32 m2 (prdt_addr t i + 4) = load32 m1 (prdt_addr t i + 4)"
      "load32 m2 (prdt_addr t i + 12) = load32 m1 (prdt_addr t i + 12)"
      using entry_loads_cong [of i m2 t m1] by blast+
  qed
  show ?case
  proof (intro exI conjI)
    show "fold (full_entry t) [0..<Suc n] (m, buf, count) = (m2, buf + of_nat (8192 * Suc n), count - of_nat (16 * Suc n))"
      using 1(1) 2(1) by (simp add: algebra_simps)
    show "\<forall>i<Suc n. load32 m2 (prdt_addr t i) = ucast (buf + of_nat (8192 * i)) \<and> load32 m2 (prdt_addr t i + 4) = 0 \<and>
        take_bit 22 (load32 m2 (prdt_addr t i + 12)) = 8191"
      using 1(2) 2(2-4) old by (auto simp: less_Suc_eq simp del: of_nat_mult)
    show "\<forall>d<2 ^ 64. d < 0x80 \<or> 0x80 + 16 * Suc n \<le> d \<longrightarrow> m2 (t + of_nat d) = m (t + of_nat d)"
      using 1(3) 2(5) by (auto simp del: of_nat_mult)
  qed
qed

text \<open>The sectors after the full regions.\<close>

lemma prdtl_of_pos:
  assumes "0 < count"
  shows "prdtl_of count = int ((unat count - 1) div 16) + 1" "nat (prdtl_of count - 1) = (unat count - 1) div 16"
proof -
  have "0 < unat count" using assms by (simp add: word_less_nat_alt)
  then have "int (unat count) - 1 = int (unat count - 1)" by simp
  then show "prdtl_of count = int ((unat count - 1) div 16) + 1" by (simp only: prdtl_of_def zdiv_int) simp
  then show "nat (prdtl_of count - 1) = (unat count - 1) div 16" by simp
qed

lemma load32_zero: "(\<And>d. o1 \<le> d \<Longrightarrow> d < o1 + 4 \<Longrightarrow> m (t + of_nat d) = 0) \<Longrightarrow> load32 m (t + of_nat o1) = 0"
proof -
  assume z: "\<And>d. o1 \<le> d \<Longrightarrow> d < o1 + 4 \<Longrightarrow> m (t + of_nat d) = 0"
  have "map (\<lambda>i. m (t + of_nat (o1 + i))) [0..<4] = map (\<lambda>i. 0) [0..<4]"
    by (rule map_cong [OF refl], rule z) simp_all
  then show ?thesis unfolding load32_def load_rel by (simp add: eval_nat_numeral)
qed

text \<open>The last entry, after \<open>n\<close> full ones.\<close>

lemma last_entry_spec:
  fixes t :: u64
  assumes "0x90 + 16 * n \<le> 2 ^ 64"
  defines "e \<equiv> prdt_addr t n"
  shows "load32 (set_prdt_i e (set_dbc e v (store32 m e b))) e = b"
    "load32 (set_prdt_i e (set_dbc e v (store32 m e b))) (e + 4) = load32 m (e + 4)"
    "take_bit 22 (load32 (set_prdt_i e (set_dbc e v (store32 m e b))) (e + 12)) = take_bit 22 v"
    "d < 2 ^ 64 \<Longrightarrow> d < 0x80 + 16 * n \<or> 0x90 + 16 * n \<le> d \<Longrightarrow>
      set_prdt_i e (set_dbc e v (store32 m e b)) (t + of_nat d) = m (t + of_nat d)"
proof -
  let ?o = "0x80 + 16 * n" and ?m = "set_prdt_i e (set_dbc e v (store32 m e b))"
  have e: "e = t + of_nat ?o" "e + 4 = t + of_nat (?o + 4)" by (simp_all add: e_def prdt_addr_def)
  have same: "load32 ?m (t + of_nat k) = load32 (store32 m e b) (t + of_nat k)" if "?o \<le> k" "k + 4 \<le> ?o + 12" for k
    unfolding e(1) by (rule load32_rel_cong, rule set_dw3_outside) (use assms(1) that in auto)
  have "load32 ?m (t + of_nat ?o) = load32 (store32 m e b) (t + of_nat ?o)" by (rule same) simp_all
  then show "load32 ?m e = b" unfolding e(1) load32_store32 .
  have "load32 ?m (t + of_nat (?o + 4)) = load32 (store32 m e b) (t + of_nat (?o + 4))" by (rule same) simp_all
  also have "\<dots> = load32 m (t + of_nat (?o + 4))" unfolding e(1) by (rule load32_store32_rel) (use assms(1) in simp_all)
  finally show "load32 ?m (e + 4) = load32 m (e + 4)" unfolding e(2) .
  show "take_bit 22 (load32 ?m (e + 12)) = take_bit 22 v" by (rule set_dw3_len)
  assume d: "d < 2 ^ 64" "d < 0x80 + 16 * n \<or> 0x90 + 16 * n \<le> d"
  have "?m (t + of_nat d) = store32 m e b (t + of_nat d)"
    unfolding e(1) by (rule set_dw3_outside) (use assms(1) d in auto)
  also have "\<dots> = m (t + of_nat d)"
    unfolding e(1) by (rule store32_outside) (use assms(1) d in auto)
  finally show "?m (t + of_nat d) = m (t + of_nat d)" .
qed

lemma unat_dbc:
  assumes "k < 2 ^ 22"
  shows "unat (take_bit 22 (word_of_int (int k) :: u32)) = k"
proof -
  have "unat (of_nat k :: u32) = k" using assms by (simp add: unat_of_nat take_bit_nat_eq_self)
  then show ?thesis using assms by (simp add: unsigned_take_bit_eq take_bit_nat_eq_self)
qed

lemma unat_ucast32: "unat x < 2 ^ 32 \<Longrightarrow> unat (ucast (x :: u64) :: u32) = unat x"
  by (simp add: unsigned_ucast_eq take_bit_nat_eq_self)

lemma build_prdt_spec:
  fixes m :: bytemem
  assumes c: "0 < cp_count params" and fits: "unat (cp_dba params) + 512 * unat (cp_count params) \<le> 2 ^ 32"
    and n: "n = (unat (cp_count params) - 1) div 16"
    and zero: "\<forall>d. 0x80 \<le> d \<and> d < 0x90 + 16 * n \<longrightarrow> m (t + of_nat d) = 0"
  shows "\<forall>i\<le>n. prd_start (build_prdt params t m) t i = unat (cp_dba params) + 8192 * i \<and>
      prd_len (build_prdt params t m) t i = (if i < n then 8192 else 512 * (unat (cp_count params) - 16 * n))"
    "\<forall>d<2 ^ 64. d < 0x80 \<or> 0x90 + 16 * n \<le> d \<longrightarrow> build_prdt params t m (t + of_nat d) = m (t + of_nat d)"
proof -
  let ?c = "cp_count params" and ?b = "cp_dba params"
  have pos: "0 < unat ?c" using c by (simp add: word_less_nat_alt)
  have big: "unat ?c < 65536" using unat16_lt [of ?c] by simp
  have n16: "16 * n < unat ?c" "unat ?c - 16 * n \<le> 16" "n < 4096" using pos big by (simp_all add: n)
  obtain m1 where 1: "fold (full_entry t) [0..<n] (m, ?b, ?c) = (m1, ?b + of_nat (8192 * n), ?c - of_nat (16 * n))"
    "\<forall>i<n. load32 m1 (prdt_addr t i) = ucast (?b + of_nat (8192 * i)) \<and> load32 m1 (prdt_addr t i + 4) = 0 \<and>
       take_bit 22 (load32 m1 (prdt_addr t i + 12)) = 8191"
    "\<forall>d<2 ^ 64. d < 0x80 \<or> 0x80 + 16 * n \<le> d \<longrightarrow> m1 (t + of_nat d) = m (t + of_nat d)"
    using fold_full_entry [of n t m ?b ?c] n16 by auto
  let ?e = "prdt_addr t n" and ?k = "512 * (unat ?c - 16 * n) - 1"
  have rest: "unat (?c - of_nat (16 * n)) = unat ?c - 16 * n"
  proof -
    have "unat (of_nat (16 * n) :: u16) = 16 * n" using n16 big by (simp add: unat_of_nat take_bit_nat_eq_self del: of_nat_mult)
    then show ?thesis using n16(1) by (simp add: unat_sub_if' del: of_nat_mult)
  qed
  have k: "int (unat (?c - of_nat (16 * n))) * 512 - 1 = int ?k"
  proof -
    have r: "int r * 512 - 1 = int (512 * r - 1)" if "0 < r" for r :: nat using that by (simp add: of_nat_diff)
    have "0 < unat ?c - 16 * n" using n16(1) by simp
    from r [OF this] show ?thesis unfolding rest .
  qed
  define m' where "m' = set_prdt_i ?e (set_dbc ?e (word_of_int (int ?k)) (store32 m1 ?e (ucast (?b + of_nat (8192 * n)))))"
  have m': "build_prdt params t m = m'"
    unfolding build_prdt_def Let_def prdtl_of_pos(2) [OF c] n [symmetric] 1(1) prod.case m'_def k ..
  have lim: "0x90 + 16 * n \<le> 2 ^ 64" using n16(3) by simp
  note last = last_entry_spec [OF lim, where t = t and m = m1 and v = "word_of_int (int ?k)" and b = "ucast (?b + of_nat (8192 * n))",
      folded m'_def]
  have base: "unat (ucast (?b + of_nat (8192 * i)) :: u32) = unat ?b + 8192 * i" if "i \<le> n" for i
  proof -
    have "8192 * i \<le> 512 * (16 * n)" using that by simp
    also have "\<dots> < 512 * unat ?c" using n16(1) by simp
    finally have lt: "unat ?b + 8192 * i < 2 ^ 32" using fits by simp
    then have "unat (?b + of_nat (8192 * i)) = unat ?b + 8192 * i"
      by (subst unat_offset [of _ "8192 * i + 1"]) simp_all
    then show ?thesis using lt by (subst unat_ucast32) (simp_all del: of_nat_mult)
  qed
  have zn: "load32 m1 (?e + 4) = 0"
    unfolding prdt_addr_rel(2)
    by (rule load32_zero) (use 1(3) zero n16 in simp)
  have old: "load32 m' (prdt_addr t i) = load32 m1 (prdt_addr t i)" "load32 m' (prdt_addr t i + 4) = load32 m1 (prdt_addr t i + 4)"
    "load32 m' (prdt_addr t i + 12) = load32 m1 (prdt_addr t i + 12)" if "i < n" for i
    by (rule entry_loads_cong; rule last(4); use that n16 in simp)+
  show "\<forall>i\<le>n. prd_start (build_prdt params t m) t i = unat ?b + 8192 * i \<and>
      prd_len (build_prdt params t m) t i = (if i < n then 8192 else 512 * (unat ?c - 16 * n))"
  proof (intro allI impI)
    fix i assume i: "i \<le> n"
    show "prd_start (build_prdt params t m) t i = unat ?b + 8192 * i \<and>
      prd_len (build_prdt params t m) t i = (if i < n then 8192 else 512 * (unat ?c - 16 * n))"
    proof (cases "i < n")
      case True
      then show ?thesis unfolding m' prd_start_def prd_len_def old [OF True]
        using 1(2) base [OF i] by (simp del: of_nat_mult)
    next
      case False
      then have "i = n" using i by simp
      moreover have "?k < 2 ^ 22" using n16(2) by simp
      moreover have "0 < unat ?c - 16 * n" using n16(1) by simp
      ultimately show ?thesis unfolding m' prd_start_def prd_len_def
        using last(1-3) zn base [OF i] unat_dbc [of ?k] by (simp del: of_nat_mult)
    qed
  qed
  show "\<forall>d<2 ^ 64. d < 0x80 \<or> 0x90 + 16 * n \<le> d \<longrightarrow> build_prdt params t m (t + of_nat d) = m (t + of_nat d)"
    unfolding m' using last(4) 1(3) by auto
qed


section \<open>The command FIS\<close>

text \<open>A register FIS: the type and the flag that it carries a command, the command, LBA addressing,
  the sector address and the sector count.\<close>

definition fis_command :: "bytemem \<Rightarrow> u64 \<Rightarrow> u8 option" where
  "fis_command m t = (if m t = 0x27 \<and> bit (m (t + 1)) 7 \<and> bit (m (t + 7)) 6 then Some (m (t + 2)) else None)"

definition fis_lba :: "bytemem \<Rightarrow> u64 \<Rightarrow> nat" where
  "fis_lba m t = le_value [m (t + 4), m (t + 5), m (t + 6), m (t + 8), m (t + 9), m (t + 10)]"

definition fis_count :: "bytemem \<Rightarrow> u64 \<Rightarrow> nat" where
  "fis_count m t = le_value [m (t + 12), m (t + 13)]"

lemma le_value_word:
  fixes v :: "'a::len word"
  shows "le_value [ucast (drop_bit 0 v), ucast (drop_bit 8 v)] = unat v mod 256 ^ 2"
    "le_value [ucast (drop_bit 0 v), ucast (drop_bit 8 v), ucast (drop_bit 16 v), ucast (drop_bit 24 v), ucast (drop_bit 32 v),
      ucast (drop_bit 40 v)] = unat v mod 256 ^ 6"
proof -
  have u: "[0..<2] = [0, 1 :: nat]" "[0..<6] = [0, 1, 2, 3, 4, 5 :: nat]" by (simp_all add: upt_rec)
  show "le_value [ucast (drop_bit 0 v), ucast (drop_bit 8 v)] = unat v mod 256 ^ 2"
    unfolding le_value_bytes [symmetric] u by (simp add: le_byte_def)
  show "le_value [ucast (drop_bit 0 v), ucast (drop_bit 8 v), ucast (drop_bit 16 v), ucast (drop_bit 24 v), ucast (drop_bit 32 v),
      ucast (drop_bit 40 v)] = unat v mod 256 ^ 6"
    unfolding le_value_bytes [symmetric] u by (simp add: le_byte_def)
qed

lemma build_fis_bytes:
  "build_fis params t m t = 0x27" "build_fis params t m (t + 1) = or (m (t + 1)) 0x80"
  "build_fis params t m (t + 2) = cp_cmd_type params" "build_fis params t m (t + 7) = 0x40"
  "build_fis params t m (t + 4) = ucast (drop_bit 0 (cp_lba params))"
  "build_fis params t m (t + 5) = ucast (drop_bit 8 (cp_lba params))"
  "build_fis params t m (t + 6) = ucast (drop_bit 16 (cp_lba params))"
  "build_fis params t m (t + 8) = ucast (drop_bit 24 (cp_lba params))"
  "build_fis params t m (t + 9) = ucast (drop_bit 32 (cp_lba params))"
  "build_fis params t m (t + 10) = ucast (drop_bit 40 (cp_lba params))"
  "build_fis params t m (t + 12) = ucast (drop_bit 0 (cp_count params))"
  "build_fis params t m (t + 13) = ucast (drop_bit 8 (cp_count params))"
  by (simp_all add: build_fis_def)

lemma build_fis_spec:
  "fis_command (build_fis params t m) t = Some (cp_cmd_type params)"
  "fis_lba (build_fis params t m) t = unat (cp_lba params) mod 2 ^ 48"
  "fis_count (build_fis params t m) t = unat (cp_count params)"
proof -
  have "bit (or x 0x80) 7" "bit (0x40 :: u8) 6" for x :: u8 by (simp_all add: bit_simps)
  then show "fis_command (build_fis params t m) t = Some (cp_cmd_type params)"
    by (simp add: fis_command_def build_fis_bytes)
  show "fis_lba (build_fis params t m) t = unat (cp_lba params) mod 2 ^ 48"
    unfolding fis_lba_def build_fis_bytes le_value_word by simp
  show "fis_count (build_fis params t m) t = unat (cp_count params)"
    unfolding fis_count_def build_fis_bytes le_value_word using unat16_lt [of "cp_count params"] by simp
qed

lemma build_fis_outside:
  assumes "d < 2 ^ 64" "14 \<le> d"
  shows "build_fis params t m (t + of_nat d) = m (t + of_nat d)"
proof -
  have "of_nat d \<noteq> (of_nat j :: u64)" if "j < 14" for j
  proof
    assume "of_nat d = (of_nat j :: u64)"
    then have "unat (of_nat d :: u64) = unat (of_nat j :: u64)" by (rule arg_cong)
    then show False using unat_of_nat64 [OF assms(1)] unat_of_nat64 [of j] assms(2) that by simp
  qed
  from this [of 0] this [of 1] this [of 2] this [of 4] this [of 5] this [of 6] this [of 7] this [of 8] this [of 9]
    this [of 10] this [of 12] this [of 13]
  show ?thesis by (simp add: build_fis_def)
qed


section \<open>The whole table\<close>

text \<open>\<open>describes m t cmd lba count buf\<close>: the table at \<open>t\<close> is a command for \<open>count\<close> sectors from \<open>lba\<close>
  whose regions, one after the other, are the \<open>512 * count\<close> bytes from \<open>buf\<close>.\<close>

definition describes :: "bytemem \<Rightarrow> u64 \<Rightarrow> u8 \<Rightarrow> nat \<Rightarrow> nat \<Rightarrow> nat \<Rightarrow> bool" where
  "describes m t cmd lba count buf \<longleftrightarrow>
     fis_command m t = Some cmd \<and> fis_lba m t = lba \<and> fis_count m t = count \<and>
     (\<forall>i\<le>(count - 1) div 16. prd_start m t i = buf + 8192 * i \<and>
        prd_len m t i = (if i < (count - 1) div 16 then 8192 else 512 * (count - 16 * ((count - 1) div 16))))"

lemma memset_rel:
  assumes "n \<le> d \<or> d < n" "d < 2 ^ 64" "n < 2 ^ 64"
  shows "memset m t ch (of_nat n) (t + of_nat d) = (if d < n then ucast ch else m (t + of_nat d))"
  using unat_of_nat64 [OF assms(2)] unat_of_nat64 [OF assms(3)] by (simp add: memset_eq word_less_nat_alt)

lemma fis_cong:
  assumes "\<And>d. d < 14 \<Longrightarrow> m' (t + of_nat d) = m (t + of_nat d)"
  shows "fis_command m' t = fis_command m t" "fis_lba m' t = fis_lba m t" "fis_count m' t = fis_count m t"
  using assms [of 0] assms [of 1] assms [of 2] assms [of 4] assms [of 5] assms [of 6] assms [of 7] assms [of 8] assms [of 9]
    assms [of 10] assms [of 12] assms [of 13]
  by (simp_all add: fis_command_def fis_lba_def fis_count_def)

lemma describes_cong:
  assumes "\<And>d. d < 0x90 + 16 * ((count - 1) div 16) \<Longrightarrow> m' (t + of_nat d) = m (t + of_nat d)"
  shows "describes m' t cmd lba count buf = describes m t cmd lba count buf"
proof -
  have "prd_start m' t i = prd_start m t i" "prd_len m' t i = prd_len m t i" if "i \<le> (count - 1) div 16" for i
    unfolding prd_start_def prd_len_def using entry_loads_cong [of i m' t m] assms that by auto
  moreover have "fis_command m' t = fis_command m t" "fis_lba m' t = fis_lba m t" "fis_count m' t = fis_count m t"
    using fis_cong [of m' t m] assms by auto
  ultimately show ?thesis by (simp add: describes_def)
qed

lemma build_cmd_table_eq:
  assumes fis: "cp_fis_type params = 0x27" and c: "0 < cp_count params"
    and dba: "even (unat (cp_dba params))" "cp_dba params \<noteq> 0"
    and fits: "unat (cp_dba params) + 512 * unat (cp_count params) \<le> 2 ^ 32"
  obtains m' where "build_cmd_table params t s = Inr (s\<lparr>bytes := m'\<rparr>)"
    "describes m' t (cp_cmd_type params) (unat (cp_lba params) mod 2 ^ 48) (unat (cp_count params)) (unat (cp_dba params))"
    "\<forall>d<2 ^ 64. 0x90 + 16 * ((unat (cp_count params) - 1) div 16) \<le> d \<longrightarrow> m' (t + of_nat d) = bytes s (t + of_nat d)"
proof -
  let ?n = "(unat (cp_count params) - 1) div 16"
  have n: "?n < 4096" using unat16_lt [of "cp_count params"] by simp
  have size: "word_of_int (0x80 + 16 * prdtl_of (cp_count params)) = (of_nat (0x90 + 16 * ?n) :: u64)"
    using prdtl_of_pos(1) [OF c] by simp
  let ?m0 = "memset (bytes s) t 0 (of_nat (0x90 + 16 * ?n))"
  have m0: "?m0 (t + of_nat d) = (if d < 0x90 + 16 * ?n then 0 else bytes s (t + of_nat d))" if "d < 2 ^ 64" for d
    using memset_rel [of "0x90 + 16 * ?n" d "bytes s" t 0] that n by auto
  let ?m1 = "build_fis params t ?m0" and ?m2 = "build_prdt params t (build_fis params t ?m0)"
  have m1: "?m1 (t + of_nat d) = ?m0 (t + of_nat d)" if "d < 2 ^ 64" "14 \<le> d" for d
    using build_fis_outside [OF that] .
  have zero: "\<forall>d. 0x80 \<le> d \<and> d < 0x90 + 16 * ?n \<longrightarrow> ?m1 (t + of_nat d) = 0" using m0 m1 n by simp
  note p = build_prdt_spec [OF c fits refl zero]
  have "is_aligned (cp_dba params) 2 \<noteq> 0"
  proof -
    have "unat (cp_dba params mod 2) = 0" using dba(1) by (simp add: unat_mod)
    then have "cp_dba params mod 2 = 0" using unat_eq_zero by blast
    then show ?thesis using dba(2) by (simp add: is_aligned_def)
  qed
  then have eq: "build_cmd_table params t s = Inr (s\<lparr>bytes := ?m2\<rparr>)"
    unfolding build_cmd_table_def Let_def size using fis by simp
  have same: "?m2 (t + of_nat d) = ?m1 (t + of_nat d)" if "d < 14" for d using p(2) that by simp
  have "describes ?m2 t (cp_cmd_type params) (unat (cp_lba params) mod 2 ^ 48) (unat (cp_count params)) (unat (cp_dba params))"
    using p(1) fis_cong [of ?m2 t ?m1, OF same] build_fis_spec [of params t ?m0] by (simp add: describes_def)
  moreover have "\<forall>d<2 ^ 64. 0x90 + 16 * ?n \<le> d \<longrightarrow> ?m2 (t + of_nat d) = bytes s (t + of_nat d)"
    using p(2) m0 m1 by simp
  ultimately show thesis using eq by (intro that)
qed


section \<open>The command header\<close>

text \<open>The fields of a header: the table it points to, the number of regions, the length of the FIS in
  dwords and the direction.\<close>

definition hdr_table :: "bytemem \<Rightarrow> u64 \<Rightarrow> nat" where
  "hdr_table m h = unat (load32 m (h + 8)) + 2 ^ 32 * unat (load32 m (h + 12))"

definition hdr_prdtl :: "bytemem \<Rightarrow> u64 \<Rightarrow> nat" where
  "hdr_prdtl m h = unat (load16 m (h + 2))"

definition hdr_cfl :: "bytemem \<Rightarrow> u64 \<Rightarrow> nat" where
  "hdr_cfl m h = unat (and (m h) 0x1f)"

definition hdr_write :: "bytemem \<Rightarrow> u64 \<Rightarrow> bool" where
  "hdr_write m h \<longleftrightarrow> bit (m h) 6"

lemma rel_neq:
  fixes t :: u64
  assumes "d < 2 ^ 64" "j < 2 ^ 64" "d \<noteq> j"
  shows "t + of_nat d \<noteq> t + of_nat j"
proof
  assume "t + of_nat d = t + of_nat j"
  then have "unat (of_nat d :: u64) = unat (of_nat j :: u64)" by simp
  then show False unfolding unat_of_nat64 [OF assms(1)] unat_of_nat64 [OF assms(2)] using assms(3) by simp
qed

lemma store16_outside:
  assumes "o1 + 2 \<le> 2 ^ 64" "d < 2 ^ 64" "d < o1 \<or> o1 + 2 \<le> d"
  shows "store16 m (t + of_nat o1) v (t + of_nat d) = m (t + of_nat d)"
  using store_rel [OF assms(1) _ assms(2)] assms(3) by (auto simp: store16_def)

text \<open>The first byte: FIS length in bits 0 to 4, direction in bit 6.\<close>

lemma header_byte:
  fixes x cfl w :: u8
  defines "b \<equiv> or (and (or (and x (not 0x1f)) (and cfl 0x1f)) (not 0x40)) (push_bit 6 (and w 1))"
  shows "and b 0x1f = and cfl 0x1f" "bit b 6 \<longleftrightarrow> bit w 0"
proof -
  have m: "(0x1f :: u8) = mask 5" "(0x40 :: u8) = push_bit 6 1" by (simp_all add: mask_eq_exp_minus_1 push_bit_eq_mult)
  show "and b 0x1f = and cfl 0x1f" unfolding b_def m
    by (rule bit_word_eqI) (auto simp only: bit_or_iff bit_and_iff bit_not_iff bit_mask_iff bit_push_bit_iff bit_1_iff)
  have "bit (push_bit 6 (and w 1)) 6 = bit w 0"
    by (simp only: bit_push_bit_iff bit_and_iff bit_1_iff) simp
  then show "bit b 6 \<longleftrightarrow> bit w 0" unfolding b_def m
    by (simp only: bit_or_iff bit_and_iff bit_not_iff bit_push_bit_iff bit_1_iff) simp
qed

lemma set_header_spec:
  fixes m :: bytemem and h tbl :: u64
  assumes c: "0 < cp_count params" and t: "unat tbl < 2 ^ 32"
  defines "m' \<equiv> set_header h tbl params m"
  shows "hdr_table m' h = unat tbl" "hdr_prdtl m' h = (unat (cp_count params) - 1) div 16 + 1"
    "hdr_cfl m' h = unat (and (cp_cfis_len params) 0x1f)" "hdr_write m' h \<longleftrightarrow> bit (cp_w params) 0"
    "d < 2 ^ 64 \<Longrightarrow> 16 \<le> d \<Longrightarrow> m' (h + of_nat d) = m (h + of_nat d)"
proof -
  let ?p = "word_of_int (prdtl_of (cp_count params)) :: u16"
  let ?ma = "store32 m (h + of_nat 8) (ucast tbl)"
  let ?mb = "store32 ?ma (h + of_nat 12) 0"
  let ?mc = "store16 ?mb (h + of_nat 2) ?p"
  define b where "b = or (and (or (and (?mc h) (not 0x1f)) (and (cp_cfis_len params) 0x1f)) (not 0x40)) (push_bit 6 (and (cp_w params) 1))"
  have m': "m' = ?mc(h := b)"
    unfolding m'_def set_header_def Let_def b_def of_nat_numeral fun_upd_same fun_upd_upd ..
  note b = header_byte [of "?mc h" "cp_cfis_len params" "cp_w params", folded b_def]
  have up: "m' (h + of_nat d) = ?mc (h + of_nat d)" if "0 < d" "d < 2 ^ 64" for d
    using rel_neq [of d 0 h] that by (simp add: m')
  have c16: "?mc (h + of_nat d) = ?mb (h + of_nat d)" if "d < 2 \<or> 4 \<le> d" "d < 2 ^ 64" for d
    by (rule store16_outside) (use that in auto)
  have "load32 m' (h + of_nat 8) = load32 ?mb (h + of_nat 8)"
    by (rule load32_rel_cong) (subst up, simp, simp, rule c16; simp)
  also have "\<dots> = load32 ?ma (h + of_nat 8)" by (rule load32_store32_rel) simp_all
  finally have 8: "load32 m' (h + 8) = ucast tbl" using load32_store32 [of m "h + 8"] by simp
  have "load32 m' (h + of_nat 12) = load32 ?mb (h + of_nat 12)"
    by (rule load32_rel_cong) (subst up, simp, simp, rule c16; simp)
  then have 12: "load32 m' (h + 12) = 0" using load32_store32 [of ?ma "h + 12"] by simp
  show "hdr_table m' h = unat tbl" using 8 12 unat_ucast32 [OF t] by (simp add: hdr_table_def)
  have "load16 m' (h + of_nat 2) = load16 ?mc (h + of_nat 2)"
    unfolding load16_def by (rule arg_cong [where f = of_nat], rule load_rel_cong, rule up) simp_all
  then have "load16 m' (h + 2) = ?p" using load16_store16 [of ?mb "h + 2"] by simp
  moreover have "unat ?p = (unat (cp_count params) - 1) div 16 + 1"
  proof -
    have "(unat (cp_count params) - 1) div 16 + 1 < 65536" using unat16_lt [of "cp_count params"] by simp
    moreover have "?p = of_nat ((unat (cp_count params) - 1) div 16 + 1)" using prdtl_of_pos(1) [OF c] by simp
    ultimately show ?thesis by (simp add: unat_of_nat take_bit_nat_eq_self del: of_nat_add of_nat_Suc)
  qed
  ultimately show "hdr_prdtl m' h = (unat (cp_count params) - 1) div 16 + 1" by (simp add: hdr_prdtl_def)
  show "hdr_cfl m' h = unat (and (cp_cfis_len params) 0x1f)" "hdr_write m' h \<longleftrightarrow> bit (cp_w params) 0"
    using b by (simp_all add: hdr_cfl_def hdr_write_def m')
  assume d: "d < 2 ^ 64" "16 \<le> d"
  have "m' (h + of_nat d) = ?mc (h + of_nat d)" using up d by simp
  also have "\<dots> = ?mb (h + of_nat d)" using c16 d by simp
  also have "\<dots> = ?ma (h + of_nat d)" by (rule store32_outside) (use d in auto)
  also have "\<dots> = m (h + of_nat d)" by (rule store32_outside) (use d in auto)
  finally show "m' (h + of_nat d) = m (h + of_nat d)" .
qed

end
