(* ===== verification/Ahci_Read.thy ===== *)
theory Ahci_Read
  imports Ahci_Table
begin

text \<open>
  Reading sectors. The adapter stays a parameter; \<open>serves\<close> states what the AHCI specification promises
  of one whose registers are \<open>reg d a\<close>: status registers are cleared by writing ones, stopping a port
  clears \<open>PxCMD.CR\<close>, and a command issued on an idle, started port is carried out as its header and
  table say and announced in \<open>PxIS\<close> and \<open>IS\<close> after \<open>lag d\<close> more reads of \<open>PxIS\<close>.
\<close>

section \<open>What a command does\<close>

text \<open>The bytes of \<open>src\<close> from \<open>pos\<close> on, written to the regions in order.\<close>

primrec scatter :: "(nat \<Rightarrow> u8) \<Rightarrow> nat \<Rightarrow> (nat \<times> nat) list \<Rightarrow> bytemem \<Rightarrow> bytemem" where
  "scatter src pos [] m = m"
| "scatter src pos (r # rs) m =
     scatter src (pos + snd r) rs
       (\<lambda>x. if fst r \<le> unat x \<and> unat x < fst r + snd r then src (pos + (unat x - fst r)) else m x)"

definition regions :: "bytemem \<Rightarrow> u64 \<Rightarrow> nat \<Rightarrow> (nat \<times> nat) list" where
  "regions m t n = map (\<lambda>i. (prd_start m t i, prd_len m t i)) [0..<n]"

text \<open>A header at \<open>h\<close> that is a request to read sectors, and what memory holds when it is done.\<close>

definition read_request :: "bytemem \<Rightarrow> u64 \<Rightarrow> bool" where
  "read_request m h \<longleftrightarrow> fis_command m (of_nat (hdr_table m h)) = Some READ_DMA_EXT \<and> hdr_cfl m h = 5 \<and> \<not> hdr_write m h \<and>
     0 < fis_count m (of_nat (hdr_table m h))"

definition read_done :: "(nat \<Rightarrow> u8) \<Rightarrow> bytemem \<Rightarrow> u64 \<Rightarrow> bytemem" where
  "read_done disk m h =
     (let t = of_nat (hdr_table m h) in scatter disk (512 * fis_lba m t) (regions m t (hdr_prdtl m h)) m)"

definition serves :: "'d hba \<Rightarrow> ('d \<Rightarrow> u64 \<Rightarrow> u32) \<Rightarrow> ('d \<Rightarrow> nat) \<Rightarrow> (nat \<Rightarrow> u8) \<Rightarrow> u64 \<Rightarrow> nat \<Rightarrow> bool" where
  "serves dv reg lag disk base k \<longleftrightarrow>
     (let P = base + 0x100 + 0x80 * of_nat k in
      (\<forall>a d m. \<not> (a = P + port_off P_is \<and> 0 < lag d) \<longrightarrow> mmio_read dv a d m = (reg d a, d, m)) \<and>
      (\<forall>d m. 0 < lag d \<longrightarrow> (\<exists>d'. mmio_read dv (P + port_off P_is) d m = (0, d', m) \<and> reg d' = reg d \<and> Suc (lag d') = lag d)) \<and>
      (\<forall>v d m. \<exists>d' c. mmio_write dv (P + port_off P_cmd) v d m = (d', m) \<and> lag d' = lag d \<and>
         reg d' = (reg d)(P + port_off P_cmd := c) \<and> (bit c 0 \<longleftrightarrow> bit v 0) \<and> (\<not> bit v 0 \<longrightarrow> and c 0x8000 = 0)) \<and>
      (\<forall>v d m. \<forall>a\<in>{P + port_off P_is, base + hba_off Is}. \<exists>d'. mmio_write dv a v d m = (d', m) \<and> lag d' = lag d \<and>
         reg d' = (reg d)(a := and (reg d a) (not v))) \<and>
      (\<forall>d m slot. lag d = 0 \<and> slot < 32 \<and> reg d (P + port_off P_ci) = 0 \<and> reg d (P + port_off P_is) = 0 \<and>
         bit (reg d (P + port_off P_cmd)) 0 \<and>
         read_request m (ucast (reg d (P + port_off P_clb)) + 32 * of_nat slot) \<longrightarrow>
         (\<exists>d' i. mmio_write dv (P + port_off P_ci) (push_bit slot 1) d m =
             (d', read_done disk m (ucast (reg d (P + port_off P_clb)) + 32 * of_nat slot)) \<and> i \<noteq> 0 \<and>
             reg d' = (reg d)(P + port_off P_is := i, base + hba_off Is := or (reg d (base + hba_off Is)) (push_bit k 1)))))"

section \<open>Contiguous regions\<close>

primrec chained :: "nat \<Rightarrow> (nat \<times> nat) list \<Rightarrow> bool" where
  "chained a [] \<longleftrightarrow> True"
| "chained a (r # rs) \<longleftrightarrow> fst r = a \<and> chained (a + snd r) rs"

lemma scatter_chained:
  "chained a rs \<Longrightarrow> scatter src pos rs m x =
    (if a \<le> unat x \<and> unat x < a + sum_list (map snd rs) then src (pos + (unat x - a)) else m x)"
proof (induction rs arbitrary: a pos m)
  case (Cons r rs)
  from Cons.IH [of "a + snd r"] Cons.prems show ?case by auto
qed auto

lemma chained_snoc: "chained a (rs @ [r]) \<longleftrightarrow> chained a rs \<and> fst r = a + sum_list (map snd rs)"
  by (induction rs arbitrary: a) (auto simp: add.assoc)

lemma chained_full:
  "(\<forall>i<n. f i = (a + 8192 * i, 8192)) \<Longrightarrow> chained a (map f [0..<n]) \<and> sum_list (map snd (map f [0..<n])) = 8192 * n"
  by (induction n) (simp_all add: chained_snoc)

lemma describes_regions:
  assumes "describes m t cmd lba count buf" "0 < count"
  shows "chained buf (regions m t ((count - 1) div 16 + 1))"
    "sum_list (map snd (regions m t ((count - 1) div 16 + 1))) = 512 * count"
proof -
  let ?n = "(count - 1) div 16" and ?f = "\<lambda>i. (prd_start m t i, prd_len m t i)"
  have f: "\<forall>i<?n. ?f i = (buf + 8192 * i, 8192)" "?f ?n = (buf + 8192 * ?n, 512 * (count - 16 * ?n))"
    using assms(1) by (auto simp: describes_def)
  have r: "regions m t (?n + 1) = map ?f [0..<?n] @ [?f ?n]" by (simp add: regions_def)
  note c = chained_full [OF f(1)]
  show "chained buf (regions m t (?n + 1))" unfolding r chained_snoc f(2) using c by simp
  have "16 * ?n < count" using assms(2) by simp
  then show "sum_list (map snd (regions m t (?n + 1))) = 512 * count" unfolding r f(2) using c by simp
qed

section \<open>Slots\<close>

lemma slot_loop_Some: "slot_loop n i x = Some k \<longleftrightarrow> (\<exists>j<n. k = i + j \<and> \<not> bit x j \<and> (\<forall>l<j. bit x l))"
proof (induction n arbitrary: i x)
  case (Suc n)
  have b: "and x 1 = 0 \<longleftrightarrow> \<not> bit x 0" by (simp add: and_one_eq bit_0 even_iff_mod_2_eq_zero)
  show ?case
  proof (cases "bit x 0")
    case False
    then show ?thesis using b by (auto simp: less_Suc_eq_0_disj intro: exI [of _ 0])
  next
    case True
    have "(\<exists>j<Suc n. k = i + j \<and> \<not> bit x j \<and> (\<forall>l<j. bit x l)) \<longleftrightarrow>
        (\<exists>j<n. k = i + Suc j \<and> \<not> bit x (Suc j) \<and> (\<forall>l<Suc j. bit x l))"
      using True by (auto simp: less_Suc_eq_0_disj)
    also have "\<dots> \<longleftrightarrow> (\<exists>j<n. k = i + 1 + j \<and> \<not> bit (drop_bit 1 x) j \<and> (\<forall>l<j. bit (drop_bit 1 x) l))"
      using True by (auto simp: bit_drop_bit_eq less_Suc_eq_0_disj)
    finally show ?thesis using True b Suc.IH [of "i + 1" "drop_bit 1 x"] by simp
  qed
qed simp


section \<open>Accesses\<close>

text \<open>The state with adapter state \<open>d\<close> and memory \<open>m\<close>, otherwise as \<open>s\<close>.\<close>

definition st :: "'d \<Rightarrow> bytemem \<Rightarrow> ('d, 'z) ahci_scheme \<Rightarrow> ('d, 'z) ahci_scheme" where
  "st d m s = s\<lparr>hba_st := d, bytes := m\<rparr>"

lemma st_fields [simp]:
  "hba_st (st d m s) = d" "bytes (st d m s) = m" "abar (st d m s) = abar s" "cmd_tbl_base (st d m s) = cmd_tbl_base s"
  "hba_port i (st d m s) = hba_port i s" "(st d m s)\<lparr>bytes := m'\<rparr> = st d m' s" "st d' m' (st d m s) = st d' m' s"
  by (simp_all add: st_def hba_port_def)

lemma st_id: "st (hba_st s) (bytes s) s = s"
  by (simp add: st_def)

text \<open>The promises of \<open>serves\<close>, one by one.\<close>

lemma servesD:
  assumes "serves dv reg lag disk base k" "P = base + 0x100 + 0x80 * of_nat k"
  shows "a \<noteq> P + port_off P_is \<or> lag d = 0 \<Longrightarrow> mmio_read dv a d m = (reg d a, d, m)"
    "0 < lag d \<Longrightarrow> \<exists>d'. mmio_read dv (P + port_off P_is) d m = (0, d', m) \<and> reg d' = reg d \<and> Suc (lag d') = lag d"
    "\<exists>d' c. mmio_write dv (P + port_off P_cmd) v d m = (d', m) \<and> lag d' = lag d \<and>
       reg d' = (reg d)(P + port_off P_cmd := c) \<and> (bit c 0 \<longleftrightarrow> bit v 0) \<and> (\<not> bit v 0 \<longrightarrow> and c 0x8000 = 0)"
    "a = P + port_off P_is \<or> a = base + hba_off Is \<Longrightarrow> \<exists>d'. mmio_write dv a v d m = (d', m) \<and> lag d' = lag d \<and>
       reg d' = (reg d)(a := and (reg d a) (not v))"
    "lag d = 0 \<Longrightarrow> slot < 32 \<Longrightarrow> reg d (P + port_off P_ci) = 0 \<Longrightarrow> reg d (P + port_off P_is) = 0 \<Longrightarrow>
       bit (reg d (P + port_off P_cmd)) 0 \<Longrightarrow> read_request m (ucast (reg d (P + port_off P_clb)) + 32 * of_nat slot) \<Longrightarrow>
       \<exists>d' i. mmio_write dv (P + port_off P_ci) (push_bit slot 1) d m =
           (d', read_done disk m (ucast (reg d (P + port_off P_clb)) + 32 * of_nat slot)) \<and> i \<noteq> 0 \<and>
           reg d' = (reg d)(P + port_off P_is := i, base + hba_off Is := or (reg d (base + hba_off Is)) (push_bit k 1))"
proof -
  note c = assms(1) [unfolded serves_def Let_def, folded assms(2)]
  show "a \<noteq> P + port_off P_is \<or> lag d = 0 \<Longrightarrow> mmio_read dv a d m = (reg d a, d, m)"
    using c [THEN conjunct1] by auto
  show "0 < lag d \<Longrightarrow> \<exists>d'. mmio_read dv (P + port_off P_is) d m = (0, d', m) \<and> reg d' = reg d \<and> Suc (lag d') = lag d"
    using c [THEN conjunct2, THEN conjunct1] by blast
  show "\<exists>d' c. mmio_write dv (P + port_off P_cmd) v d m = (d', m) \<and> lag d' = lag d \<and>
       reg d' = (reg d)(P + port_off P_cmd := c) \<and> (bit c 0 \<longleftrightarrow> bit v 0) \<and> (\<not> bit v 0 \<longrightarrow> and c 0x8000 = 0)"
    using c [THEN conjunct2, THEN conjunct2, THEN conjunct1] by blast
  show "a = P + port_off P_is \<or> a = base + hba_off Is \<Longrightarrow> \<exists>d'. mmio_write dv a v d m = (d', m) \<and> lag d' = lag d \<and>
       reg d' = (reg d)(a := and (reg d a) (not v))"
    using c [THEN conjunct2, THEN conjunct2, THEN conjunct2, THEN conjunct1] by blast
  show "lag d = 0 \<Longrightarrow> slot < 32 \<Longrightarrow> reg d (P + port_off P_ci) = 0 \<Longrightarrow> reg d (P + port_off P_is) = 0 \<Longrightarrow>
       bit (reg d (P + port_off P_cmd)) 0 \<Longrightarrow> read_request m (ucast (reg d (P + port_off P_clb)) + 32 * of_nat slot) \<Longrightarrow>
       \<exists>d' i. mmio_write dv (P + port_off P_ci) (push_bit slot 1) d m =
           (d', read_done disk m (ucast (reg d (P + port_off P_clb)) + 32 * of_nat slot)) \<and> i \<noteq> 0 \<and>
           reg d' = (reg d)(P + port_off P_is := i, base + hba_off Is := or (reg d (base + hba_off Is)) (push_bit k 1))"
    using c [THEN conjunct2, THEN conjunct2, THEN conjunct2, THEN conjunct2] by blast
qed

lemma rd32_st: "mmio_read dv a d m = (v, d', m') \<Longrightarrow> rd32 dv a (st d m s) = (v, st d' m' s)"
  by (simp add: rd32_def st_def)

lemma wr32_st: "mmio_write dv a v d m = (d', m') \<Longrightarrow> wr32 dv a v (st d m s) = st d' m' s"
  by (simp add: wr32_def st_def)

lemma upd32_st:
  "mmio_read dv a d m = (v, d, m) \<Longrightarrow> mmio_write dv a (f v) d m = (d', m') \<Longrightarrow> upd32 dv a f (st d m s) = st d' m' s"
  by (simp add: upd32_def rd32_st wr32_st)

lemma poll_stop: "mmio_read dv a d m = (v, d', m') \<Longrightarrow> \<not> c v \<Longrightarrow> poll dv a c body (st d m s) = Inr (st d' m' s)"
  by (simp add: poll_def spin_while.simps rd32_st)

lemma poll_again:
  "mmio_read dv a d m = (v, d', m') \<Longrightarrow> c v \<Longrightarrow> poll dv a c (\<lambda>s. s) (st d m s) = poll dv a c (\<lambda>s. s) (st d' m' s)"
  by (subst poll_def, subst spin_while.simps) (simp add: poll_def rd32_st)

section \<open>The steps of a command\<close>

lemma start_cmd_spec:
  assumes sv: "serves dv reg lag disk base k" and P: "P = base + 0x100 + 0x80 * of_nat k" and l: "lag d = 0"
  obtains d' c where "start_cmd dv P (st d m s) = Inr (st d' m s)" "lag d' = 0" "reg d' = (reg d)(P + port_off P_cmd := c)" "bit c 0"
proof -
  note D = servesD [OF sv P]
  let ?a = "P + port_off P_cmd"
  obtain d1 c1 where 1: "mmio_write dv ?a (and (reg d ?a) 0xfffffffe) d m = (d1, m)" "lag d1 = 0"
    "reg d1 = (reg d)(?a := c1)" "and c1 0x8000 = 0"
    using D(3) [of "and (reg d ?a) 0xfffffffe" d m] l by (auto simp: bit_simps)
  obtain d2 c2 where 2: "mmio_write dv ?a (or (reg d1 ?a) 0x10) d1 m = (d2, m)" "lag d2 = 0" "reg d2 = (reg d1)(?a := c2)"
    using D(3) [of "or (reg d1 ?a) 0x10" d1 m] 1(2) by auto
  obtain d3 c3 where 3: "mmio_write dv ?a (or (reg d2 ?a) 0x01) d2 m = (d3, m)" "lag d3 = 0" "reg d3 = (reg d2)(?a := c3)" "bit c3 0"
    using D(3) [of "or (reg d2 ?a) 0x01" d2 m] 2(2) by (auto simp: bit_simps)
  have "start_cmd dv P (st d m s) = Inr (st d3 m s)"
    unfolding start_cmd_def Let_def
    using upd32_st [where f = "\<lambda>v. and v 0xfffffffe" and s = s, OF D(1) 1(1)]
      upd32_st [where f = "\<lambda>v. or v 0x10" and s = s, OF D(1) 2(1)]
      upd32_st [where f = "\<lambda>v. or v 0x01" and s = s, OF D(1) 3(1)]
      poll_stop [OF D(1), of ?a d1 "\<lambda>v. and v 0x8000 \<noteq> 0" "\<lambda>s. s" m s] l 1 2(2)
    by simp
  then show thesis using 3 2(3) 1(3) by (intro that [of d3 c3]) auto
qed


text \<open>Command list and command table of the port: below 4 GiB, aligned, apart.\<close>

definition areas_ok :: "u64 \<Rightarrow> u64 \<Rightarrow> bool" where
  "areas_ok c t \<longleftrightarrow> t \<noteq> 0 \<and> t mod 128 = 0 \<and> unat t + 0x10090 \<le> 2 ^ 32 \<and> unat c + 0x400 \<le> 2 ^ 32 \<and>
     (unat c + 0x400 \<le> unat t \<or> unat t + 0x10090 \<le> unat c)"

definition outside :: "u64 \<Rightarrow> u64 \<Rightarrow> u64 \<Rightarrow> bool" where
  "outside c t x \<longleftrightarrow> (unat x < unat c \<or> unat c + 0x400 \<le> unat x) \<and> (unat x < unat t \<or> unat t + 0x10090 \<le> unat x)"

lemma at_rel: "(x :: u64) = t + of_nat (unat (x - t))"
  by simp

lemma rel_ge:
  fixes t x :: u64
  assumes "unat t + k \<le> 2 ^ 64" "k < 2 ^ 64" "unat x < unat t \<or> unat t + k \<le> unat x"
  shows "k \<le> unat (x - t)"
  using outside_region [OF assms] unat_of_nat64 [OF assms(2)] by (simp add: word_less_nat_alt)

lemma build_cmdheader_spec:
  assumes sv: "serves dv reg lag disk base k" and P: "P = base + 0x100 + 0x80 * of_nat k" and l: "lag d = 0"
    and c: "0 < cp_count params" and areas: "areas_ok (ucast (reg d (P + port_off P_clb))) (cmd_tbl_base s)"
  defines "h \<equiv> ucast (reg d (P + port_off P_clb))"
  obtains m' where "build_cmdheader dv P 0 params (st d m s) = Inr (st d m' s)"
    "hdr_table m' h = unat (cmd_tbl_base s)" "hdr_prdtl m' h = (unat (cp_count params) - 1) div 16 + 1"
    "hdr_cfl m' h = unat (and (cp_cfis_len params) 0x1f)" "hdr_write m' h \<longleftrightarrow> bit (cp_w params) 0"
    "\<forall>x. unat x < unat h \<or> unat h + 0x400 \<le> unat x \<longrightarrow> m' x = m x"
proof -
  let ?t = "cmd_tbl_base s" and ?m0 = "memset m h 0 0x400"
  have a: "?t mod 128 = 0" "?t \<noteq> 0" "unat ?t < 2 ^ 32" "unat h + 0x400 \<le> 2 ^ 64"
    using areas by (auto simp: areas_ok_def h_def)
  have "is_aligned ?t 128 \<noteq> 0" using a by (simp add: is_aligned_def)
  then have "build_cmdheader dv P 0 params (st d m s) = Inr (st d (set_header h ?t params ?m0) s)"
    using rd32_st [OF servesD(1) [OF sv P], of "P + port_off P_clb" d m s] l
    by (simp add: build_cmdheader_def h_def Let_def)
  moreover note set_header_spec(1-4) [OF c a(3), of h ?m0]
  moreover have "set_header h ?t params ?m0 x = m x" if x: "unat x < unat h \<or> unat h + 0x400 \<le> unat x" for x
  proof -
    have far: "0x400 \<le> unat (x - h)" using rel_ge [of h "0x400" x] a(4) x by simp
    then have "set_header h ?t params ?m0 (h + of_nat (unat (x - h))) = ?m0 (h + of_nat (unat (x - h)))"
      by (intro set_header_spec(5) [OF c a(3)]) (use unat64_lt in simp_all)
    also have "\<dots> = m x" using far by (simp add: memset_eq word_less_nat_alt)
    finally show ?thesis by simp
  qed
  ultimately show thesis by (intro that [of "set_header h ?t params ?m0"]) auto
qed

lemma build_command_spec:
  assumes sv: "serves dv reg lag disk base k" and P: "P = base + 0x100 + 0x80 * of_nat k" and l: "lag d = 0"
    and idle: "reg d (P + port_off P_ci) = 0" "reg d (P + port_off P_sact) = 0"
    and par: "cp_fis_type params = 0x27" "0 < cp_count params" "even (unat (cp_dba params))" "cp_dba params \<noteq> 0"
      "unat (cp_dba params) + 512 * unat (cp_count params) \<le> 2 ^ 32"
    and areas: "areas_ok (ucast (reg d (P + port_off P_clb))) (cmd_tbl_base s)"
  defines "h \<equiv> ucast (reg d (P + port_off P_clb))"
  obtains m' where "build_command dv P params (st d m s) = Inr (notify_cmd_is_active dv P 0 (st d m' s))"
    "hdr_table m' h = unat (cmd_tbl_base s)" "hdr_prdtl m' h = (unat (cp_count params) - 1) div 16 + 1"
    "hdr_cfl m' h = unat (and (cp_cfis_len params) 0x1f)" "hdr_write m' h \<longleftrightarrow> bit (cp_w params) 0"
    "describes m' (cmd_tbl_base s) (cp_cmd_type params) (unat (cp_lba params) mod 2 ^ 48) (unat (cp_count params)) (unat (cp_dba params))"
    "\<forall>x. outside h (cmd_tbl_base s) x \<longrightarrow> m' x = m x"
proof -
  let ?t = "cmd_tbl_base s" and ?n = "(unat (cp_count params) - 1) div 16"
  have n: "?n < 4096" using unat16_lt [of "cp_count params"] by simp
  have a: "unat ?t + 0x10090 \<le> 2 ^ 64" "unat h + 0x400 \<le> unat ?t \<or> unat ?t + 0x10090 \<le> unat h"
    using areas by (auto simp: areas_ok_def h_def)
  have slot: "find_free_cmdslot dv P (st d m s) = (0, st d m s)"
  proof -
    have "slot_loop 32 0 0 = Some 0" unfolding slot_loop_Some by (intro exI [of _ 0]) simp
    then show ?thesis
      using rd32_st [OF servesD(1) [OF sv P], of "P + port_off P_ci" d m s]
        rd32_st [OF servesD(1) [OF sv P], of "P + port_off P_sact" d m s] l idle
      by (simp add: find_free_cmdslot_def)
  qed
  obtain m1 where 1: "build_cmd_table params ?t (st d m s) = Inr ((st d m s)\<lparr>bytes := m1\<rparr>)"
    "describes m1 ?t (cp_cmd_type params) (unat (cp_lba params) mod 2 ^ 48) (unat (cp_count params)) (unat (cp_dba params))"
    "\<forall>d'<2 ^ 64. 0x90 + 16 * ?n \<le> d' \<longrightarrow> m1 (?t + of_nat d') = bytes (st d m s) (?t + of_nat d')"
    by (rule build_cmd_table_eq [OF par])
  obtain m2 where 2: "build_cmdheader dv P 0 params (st d m1 s) = Inr (st d m2 s)"
    "hdr_table m2 h = unat ?t" "hdr_prdtl m2 h = ?n + 1" "hdr_cfl m2 h = unat (and (cp_cfis_len params) 0x1f)"
    "hdr_write m2 h \<longleftrightarrow> bit (cp_w params) 0" "\<forall>x. unat x < unat h \<or> unat h + 0x400 \<le> unat x \<longrightarrow> m2 x = m1 x"
    unfolding h_def by (rule build_cmdheader_spec [OF sv P l par(2) areas])
  show thesis
  proof (rule that [of m2])
    show "build_command dv P params (st d m s) = Inr (notify_cmd_is_active dv P 0 (st d m2 s))"
      using slot 1(1) 2(1) by (simp add: build_command_def)
    have "m2 (?t + of_nat d') = m1 (?t + of_nat d')" if "d' < 0x90 + 16 * ?n" for d'
    proof -
      have "d' < 0x10090" using that n by simp
      moreover from this have "unat (?t + of_nat d') = unat ?t + d'" using unat_offset [OF a(1)] by simp
      ultimately show ?thesis using 2(6) a(2) by auto
    qed
    then show "describes m2 ?t (cp_cmd_type params) (unat (cp_lba params) mod 2 ^ 48) (unat (cp_count params)) (unat (cp_dba params))"
      using 1(2) describes_cong by blast
    show "\<forall>x. outside h ?t x \<longrightarrow> m2 x = m x"
    proof (intro allI impI)
      fix x assume x: "outside h ?t x"
      then have "0x10090 \<le> unat (x - ?t)" using rel_ge [of ?t "0x10090" x] a(1) by (simp add: outside_def)
      then have "m1 (?t + of_nat (unat (x - ?t))) = m (?t + of_nat (unat (x - ?t)))"
        using 1(3) [rule_format, of "unat (x - ?t)"] n unat64_lt [of "x - ?t"] by simp
      moreover have "m2 x = m1 x" using 2(6) x unfolding outside_def by blast
      ultimately show "m2 x = m x" by simp
    qed
  qed (use 2 in auto)
qed


lemma wait_interrupt_spec:
  assumes sv: "serves dv reg lag disk base k" and P: "P = base + 0x100 + 0x80 * of_nat k" and i: "reg d (P + port_off P_is) \<noteq> 0"
  obtains d' where "wait_interrupt dv P (st d m s) = Inr (st d' m s)" "reg d' = reg d" "lag d' = 0"
  using i
proof (induction "lag d" arbitrary: d thesis)
  case 0
  then show ?case
    using poll_stop [OF servesD(1) [OF sv P], of "P + port_off P_is" d "\<lambda>v. v = 0" "\<lambda>s. s" m s] by (simp add: wait_interrupt_def)
next
  case (Suc n)
  then obtain d1 where d1: "mmio_read dv (P + port_off P_is) d m = (0, d1, m)" "reg d1 = reg d" "Suc (lag d1) = lag d"
    using servesD(2) [OF sv P, of d m] by auto
  then have n: "n = lag d1" "reg d1 (P + port_off P_is) \<noteq> 0" using Suc by simp_all
  from Suc.hyps(1) [OF n(1) _ n(2)] obtain d' where "wait_interrupt dv P (st d1 m s) = Inr (st d' m s)"
    "reg d' = reg d1" "lag d' = 0" by metis
  then show ?case
    using Suc.prems(1) [of d'] poll_again [OF d1(1), of "\<lambda>v. v = 0" s] d1(2) by (simp add: wait_interrupt_def)
qed

lemma clear_pxis_spec:
  assumes sv: "serves dv reg lag disk base k" and P: "P = base + 0x100 + 0x80 * of_nat k" and l: "lag d = 0"
  obtains d' where "clear_pxis dv P (st d m s) = Inr (st d' m s)" "reg d' = (reg d)(P + port_off P_is := 0)" "lag d' = 0"
proof -
  let ?a = "P + port_off P_is"
  obtain d' where d': "mmio_write dv ?a (or (reg d ?a) (reg d ?a)) d m = (d', m)" "lag d' = 0"
    "reg d' = (reg d)(?a := and (reg d ?a) (not (or (reg d ?a) (reg d ?a))))"
    using servesD(4) [OF sv P, of ?a "or (reg d ?a) (reg d ?a)" d m] l by auto
  then have r: "reg d' = (reg d)(?a := 0)" by simp
  have "clear_pxis dv P (st d m s) = Inr (st d' m s)"
    using rd32_st [OF servesD(1) [OF sv P], of ?a d m s] l upd32_st [where f = "\<lambda>v. or v (reg d ?a)" and s = s, OF servesD(1) [OF sv P] d'(1)]
      poll_stop [OF servesD(1) [OF sv P], of ?a d' "\<lambda>v. v \<noteq> 0" "\<lambda>s. s" m s] d'(2) r
    by (simp add: clear_pxis_def)
  then show thesis using r d'(2) by (intro that)
qed

lemma clear_ghc_is_spec:
  assumes sv: "serves dv reg lag disk base k" and P: "P = base + 0x100 + 0x80 * of_nat k" and l: "lag d = 0" and b: "abar s = base"
  obtains d' where "clear_ghc_is dv (int k) (st d m s) = Inr (st d' m s)" "reg d' = (reg d)(base + hba_off Is := 0)" "lag d' = 0"
proof -
  let ?a = "base + hba_off Is"
  let ?v = "or (reg d ?a) (push_bit k 1)"
  obtain d' where d': "mmio_write dv ?a ?v d m = (d', m)" "lag d' = 0" "reg d' = (reg d)(?a := and (reg d ?a) (not ?v))"
    using servesD(4) [OF sv P, of ?a ?v d m] l by auto
  have "and (reg d ?a) (not ?v) = 0" by (rule bit_word_eqI) (auto simp: bit_and_iff bit_or_iff bit_not_iff)
  then have r: "reg d' = (reg d)(?a := 0)" using d'(3) by simp
  have "clear_ghc_is dv (int k) (st d m s) = Inr (st d' m s)"
    using upd32_st [where f = "\<lambda>v. or v (push_bit k 1)" and s = s, OF servesD(1) [OF sv P] d'(1)] l
      poll_stop [OF servesD(1) [OF sv P], of ?a d' "\<lambda>v. v \<noteq> 0" "\<lambda>s. s" m s] d'(2) r b
    by (simp add: clear_ghc_is_def)
  then show thesis using r d'(2) by (intro that)
qed


lemma port_reg_neq:
  assumes "k < 32"
  shows "base + 0x100 + 0x80 * of_nat k + port_off r \<noteq> base + hba_off q"
proof -
  obtain o1 where o1: "port_off r = of_nat o1" "o1 \<le> 0x40"
  proof (cases r)
  qed (rule that [of "unat (port_off r)"], simp_all)+
  obtain o2 where o2: "hba_off q = of_nat o2" "o2 \<le> 0x28"
  proof (cases q)
  qed (rule that [of "unat (hba_off q)"], simp_all)+
  have "base + of_nat (0x100 + 0x80 * k + o1) \<noteq> base + of_nat o2"
    by (rule rel_neq) (use assms o1(2) o2(2) in simp_all)
  then show ?thesis by (simp add: o1(1) o2(1) add.assoc)
qed

text \<open>An idle port.\<close>

definition idle :: "('d \<Rightarrow> u64 \<Rightarrow> u32) \<Rightarrow> ('d \<Rightarrow> nat) \<Rightarrow> u64 \<Rightarrow> 'd \<Rightarrow> bool" where
  "idle reg lag P d \<longleftrightarrow> lag d = 0 \<and> reg d (P + port_off P_ci) = 0 \<and> reg d (P + port_off P_sact) = 0 \<and> reg d (P + port_off P_is) = 0"

text \<open>What commands leave alone in the adapter.\<close>

definition same_setup :: "('d \<Rightarrow> u64 \<Rightarrow> u32) \<Rightarrow> u64 \<Rightarrow> u64 \<Rightarrow> 'd \<Rightarrow> 'd \<Rightarrow> bool" where
  "same_setup reg base P d d' \<longleftrightarrow> reg d' (base + hba_off Pi) = reg d (base + hba_off Pi) \<and>
     reg d' (P + port_off P_clb) = reg d (P + port_off P_clb)"

lemma do_read:
  assumes sv: "serves dv reg lag disk base k" and P: "P = base + 0x100 + 0x80 * of_nat k" and k: "k < 32" and b: "abar s = base"
    and id: "idle reg lag P d" and areas: "areas_ok (ucast (reg d (P + port_off P_clb))) (cmd_tbl_base s)"
    and par: "0 < count" "even (unat buf)" "buf \<noteq> 0" "unat buf + 512 * unat count \<le> 2 ^ 32" "unat lba < 2 ^ 48"
  obtains d' m' where "do_command dv P (int k) (rw_params READ_DMA_EXT 0 lba count buf) (st d m s) = Inr (1, st d' m' s)"
    "idle reg lag P d'" "same_setup reg base P d d'"
    "\<forall>x. if unat buf \<le> unat x \<and> unat x < unat buf + 512 * unat count then m' x = disk (512 * unat lba + (unat x - unat buf))
       else outside (ucast (reg d (P + port_off P_clb))) (cmd_tbl_base s) x \<longrightarrow> m' x = m x"
proof -
  let ?p = "rw_params READ_DMA_EXT 0 lba count buf" and ?t = "cmd_tbl_base s"
  define h :: u64 where "h = ucast (reg d (P + port_off P_clb))"
  let ?is = "P + port_off P_is" and ?ci = "P + port_off P_ci" and ?IS = "base + hba_off Is"
  note neq = port_reg_neq [OF k, of base, folded P]
  have i: "lag d = 0" "reg d ?ci = 0" "reg d (P + port_off P_sact) = 0" "reg d ?is = 0" using id by (simp_all add: idle_def)
  obtain d1 c where 1: "start_cmd dv P (st d m s) = Inr (st d1 m s)" "lag d1 = 0" "reg d1 = (reg d)(P + port_off P_cmd := c)" "bit c 0"
    by (rule start_cmd_spec [OF sv P i(1)])
  have r1: "reg d1 ?ci = 0" "reg d1 (P + port_off P_sact) = 0" "reg d1 ?is = 0" "reg d1 (P + port_off P_clb) = reg d (P + port_off P_clb)"
    using i 1(3) by simp_all
  have pf: "cp_fis_type ?p = 0x27" "0 < cp_count ?p" "even (unat (cp_dba ?p))" "cp_dba ?p \<noteq> 0"
    "unat (cp_dba ?p) + 512 * unat (cp_count ?p) \<le> 2 ^ 32"
    using par by (simp_all add: rw_params_def)
  have areas1: "areas_ok (ucast (reg d1 (P + port_off P_clb))) ?t" using areas r1(4) by simp
  obtain m2 where 2: "build_command dv P ?p (st d1 m s) = Inr (notify_cmd_is_active dv P 0 (st d1 m2 s))"
    "hdr_table m2 h = unat ?t" "hdr_prdtl m2 h = (unat count - 1) div 16 + 1"
    "hdr_cfl m2 h = 5" "\<not> hdr_write m2 h" "describes m2 ?t READ_DMA_EXT (unat lba) (unat count) (unat buf)"
    "\<forall>x. outside h ?t x \<longrightarrow> m2 x = m x"
    using build_command_spec [OF sv P 1(2) r1(1,2) pf areas1] r1(4) par(5)
    by (simp add: h_def rw_params_def) metis
  have cpos: "0 < unat count" using par(1) by (simp add: word_less_nat_alt)
  have req: "read_request m2 h"
    using 2(2,4-6) cpos by (simp add: read_request_def describes_def)
  obtain d3 w where 3: "mmio_write dv ?ci (push_bit 0 1) d1 m2 = (d3, read_done disk m2 h)" "w \<noteq> 0"
    "reg d3 = (reg d1)(?is := w, ?IS := or (reg d1 ?IS) (push_bit k 1))"
    using servesD(5) [OF sv P, of d1 0 m2] 1(2-4) r1 req by (auto simp: h_def)
  let ?m = "read_done disk m2 h"
  have issue: "notify_cmd_is_active dv P 0 (st d1 m2 s) = st d3 ?m s"
    using upd32_st [where f = "\<lambda>v. or v (push_bit 0 1)" and s = s, OF servesD(1) [OF sv P], of ?ci d1 m2 d3 ?m] 3(1) r1(1) 1(2)
    by (simp add: notify_cmd_is_active_def)
  have w3: "reg d3 ?is \<noteq> 0" using 3(2,3) neq [of P_is Is] by simp
  obtain d4 where 4: "wait_interrupt dv P (st d3 ?m s) = Inr (st d4 ?m s)" "reg d4 = reg d3" "lag d4 = 0"
    by (rule wait_interrupt_spec [where s = s, OF sv P w3])
  obtain d5 where 5: "clear_pxis dv P (st d4 ?m s) = Inr (st d5 ?m s)" "reg d5 = (reg d4)(?is := 0)" "lag d5 = 0"
    by (rule clear_pxis_spec [OF sv P 4(3)])
  obtain d6 where 6: "clear_ghc_is dv (int k) (st d5 ?m s) = Inr (st d6 ?m s)" "reg d6 = (reg d5)(?IS := 0)" "lag d6 = 0"
    by (rule clear_ghc_is_spec [OF sv P 5(3) b])
  have r6: "reg d6 = (reg d)(P + port_off P_cmd := c, ?is := 0, ?IS := 0)"
    by (simp add: 6(2) 5(2) 4(2) 3(3) 1(3) fun_upd_twist neq)
  have ci6: "reg d6 ?ci = 0" using i neq [of P_ci Is] by (simp add: r6)
  have "wait_pxci_clear dv P (st d6 ?m s) = Inr (st d6 ?m s)"
    using poll_stop [OF servesD(1) [OF sv P], of ?ci d6 "\<lambda>v. v \<noteq> 0" "\<lambda>s. s" ?m s] ci6 6(3) by (simp add: wait_pxci_clear_def)
  then have eq: "do_command dv P (int k) ?p (st d m s) = Inr (1, st d6 ?m s)"
    by (simp add: do_command_def 1(1) 2(1) issue 4(1) 5(1) 6(1))
  have tbl: "(of_nat (unat ?t) :: u64) = ?t" by simp
  note regs = describes_regions [OF 2(6) cpos]
  have lba: "fis_lba m2 ?t = unat lba" using 2(6) by (simp add: describes_def)
  have m': "?m x = (if unat buf \<le> unat x \<and> unat x < unat buf + 512 * unat count then disk (512 * unat lba + (unat x - unat buf)) else m2 x)" for x
    unfolding read_done_def 2(2,3) tbl Let_def lba scatter_chained [OF regs(1)] regs(2) ..
  show thesis
  proof (rule that [OF eq])
    show "idle reg lag P d6" using i neq 6(3) ci6 by (simp add: idle_def r6)
    show "same_setup reg base P d d6" 
    proof -
      have "base + hba_off Pi \<noteq> P + port_off P_cmd" "base + hba_off Pi \<noteq> ?is" "base + hba_off Pi \<noteq> ?IS"
        using neq [of P_cmd Pi] neq [of P_is Pi] by (metis, metis, simp)
      then have "reg d6 (base + hba_off Pi) = reg d (base + hba_off Pi)" unfolding r6 fun_upd_apply by presburger
      moreover have "reg d6 (P + port_off P_clb) = reg d (P + port_off P_clb)" using neq [of P_clb Is] by (simp add: r6)
      ultimately show ?thesis by (simp only: same_setup_def)
    qed
  qed (use m' 2(7) in \<open>simp add: h_def\<close>)
qed


section \<open>Reading from a disk\<close>

text \<open>An initialised adapter with an idle disk at its first implemented port.\<close>

definition disk_ready ::
  "'d hba \<Rightarrow> ('d \<Rightarrow> u64 \<Rightarrow> u32) \<Rightarrow> ('d \<Rightarrow> nat) \<Rightarrow> (nat \<Rightarrow> u8) \<Rightarrow> nat \<Rightarrow> ('d, 'z) ahci_scheme \<Rightarrow> bool" where
  "disk_ready dv reg lag disk k s \<longleftrightarrow> serves dv reg lag disk (abar s) k \<and> k < 32 \<and> idle reg lag (hba_port k s) (hba_st s) \<and>
     bit (reg (hba_st s) (abar s + hba_off Pi)) k \<and> (\<forall>j<k. \<not> bit (reg (hba_st s) (abar s + hba_off Pi)) j) \<and>
     areas_ok (ucast (reg (hba_st s) (hba_port k s + port_off P_clb))) (cmd_tbl_base s)"

definition cmd_list :: "('d \<Rightarrow> u64 \<Rightarrow> u32) \<Rightarrow> nat \<Rightarrow> ('d, 'z) ahci_scheme \<Rightarrow> u64" where
  "cmd_list reg k s = ucast (reg (hba_st s) (hba_port k s + port_off P_clb))"

lemma do_read_ready:
  assumes r: "disk_ready dv reg lag disk k s"
    and par: "0 < count" "even (unat buf)" "buf \<noteq> 0" "unat buf + 512 * unat count \<le> 2 ^ 32" "unat lba < 2 ^ 48"
  obtains d' m' where "ahci_read dv (hba_port k s) (int k) lba count buf s = Inr (1, st d' m' s)"
    "disk_ready dv reg lag disk k (st d' m' s)" "cmd_list reg k (st d' m' s) = cmd_list reg k s"
    "\<forall>x. if unat buf \<le> unat x \<and> unat x < unat buf + 512 * unat count then m' x = disk (512 * unat lba + (unat x - unat buf))
       else outside (cmd_list reg k s) (cmd_tbl_base s) x \<longrightarrow> m' x = bytes s x"
proof -
  have a: "serves dv reg lag disk (abar s) k" "k < 32" "idle reg lag (hba_port k s) (hba_st s)"
    "areas_ok (ucast (reg (hba_st s) (hba_port k s + port_off P_clb))) (cmd_tbl_base s)"
    using r by (simp_all add: disk_ready_def)
  have P: "hba_port k s = abar s + 0x100 + 0x80 * of_nat k" by (simp add: hba_port_def)
  obtain d' m' where "do_command dv (hba_port k s) (int k) (rw_params READ_DMA_EXT 0 lba count buf) (st (hba_st s) (bytes s) s) = Inr (1, st d' m' s)"
    "idle reg lag (hba_port k s) d'" "same_setup reg (abar s) (hba_port k s) (hba_st s) d'"
    "\<forall>x. if unat buf \<le> unat x \<and> unat x < unat buf + 512 * unat count then m' x = disk (512 * unat lba + (unat x - unat buf))
       else outside (ucast (reg (hba_st s) (hba_port k s + port_off P_clb))) (cmd_tbl_base s) x \<longrightarrow> m' x = bytes s x"
    by (rule do_read [OF a(1) P a(2) refl a(3,4) par, of "bytes s"])
  then show thesis
    using r by (intro that [of d' m']) (simp_all add: ahci_read_def st_id disk_ready_def same_setup_def cmd_list_def)
qed

lemma impl_loop_Some: "impl_loop n i x = Some k \<longleftrightarrow> (\<exists>j<n. k = i + j \<and> bit x j \<and> (\<forall>l<j. \<not> bit x l))"
proof (induction n arbitrary: i x)
  case (Suc n)
  have b: "and x 1 = 1 \<longleftrightarrow> bit x 0" by (simp add: and_one_eq bit_0 odd_iff_mod_2_eq_one)
  show ?case
  proof (cases "bit x 0")
    case True
    then show ?thesis using b by (auto simp: less_Suc_eq_0_disj intro: exI [of _ 0])
  next
    case False
    have "(\<exists>j<Suc n. k = i + j \<and> bit x j \<and> (\<forall>l<j. \<not> bit x l)) \<longleftrightarrow>
        (\<exists>j<n. k = i + Suc j \<and> bit x (Suc j) \<and> (\<forall>l<Suc j. \<not> bit x l))"
      using False by (auto simp: less_Suc_eq_0_disj)
    also have "\<dots> \<longleftrightarrow> (\<exists>j<n. k = i + 1 + j \<and> bit (drop_bit 1 x) j \<and> (\<forall>l<j. \<not> bit (drop_bit 1 x) l))"
      using False by (auto simp: bit_drop_bit_eq less_Suc_eq_0_disj)
    finally show ?thesis using False b Suc.IH [of "i + 1" "drop_bit 1 x"] by simp
  qed
qed simp

lemma probe_impl_port_ready:
  assumes r: "disk_ready dv reg lag disk k s"
  shows "probe_impl_port dv s = ((hba_port k s, int k), s)"
proof -
  have a: "serves dv reg lag disk (abar s) k" "k < 32" "lag (hba_st s) = 0" "bit (reg (hba_st s) (abar s + hba_off Pi)) k"
    "\<forall>j<k. \<not> bit (reg (hba_st s) (abar s + hba_off Pi)) j"
    using r by (simp_all add: disk_ready_def idle_def)
  have "rd32 dv (abar s + hba_off Pi) (st (hba_st s) (bytes s) s) = (reg (hba_st s) (abar s + hba_off Pi), st (hba_st s) (bytes s) s)"
    by (rule rd32_st, rule servesD(1) [OF a(1) refl]) (simp add: a)
  moreover have "impl_loop 32 0 (reg (hba_st s) (abar s + hba_off Pi)) = Some k"
    unfolding impl_loop_Some using a by auto
  ultimately show ?thesis by (simp add: probe_impl_port_def st_id)
qed

lemma copy_loop:
  "fold (\<lambda>i s. s\<lparr>bytes := (bytes s)(buf + of_nat i := bytes s (pool + word_of_int (int i + offset)))\<rparr>) [0..<n] s =
    s\<lparr>bytes := memcpy_upto (bytes s) buf (pool + word_of_int offset) n\<rparr>" (is "fold ?f _ _ = _")
proof (induction n)
  case (Suc n)
  have "fold ?f [0..<Suc n] s = ?f n (fold ?f [0..<n] s)" by simp
  also have "\<dots> = ?f n (s\<lparr>bytes := memcpy_upto (bytes s) buf (pool + word_of_int offset) n\<rparr>)" unfolding Suc.IH ..
  also have "\<dots> = s\<lparr>bytes := memcpy_upto (bytes s) buf (pool + word_of_int offset) (Suc n)\<rparr>"
    by (simp add: Let_def add.commute add.left_commute)
  finally show ?case .
qed simp

text \<open>\<open>n\<close> bytes at \<open>buf\<close> from byte \<open>offset\<close> of the array at \<open>pool\<close>, whose first half the sectors fill.\<close>

definition pool_room :: "u64 \<Rightarrow> u16 \<Rightarrow> u64 \<Rightarrow> int \<Rightarrow> int \<Rightarrow> bool" where
  "pool_room pool count buf n offset \<longleftrightarrow> 0 < count \<and> even (unat pool) \<and> pool \<noteq> 0 \<and> unat pool + 1024 * unat count \<le> 2 ^ 32 \<and>
     0 \<le> offset \<and> nat offset + nat n \<le> 1024 * unat count \<and>
     (unat buf + nat n \<le> unat pool \<or> unat pool + 1024 * unat count \<le> unat buf) \<and> unat buf + nat n \<le> 2 ^ 64"

text \<open>The same without leaving the sectors.\<close>

definition pool_ok :: "u64 \<Rightarrow> u16 \<Rightarrow> u64 \<Rightarrow> int \<Rightarrow> int \<Rightarrow> bool" where
  "pool_ok pool count buf n offset \<longleftrightarrow> pool_room pool count buf n offset \<and> nat offset + nat n \<le> 512 * unat count"

lemma read_byte_spec:
  assumes r: "disk_ready dv reg lag disk k s" and p: "pool_room pool count buf n offset" and lba: "unat start < 2 ^ 48"
  obtains d' m' where "ahci_read_byte dv pool start count buf n offset s = Inr (st d' m' s)"
    "disk_ready dv reg lag disk k (st d' m' s)" "cmd_list reg k (st d' m' s) = cmd_list reg k s"
    "\<forall>i<nat n. if nat offset + i < 512 * unat count then m' (buf + of_nat i) = disk (512 * unat start + nat offset + i)
       else outside (cmd_list reg k s) (cmd_tbl_base s) (pool + of_nat (nat offset + i)) \<longrightarrow>
         m' (buf + of_nat i) = bytes s (pool + of_nat (nat offset + i))"
    "\<forall>x. outside (cmd_list reg k s) (cmd_tbl_base s) x \<and> (unat x < unat pool \<or> unat pool + 512 * unat count \<le> unat x) \<and>
       (unat x < unat buf \<or> unat buf + nat n \<le> unat x) \<longrightarrow> m' x = bytes s x"
proof -
  let ?lim = "unat pool + 512 * unat count"
  have q: "0 < count" "even (unat pool)" "pool \<noteq> 0" "unat pool + 1024 * unat count \<le> 2 ^ 32" "0 \<le> offset"
    "nat offset + nat n \<le> 1024 * unat count" "unat buf + nat n \<le> unat pool \<or> unat pool + 1024 * unat count \<le> unat buf"
    "unat buf + nat n \<le> 2 ^ 64" "?lim \<le> 2 ^ 32"
    using p by (auto simp: pool_room_def)
  obtain d' m1 where 1: "ahci_read dv (hba_port k s) (int k) start count pool s = Inr (1, st d' m1 s)"
    "disk_ready dv reg lag disk k (st d' m1 s)" "cmd_list reg k (st d' m1 s) = cmd_list reg k s"
    "\<forall>x. if unat pool \<le> unat x \<and> unat x < ?lim then m1 x = disk (512 * unat start + (unat x - unat pool))
       else outside (cmd_list reg k s) (cmd_tbl_base s) x \<longrightarrow> m1 x = bytes s x"
    by (rule do_read_ready [OF r q(1-3,9) lba])
  define src where "src = pool + of_nat (nat offset)"
  have src: "unat (src + of_nat i) = unat pool + nat offset + i" if "nat offset + i < 1024 * unat count" for i
    using unat_offset [of pool "1024 * unat count" "nat offset + i"] that q(4) by (simp add: src_def add.assoc)
  define m' where "m' = memcpy_upto m1 buf src (nat n)"
  have inside: "n + offset \<le> 1024 * int (unat count)" "0 \<le> offset" using q(5,6) by linarith+
  have "word_of_int offset = (of_nat (nat offset) :: u64)" using q(5) by simp
  then have eq: "ahci_read_byte dv pool start count buf n offset s = Inr (st d' m' s)"
    using probe_impl_port_ready [OF r] 1(1)
    unfolding ahci_read_byte_def copy_loop using inside by (auto simp: m'_def src_def)
  have le: "nat n \<le> 1024 * unat count" "nat n < 2 ^ 64" using q(4,6) by simp_all
  have mem: "m' x = (if unat (x - buf) < nat n then m1 (src + (x - buf)) else m1 x)" for x
  proof (cases "nat n = 0")
    case False
    then have s0: "unat src = unat pool + nat offset" using src [of 0] q(6) by simp
    have "nat n \<le> unat (buf - src)"
    proof (cases "unat src \<le> unat buf")
      case True
      then have "unat (buf - src) = unat buf - unat src" by (simp add: unat_sub_if')
      then show ?thesis using q(6,7) s0 True False by simp
    next
      case False
      then have "unat (buf - src) = 2 ^ 64 + unat buf - unat src" by (simp add: unat_sub_if')
      then show ?thesis using q(4,6,7) s0 le by simp
    qed
    then show ?thesis unfolding m'_def using memcpy_upto_eq [of buf src "nat n" "nat n" m1 x] le(2) by blast
  qed (simp add: m'_def)
  show thesis
  proof (rule that [OF eq])
    show "disk_ready dv reg lag disk k (st d' m' s)" using 1(2) by (simp add: disk_ready_def)
    show "cmd_list reg k (st d' m' s) = cmd_list reg k s" using 1(3) by (simp add: cmd_list_def)
    show "\<forall>i<nat n. if nat offset + i < 512 * unat count then m' (buf + of_nat i) = disk (512 * unat start + nat offset + i)
       else outside (cmd_list reg k s) (cmd_tbl_base s) (pool + of_nat (nat offset + i)) \<longrightarrow>
         m' (buf + of_nat i) = bytes s (pool + of_nat (nat offset + i))"
    proof (intro allI impI)
      fix i assume i: "i < nat n"
      then have "unat (of_nat i :: u64) = i" using le by (intro unat_of_nat64) simp
      then have m: "m' (buf + of_nat i) = m1 (src + of_nat i)" using i mem [of "buf + of_nat i"] by simp
      have u: "unat (src + of_nat i) = unat pool + nat offset + i" using src [of i] i q(6) by simp
      have e: "src + of_nat i = pool + of_nat (nat offset + i)" by (simp add: src_def add.assoc)
      show "if nat offset + i < 512 * unat count then m' (buf + of_nat i) = disk (512 * unat start + nat offset + i)
        else outside (cmd_list reg k s) (cmd_tbl_base s) (pool + of_nat (nat offset + i)) \<longrightarrow>
          m' (buf + of_nat i) = bytes s (pool + of_nat (nat offset + i))"
        using 1(4) [rule_format, of "src + of_nat i"] unfolding m u by (simp add: e add.assoc split: if_splits)
    qed
    show "\<forall>x. outside (cmd_list reg k s) (cmd_tbl_base s) x \<and> (unat x < unat pool \<or> ?lim \<le> unat x) \<and>
       (unat x < unat buf \<or> unat buf + nat n \<le> unat x) \<longrightarrow> m' x = bytes s x"
    proof (intro allI impI, elim conjE)
      fix x assume x: "outside (cmd_list reg k s) (cmd_tbl_base s) x" "unat x < unat pool \<or> ?lim \<le> unat x"
        "unat x < unat buf \<or> unat buf + nat n \<le> unat x"
      have "nat n \<le> unat (x - buf)" by (rule rel_ge [OF q(8) le(2) x(3)])
      then have "m' x = m1 x" using mem [of x] by simp
      also have "\<dots> = bytes s x" using 1(4) [rule_format, of x] x by auto
      finally show "m' x = bytes s x" .
    qed
  qed
qed

end
