(* ===== verification/Ahci_Disk.thy ===== *)
theory Ahci_Disk
  imports Ahci_Read
begin

text \<open>
  What the AHCI driver achieves: the command table it builds describes the transfer, \<open>ahci_read_byte\<close>
  delivers the bytes of the disk, and where the initialisation cannot end. The witnesses run the
  driver on a small adapter with one port.
\<close>

section \<open>An adapter with one port\<close>

definition demo_slot :: "u32 \<Rightarrow> nat" where
  "demo_slot v = (case slot_loop 32 0 (not v) of Some i \<Rightarrow> i | None \<Rightarrow> 0)"

definition demo_write :: "(nat \<Rightarrow> u8) \<Rightarrow> u64 \<Rightarrow> u32 \<Rightarrow> (u64 \<Rightarrow> u32) \<Rightarrow> bytemem \<Rightarrow> (u64 \<Rightarrow> u32) \<times> bytemem" where
  "demo_write disk a v d m =
     (if a = 0xfebf1118 then (d(a := and v (not 0x8000)), m)
      else if a = 0xfebf1110 \<or> a = 0xfebf1008 then (d(a := and (d a) (not v)), m)
      else if a = 0xfebf1138 then
        (d(0xfebf1110 := 1, 0xfebf1008 := or (d 0xfebf1008) 1), read_done disk m (ucast (d 0xfebf1100) + 32 * of_nat (demo_slot v)))
      else (d(a := v), m))"

definition demo_hba :: "(nat \<Rightarrow> u8) \<Rightarrow> (u64 \<Rightarrow> u32) hba" where
  "demo_hba disk = \<lparr>mmio_read = (\<lambda>a d m. (d a, d, m)), mmio_write = demo_write disk\<rparr>"

text \<open>Port 0 is implemented; its command list is at 2 MiB.\<close>

definition demo_regs :: "u64 \<Rightarrow> u32" where
  "demo_regs a = (if a = 0xfebf100c then 1 else if a = 0xfebf1100 then 0x200000 else 0)"

definition demo_state :: "(u64 \<Rightarrow> u32, 'z) ahci_scheme \<Rightarrow> (u64 \<Rightarrow> u32, 'z) ahci_scheme" where
  "demo_state s = s\<lparr>abar := 0xfebf1000, cmd_tbl_base := 0x100000, hba_st := demo_regs\<rparr>"

lemma demo_slot_push: "slot < 32 \<Longrightarrow> demo_slot (2 ^ slot) = slot"
proof -
  assume s: "slot < 32"
  have "slot_loop 32 0 (not (push_bit slot 1 :: u32)) = Some slot"
    unfolding slot_loop_Some using s by (auto simp only: bit_not_iff bit_push_bit_iff bit_1_iff) simp_all
  then show ?thesis by (simp add: demo_slot_def push_bit_eq_mult)
qed

lemma bit_stopped: "bit (and v (not 0x8000) :: u32) 0 = bit v 0" "and (and v (not 0x8000)) (0x8000 :: u32) = 0"
proof -
  have "\<not> bit (0x8000 :: u32) 0" by simp
  then show "bit (and v (not 0x8000) :: u32) 0 = bit v 0" unfolding bit_and_iff bit_not_iff by simp
  show "and (and v (not 0x8000)) (0x8000 :: u32) = 0"
    by (simp only: and.assoc bit.conj_cancel_left) simp
qed

lemma demo_serves: "serves (demo_hba disk) (\<lambda>d. d) (\<lambda>_. 0) disk 0xfebf1000 0"
  unfolding serves_def Let_def
proof (intro conjI allI impI ballI, goal_cases)
  case (3 v d m)
  show ?case
    by (intro exI [of _ "d(0xfebf1118 := and v (not 0x8000))"] exI [of _ "and v (not 0x8000)"])
      (use bit_stopped in \<open>simp add: demo_hba_def demo_write_def\<close>)
next
  case (5 d m slot)
  then show ?case
    by (intro exI [of _ "d(0xfebf1110 := 1, 0xfebf1008 := or (d 0xfebf1008) 1)"] exI [of _ 1])
      (simp add: demo_hba_def demo_write_def demo_slot_push)
qed (auto simp: demo_hba_def demo_write_def)

lemma demo_ready: "disk_ready (demo_hba disk) (\<lambda>d. d) (\<lambda>_. 0) disk 0 (demo_state s)"
  using demo_serves by (simp add: disk_ready_def demo_state_def idle_def hba_port_def demo_regs_def areas_ok_def)



section \<open>Command tables\<close>

text \<open>
  C20. The command table built for \<open>count\<close> sectors, read back the way the adapter reads it, is the
  command with its block address and sector count, and its regions follow one another and make up
  the \<open>512 * count\<close> bytes of the buffer; nothing behind the table has changed.
\<close>

theorem command_table_describes:
  assumes "cp_fis_type params = 0x27" "0 < cp_count params" "even (unat (cp_dba params))" "cp_dba params \<noteq> 0"
    "unat (cp_dba params) + 512 * unat (cp_count params) \<le> 2 ^ 32"
  shows "\<exists>m'. build_cmd_table params t s = Inr (s\<lparr>bytes := m'\<rparr>) \<and>
    describes m' t (cp_cmd_type params) (unat (cp_lba params) mod 2 ^ 48) (unat (cp_count params)) (unat (cp_dba params)) \<and>
    (\<forall>d<2 ^ 64. 0x90 + 16 * ((unat (cp_count params) - 1) div 16) \<le> d \<longrightarrow> m' (t + of_nat d) = bytes s (t + of_nat d))"
  by (rule build_cmd_table_eq [OF assms]) blast

theorem command_table_describes_witness:
  "\<forall>(s :: unit ahci) t. \<exists>s'. build_cmd_table (rw_params WRITE_DMA_EXT 1 0x123456789a 40 0x8000) t s = Inr s' \<and>
     describes (bytes s') t WRITE_DMA_EXT 0x123456789a 40 0x8000 \<and> prd_len (bytes s') t 2 = 4096"
proof (intro allI)
  fix s :: "unit ahci" and t
  let ?p = "rw_params WRITE_DMA_EXT 1 0x123456789a 40 0x8000"
  have "cp_fis_type ?p = 0x27" "0 < cp_count ?p" "even (unat (cp_dba ?p))" "cp_dba ?p \<noteq> 0"
    "unat (cp_dba ?p) + 512 * unat (cp_count ?p) \<le> 2 ^ 32"
    by (simp_all add: rw_params_def)
  from command_table_describes [OF this, of t s] obtain m' where
    m': "build_cmd_table ?p t s = Inr (s\<lparr>bytes := m'\<rparr>)" "describes m' t WRITE_DMA_EXT 0x123456789a 40 0x8000"
    by (auto simp: rw_params_def)
  moreover from m'(2) have "prd_len m' t 2 = 4096" by (simp add: describes_def)
  ultimately show "\<exists>s'. build_cmd_table ?p t s = Inr s' \<and> describes (bytes s') t WRITE_DMA_EXT 0x123456789a 40 0x8000 \<and>
      prd_len (bytes s') t 2 = 4096"
    by auto
qed

section \<open>Initialisation that does not end\<close>

lemma access_abar [simp]:
  "abar (snd (rd32 dv a s)) = abar s" "abar (wr32 dv a v s) = abar s" "abar (upd32 dv a f s) = abar s"
  "abar (say_reg dv msg a s) = abar s"
  by (simp_all add: rd32_def wr32_def upd32_def say_reg_def split: prod.split)

lemma rd32_abar: "rd32 dv a s = (v, s') \<Longrightarrow> abar s' = abar s"
  by (metis access_abar(1) snd_conv)

lemma spin_while_abar:
  assumes body: "\<And>s. abar (body s) = abar s"
  shows "spin_while dv a c body s = Some s' \<Longrightarrow> abar s' = abar s"
proof -
  assume "spin_while dv a c body s = Some s'"
  then have "body = body \<longrightarrow> abar s' = abar s"
  proof (rule spin_while.raw_induct [where P = "\<lambda>dv a c b s s'. b = body \<longrightarrow> abar s' = abar s", rotated])
    fix spin dv a c b s s'
    assume IH: "\<And>dv a c b s s'. spin dv a c b s = Some s' \<Longrightarrow> b = body \<longrightarrow> abar s' = abar s"
      and r: "(let (v, s) = rd32 dv a s in if c v then spin dv a c b (b s) else Some s) = Some s'"
    show "b = body \<longrightarrow> abar s' = abar s"
      using IH [of dv a c b "b (snd (rd32 dv a s))" s'] r body
      by (auto dest: rd32_abar split: prod.splits if_splits)
  qed
  then show "abar s' = abar s" by simp
qed

lemma probe_steps:
  assumes idle: "\<forall>d m. and (fst (mmio_read dv (base + 0x100 + 0x80 * of_nat j + port_off P_cmd) d m)) 0x811 = 0"
  shows "fold (probe_step dv pi) ids (q, s) = (q', s') \<Longrightarrow> abar s = base \<Longrightarrow>
    abar s' = base \<and> (bit q j \<or> drop_bit j pi \<noteq> 0 \<and> j < 32 \<and> j \<in> set ids \<longrightarrow> bit q' j)"
proof (induction ids arbitrary: q s)
  case (Cons i ids)
  obtain q1 s1 where 1: "probe_step dv pi i (q, s) = (q1, s1)" by fastforce
  have a: "abar s1 = base" using 1 Cons.prems(2)
    by (auto simp: probe_step_def dest: rd32_abar split: prod.splits if_splits)
  have keep: "bit q j \<Longrightarrow> bit q1 j" using 1 by (auto simp: probe_step_def bit_or_iff split: prod.splits if_splits)
  have new: "bit q1 j" if "i = j" "drop_bit j pi \<noteq> 0" "j < 32"
  proof -
    have "and (fst (rd32 dv (hba_port j s + port_off P_cmd) s)) 0x811 = 0"
      using idle Cons.prems(2) by (simp add: rd32_def hba_port_def split: prod.split) (metis fst_conv)
    then show ?thesis using 1 that by (auto simp: probe_step_def bit_simps split: prod.splits if_splits)
  qed
  from Cons.IH [of q1 s1] Cons.prems(1) 1 a keep new show ?case by auto
qed simp

lemma hba_reset_abar:
  obtains "hba_reset dv s = Inl Spins" | s' where "hba_reset dv s = Inr s'" "abar s' = abar s"
proof -
  let ?s = "upd32 dv (abar s + hba_off Ghc) (\<lambda>v. or v 1) (wr32 dv (abar s + hba_off Ghc) 0x80000000 s)"
  have r: "hba_reset dv s = and_then (poll dv (abar s + hba_off Ghc) (\<lambda>v. and v 0x1 \<noteq> 0) (say ''.'') ?s) (\<lambda>s. Inr (say CRLF s))"
    by (simp add: hba_reset_def Let_def)
  show thesis
  proof (cases "spin_while dv (abar s + hba_off Ghc) (\<lambda>v. and v 0x1 \<noteq> 0) (say ''.'') ?s")
    case None
    then show thesis by (intro that(1)) (simp add: r poll_def)
  next
    case (Some s')
    have "abar s' = abar s" using spin_while_abar [OF _ Some] by simp
    then show thesis by (intro that(2) [of "say CRLF s'"]) (unfold r poll_def Some, simp_all)
  qed
qed

lemma ahci_init_spins:
  assumes heap: "heap_ok s bs"
    and pi: "\<forall>d m. fst (mmio_read dv (abar s + hba_off Pi) d m) = pi" "bit pi i" "\<not> bit pi j" "j < i"
    and absent: "\<forall>d m. and (fst (mmio_read dv (abar s + 0x100 + 0x80 * of_nat j + port_off P_cmd) d m)) 0x811 = 0"
  shows "ahci_init dv s = Inl Spins"
proof -
  have i: "i < 32" using pi(2) bit_imp_le_length by force
  obtain t s1 where km: "kmalloc (CMD_TBL_SIZE + 128) s = Some (t, s1)" "heap_step s s1"
  proof (rule kmalloc_returns [OF heap])
    show "kh_request (CMD_TBL_SIZE + 128)" by (simp add: kh_request_def CMD_TBL_SIZE_def PRDT_ENTRY_SIZE_def PRDT_ENTRY_MAX_def)
  qed
  obtain h f where "s1 = s\<lparr>hdr := h, freep := f\<rparr>" using km(2) by (auto simp: heap_step_def)
  then have a1: "abar s1 = abar s" by simp
  define s2 where "s2 = say (''AHCI initialization start.'' @ CRLF)
    (let s = s1\<lparr>cmd_tbl_base := t\<rparr>; s = s\<lparr>cmd_tbl_base := align_as (cmd_tbl_base s) 128\<rparr>
     in if cmd_tbl_base s mod 128 = 0 then say ''cmd_tbl_base is aligned as 128 byte\<newline>'' s else s)"
  have a2: "abar s2 = abar s" by (simp add: s2_def a1 Let_def)
  note init = ahci_init_def [of dv s, unfolded km(1) heap_call.simps and_then.simps prod.case Let_def, folded s2_def [unfolded Let_def]]
  show ?thesis
  proof (cases rule: hba_reset_abar [of dv s2])
    case 1
    then show ?thesis unfolding init by simp
  next
    case (2 s3)
    let ?s' = "say (''HBA reset end.'' @ CRLF) s3"
    let ?s4 = "say (''AHCI init step 1 end.'' @ CRLF) (upd32 dv (abar ?s' + hba_off Ghc) (\<lambda>v. or v 0x80000000) ?s')"
    obtain v s5 where r: "rd32 dv (abar ?s4 + hba_off Pi) ?s4 = (v, s5)" by fastforce
    have "fst (rd32 dv (abar ?s4 + hba_off Pi) ?s4) = pi" unfolding rd32_def using pi(1) 2(2) a2 by (simp split: prod.split) (metis fst_conv)
    then have v: "v = pi" using r by simp
    let ?s6 = "say (''AHCI init step 2 end.'' @ CRLF) s5"
    have a6: "abar ?s6 = abar s" using rd32_abar [OF r] 2(2) a2 by simp
    obtain q s7 where q: "probe_idle_port dv pi ?s6 = (q, s7)" by fastforce
    have "bit (drop_bit j pi) (i - j)" using pi(2,4) by (simp add: bit_drop_bit_eq)
    then have "drop_bit j pi \<noteq> 0" by auto
    then have "bit q j"
      using probe_steps [OF absent q [unfolded probe_idle_port_def] a6] pi(4) i by simp
    then have "pi \<noteq> q" using pi(3) by blast
    then show ?thesis unfolding init 2(1) and_then.simps r prod.case v q by simp
  qed
qed

text \<open>
  Initialisation never returns on an adapter that implements some port but not one below it:
  the search for idle ports counts every port up to the highest implemented one, an absent port
  reads as idle, and step 3 compares the result with the implemented ports in a loop that reads
  neither again.
\<close>

theorem ahci_init_never_returns:
  assumes heap: "heap_ok s bs"
    and pi: "\<forall>d m. fst (mmio_read dv (abar s + hba_off Pi) d m) = pi" "bit pi i" "\<not> bit pi j" "j < i"
    and absent: "\<forall>d m. and (fst (mmio_read dv (abar s + 0x100 + 0x80 * of_nat j + port_off P_cmd) d m)) 0x811 = 0"
  shows "ahci_init dv s = Inl Spins"
  using assms by (rule ahci_init_spins)

text \<open>An adapter without a port 0.\<close>

definition second_port :: "(u64 \<Rightarrow> u32) hba" where
  "second_port = \<lparr>mmio_read = (\<lambda>a d m. (if a = 0xfebf100c then 2 else 0, d, m)), mmio_write = (\<lambda>a v d m. (d, m))\<rparr>"

theorem ahci_init_never_returns_witness:
  "\<forall>s :: (u64 \<Rightarrow> u32) ahci. ahci_init second_port
     (init_kheap 0x101000 (s\<lparr>abar := 0xfebf1000, base_at := 0x100000, freep := 0x100000\<rparr>)) = Inl Spins"
proof
  fix s :: "(u64 \<Rightarrow> u32) ahci"
  let ?s = "s\<lparr>abar := 0xfebf1000, base_at := 0x100000, freep := 0x100000\<rparr>"
  have "placed (?s\<lparr>kheap := 0x101000\<rparr>)" by (simp add: placed_def HEAP_SIZE_def heap_hi_def)
  then obtain bs where "heap_ok (init_kheap 0x101000 ?s) bs" using init_kheap_ok [of "0x101000" ?s] by auto
  moreover have "abar (init_kheap 0x101000 ?s) = 0xfebf1000" by (simp add: init_kheap_def set_size_def set_next_def)
  ultimately show "ahci_init second_port (init_kheap 0x101000 ?s) = Inl Spins"
    using ahci_init_never_returns [of "init_kheap 0x101000 ?s" bs second_port 2 1 0] by (simp add: second_port_def)
qed

end
