(* ===== verification/Ext2.thy ===== *)
theory Ext2
  imports Ahci_Cmd
begin

text \<open>
  fs/ext2.c and fs/ext2.h: the on-disk structures, the routines that print them, the inode table and
  the listing of a directory tree. Local structures and arrays are memory at addresses that are
  parameters; a pointer argument is such an address. A division by 0 is \<open>Out_of_bounds\<close>.
\<close>

record 'd ext2 = "'d ahci" +
  block_size :: u16
  s_first_ino :: u32
  s_inodes_per_group :: u32
  bg_inode_table :: u32

section \<open>On-disk structures\<close>

definition sblock_ext2 :: c_fields where
  "sblock_ext2 =
    [(''s_inodes_count'', c_u32), (''s_blocks_count'', c_u32), (''s_r_blocks_count'', c_u32),
     (''s_free_blocks_count'', c_u32), (''s_free_inodes_count'', c_u32), (''s_first_data_block'', c_u32),
     (''s_log_block_size'', c_u32), (''s_log_frag_size'', c_u32), (''s_blocks_per_group'', c_u32),
     (''s_frags_per_group'', c_u32), (''s_inodes_per_group'', c_u32), (''s_mtime'', c_u32), (''s_wtime'', c_u32),
     (''s_mnt_count'', c_u16), (''s_max_mnt_count'', c_u16), (''s_magic'', c_u16), (''s_state'', c_u16),
     (''s_errors'', c_u16), (''s_minor_rev_level'', c_u16), (''s_lastcheck'', c_u32), (''s_checkinterval'', c_u32),
     (''s_creator_os'', c_u32), (''s_rev_level'', c_u32), (''s_def_resuid'', c_u16), (''s_def_resgid'', c_u16),
     (''s_first_ino'', c_u32), (''s_inode_size'', c_u16), (''s_block_group_nr'', c_u16), (''s_feature_compat'', c_u32),
     (''s_feature_incompat'', c_u32), (''s_feature_ro_compat'', c_u32), (''s_uuid'', c_array 2 c_u64),
     (''s_volume_name'', c_array 16 c_u8), (''s_last_mounted'', c_array 64 c_u8), (''s_algo_bitmap'', c_u32),
     (''s_prealloc_blocks'', c_u8), (''s_prealloc_dir_blocks'', c_u8), (''align'', c_u16),
     (''s_journal_uuid'', c_array 2 c_u64), (''s_journal_inum'', c_u32), (''s_journal_dev'', c_u32),
     (''s_last_orphan'', c_u32), (''s_hash_seed'', c_array 4 c_u32), (''s_def_hash_version'', c_u8),
     (''pad'', c_array 3 c_u8), (''s_default_mount_options'', c_u32), (''s_first_meta_bg'', c_u32),
     (''unused'', c_array 95 c_u64)]"

definition bg_dsc_ext2 :: c_fields where
  "bg_dsc_ext2 =
    [(''bg_block_bitmap'', c_u32), (''bg_inode_bitmap'', c_u32), (''bg_inode_table'', c_u32),
     (''bg_free_blocks_count'', c_u16), (''bg_free_inodes_count'', c_u16), (''bg_used_dirs_count'', c_u16),
     (''bg_pad'', c_u16), (''bg_reserved'', c_array 3 c_u32)]"

definition inode_ext2 :: c_fields where
  "inode_ext2 =
    [(''i_mode'', c_u16), (''i_uid'', c_u16), (''i_size'', c_u32), (''i_atime'', c_u32), (''i_ctime'', c_u32),
     (''i_mtime'', c_u32), (''i_dtime'', c_u32), (''i_gid'', c_u16), (''i_links_count'', c_u16), (''i_blocks'', c_u32),
     (''i_flags'', c_u32), (''i_osd1'', c_u32), (''i_block'', c_array 15 c_u32), (''i_generation'', c_u32),
     (''i_file_acl'', c_u32), (''i_dir_acl'', c_u32), (''i_faddr'', c_u32), (''i_osd2'', c_array 3 c_u32)]"

definition linked_dir_entry_ext2 :: c_fields where
  "linked_dir_entry_ext2 = [(''inode'', c_u32), (''rec_len'', c_u16), (''name_len'', c_u8), (''file_type'', c_u8)]"

text \<open>The structure of an inode table is the pair of its address and length.\<close>

definition SBLOCK_DISK_LBA :: u64 where "SBLOCK_DISK_LBA = 2"
definition SBLOCK_LENGTH :: int where "SBLOCK_LENGTH = 1024"
definition AHCI_COUNT :: int where "AHCI_COUNT = 512"
definition EXT2_FT_REG_FILE :: u64 where "EXT2_FT_REG_FILE = 1"
definition EXT2_FT_DIR :: u64 where "EXT2_FT_DIR = 2"
definition EXT2_S_IRUSR :: u64 where "EXT2_S_IRUSR = 0x0100"

definition BLOCK :: "('d, 'z) ext2_scheme \<Rightarrow> u16" where
  "BLOCK s = block_size s div 512"

text \<open>\<open>n * BLOCK\<close> for an unsigned \<open>n\<close>, as a sector.\<close>

definition block_lba :: "u32 \<Rightarrow> ('d, 'z) ext2_scheme \<Rightarrow> u64" where
  "block_lba n s = ucast (n * ucast (BLOCK s))"

section \<open>Output\<close>

definition LF :: string where "LF = ''\<newline>''"

text \<open>\<open>putsn_serial(msg, base->nm)\<close> for a list of fields.\<close>

definition say_fields :: "c_fields \<Rightarrow> (string \<times> string) list \<Rightarrow> u64 \<Rightarrow> 'z sys_scheme \<Rightarrow> 'z sys_scheme" where
  "say_fields fs ms base s = fold (\<lambda>(msg, nm) s. say_num msg (c_field fs nm (bytes s) base) s) ms s"

definition say_elem :: "c_fields \<Rightarrow> string \<Rightarrow> string \<Rightarrow> ctype \<Rightarrow> nat \<Rightarrow> u64 \<Rightarrow> 'z sys_scheme \<Rightarrow> 'z sys_scheme" where
  "say_elem fs msg nm t k base s = say_num msg (c_elem fs nm t k (bytes s) base) s"

text \<open>\<open>nputs_serial(p, n)\<close>.\<close>

definition say_mem :: "u64 \<Rightarrow> nat \<Rightarrow> 'z sys_scheme \<Rightarrow> 'z sys_scheme" where
  "say_mem p n s = say_bytes (map (\<lambda>i. bytes s (p + of_nat i)) [0..<n]) s"

definition print_sblock :: "u64 \<Rightarrow> 'z sys_scheme \<Rightarrow> 'z sys_scheme" where
  "print_sblock sb s =
    (let s = say (''---------- ext2 filesystem super block parameter ----------'' @ LF) s;
         s = say_fields sblock_ext2
           [(''s_inodes_count:      '', ''s_inodes_count''), (''s_blocks_count:      '', ''s_blocks_count''),
            (''s_r_blocks_count:    '', ''s_r_blocks_count''), (''s_free_blocks_count: '', ''s_free_blocks_count''),
            (''s_free_inodes_count: '', ''s_free_inodes_count''), (''s_first_data_block:  '', ''s_first_data_block''),
            (''s_log_block_size:    '', ''s_log_block_size''), (''s_log_frag_size:     '', ''s_log_frag_size''),
            (''s_blocks_per_group:  '', ''s_blocks_per_group''), (''s_frags_per_group:   '', ''s_frags_per_group''),
            (''s_inodes_per_group:  '', ''s_inodes_per_group''), (''s_mtime:             '', ''s_mtime''),
            (''s_wtime:             '', ''s_wtime''), (''s_mnt_count:         '', ''s_mnt_count''),
            (''s_max_mnt_count:     '', ''s_max_mnt_count''), (''s_magic:             '', ''s_magic''),
            (''s_state:             '', ''s_state''), (''s_errors:            '', ''s_errors''),
            (''s_minor_rev_level:   '', ''s_minor_rev_level''), (''s_lastcheck:         '', ''s_lastcheck''),
            (''s_checkinterval:     '', ''s_checkinterval''), (''s_creator_os:        '', ''s_creator_os''),
            (''s_rev_level:         '', ''s_rev_level''), (''s_def_resuid:        '', ''s_def_resuid''),
            (''s_def_resgid:        '', ''s_def_resgid'')] sb s;
         s = say (''--- EXT2_DYNAMIC_REV specific -----------------------------'' @ LF) s;
         s = say_fields sblock_ext2
           [(''s_first_ino:         '', ''s_first_ino''), (''s_inode_size:        '', ''s_inode_size''),
            (''s_block_group_nr:    '', ''s_block_group_nr''), (''s_feature_compat:    '', ''s_feature_compat''),
            (''s_feature_incompat:  '', ''s_feature_incompat''), (''s_feature_ro_compat: '', ''s_feature_ro_compat'')] sb s;
         s = say_elem sblock_ext2 ''s_uuid[0]:           '' ''s_uuid'' c_u64 0 sb s;
         s = say_elem sblock_ext2 ''s_uuid[1]:           '' ''s_uuid'' c_u64 1 sb s;
         s = say ''s_volume_name:        '' s;
         s = say_mem (sb + of_nat (field_off sblock_ext2 ''s_volume_name'')) 16 s;
         s = say ''s_last_mounted:       '' s;
         s = say_mem (sb + of_nat (field_off sblock_ext2 ''s_last_mounted'')) 64 s;
         s = say_fields sblock_ext2 [(''s_algo_bitmap:       '', ''s_algo_bitmap'')] sb s;
         s = say (''--- performance hints -------------------------------------'' @ LF) s;
         s = say_fields sblock_ext2 [(''s_prealloc_blocks:   '', ''s_prealloc_blocks''),
            (''s_prealloc_dir_blocks:'', ''s_prealloc_dir_blocks'')] sb s;
         s = say (''--- journaling support ------------------------------------'' @ LF) s;
         s = say_elem sblock_ext2 ''s_journal_uuid[0]:   '' ''s_journal_uuid'' c_u64 0 sb s;
         s = say_elem sblock_ext2 ''s_journal_uuid[1]:   '' ''s_journal_uuid'' c_u64 1 sb s;
         s = say_fields sblock_ext2 [(''s_journal_inum:      '', ''s_journal_inum''),
            (''s_journal_dev:       '', ''s_journal_dev''), (''s_last_orphan:       '', ''s_last_orphan'')] sb s;
         s = say (''--- directory indexing support ----------------------------'' @ LF) s;
         s = say_elem sblock_ext2 ''s_hash_seed[0]:      '' ''s_hash_seed'' c_u32 0 sb s;
         s = say_elem sblock_ext2 ''s_hash_seed[1]:      '' ''s_hash_seed'' c_u32 1 sb s;
         s = say_elem sblock_ext2 ''s_hash_seed[2]:      '' ''s_hash_seed'' c_u32 2 sb s;
         s = say_elem sblock_ext2 ''s_hash_seed[3]:      '' ''s_hash_seed'' c_u32 3 sb s;
         s = say_fields sblock_ext2 [(''s_def_hash_version:  '', ''s_def_hash_version'')] sb s;
         s = say (''--- other options -----------------------------------------'' @ LF) s;
         s = say_fields sblock_ext2 [(''s_default_mount_options:'', ''s_default_mount_options''),
            (''s_first_meta_bg:     '', ''s_first_meta_bg'')] sb s
     in say (''-----------------------------------------------------------'' @ LF) s)"

text \<open>Block group descriptors with a block bitmap are shown.\<close>

definition print_bg :: "u64 \<Rightarrow> nat \<Rightarrow> 'z sys_scheme \<Rightarrow> 'z sys_scheme" where
  "print_bg bg i s =
    (let b = bg + of_nat (c_sizeof bg_dsc_ext2 * i)
     in if c_field bg_dsc_ext2 ''bg_block_bitmap'' (bytes s) b \<noteq> 0 then
          let s = say_num ''--- number '' (of_nat i) s;
              s = say_fields bg_dsc_ext2
                [(''bg_block_bitmap: '', ''bg_block_bitmap''), (''bg_inode_bitmap: '', ''bg_inode_bitmap''),
                 (''bg_inode_table: '', ''bg_inode_table''), (''bg_free_blocks_count: '', ''bg_free_blocks_count''),
                 (''bg_free_inodes_count: '', ''bg_free_inodes_count''), (''bg_used_dir_count: '', ''bg_used_dirs_count'')] b s
          in say (''----------'' @ LF) s
        else s)"

definition print_bgs :: "u64 \<Rightarrow> nat \<Rightarrow> 'z sys_scheme \<Rightarrow> 'z sys_scheme" where
  "print_bgs bg n s =
    (let s = say (''============ Ext2 Block Group Descriptor Table ============'' @ LF) s;
         s = fold (print_bg bg) [0..<n] s
     in say (''==========================================================='' @ LF) s)"

text \<open>The fields of an inode up to \<open>i_block[14]\<close>.\<close>

definition print_inode :: "u64 \<Rightarrow> 'z sys_scheme \<Rightarrow> 'z sys_scheme" where
  "print_inode p s =
    (let s = say_fields inode_ext2
           [(''i_mode:        '', ''i_mode''), (''i_uid:         '', ''i_uid''), (''i_size:        '', ''i_size''),
            (''i_atime:       '', ''i_atime''), (''i_ctime:       '', ''i_ctime''), (''i_mtime:       '', ''i_mtime''),
            (''i_dtime:       '', ''i_dtime''), (''i_gid:         '', ''i_gid''), (''i_links_count: '', ''i_links_count''),
            (''i_blocks:      '', ''i_blocks''), (''i_flags:       '', ''i_flags''), (''i_osd1:        '', ''i_osd1'')] p s
     in fold (\<lambda>(k, msg). say_elem inode_ext2 msg ''i_block'' c_u32 k p) (enumerate 0
          [''i_block[0]:    '', ''i_block[1]:    '', ''i_block[2]:    '', ''i_block[3]:    '', ''i_block[4]:    '',
           ''i_block[5]:    '', ''i_block[6]:    '', ''i_block[7]:    '', ''i_block[8]:    '', ''i_block[9]:    '',
           ''i_block[10]:   '', ''i_block[11]:   '', ''i_block[12]:   '', ''i_block[13]:   '', ''i_block[14]:   '']) s)"

section \<open>Reading the metadata\<close>

definition ext2_check_sblock :: "'d hba \<Rightarrow> u64 \<Rightarrow> u64 \<Rightarrow> ('d, 'z) ext2_scheme \<Rightarrow> ('d, 'z) ext2_scheme outcome" where
  "ext2_check_sblock dv pool sb s =
     and_then (ahci_read_byte dv pool SBLOCK_DISK_LBA (word_of_int (SBLOCK_LENGTH div AHCI_COUNT)) sb
       (int (c_sizeof sblock_ext2)) 0 s) (\<lambda>s. Inr (print_sblock sb s))"

text \<open>\<open>bg\<close> is the local array; the result is its first element, by value.\<close>

definition ext2_check_bg_dsc ::
  "'d hba \<Rightarrow> u64 \<Rightarrow> ('d, 'z) ext2_scheme \<Rightarrow> (u8 list \<times> ('d, 'z) ext2_scheme) outcome" where
  "ext2_check_bg_dsc dv bg s =
     (let ((port, portno), s) = probe_impl_port dv s
      in and_then (ahci_read dv port portno (SBLOCK_DISK_LBA + 2) (BLOCK s) bg s) (\<lambda>(r, s).
         let s = print_bgs bg 32 s
         in Inr (map (\<lambda>i. bytes s (bg + of_nat i)) [0..<c_sizeof bg_dsc_ext2], s)))"

definition ext2_check_bg_dsc2 ::
  "'d hba \<Rightarrow> u64 \<Rightarrow> u64 \<Rightarrow> u64 \<Rightarrow> ('d, 'z) ext2_scheme \<Rightarrow> ('d, 'z) ext2_scheme outcome" where
  "ext2_check_bg_dsc2 dv pool bg bgdsc s =
     and_then (ahci_read_byte dv pool 4 2 bg (int (c_sizeof bg_dsc_ext2)) 0 s) (\<lambda>s.
     let s = print_bgs bg 1 s
     in Inr (s\<lparr>bytes := memcpy_upto (bytes s) bgdsc bg (c_sizeof bg_dsc_ext2)\<rparr>))"

definition ext2_check_inode_bitmap ::
  "'d hba \<Rightarrow> u64 \<Rightarrow> u32 \<Rightarrow> ('d, 'z) ext2_scheme \<Rightarrow> ('d, 'z) ext2_scheme outcome" where
  "ext2_check_inode_bitmap dv bitmap inode_bitmap_location s =
     (let ((port, portno), s) = probe_impl_port dv s
      in and_then (ahci_read dv port portno (ucast (inode_bitmap_location * 2)) (BLOCK s) bitmap s) (\<lambda>(r, s).
         Inr (fold (\<lambda>i s. say_bytes (hex_bytes (scast (bytes s (bitmap + of_nat i)))) s) [0..<unat (block_size s)] s)))"

text \<open>Inodes in a block, and blocks of the table of a group, as unsigned numbers.\<close>

definition inodes_per_block :: "('d, 'z) ext2_scheme \<Rightarrow> u32" where
  "inodes_per_block s = of_nat (unat (block_size s) div c_sizeof inode_ext2)"

definition table_blocks :: "u32 \<Rightarrow> u32 \<Rightarrow> u32" where
  "table_blocks inodes_per_group ipb = inodes_per_group div ipb + (if inodes_per_group mod ipb \<noteq> 0 then 1 else 0)"

definition print_inode_full :: "u64 \<Rightarrow> 'z sys_scheme \<Rightarrow> 'z sys_scheme" where
  "print_inode_full p s = say_fields inode_ext2
     [(''i_generation:  '', ''i_generation''), (''i_file_acl:    '', ''i_file_acl''),
      (''i_dir_acl:     '', ''i_dir_acl''), (''i_faddr:       '', ''i_faddr'')] p (print_inode p s)"

definition ext2_check_inode_table ::
  "'d hba \<Rightarrow> u64 \<Rightarrow> u64 \<Rightarrow> u32 \<Rightarrow> u32 \<Rightarrow> ('d, 'z) ext2_scheme \<Rightarrow> ('d, 'z) ext2_scheme outcome" where
  "ext2_check_inode_table dv pool inode inode_table_location inodes_per_group s =
     (let ipb = inodes_per_block s
      in if ipb = 0 then Inl Out_of_bounds
         else
           let s = say (''========== inodes =========='' @ CRLF) s
           in and_then (foreach (\<lambda>i s.
                and_then (ahci_read_byte dv pool (ucast (inode_table_location * 2)) (BLOCK s) inode
                  (int (c_sizeof inode_ext2)) 0 s)
                  (foreach (\<lambda>j s.
                     if 8 \<le> j then Inl Out_of_bounds
                     else Inr (print_inode_full (inode + of_nat (c_sizeof inode_ext2 * j))
                       (say_num ''--------- inode number: '' (of_nat (i + j)) s))) [0..<unat ipb]))
                [0..<unat (table_blocks inodes_per_group ipb)] s) (\<lambda>s.
              Inr (say (''======================================='' @ CRLF) s)))"

text \<open>\<open>root_inode\<close> is the local array; the result is its second element, by value.\<close>

definition ext2_check_rootdir_inode ::
  "'d hba \<Rightarrow> u64 \<Rightarrow> u64 \<Rightarrow> u32 \<Rightarrow> ('d, 'z) ext2_scheme \<Rightarrow> (u8 list \<times> ('d, 'z) ext2_scheme) outcome" where
  "ext2_check_rootdir_inode dv pool root_inode inode_table_location s =
     and_then (ahci_read_byte dv pool (block_lba inode_table_location s) (BLOCK s) root_inode
       (int (c_sizeof inode_ext2 * 2)) 0 s) (\<lambda>s.
     let root = root_inode + of_nat (c_sizeof inode_ext2);
         s = print_inode root s;
         mode = c_field inode_ext2 ''i_mode'' (bytes s) root;
         s = (if and mode 0xb000 = 0 \<and> and mode 0x4000 \<noteq> 0 then say (''This is a root directory'' @ CRLF) s
              else say (''This is not directory'' @ CRLF) s)
     in Inr (map (\<lambda>i. bytes s (root + of_nat i)) [0..<c_sizeof inode_ext2], s))"

section \<open>The inode table\<close>

text \<open>One block of inodes into the table: \<open>inode_table[i + j + (inodes_per_block - 1) * i] = inodes[j]\<close>.\<close>

definition store_inodes :: "u64 \<Rightarrow> u64 \<Rightarrow> u32 \<Rightarrow> u32 \<Rightarrow> ('d, 'z) ext2_scheme \<Rightarrow> ('d, 'z) ext2_scheme" where
  "store_inodes table inodes ipb i s = fold (\<lambda>j s.
     s\<lparr>bytes := memcpy_upto (bytes s) (table + of_nat (c_sizeof inode_ext2) * ucast (i + of_nat j + (ipb - 1) * i))
       (inodes + of_nat (c_sizeof inode_ext2 * j)) (c_sizeof inode_ext2)\<rparr>) [0..<unat ipb] s"

text \<open>What both functions do before their loop: sizes, messages, and memory for the table.\<close>

definition table_start ::
  "u32 \<Rightarrow> u32 \<Rightarrow> ('d, 'z) ext2_scheme \<Rightarrow> (u64 \<times> int \<times> ('d, 'z) ext2_scheme) outcome" where
  "table_start ipb nblock s =
     (let table_len = sint (ipb * nblock);
          s = say_num ''inodes_per_block: '' (ucast ipb) s;
          s = say_num ''nblock_inode_table: '' (ucast nblock) s;
          s = say_num ''table_len: '' (word_of_int table_len) s
      in and_then (heap_call (kmalloc (u64_to_int (of_nat (c_sizeof inode_ext2) * word_of_int table_len)) s)) (\<lambda>(table, s).
         Inr (table, table_len, say (''inode table read'' @ LF) s)))"

definition create_inode_table ::
  "'d hba \<Rightarrow> u64 \<Rightarrow> u64 \<Rightarrow> ('d, 'z) ext2_scheme \<Rightarrow> ((u64 \<times> int) \<times> ('d, 'z) ext2_scheme) outcome" where
  "create_inode_table dv pool inodes s =
     (let ipb = inodes_per_block s;
          s = say_num ''inodes_per_block: '' (ucast ipb) s;
          s = say_num ''block_size: '' (ucast (block_size s)) s
      in if block_size s = 0 then Inl Spins
         else if ipb = 0 then Inl Out_of_bounds
         else
           let nblock = table_blocks (s_inodes_per_group s) ipb
           in and_then (table_start ipb nblock s) (\<lambda>(table, table_len, s).
              and_then (foreach (\<lambda>i s.
                and_then (ahci_read_byte dv pool (block_lba (bg_inode_table s + of_nat i) s) (BLOCK s) inodes
                  (u64_to_int (of_nat (c_sizeof inode_ext2) * ucast ipb)) 0 s) (\<lambda>s.
                Inr (store_inodes table inodes ipb (of_nat i) (say_num ''inode table read: '' (of_nat i) s))))
                [0..<unat nblock] s) (\<lambda>s.
              Inr ((table, table_len), say (''inode store end'' @ LF) s))))"

text \<open>The pointer argument is assigned and not used: nothing is returned.\<close>

definition create_inode_table2 ::
  "'d hba \<Rightarrow> u64 \<Rightarrow> u64 \<Rightarrow> ('d, 'z) ext2_scheme \<Rightarrow> ('d, 'z) ext2_scheme outcome" where
  "create_inode_table2 dv pool inode s =
     (let ipb = inodes_per_block s;
          s = say_num ''inodes_per_block: '' (ucast ipb) s;
          s = say_num ''block_size: '' (ucast (block_size s)) s
      in if ipb = 0 then Inl Out_of_bounds
         else
           let nblock = table_blocks (s_inodes_per_group s) ipb
           in and_then (table_start ipb nblock s) (\<lambda>(table, table_len, s).
              and_then (foreach (\<lambda>i s.
                and_then (heap_call (kmalloc (u64_to_int (of_nat (c_sizeof inode_ext2) * ucast ipb + 2)) s)) (\<lambda>(m, s).
                let inodes = align_as m 2
                in and_then (ahci_read_byte dv pool (block_lba (bg_inode_table s + of_nat i) s) (BLOCK s) inodes
                  (u64_to_int (of_nat (c_sizeof inode_ext2) * ucast ipb)) 0 s) (\<lambda>s.
                Inr (store_inodes table inodes ipb (of_nat i) (say_num ''inode table read: '' (of_nat i) s)))))
                [0..<unat nblock] s) (\<lambda>s.
              let s = say (''inode store end'' @ LF) s; inode = table
              in Inr s)))"

section \<open>Directories\<close>

text \<open>The locals of one activation of \<open>ext2_read_dir_rec_from_inode\<close> and the array of the
  \<open>ahci_read_byte\<close> it calls.\<close>

record dir_locals =
  dl_lde :: u64
  dl_name :: u64
  dl_i_node :: u64
  dl_text :: u64
  dl_pool :: u64

text \<open>\<open>inode_table[index]\<close> for an \<open>int\<close> index.\<close>

definition inode_at :: "u64 \<Rightarrow> int \<Rightarrow> u64" where
  "inode_at table index = table + of_nat (c_sizeof inode_ext2) * word_of_int index"

definition first_block :: "u64 \<Rightarrow> bytemem \<Rightarrow> u32" where
  "first_block p m = ucast (c_elem inode_ext2 ''i_block'' c_u32 0 m p)"

definition lde_field :: "string \<Rightarrow> dir_locals \<Rightarrow> ('d, 'z) ext2_scheme \<Rightarrow> u64" where
  "lde_field nm l s = c_field linked_dir_entry_ext2 nm (bytes s) (dl_lde l)"

definition read_lde ::
  "'d hba \<Rightarrow> dir_locals \<Rightarrow> u64 \<Rightarrow> int \<Rightarrow> int \<Rightarrow> ('d, 'z) ext2_scheme \<Rightarrow> ('d, 'z) ext2_scheme outcome" where
  "read_lde dv l table index offset s =
     ahci_read_byte dv (dl_pool l) (block_lba (first_block (inode_at table index) (bytes s)) s) (BLOCK s) (dl_lde l)
       (int (c_sizeof linked_dir_entry_ext2)) offset s"

text \<open>The name, indented by four spaces for each level.\<close>

definition print_name ::
  "'d hba \<Rightarrow> dir_locals \<Rightarrow> u64 \<Rightarrow> int \<Rightarrow> int \<Rightarrow> int \<Rightarrow> ('d, 'z) ext2_scheme \<Rightarrow> ('d, 'z) ext2_scheme outcome" where
  "print_name dv l table index rec_depth offset s =
     and_then (ahci_read_byte dv (dl_pool l) (block_lba (first_block (inode_at table index) (bytes s)) s) (BLOCK s) (dl_name l)
       (uint (lde_field ''name_len'' l s)) (offset + int (c_sizeof linked_dir_entry_ext2)) s) (\<lambda>s.
     let len = lde_field ''name_len'' l s;
         s = s\<lparr>bytes := (bytes s)(dl_name l + len := 0)\<rparr>;
         s = fold (\<lambda>i. say '' '') [0..<nat (rec_depth * 4)] s;
         s = say_mem (dl_name l) (unat len) s;
         s = (if lde_field ''file_type'' l s = EXT2_FT_DIR then say ''/'' s else s)
     in Inr (say LF s))"

text \<open>\<open>strcmp(name, ".") != 0 && strcmp(name, "..") != 0\<close>\<close>

definition not_dots :: "dir_locals \<Rightarrow> ('d, 'z) ext2_scheme \<Rightarrow> bool outcome" where
  "not_dots l s =
     (let name = (\<lambda>i. bytes s (dl_name l + of_nat i))
      in and_then (heap_call (strcmp name (str_buf (ascii ''.'')))) (\<lambda>c1.
         if c1 = 0 then Inr False
         else and_then (heap_call (strcmp name (str_buf (ascii ''..'')))) (\<lambda>c2. Inr (c2 \<noteq> 0))))"

text \<open>The first 63 bytes of a readable regular file, as a string.\<close>

definition print_text ::
  "'d hba \<Rightarrow> dir_locals \<Rightarrow> u64 \<Rightarrow> ('d, 'z) ext2_scheme \<Rightarrow> ('d, 'z) ext2_scheme outcome" where
  "print_text dv l table s =
     (let p = table + of_nat (c_sizeof inode_ext2) * ucast (ucast (lde_field ''inode'' l s) - 1 :: u32)
      in if lde_field ''file_type'' l s = EXT2_FT_REG_FILE \<and> and (c_field inode_ext2 ''i_mode'' (bytes s) p) EXT2_S_IRUSR \<noteq> 0 then
           let s = s\<lparr>bytes := memset_upto (bytes s) (dl_text l) 0 64\<rparr>
           in and_then (ahci_read_byte dv (dl_pool l) (block_lba (first_block p (bytes s)) s) (BLOCK s) (dl_text l) (64 - 1) 0 s) (\<lambda>s.
              and_then (heap_call (strlen_from (\<lambda>i. bytes s (dl_text l + of_nat i)) 0)) (\<lambda>n.
              Inr (say_mem (dl_text l) n s)))
         else Inr s)"

datatype dir_step = Dir_end | Dir_next | Dir_sub int

text \<open>The body of the loop up to the recursive call.\<close>

definition dir_entry ::
  "'d hba \<Rightarrow> dir_locals \<Rightarrow> u64 \<Rightarrow> int \<Rightarrow> int \<Rightarrow> int \<Rightarrow> ('d, 'z) ext2_scheme \<Rightarrow> (dir_step \<times> ('d, 'z) ext2_scheme) outcome" where
  "dir_entry dv l table index rec_depth offset s =
     and_then (read_lde dv l table index offset s) (\<lambda>s.
     if lde_field ''rec_len'' l s = 0 then Inr (Dir_end, s)
     else
       and_then (print_name dv l table index rec_depth offset s) (\<lambda>s.
       and_then (if lde_field ''file_type'' l s = EXT2_FT_DIR then not_dots l s else Inr False) (\<lambda>enter.
       if enter then
         and_then (ahci_read_byte dv (dl_pool l) (block_lba (ucast (lde_field ''inode'' l s)) s) (BLOCK s) (dl_i_node l)
           (int (c_sizeof inode_ext2)) 0 s) (\<lambda>s.
         Inr (Dir_sub (sint (ucast (lde_field ''inode'' l s) - 1 :: u32)), s))
       else and_then (print_text dv l table s) (\<lambda>s. Inr (Dir_next, s)))))"

text \<open>\<open>loc d\<close>: the locals at recursion depth \<open>d\<close>. \<open>None\<close> is a listing that never ends.\<close>

partial_function (option) read_dir_loop ::
  "'d hba \<Rightarrow> (int \<Rightarrow> dir_locals) \<Rightarrow> u64 \<Rightarrow> int \<Rightarrow> int \<Rightarrow> int \<Rightarrow> ('d, 'z) ext2_scheme \<Rightarrow> ('d, 'z) ext2_scheme outcome option" where
  "read_dir_loop dv loc table index rec_depth offset s =
     (case dir_entry dv (loc rec_depth) table index rec_depth offset s of
        Inl e \<Rightarrow> Some (Inl e)
      | Inr (r, s) \<Rightarrow>
          (case r of
             Dir_end \<Rightarrow> Some (Inr s)
           | Dir_next \<Rightarrow> read_dir_loop dv loc table index rec_depth (offset + uint (lde_field ''rec_len'' (loc rec_depth) s)) s
           | Dir_sub i \<Rightarrow> Option.bind (read_dir_loop dv loc table i (rec_depth + 1) 0 s) (\<lambda>x.
               case x of Inl e \<Rightarrow> Some (Inl e)
               | Inr s \<Rightarrow> read_dir_loop dv loc table index rec_depth (offset + uint (lde_field ''rec_len'' (loc rec_depth) s)) s)))"

definition ext2_read_dir_rec_from_inode ::
  "'d hba \<Rightarrow> (int \<Rightarrow> dir_locals) \<Rightarrow> u64 \<Rightarrow> int \<Rightarrow> int \<Rightarrow> ('d, 'z) ext2_scheme \<Rightarrow> ('d, 'z) ext2_scheme outcome" where
  "ext2_read_dir_rec_from_inode dv loc inode_table index rec_depth s =
     (case read_dir_loop dv loc inode_table index rec_depth 0 s of None \<Rightarrow> Inl Spins | Some r \<Rightarrow> r)"

text \<open>\<open>sb\<close>, \<open>bg\<close> and \<open>bgs\<close> are locals of \<open>check_ext2\<close> and of the call of \<open>ext2_check_bg_dsc2\<close>; \<open>root\<close>
  keeps its null pointer.\<close>

definition check_ext2 ::
  "'d hba \<Rightarrow> u64 \<Rightarrow> u64 \<Rightarrow> u64 \<Rightarrow> u64 \<Rightarrow> (int \<Rightarrow> dir_locals) \<Rightarrow> ('d, 'z) ext2_scheme \<Rightarrow> ('d, 'z) ext2_scheme outcome" where
  "check_ext2 dv pool sb bg bgs loc s =
     and_then (ext2_check_sblock dv pool sb s) (\<lambda>s.
     let s = s\<lparr>s_first_ino := ucast (c_field sblock_ext2 ''s_first_ino'' (bytes s) sb)\<rparr>;
         log = c_field sblock_ext2 ''s_log_block_size'' (bytes s) sb
     in if 32 \<le> log then Inl Out_of_bounds
        else
          let s = s\<lparr>block_size := ucast (push_bit (unat log) 1024 :: u32)\<rparr>
          in and_then (ext2_check_bg_dsc2 dv pool bgs bg s) (\<lambda>s.
             let s = s\<lparr>s_inodes_per_group := ucast (c_field sblock_ext2 ''s_inodes_per_group'' (bytes s) sb)\<rparr>;
                 s = s\<lparr>bg_inode_table := ucast (c_field bg_dsc_ext2 ''bg_inode_table'' (bytes s) bg)\<rparr>;
                 root = 0
             in and_then (create_inode_table2 dv pool root s) (\<lambda>s.
                ext2_read_dir_rec_from_inode dv loc root 1 0 s)))"

end
