(* ===== verification/Ext2_Read.thy ===== *)
theory Ext2_Read
  imports Ext2 Ahci_Disk Fork
begin

text \<open>
  The metadata: what \<open>check_ext2\<close> knows of the file system after it has read the superblock and the
  first block group descriptor, and the inode table \<open>create_inode_table\<close> builds.
\<close>

section \<open>Structures\<close>

lemma struct_sizes: "c_sizeof sblock_ext2 = 1024" "c_sizeof bg_dsc_ext2 = 32" "c_sizeof inode_ext2 = 128"
  "c_sizeof linked_dir_entry_ext2 = 8"
  by code_simp+

lemma struct_aligned: "\<forall>f\<in>set sblock_ext2. 0 < snd (snd f)" "\<forall>f\<in>set bg_dsc_ext2. 0 < snd (snd f)"
  "\<forall>f\<in>set inode_ext2. 0 < snd (snd f)" "\<forall>f\<in>set linked_dir_entry_ext2. 0 < snd (snd f)"
  by code_simp+

section \<open>Output leaves everything else alone\<close>

lemma only_prints_trans: "only_prints s t \<Longrightarrow> only_prints t u \<Longrightarrow> only_prints s u"
  unfolding only_prints_def by (elim exE) (simp, blast)

lemma only_prints_fold: "(\<And>x u. only_prints s u \<Longrightarrow> only_prints s (f x u)) \<Longrightarrow> only_prints s u \<Longrightarrow> only_prints s (fold f xs u)"
  by (induction xs arbitrary: u) simp_all

lemma only_prints_ext2:
  "only_prints s u \<Longrightarrow> only_prints s (say_fields fs ms base u)"
  "only_prints s u \<Longrightarrow> only_prints s (say_elem fs msg nm t k base u)"
  "only_prints s u \<Longrightarrow> only_prints s (say_mem p n u)"
  unfolding say_fields_def say_elem_def say_mem_def
  by (auto intro!: only_prints_fold only_prints_say)

lemmas only_prints_intros = only_prints_say only_prints_ext2 only_prints_fold only_prints_refl

lemma print_sblock_only: "only_prints s (print_sblock sb s)"
  unfolding print_sblock_def Let_def by (intro only_prints_intros)

lemma print_bg_only: "only_prints s u \<Longrightarrow> only_prints s (print_bg bg i u)"
  unfolding print_bg_def Let_def by (simp add: only_prints_intros)

lemma print_bgs_only: "only_prints s (print_bgs bg n s)"
  unfolding print_bgs_def Let_def by (intro only_prints_intros print_bg_only)

lemma only_prints_disk:
  fixes s u :: "('d, 'z) ext2_scheme"
  assumes "only_prints s u"
  shows "disk_ready dv reg lag disk k u = disk_ready dv reg lag disk k s" "cmd_list reg k u = cmd_list reg k s"
    "cmd_tbl_base u = cmd_tbl_base s" "bytes u = bytes s" "block_size u = block_size s" "s_first_ino u = s_first_ino s"
    "s_inodes_per_group u = s_inodes_per_group s" "bg_inode_table u = bg_inode_table s" "abar u = abar s" "hba_st u = hba_st s"
  using assms by (auto simp: only_prints_def disk_ready_def cmd_list_def hba_port_def)

lemma st_ext2 [simp]:
  fixes s :: "('d, 'z) ext2_scheme"
  shows "block_size (st d m s) = block_size s" "s_first_ino (st d m s) = s_first_ino s"
    "s_inodes_per_group (st d m s) = s_inodes_per_group s" "bg_inode_table (st d m s) = bg_inode_table s"
  by (simp_all add: st_def)

section \<open>The superblock and the first group\<close>

text \<open>The disk from byte \<open>p\<close> on, as a memory that starts at address 0.\<close>

definition disk_at :: "(nat \<Rightarrow> u8) \<Rightarrow> nat \<Rightarrow> bytemem" where
  "disk_at disk p = (\<lambda>a. disk (p + unat a))"

lemma disk_at_nat: "i < 2 ^ 64 \<Longrightarrow> disk_at disk p (of_nat i) = disk (p + i)"
  using unat_of_nat64 by (simp add: disk_at_def)

lemma sblock_spec:
  fixes s :: "('d, 'z) ext2_scheme"
  assumes r: "disk_ready dv reg lag disk k s" and p: "pool_ok pool 2 sb 1024 0"
  obtains s' where "ext2_check_sblock dv pool sb s = Inr s'" "disk_ready dv reg lag disk k s'"
    "cmd_list reg k s' = cmd_list reg k s" "cmd_tbl_base s' = cmd_tbl_base s"
    "\<forall>i<1024. bytes s' (sb + of_nat i) = disk (1024 + i)"
proof -
  have room: "pool_room pool 2 sb 1024 0" using p by (simp add: pool_ok_def)
  obtain d' m' where 1: "ahci_read_byte dv pool 2 2 sb 1024 0 s = Inr (st d' m' s)"
    "disk_ready dv reg lag disk k (st d' m' s)" "cmd_list reg k (st d' m' s) = cmd_list reg k s"
    "\<forall>i<nat 1024. if nat 0 + i < 512 * unat (2 :: u16) then m' (sb + of_nat i) = disk (512 * unat (2 :: u64) + nat 0 + i)
       else outside (cmd_list reg k s) (cmd_tbl_base s) (pool + of_nat (nat 0 + i)) \<longrightarrow>
         m' (sb + of_nat i) = bytes s (pool + of_nat (nat 0 + i))"
    by (rule read_byte_spec [OF r room, of 2]) simp
  let ?s = "print_sblock sb (st d' m' s)"
  note q = only_prints_disk [OF print_sblock_only [of "st d' m' s" sb]]
  have "ext2_check_sblock dv pool sb s = Inr ?s"
    using 1(1) by (simp add: ext2_check_sblock_def SBLOCK_DISK_LBA_def SBLOCK_LENGTH_def AHCI_COUNT_def struct_sizes)
  then show thesis by (rule that) (use 1(2-4) in \<open>simp_all add: q\<close>)
qed

text \<open>A disk: blocks of 1 KiB, 8 inodes in a group, the inode table in block 5.\<close>

definition demo_sb :: "nat \<Rightarrow> u8" where
  "demo_sb n = (if n = 1064 then 8 else if n = 2056 then 5 else 0)"

lemma demo_sb_fields: "c_field sblock_ext2 ''s_log_block_size'' (disk_at demo_sb 1024) 0 = 0"
  "c_field sblock_ext2 ''s_inodes_per_group'' (disk_at demo_sb 1024) 0 = 8"
  "c_field bg_dsc_ext2 ''bg_inode_table'' (disk_at demo_sb 2048) 0 = 5"
proof -
  have "field_off sblock_ext2 ''s_log_block_size'' = 24" "field_type sblock_ext2 ''s_log_block_size'' = (4, 4)"
    "field_off sblock_ext2 ''s_inodes_per_group'' = 40" "field_type sblock_ext2 ''s_inodes_per_group'' = (4, 4)"
    "field_off bg_dsc_ext2 ''bg_inode_table'' = 8" "field_type bg_dsc_ext2 ''bg_inode_table'' = (4, 4)"
    by code_simp+
  then show "c_field sblock_ext2 ''s_log_block_size'' (disk_at demo_sb 1024) 0 = 0"
    "c_field sblock_ext2 ''s_inodes_per_group'' (disk_at demo_sb 1024) 0 = 8"
    "c_field bg_dsc_ext2 ''bg_inode_table'' (disk_at demo_sb 2048) 0 = 5"
    by (simp_all add: c_field_def load_val_def load32_def load_le_def upt_conv_Cons disk_at_def demo_sb_def)
qed

lemma demo_state_ext2:
  fixes s :: "(u64 \<Rightarrow> u32, 'z) ext2_scheme"
  shows "disk_ready (demo_hba disk) (\<lambda>d. d) (\<lambda>_. 0) disk 0 (demo_state s)" "cmd_list (\<lambda>d. d) 0 (demo_state s) = 0x200000"
    "cmd_tbl_base (demo_state s) = 0x100000"
  using demo_ready [of disk s] by (simp_all add: cmd_list_def demo_state_def demo_regs_def hba_port_def)

lemma demo_pools: "pool_ok 0x60000 2 0x50000 1024 0" "pool_ok 0x60000 2 0x50500 32 0"
  by (simp_all add: pool_ok_def pool_room_def)

text \<open>
  C24. The superblock: after \<open>ext2_check_sblock\<close> every integer field of the structure at \<open>sb\<close> is the
  field of that name in the 1024 bytes from byte 1024 of the disk on, and the disk is ready again.
\<close>

theorem superblock_fields:
  fixes s :: "('d, 'z) ext2_scheme"
  assumes "disk_ready dv reg lag disk k s" "pool_ok pool 2 sb 1024 0"
  shows "\<exists>s'. ext2_check_sblock dv pool sb s = Inr s' \<and> disk_ready dv reg lag disk k s' \<and>
    (\<forall>nm\<in>fst ` set sblock_ext2. \<forall>n\<in>{1, 2, 4, 8}. map_of sblock_ext2 nm = Some (n, n) \<longrightarrow>
       c_field sblock_ext2 nm (bytes s') sb = c_field sblock_ext2 nm (disk_at disk 1024) 0)"
proof -
  obtain s' where s': "ext2_check_sblock dv pool sb s = Inr s'" "disk_ready dv reg lag disk k s'"
    "\<forall>i<1024. bytes s' (sb + of_nat i) = disk (1024 + i)"
    using sblock_spec [OF assms] by metis
  have "c_field sblock_ext2 nm (bytes s') sb = c_field sblock_ext2 nm (disk_at disk 1024) 0"
    if "map_of sblock_ext2 nm = Some (n, n)" "n \<in> {1, 2, 4, 8}" for nm n
    by (rule c_field_agree [OF _ struct_aligned(1) that]) (use s'(3) in \<open>simp add: struct_sizes disk_at_nat\<close>)
  with s'(1,2) show ?thesis by blast
qed

theorem superblock_fields_witness:
  "\<forall>s :: (u64 \<Rightarrow> u32) ext2. \<exists>s'. ext2_check_sblock (demo_hba demo_sb) 0x60000 0x50000 (demo_state s) = Inr s' \<and>
     c_field sblock_ext2 ''s_inodes_per_group'' (bytes s') 0x50000 = 8"
proof
  fix s :: "(u64 \<Rightarrow> u32) ext2"
  have "map_of sblock_ext2 ''s_inodes_per_group'' = Some (4, 4)" "''s_inodes_per_group'' \<in> fst ` set sblock_ext2"
    by (code_simp, simp add: sblock_ext2_def)
  then show "\<exists>s'. ext2_check_sblock (demo_hba demo_sb) 0x60000 0x50000 (demo_state s) = Inr s' \<and>
     c_field sblock_ext2 ''s_inodes_per_group'' (bytes s') 0x50000 = 8"
    using superblock_fields [OF demo_state_ext2(1) demo_pools(1), of demo_sb s] demo_sb_fields(2) by fastforce
qed

text \<open>Updates the disk does not notice.\<close>

lemma disk_upd [simp]:
  fixes s :: "('d, 'z) ext2_scheme"
  shows "disk_ready dv reg lag disk k (s\<lparr>bytes := m\<rparr>) = disk_ready dv reg lag disk k s"
    "disk_ready dv reg lag disk k (s\<lparr>block_size := b\<rparr>) = disk_ready dv reg lag disk k s"
    "disk_ready dv reg lag disk k (s\<lparr>s_first_ino := n\<rparr>) = disk_ready dv reg lag disk k s"
    "disk_ready dv reg lag disk k (s\<lparr>s_inodes_per_group := n\<rparr>) = disk_ready dv reg lag disk k s"
    "disk_ready dv reg lag disk k (s\<lparr>bg_inode_table := n\<rparr>) = disk_ready dv reg lag disk k s"
    "cmd_list reg k (s\<lparr>bytes := m\<rparr>) = cmd_list reg k s" "cmd_list reg k (s\<lparr>block_size := b\<rparr>) = cmd_list reg k s"
    "cmd_list reg k (s\<lparr>s_first_ino := n\<rparr>) = cmd_list reg k s"
  by (simp_all add: disk_ready_def cmd_list_def hba_port_def)

lemma memcpy_apart:
  assumes "unat src + n \<le> unat dst \<or> unat dst + n \<le> unat src" "unat src + n \<le> 2 ^ 64" "unat dst + n \<le> 2 ^ 64" "0 < n"
  shows "i < n \<Longrightarrow> memcpy_upto m dst src n (dst + of_nat i) = m (src + of_nat i)"
    "unat x < unat dst \<or> unat dst + n \<le> unat x \<Longrightarrow> memcpy_upto m dst src n x = m x"
proof -
  have n: "n < 2 ^ 64" using assms by linarith
  have "n \<le> unat (dst - src)"
  proof (cases "unat src \<le> unat dst")
    case True
    then show ?thesis using assms by (simp add: unat_sub_if')
  next
    case False
    then show ?thesis using assms by (simp add: unat_sub_if')
  qed
  note eq = memcpy_upto_eq [of dst src n n m, OF disjI2, OF this n order_refl]
  show "i < n \<Longrightarrow> memcpy_upto m dst src n (dst + of_nat i) = m (src + of_nat i)"
    using eq [of "dst + of_nat i"] unat_of_nat64 [of i] n by simp
  show "unat x < unat dst \<or> unat dst + n \<le> unat x \<Longrightarrow> memcpy_upto m dst src n x = m x"
    using eq [of x] rel_ge [OF assms(3) n, of x] by simp
qed

lemma bg_spec:
  fixes s :: "('d, 'z) ext2_scheme"
  assumes r: "disk_ready dv reg lag disk k s" and p: "pool_ok pool 2 bgs 32 0"
    and bg: "unat bgs + 32 \<le> unat bg \<or> unat bg + 32 \<le> unat bgs" "unat bg + 32 \<le> 2 ^ 64"
  obtains s' where "ext2_check_bg_dsc2 dv pool bgs bg s = Inr s'" "disk_ready dv reg lag disk k s'"
    "\<forall>i<32. bytes s' (bg + of_nat i) = disk (2048 + i)" "block_size s' = block_size s"
    "\<forall>x. outside (cmd_list reg k s) (cmd_tbl_base s) x \<and> (unat x < unat pool \<or> unat pool + 1024 \<le> unat x) \<and>
       (unat x < unat bgs \<or> unat bgs + 32 \<le> unat x) \<and> (unat x < unat bg \<or> unat bg + 32 \<le> unat x) \<longrightarrow> bytes s' x = bytes s x"
proof -
  have room: "pool_room pool 2 bgs 32 0" using p by (simp add: pool_ok_def)
  obtain d' m' where 1: "ahci_read_byte dv pool 4 2 bgs 32 0 s = Inr (st d' m' s)" "disk_ready dv reg lag disk k (st d' m' s)"
    "\<forall>i<nat 32. if nat 0 + i < 512 * unat (2 :: u16) then m' (bgs + of_nat i) = disk (512 * unat (4 :: u64) + nat 0 + i)
       else outside (cmd_list reg k s) (cmd_tbl_base s) (pool + of_nat (nat 0 + i)) \<longrightarrow>
         m' (bgs + of_nat i) = bytes s (pool + of_nat (nat 0 + i))"
    "\<forall>x. outside (cmd_list reg k s) (cmd_tbl_base s) x \<and> (unat x < unat pool \<or> unat pool + 512 * unat (2 :: u16) \<le> unat x) \<and>
       (unat x < unat bgs \<or> unat bgs + nat 32 \<le> unat x) \<longrightarrow> m' x = bytes s x"
    by (rule read_byte_spec [OF r room, of 4]) simp
  let ?s = "print_bgs bgs (Suc 0) (st d' m' s)"
  note q = only_prints_disk [OF print_bgs_only [of "st d' m' s" bgs "Suc 0"]]
  have eq: "ext2_check_bg_dsc2 dv pool bgs bg s = Inr (?s\<lparr>bytes := memcpy_upto m' bg bgs 32\<rparr>)"
    using 1(1) by (simp add: ext2_check_bg_dsc2_def struct_sizes Let_def q)
  have c: "unat bgs + 32 \<le> 2 ^ 64" using room by (simp add: pool_room_def)
  note m = memcpy_apart [OF bg(1) c bg(2), where m = m', simplified]
  show thesis
  proof (rule that [OF eq])
    show "\<forall>i<32. bytes (?s\<lparr>bytes := memcpy_upto m' bg bgs 32\<rparr>) (bg + of_nat i) = disk (2048 + i)"
      using m(1) 1(3) by simp
    show "\<forall>x. outside (cmd_list reg k s) (cmd_tbl_base s) x \<and> (unat x < unat pool \<or> unat pool + 1024 \<le> unat x) \<and>
       (unat x < unat bgs \<or> unat bgs + 32 \<le> unat x) \<and> (unat x < unat bg \<or> unat bg + 32 \<le> unat x) \<longrightarrow>
         bytes (?s\<lparr>bytes := memcpy_upto m' bg bgs 32\<rparr>) x = bytes s x"
      using m(2) 1(4) by simp
  qed (use 1(2) in \<open>simp_all add: q\<close>)
qed

text \<open>
  C25. What \<open>check_ext2\<close> does: on a disk whose superblock gives a block size of at most 32 KiB it
  takes the block size, the inodes per group and the block of the inode table from the superblock
  and from the descriptor at byte 2048, builds the inode table, and lists the directory tree of the
  table at address 0, not of the one it has built.
\<close>

theorem check_ext2_metadata:
  fixes s :: "('d, 'z) ext2_scheme"
  assumes r: "disk_ready dv reg lag disk k s" and p: "pool_ok pool 2 sb 1024 0" "pool_ok pool 2 bgs 32 0"
    and sb: "\<forall>i<1024. outside (cmd_list reg k s) (cmd_tbl_base s) (sb + of_nat i)"
      "unat sb + 1024 \<le> unat bgs \<or> unat bgs + 32 \<le> unat sb" "unat sb + 1024 \<le> unat bg \<or> unat bg + 32 \<le> unat sb"
    and bg: "unat bgs + 32 \<le> unat bg \<or> unat bg + 32 \<le> unat bgs" "unat bg + 32 \<le> 2 ^ 64"
    and log: "unat (c_field sblock_ext2 ''s_log_block_size'' (disk_at disk 1024) 0) < 6"
  shows "\<exists>s'. check_ext2 dv pool sb bg bgs loc s =
      and_then (create_inode_table2 dv pool 0 s') (ext2_read_dir_rec_from_inode dv loc 0 1 0) \<and>
    disk_ready dv reg lag disk k s' \<and>
    unat (block_size s') = 1024 * 2 ^ unat (c_field sblock_ext2 ''s_log_block_size'' (disk_at disk 1024) 0) \<and>
    s_inodes_per_group s' = ucast (c_field sblock_ext2 ''s_inodes_per_group'' (disk_at disk 1024) 0) \<and>
    bg_inode_table s' = ucast (c_field bg_dsc_ext2 ''bg_inode_table'' (disk_at disk 2048) 0)"
proof -
  obtain s1 where 1: "ext2_check_sblock dv pool sb s = Inr s1" "disk_ready dv reg lag disk k s1"
    "cmd_list reg k s1 = cmd_list reg k s" "cmd_tbl_base s1 = cmd_tbl_base s" "\<forall>i<1024. bytes s1 (sb + of_nat i) = disk (1024 + i)"
    by (rule sblock_spec [OF r p(1)])
  have F: "c_field sblock_ext2 nm m sb = c_field sblock_ext2 nm (disk_at disk 1024) 0"
    if "\<forall>i<1024. m (sb + of_nat i) = disk (1024 + i)" "map_of sblock_ext2 nm = Some (4, 4)" for m nm
    by (rule c_field_agree [OF _ struct_aligned(1) that(2)]) (use that(1) in \<open>simp_all add: struct_sizes disk_at_nat\<close>)
  define log where "log = c_field sblock_ext2 ''s_log_block_size'' (disk_at disk 1024) 0"
  have nm: "map_of sblock_ext2 ''s_log_block_size'' = Some (4, 4)" "map_of sblock_ext2 ''s_inodes_per_group'' = Some (4, 4)"
    "map_of bg_dsc_ext2 ''bg_inode_table'' = Some (4, 4)"
    by code_simp+
  have l1: "c_field sblock_ext2 ''s_log_block_size'' (bytes s1) sb = log" using F [OF 1(5) nm(1)] by (simp add: log_def)
  have small: "\<not> 32 \<le> log" using assms(9) by (simp add: log_def word_le_nat_alt)
  let ?s1 = "s1\<lparr>s_first_ino := ucast (c_field sblock_ext2 ''s_first_ino'' (bytes s1) sb),
    block_size := ucast (push_bit (unat log) 1024 :: u32)\<rparr>"
  have r1: "disk_ready dv reg lag disk k ?s1" using 1(2) by simp
  obtain s2 where 2: "ext2_check_bg_dsc2 dv pool bgs bg ?s1 = Inr s2" "disk_ready dv reg lag disk k s2"
    "\<forall>i<32. bytes s2 (bg + of_nat i) = disk (2048 + i)" "block_size s2 = ucast (push_bit (unat log) 1024 :: u32)"
    "\<forall>x. outside (cmd_list reg k s) (cmd_tbl_base s) x \<and> (unat x < unat pool \<or> unat pool + 1024 \<le> unat x) \<and>
       (unat x < unat bgs \<or> unat bgs + 32 \<le> unat x) \<and> (unat x < unat bg \<or> unat bg + 32 \<le> unat x) \<longrightarrow> bytes s2 x = bytes s1 x"
    using bg_spec [OF r1 p(2) bg] 1(3,4) by auto
  have "bytes s2 (sb + of_nat i) = disk (1024 + i)" if "i < 1024" for i
  proof -
    have "unat sb + 1024 \<le> 2 ^ 64" using p(1) by (simp add: pool_ok_def pool_room_def)
    then have "unat (sb + of_nat i) = unat sb + i" using that by (intro unat_offset [of _ 1024]) simp_all
    then have "bytes s2 (sb + of_nat i) = bytes s1 (sb + of_nat i)"
      using 2(5) [rule_format, of "sb + of_nat i"] sb that p(1) by (auto simp: pool_ok_def pool_room_def)
    then show ?thesis using 1(5) that by simp
  qed
  then have g: "c_field sblock_ext2 ''s_inodes_per_group'' (bytes s2) sb = c_field sblock_ext2 ''s_inodes_per_group'' (disk_at disk 1024) 0"
    by (intro F nm) simp
  have t: "c_field bg_dsc_ext2 ''bg_inode_table'' (bytes s2) bg = c_field bg_dsc_ext2 ''bg_inode_table'' (disk_at disk 2048) 0"
    by (rule c_field_agree [OF _ struct_aligned(2) nm(3)]) (use 2(3) in \<open>simp_all add: struct_sizes disk_at_nat\<close>)
  let ?s2 = "s2\<lparr>s_inodes_per_group := ucast (c_field sblock_ext2 ''s_inodes_per_group'' (disk_at disk 1024) 0),
    bg_inode_table := ucast (c_field bg_dsc_ext2 ''bg_inode_table'' (disk_at disk 2048) 0)\<rparr>"
  have "check_ext2 dv pool sb bg bgs loc s = and_then (create_inode_table2 dv pool 0 ?s2) (ext2_read_dir_rec_from_inode dv loc 0 1 0)"
    using 1(1) l1 small 2(1) g t by (simp add: check_ext2_def Let_def)
  moreover have "unat (block_size ?s2) = 1024 * 2 ^ unat log"
  proof -
    have "unat log < 6" using assms(9) by (simp add: log_def)
    then have "unat log \<in> {0, 1, 2, 3, 4, 5}" by auto
    then show ?thesis by (auto simp: 2(4))
  qed
  ultimately show ?thesis using 2(2) unfolding log_def by (intro exI [of _ ?s2]) simp
qed

theorem check_ext2_metadata_witness:
  "\<forall>(s :: (u64 \<Rightarrow> u32) ext2) loc. \<exists>s'. check_ext2 (demo_hba demo_sb) 0x60000 0x50000 0x50400 0x50500 loc (demo_state s) =
       and_then (create_inode_table2 (demo_hba demo_sb) 0x60000 0 s') (ext2_read_dir_rec_from_inode (demo_hba demo_sb) loc 0 1 0) \<and>
     unat (block_size s') = 1024 \<and> s_inodes_per_group s' = 8 \<and> bg_inode_table s' = 5"
proof (intro allI)
  fix s :: "(u64 \<Rightarrow> u32) ext2" and loc
  have out: "\<forall>i<1024. outside (cmd_list (\<lambda>d. d) 0 (demo_state s)) (cmd_tbl_base (demo_state s)) (0x50000 + of_nat i)"
  proof (intro allI impI)
    fix i :: nat assume i: "i < 1024"
    have "unat (0x50000 + of_nat i :: u64) = unat (0x50000 :: u64) + i" by (rule unat_offset [of _ 1024]) (use i in simp_all)
    then show "outside (cmd_list (\<lambda>d. d) 0 (demo_state s)) (cmd_tbl_base (demo_state s)) (0x50000 + of_nat i)"
      using i by (simp add: outside_def demo_state_ext2)
  qed
  have "unat (c_field sblock_ext2 ''s_log_block_size'' (disk_at demo_sb 1024) 0) < 6" by (simp add: demo_sb_fields)
  from check_ext2_metadata [OF demo_state_ext2(1) demo_pools out _ _ _ _ this, of "0x50400" loc]
  show "\<exists>s'. check_ext2 (demo_hba demo_sb) 0x60000 0x50000 0x50400 0x50500 loc (demo_state s) =
       and_then (create_inode_table2 (demo_hba demo_sb) 0x60000 0 s') (ext2_read_dir_rec_from_inode (demo_hba demo_sb) loc 0 1 0) \<and>
     unat (block_size s') = 1024 \<and> s_inodes_per_group s' = 8 \<and> bg_inode_table s' = 5"
    by (fastforce simp: demo_sb_fields)
qed

end
