(* ===== verification/Ext2_Dir.thy ===== *)
theory Ext2_Dir
  imports Ext2_Read
begin

text \<open>
  Listing a directory tree. \<open>tree_at\<close> says that a tree of directory entries is what the disk and the
  inode table hold, \<open>listing\<close> what should be printed for it; the theorem is that
  \<open>ext2_read_dir_rec_from_inode\<close> ends and prints exactly that.
\<close>

section \<open>Strings\<close>

lemma strcmp_0:
  assumes "holds_str s1 xs" "holds_str s2 ys" "length xs < 2 ^ 64"
  obtains c where "strcmp s1 s2 = Some c" "c = 0 \<longleftrightarrow> xs = ys"
proof (cases "length xs = length ys")
  case True
  have "unat (of_nat (length xs) :: u64) = length xs" using assms(3) by (rule unat_of_nat64)
  then have "strncmp s1 s2 (of_nat (length xs)) = lex_sign (bytes_signed xs) (bytes_signed ys)"
    using strncmp_loop_lex [OF assms(1,2) True, of 0] by (simp add: strncmp_def)
  moreover have "length (bytes_signed xs) = length (bytes_signed ys)" using True by (simp add: bytes_signed_def)
  ultimately show thesis
    using strlen_from_eq [OF assms(1), of 0] strlen_from_eq [OF assms(2), of 0] True
    by (intro that [of "lex_sign (bytes_signed xs) (bytes_signed ys)"]) (simp_all add: strcmp_def lex_sign_eq_0)
next
  case False
  then show thesis
    using strlen_from_eq [OF assms(1), of 0] strlen_from_eq [OF assms(2), of 0]
    by (intro that [of "if length xs > length ys then 1 else - 1"]) (auto simp: strcmp_def)
qed

section \<open>States\<close>

text \<open>The state after output \<open>xs\<close>, with adapter state \<open>d\<close>, memory \<open>m\<close> and interrupt flag \<open>f\<close>, otherwise
  as \<open>s\<close>.\<close>

definition shown ::
  "'d \<Rightarrow> bytemem \<Rightarrow> u8 list \<Rightarrow> bool \<Rightarrow> ('d, 'z) ext2_scheme \<Rightarrow> ('d, 'z) ext2_scheme" where
  "shown d m xs f s = s\<lparr>hba_st := d, bytes := m, port_out := port_out s @ map (Pair (comport s)) xs, int_flag := f\<rparr>"

lemma shown_fields [simp]:
  "bytes (shown d m xs f s) = m" "(shown d m xs f s)\<lparr>bytes := m'\<rparr> = shown d m' xs f s" "BLOCK (shown d m xs f s) = BLOCK s"
  "st d' m' (shown d m xs f s) = shown d' m' xs f s" "say_bytes ys (shown d m xs f s) = shown d m (xs @ ys) True s"
  "hba_st (shown d m xs f s) = d" "port_out (shown d m xs f s) = port_out s @ map (Pair (comport s)) xs"
  "cmd_tbl_base (shown d m xs f s) = cmd_tbl_base s" "block_lba n (shown d m xs f s) = block_lba n s"
  "lde_field nm l (shown d m xs f s) = c_field linked_dir_entry_ext2 nm m (dl_lde l)"
  by (simp_all add: shown_def st_def BLOCK_def block_lba_def lde_field_def say_bytes_def sent_def io_sti_def)

lemma shown_id: "s = shown (hba_st s) (bytes s) [] (int_flag s) s"
  by (simp add: shown_def)

lemma say_mem_shown: "say_mem p n (shown d m xs f s) = shown d m (xs @ map (\<lambda>i. m (p + of_nat i)) [0..<n]) True s"
  by (simp add: say_mem_def)

lemma say_shown: "say msg (shown d m xs f s) = shown d m (xs @ ascii msg) True s"
  by (simp add: say_def)

lemma spaces_shown: "fold (\<lambda>i. say '' '') [0..<n] (shown d m xs f s) = shown d m (xs @ replicate n 32) (f \<or> 0 < n) s"
proof (induction n)
  case (Suc n)
  then show ?case by (simp add: say_shown ascii_def replicate_append_same)
qed simp

text \<open>An idle adapter with its command list at \<open>cl\<close>, and the memory it writes to.\<close>

definition at_rest ::
  "'d hba \<Rightarrow> ('d \<Rightarrow> u64 \<Rightarrow> u32) \<Rightarrow> ('d \<Rightarrow> nat) \<Rightarrow> (nat \<Rightarrow> u8) \<Rightarrow> nat \<Rightarrow> ('d, 'z) ext2_scheme \<Rightarrow> u64 \<Rightarrow> 'd \<Rightarrow> bool" where
  "at_rest dv reg lag disk k s cl d \<longleftrightarrow> disk_ready dv reg lag disk k (s\<lparr>hba_st := d\<rparr>) \<and> cmd_list reg k (s\<lparr>hba_st := d\<rparr>) = cl"

definition span :: "u64 \<Rightarrow> nat \<Rightarrow> nat set" where
  "span a n = {unat a..<unat a + n}"

definition ahci_area :: "('d, 'z) ext2_scheme \<Rightarrow> u64 \<Rightarrow> nat set" where
  "ahci_area s cl = span cl 0x400 \<union> span (cmd_tbl_base s) 0x10090"

lemma ready_shown:
  "disk_ready dv reg lag disk k (shown d m xs f s) \<and> cmd_list reg k (shown d m xs f s) = cl \<longleftrightarrow> at_rest dv reg lag disk k s cl d"
  by (simp add: at_rest_def shown_def disk_ready_def cmd_list_def hba_port_def)

lemma outside_area: "outside cl (cmd_tbl_base s) x \<longleftrightarrow> unat x \<notin> ahci_area s cl"
  by (auto simp: outside_def ahci_area_def span_def)

lemma read_shown:
  assumes r: "at_rest dv reg lag disk k s cl d" and p: "pool_room pool count buf n offset" and lba: "unat start < 2 ^ 48"
  obtains d' m' where "ahci_read_byte dv pool start count buf n offset (shown d m xs f s) = Inr (shown d' m' xs f s)"
    "at_rest dv reg lag disk k s cl d'"
    "\<forall>i<nat n. nat offset + i < 512 * unat count \<longrightarrow> m' (buf + of_nat i) = disk (512 * unat start + nat offset + i)"
    "\<forall>i<nat n. 512 * unat count \<le> nat offset + i \<and> unat (pool + of_nat (nat offset + i)) \<notin> ahci_area s cl \<longrightarrow>
       m' (buf + of_nat i) = m (pool + of_nat (nat offset + i))"
    "\<forall>x. unat x \<notin> ahci_area s cl \<union> span pool (512 * unat count) \<union> span buf (nat n) \<longrightarrow> m' x = m x"
proof -
  let ?s = "shown d m xs f s"
  have R: "disk_ready dv reg lag disk k ?s" and C: "cmd_list reg k ?s = cl"
    using r ready_shown [of dv reg lag disk k d m xs f s cl] by simp_all
  obtain d' m' where 1: "ahci_read_byte dv pool start count buf n offset ?s = Inr (st d' m' ?s)"
    "disk_ready dv reg lag disk k (st d' m' ?s)" "cmd_list reg k (st d' m' ?s) = cl"
    "\<forall>i<nat n. if nat offset + i < 512 * unat count then m' (buf + of_nat i) = disk (512 * unat start + nat offset + i)
       else outside cl (cmd_tbl_base s) (pool + of_nat (nat offset + i)) \<longrightarrow> m' (buf + of_nat i) = m (pool + of_nat (nat offset + i))"
    "\<forall>x. outside cl (cmd_tbl_base s) x \<and> (unat x < unat pool \<or> unat pool + 512 * unat count \<le> unat x) \<and>
       (unat x < unat buf \<or> unat buf + nat n \<le> unat x) \<longrightarrow> m' x = m x"
    by (rule read_byte_spec [OF R p lba, unfolded C]) simp
  note out = outside_area [of cl s]
  show thesis
  proof (rule that)
    show "ahci_read_byte dv pool start count buf n offset ?s = Inr (shown d' m' xs f s)" using 1(1) by simp
    show "at_rest dv reg lag disk k s cl d'" using 1(2,3) ready_shown [of dv reg lag disk k d' m' xs f s cl] by simp
    show "\<forall>i<nat n. nat offset + i < 512 * unat count \<longrightarrow> m' (buf + of_nat i) = disk (512 * unat start + nat offset + i)"
      using 1(4) by simp
    show "\<forall>i<nat n. 512 * unat count \<le> nat offset + i \<and> unat (pool + of_nat (nat offset + i)) \<notin> ahci_area s cl \<longrightarrow>
       m' (buf + of_nat i) = m (pool + of_nat (nat offset + i))"
      using 1(4) out by simp
    show "\<forall>x. unat x \<notin> ahci_area s cl \<union> span pool (512 * unat count) \<union> span buf (nat n) \<longrightarrow> m' x = m x"
      using 1(5) out by (auto simp: span_def)
  qed
qed

section \<open>Where the locals are\<close>

definition blk_pos :: "u16 \<Rightarrow> u32 \<Rightarrow> nat" where
  "blk_pos c n = 512 * unat (n * ucast c)"

lemma block_lba_pos: "512 * unat (block_lba n s) = blk_pos (BLOCK s) n" "unat (block_lba n s) < 2 ^ 48"
proof -
  have "unat (ucast x :: u64) = unat x" for x :: u32
    using unsigned_less [of x, where ?'a = nat] by (simp add: unsigned_ucast_eq take_bit_nat_eq_self)
  then have "unat (block_lba n s) = unat (n * ucast (BLOCK s) :: u32)" unfolding block_lba_def by blast
  then show "512 * unat (block_lba n s) = blk_pos (BLOCK s) n" "unat (block_lba n s) < 2 ^ 48"
    using unsigned_less [of "n * ucast (BLOCK s) :: u32", where ?'a = nat] by (simp_all add: blk_pos_def)
qed

text \<open>What one activation writes, and the end of its array, which it may read.\<close>

definition dl_write :: "u16 \<Rightarrow> dir_locals \<Rightarrow> nat set" where
  "dl_write c l = span (dl_pool l) (512 * unat c) \<union> span (dl_lde l) 8 \<union> span (dl_name l) 256 \<union>
     span (dl_i_node l) 128 \<union> span (dl_text l) 64"

definition dl_tail :: "u16 \<Rightarrow> dir_locals \<Rightarrow> nat set" where
  "dl_tail c l = {unat (dl_pool l) + 512 * unat c..<unat (dl_pool l) + 512 * unat c + 8}"

definition local_bufs :: "dir_locals \<Rightarrow> (u64 \<times> nat) set" where
  "local_bufs l = {(dl_lde l, 8), (dl_name l, 256), (dl_i_node l, 128), (dl_text l, 64)}"

definition locals_ok :: "u16 \<Rightarrow> nat set \<Rightarrow> dir_locals \<Rightarrow> bool" where
  "locals_ok c A l \<longleftrightarrow> 0 < c \<and> even (unat (dl_pool l)) \<and> dl_pool l \<noteq> 0 \<and> unat (dl_pool l) + 1024 * unat c \<le> 2 ^ 32 \<and>
     (\<forall>(b, n)\<in>local_bufs l. unat b + n \<le> 2 ^ 64 \<and> (unat b + n \<le> unat (dl_pool l) \<or> unat (dl_pool l) + 1024 * unat c \<le> unat b)) \<and>
     span (dl_lde l) 8 \<inter> (A \<union> span (dl_name l) 256 \<union> span (dl_i_node l) 128 \<union> span (dl_text l) 64) = {} \<and>
     (dl_tail c l \<union> span (dl_text l) 64) \<inter> A = {}"

lemma locals_room:
  assumes "locals_ok c A l" "(b, n0) \<in> local_bufs l" "n \<le> n0" "off + n \<le> 1024 * unat c"
  shows "pool_room (dl_pool l) c b (int n) (int off)"
proof -
  have "unat b + n0 \<le> 2 ^ 64 \<and> (unat b + n0 \<le> unat (dl_pool l) \<or> unat (dl_pool l) + 1024 * unat c \<le> unat b)"
    using assms(1,2) unfolding locals_ok_def by fast
  then show ?thesis using assms unfolding locals_ok_def pool_room_def by auto
qed

lemma span_at: "i < n \<Longrightarrow> unat a + n \<le> 2 ^ 64 \<Longrightarrow> unat (a + of_nat i) \<in> span a n"
  using unat_offset [of a n i] by (simp add: span_def)

lemma local_at:
  assumes "locals_ok c A l" "(b, n) \<in> local_bufs l" "i < n"
  shows "unat (b + of_nat i) \<in> span b n" "unat (b + of_nat i) \<notin> span (dl_pool l) (1024 * unat c)"
proof -
  have b: "unat b + n \<le> 2 ^ 64" "unat b + n \<le> unat (dl_pool l) \<or> unat (dl_pool l) + 1024 * unat c \<le> unat b"
    using assms(1,2) unfolding locals_ok_def by fast+
  show "unat (b + of_nat i) \<in> span b n" by (rule span_at [OF assms(3) b(1)])
  then show "unat (b + of_nat i) \<notin> span (dl_pool l) (1024 * unat c)" using b(2) by (auto simp: span_def)
qed

text \<open>An inode in a region.\<close>

definition inode_in :: "nat set \<Rightarrow> u64 \<Rightarrow> bool" where
  "inode_in T p \<longleftrightarrow> unat p + 128 \<le> 2 ^ 64 \<and> span p 128 \<subseteq> T"

lemma inode_keep:
  assumes "inode_in T p" "\<And>x. unat x \<in> T \<Longrightarrow> m' x = m x"
  shows "first_block p m' = first_block p m" "c_field inode_ext2 ''i_mode'' m' p = c_field inode_ext2 ''i_mode'' m p"
proof -
  have at: "m' (p + of_nat i) = m (p + of_nat i)" if "i < c_sizeof inode_ext2" for i
    using assms span_at [of i 128 p] that by (auto simp: inode_in_def struct_sizes)
  have "map_of inode_ext2 ''i_block'' = Some (c_array 15 c_u32)" "map_of inode_ext2 ''i_mode'' = Some (2, 2)" by code_simp+
  note nm = this
  show "first_block p m' = first_block p m" unfolding first_block_def
    by (rule arg_cong [where f = ucast], rule c_elem_agree [OF _ struct_aligned(3) nm(1)], rule at) simp_all
  show "c_field inode_ext2 ''i_mode'' m' p = c_field inode_ext2 ''i_mode'' m p"
    by (rule c_field_agree [OF _ struct_aligned(3) nm(2)], rule at) simp_all
qed

section \<open>The header of an entry\<close>

abbreviation "lde \<equiv> linked_dir_entry_ext2"

lemma lde_names: "map_of lde ''inode'' = Some (4, 4)" "map_of lde ''rec_len'' = Some (2, 2)"
  "map_of lde ''name_len'' = Some (1, 1)" "map_of lde ''file_type'' = Some (1, 1)"
  by code_simp+

definition lde_name :: "string \<Rightarrow> bool" where
  "lde_name nm \<longleftrightarrow> nm \<in> {''inode'', ''rec_len'', ''name_len'', ''file_type''}"

lemma lde_agree:
  assumes "\<And>i. i < 8 \<Longrightarrow> m (b + of_nat i) = m' (b' + of_nat i)" "lde_name nm"
  shows "c_field lde nm m b = c_field lde nm m' b'"
proof -
  obtain n where "map_of lde nm = Some (n, n)" "n \<in> {1, 2, 4, 8}" using assms(2) lde_names by (auto simp: lde_name_def)
  then show ?thesis by (intro c_field_agree [OF _ struct_aligned(4)]) (use assms(1) in \<open>simp_all add: struct_sizes\<close>)
qed

lemma lde_zero: "lde_name nm \<Longrightarrow> c_field lde nm (\<lambda>_. 0) 0 = 0"
  by (auto simp: lde_name_def c_field_def load_val_def load_le_def load16_def load32_def load64_def upt_conv_Cons split: if_splits)

lemma read_lde_spec:
  assumes r: "at_rest dv reg lag disk k s cl d" and l: "locals_ok (BLOCK s) (ahci_area s cl) l"
    and off: "off + 8 \<le> 512 * unat (BLOCK s) \<or>
      off = 512 * unat (BLOCK s) \<and> (\<forall>x. unat x \<in> dl_tail (BLOCK s) l \<longrightarrow> m x = 0)"
  obtains d' m' where "read_lde dv l table idx (int off) (shown d m xs f s) = Inr (shown d' m' xs f s)"
    "at_rest dv reg lag disk k s cl d'"
    "\<And>nm. lde_name nm \<Longrightarrow> c_field lde nm m' (dl_lde l) = (if off + 8 \<le> 512 * unat (BLOCK s)
       then c_field lde nm (disk_at disk (blk_pos (BLOCK s) (first_block (inode_at table idx) m) + off)) 0 else 0)"
    "\<And>x. unat x \<notin> ahci_area s cl \<union> dl_write (BLOCK s) l \<Longrightarrow> m' x = m x"
proof -
  let ?c = "unat (BLOCK s)" and ?fb = "first_block (inode_at table idx) m"
  have c: "0 < ?c" "unat (dl_pool l) + 1024 * ?c \<le> 2 ^ 32" using l by (simp_all add: locals_ok_def word_less_nat_alt)
  have room: "pool_room (dl_pool l) (BLOCK s) (dl_lde l) (int 8) (int off)"
    by (rule locals_room [OF l, of _ 8]) (use off c in \<open>auto simp: local_bufs_def\<close>)
  obtain d' m' where 1: "ahci_read_byte dv (dl_pool l) (block_lba ?fb s) (BLOCK s) (dl_lde l) (int 8) (int off) (shown d m xs f s)
      = Inr (shown d' m' xs f s)" "at_rest dv reg lag disk k s cl d'"
    "\<forall>i<8. off + i < 512 * ?c \<longrightarrow> m' (dl_lde l + of_nat i) = disk (512 * unat (block_lba ?fb s) + off + i)"
    "\<forall>i<8. 512 * ?c \<le> off + i \<and> unat (dl_pool l + of_nat (off + i)) \<notin> ahci_area s cl \<longrightarrow>
       m' (dl_lde l + of_nat i) = m (dl_pool l + of_nat (off + i))"
    "\<forall>x. unat x \<notin> ahci_area s cl \<union> span (dl_pool l) (512 * ?c) \<union> span (dl_lde l) 8 \<longrightarrow> m' x = m x"
    by (rule read_shown [OF r room block_lba_pos(2), where m = m and xs = xs and f = f]) (simp only: nat_int)
  show thesis
  proof (rule that)
    show "read_lde dv l table idx (int off) (shown d m xs f s) = Inr (shown d' m' xs f s)"
      using 1(1) by (simp add: read_lde_def struct_sizes)
    show "m' x = m x" if "unat x \<notin> ahci_area s cl \<union> dl_write (BLOCK s) l" for x
      using 1(5) that by (simp add: dl_write_def)
    fix nm assume nm: "lde_name nm"
    show "c_field lde nm m' (dl_lde l) = (if off + 8 \<le> 512 * ?c
       then c_field lde nm (disk_at disk (blk_pos (BLOCK s) ?fb + off)) 0 else 0)"
    proof (cases "off + 8 \<le> 512 * ?c")
      case True
      have "c_field lde nm m' (dl_lde l) = c_field lde nm (disk_at disk (blk_pos (BLOCK s) ?fb + off)) 0"
        by (rule lde_agree [OF _ nm]) (use True 1(3) in \<open>simp add: disk_at_nat block_lba_pos(1)\<close>)
      then show ?thesis using True by simp
    next
      case False
      with off have e: "off = 512 * ?c" and z: "\<forall>x. unat x \<in> dl_tail (BLOCK s) l \<longrightarrow> m x = 0" by auto
      have "m' (dl_lde l + of_nat i) = (\<lambda>_. 0) (0 + of_nat i :: u64)" if "i < 8" for i
      proof -
        have "unat (dl_pool l + of_nat (off + i)) = unat (dl_pool l) + (off + i)"
          by (rule unat_offset [of _ "1024 * ?c"]) (use that e c in auto)
        then have t: "unat (dl_pool l + of_nat (off + i)) \<in> dl_tail (BLOCK s) l" using that e by (simp add: dl_tail_def)
        then have "unat (dl_pool l + of_nat (off + i)) \<notin> ahci_area s cl" using l by (auto simp: locals_ok_def)
        then show ?thesis using 1(4) z t that e by simp
      qed
      then have "c_field lde nm m' (dl_lde l) = 0" using lde_agree [OF _ nm, of m' "dl_lde l" "\<lambda>_. 0" 0] lde_zero [OF nm] by simp
      then show ?thesis using False by simp
    qed
  qed (rule 1(2))
qed

section \<open>The name\<close>

definition dir_line :: "nat \<Rightarrow> u8 \<Rightarrow> u8 list \<Rightarrow> u8 list" where
  "dir_line d ty nm = replicate (4 * d) 32 @ nm @ (if ty = 2 then [47] else []) @ [10]"

lemma lde_keep:
  assumes l: "locals_ok c A l" and W: "W \<inter> span (dl_lde l) 8 = {}" and m: "\<forall>x. unat x \<notin> W \<longrightarrow> m' x = m x" and nm: "lde_name nm"
  shows "c_field lde nm m' (dl_lde l) = c_field lde nm m (dl_lde l)"
proof (rule lde_agree [OF _ nm])
  fix i :: nat assume "i < 8"
  then have "unat (dl_lde l + of_nat i) \<in> span (dl_lde l) 8" by (intro local_at(1) [OF l]) (simp_all add: local_bufs_def)
  then show "m' (dl_lde l + of_nat i) = m (dl_lde l + of_nat i)" using m W by blast
qed

lemma locals_ok_lde:
  assumes "locals_ok c A l"
  shows "(A \<union> span (dl_pool l) (512 * unat c) \<union> span (dl_name l) 256 \<union> span (dl_i_node l) 128 \<union> span (dl_text l) 64) \<inter> span (dl_lde l) 8 = {}"
proof -
  have "span (dl_pool l) (512 * unat c) \<inter> span (dl_lde l) 8 = {}"
    using assms by (auto simp: locals_ok_def local_bufs_def span_def)
  then show ?thesis using assms unfolding locals_ok_def by blast
qed

lemma file_types: "(ucast (ty :: u8) :: u64) = EXT2_FT_DIR \<longleftrightarrow> ty = 2" "(ucast (ty :: u8) :: u64) = EXT2_FT_REG_FILE \<longleftrightarrow> ty = 1"
proof -
  have "unat (ucast ty :: u64) = unat ty"
    using unsigned_less [of ty, where ?'a = nat] by (simp add: unsigned_ucast_eq take_bit_nat_eq_self)
  then show "(ucast ty :: u64) = EXT2_FT_DIR \<longleftrightarrow> ty = 2" "(ucast ty :: u64) = EXT2_FT_REG_FILE \<longleftrightarrow> ty = 1"
    by (simp_all add: EXT2_FT_DIR_def EXT2_FT_REG_FILE_def word_unat_eq_iff)
qed

lemma print_name_spec:
  assumes r: "at_rest dv reg lag disk k s cl d" and l: "locals_ok (BLOCK s) (ahci_area s cl) l"
    and h: "c_field lde ''name_len'' m (dl_lde l) = of_nat (length nm)" "c_field lde ''file_type'' m (dl_lde l) = ucast ty"
    and nm: "length nm < 256" "0 \<notin> set nm" "off + 8 + length nm \<le> 512 * unat (BLOCK s)"
      "\<forall>i<length nm. disk (blk_pos (BLOCK s) (first_block (inode_at table idx) m) + off + 8 + i) = nm ! i"
  obtains d' m' where
    "print_name dv l table idx (int e) (int off) (shown d m xs f s) = Inr (shown d' m' (xs @ dir_line e ty nm) True s)"
    "at_rest dv reg lag disk k s cl d'" "holds_str (\<lambda>i. m' (dl_name l + of_nat i)) nm"
    "\<forall>x. unat x \<notin> ahci_area s cl \<union> span (dl_pool l) (512 * unat (BLOCK s)) \<union> span (dl_name l) 256 \<longrightarrow> m' x = m x"
proof -
  let ?c = "unat (BLOCK s)" and ?fb = "first_block (inode_at table idx) m" and ?n = "length nm"
  let ?W = "ahci_area s cl \<union> span (dl_pool l) (512 * ?c) \<union> span (dl_name l) 256"
  have room: "pool_room (dl_pool l) (BLOCK s) (dl_name l) (int ?n) (int (off + 8))"
    by (rule locals_room [OF l, of _ 256]) (use nm in \<open>auto simp: local_bufs_def\<close>)
  obtain d' m1 where 1: "ahci_read_byte dv (dl_pool l) (block_lba ?fb s) (BLOCK s) (dl_name l) (int ?n) (int (off + 8)) (shown d m xs f s)
      = Inr (shown d' m1 xs f s)" "at_rest dv reg lag disk k s cl d'"
    "\<forall>i<?n. off + 8 + i < 512 * ?c \<longrightarrow> m1 (dl_name l + of_nat i) = disk (512 * unat (block_lba ?fb s) + (off + 8) + i)"
    "\<forall>x. unat x \<notin> ahci_area s cl \<union> span (dl_pool l) (512 * ?c) \<union> span (dl_name l) ?n \<longrightarrow> m1 x = m x"
    by (rule read_shown [OF r room block_lba_pos(2), where m = m and xs = xs and f = f]) (simp only: nat_int)
  have m1: "\<forall>x. unat x \<notin> ?W \<longrightarrow> m1 x = m x" using 1(4) nm(1) by (auto simp: span_def)
  have W: "?W \<inter> span (dl_lde l) 8 = {}" using locals_ok_lde [OF l] by blast
  note keep = lde_keep [OF l W m1]
  have len: "c_field lde ''name_len'' m1 (dl_lde l) = of_nat ?n" using keep [of "''name_len''"] h(1) by (simp add: lde_name_def)
  define m2 where "m2 = m1(dl_name l + of_nat ?n := 0)"
  have un: "unat (of_nat i :: u64) = i" if "i \<le> 256" for i using that by (intro unat_of_nat64) simp
  have m2: "\<forall>x. unat x \<notin> ?W \<longrightarrow> m2 x = m x"
  proof (intro allI impI)
    fix x :: u64 assume x: "unat x \<notin> ?W"
    have "unat (dl_name l + of_nat ?n) \<in> span (dl_name l) 256"
      by (rule local_at(1) [OF l]) (use nm in \<open>simp_all add: local_bufs_def\<close>)
    then have "x \<noteq> dl_name l + of_nat ?n" using x by blast
    then show "m2 x = m x" using m1 x by (simp add: m2_def)
  qed
  have ty: "c_field lde ''file_type'' m2 (dl_lde l) = ucast ty"
    using lde_keep [OF l W m2, of "''file_type''"] h(2) by (simp add: lde_name_def)
  have name: "m2 (dl_name l + of_nat i) = nm ! i" if "i < ?n" for i
  proof -
    have "(of_nat i :: u64) \<noteq> of_nat ?n" using un [of i] un [of ?n] that nm(1) by (metis less_imp_le less_irrefl order_less_trans)
    then show ?thesis using 1(3) nm(3,4) that by (simp add: m2_def block_lba_pos(1) add.assoc)
  qed
  have out: "map (\<lambda>i. m2 (dl_name l + of_nat i)) [0..<?n] = nm"
    using name by (intro nth_equalityI) simp_all
  have "uint (of_nat ?n :: u64) = int ?n" using un [of ?n] nm(1) by (simp add: uint_nat)
  then have "print_name dv l table idx (int e) (int off) (shown d m xs f s) = Inr (shown d' m2 (xs @ dir_line e ty nm) True s)"
    using 1(1) len nm(1) un [of ?n] ty file_types(1) [of ty]
    by (simp add: print_name_def struct_sizes h(1) Let_def unat_of_nat64 nat_mult_distrib spaces_shown say_mem_shown say_shown out ascii_def LF_def
        dir_line_def mult.commute flip: m2_def)
  moreover have "holds_str (\<lambda>i. m2 (dl_name l + of_nat i)) nm" using name nm(2) by (simp add: holds_str_def m2_def)
  ultimately show thesis using that 1(2) m2 by blast
qed

lemma not_dots_spec:
  assumes "holds_str (\<lambda>i. m (dl_name l + of_nat i)) nm" "length nm < 256"
  shows "not_dots l (shown d m xs f s) = Inr (nm \<noteq> [46] \<and> nm \<noteq> [46, 46])"
proof -
  have b: "holds_str (str_buf [46]) [46]" "holds_str (str_buf [46, 46]) [46, 46]" by (rule holds_str_buf, simp)+
  have len: "length nm < 2 ^ 64" using assms(2) by simp
  obtain c1 where "strcmp (\<lambda>i. m (dl_name l + of_nat i)) (str_buf [46]) = Some c1" "c1 = 0 \<longleftrightarrow> nm = [46]"
    by (rule strcmp_0 [OF assms(1) b(1) len])
  moreover obtain c2 where "strcmp (\<lambda>i. m (dl_name l + of_nat i)) (str_buf [46, 46]) = Some c2" "c2 = 0 \<longleftrightarrow> nm = [46, 46]"
    by (rule strcmp_0 [OF assms(1) b(2) len])
  ultimately show ?thesis by (simp add: not_dots_def ascii_def)
qed

section \<open>The head of a file\<close>

definition text_of :: "(nat \<Rightarrow> u8) \<Rightarrow> nat \<Rightarrow> u8 list" where
  "text_of disk p = takeWhile (\<lambda>b. b \<noteq> 0) (map (\<lambda>i. disk (p + i)) [0..<63])"

text \<open>\<open>inode_table[n - 1]\<close> for an unsigned \<open>n\<close>.\<close>

definition file_inode :: "u64 \<Rightarrow> u32 \<Rightarrow> u64" where
  "file_inode table n = table + of_nat (c_sizeof inode_ext2) * ucast (n - 1)"

definition file_text :: "(nat \<Rightarrow> u8) \<Rightarrow> u16 \<Rightarrow> u64 \<Rightarrow> u8 \<Rightarrow> u32 \<Rightarrow> bytemem \<Rightarrow> u8 list" where
  "file_text disk c table ty n m =
     (let p = file_inode table n
      in if ty = 1 \<and> and (c_field inode_ext2 ''i_mode'' m p) EXT2_S_IRUSR \<noteq> 0 then text_of disk (blk_pos c (first_block p m)) else [])"

lemma narrow_widen: "ucast (ucast (n :: u32) :: u64) = n"
proof -
  have lt: "unat n < 2 ^ 32" using unsigned_less [of n, where ?'a = nat] by simp
  have w: "unat (ucast n :: u64) = unat n" using lt by (simp add: unsigned_ucast_eq take_bit_nat_eq_self)
  have "unat (ucast v :: u32) = take_bit 32 (unat v)" for v :: u64 by (simp add: unsigned_ucast_eq)
  from this [of "ucast n"] have "unat (ucast (ucast n :: u64) :: u32) = unat n"
    unfolding w take_bit_nat_eq_self [OF lt] .
  then show ?thesis by (rule word_unat_eq_iff [THEN iffD2])
qed

lemma holds_takeWhile: "s n = 0 \<Longrightarrow> holds_str s (takeWhile (\<lambda>b. b \<noteq> 0) (map s [0..<n]))"
proof -
  assume z: "s n = 0"
  let ?xs = "takeWhile (\<lambda>b. b \<noteq> 0) (map s [0..<n])"
  have le: "length ?xs \<le> n" using length_takeWhile_le [of "\<lambda>b. b \<noteq> 0" "map s [0..<n]"] by simp
  have "s (length ?xs) = 0"
  proof (cases "length ?xs = n")
    case False
    then show ?thesis using nth_length_takeWhile [of "\<lambda>b. b \<noteq> 0" "map s [0..<n]"] le by simp
  qed (simp add: z)
  moreover have "?xs ! j = s j" if "j < length ?xs" for j using takeWhile_nth [OF that] that le by simp
  moreover have "0 \<notin> set ?xs" by (auto dest: set_takeWhileD)
  ultimately show ?thesis by (simp add: holds_str_def)
qed

lemma print_text_spec:
  assumes r: "at_rest dv reg lag disk k s cl d" and l: "locals_ok (BLOCK s) (ahci_area s cl) l"
    and h: "c_field lde ''inode'' m (dl_lde l) = ucast n" "c_field lde ''file_type'' m (dl_lde l) = ucast ty"
    and T: "T \<inter> dl_write (BLOCK s) l = {}" "ty = 1 \<Longrightarrow> inode_in T (file_inode table n)"
  obtains d' m' f' where
    "print_text dv l table (shown d m xs f s) = Inr (shown d' m' (xs @ file_text disk (BLOCK s) table ty n m) f' s)"
    "at_rest dv reg lag disk k s cl d'"
    "\<forall>x. unat x \<notin> ahci_area s cl \<union> span (dl_pool l) (512 * unat (BLOCK s)) \<union> span (dl_text l) 64 \<longrightarrow> m' x = m x"
proof (cases "ty = 1 \<and> and (c_field inode_ext2 ''i_mode'' m (file_inode table n)) EXT2_S_IRUSR \<noteq> 0")
  case False
  then have "print_text dv l table (shown d m xs f s) = Inr (shown d m (xs @ file_text disk (BLOCK s) table ty n m) f s)"
    by (auto simp: print_text_def file_text_def h file_types narrow_widen file_inode_def Let_def)
  then show thesis using r by (rule that) simp
next
  case True
  let ?p = "file_inode table n" and ?c = "unat (BLOCK s)" and ?t = "dl_text l"
  have room: "pool_room (dl_pool l) (BLOCK s) ?t (int 63) (int 0)"
    by (rule locals_room [OF l, of _ 64]) (use l in \<open>auto simp: local_bufs_def locals_ok_def word_less_nat_alt\<close>)
  define m1 where "m1 = memset_upto m ?t 0 64"
  have m1: "m1 x = (if unat (x - ?t) < 64 then 0 else m x)" for x
    using memset_upto_eq [of 64 m ?t 0 x] by (simp add: m1_def)
  have t64: "unat ?t + 64 \<le> 2 ^ 64" using l by (auto simp: locals_ok_def local_bufs_def)
  have m1_out: "m1 x = m x" if "unat x \<notin> span ?t 64" for x
    using m1 [of x] rel_ge [OF t64, of x] that by (auto simp: span_def)
  have fb: "first_block ?p m1 = first_block ?p m"
    by (rule inode_keep(1) [OF T(2)]) (use True T(1) m1_out in \<open>auto simp: dl_write_def\<close>)
  obtain d' m2 where 1: "ahci_read_byte dv (dl_pool l) (block_lba (first_block ?p m) s) (BLOCK s) ?t (int 63) (int 0) (shown d m1 xs f s)
      = Inr (shown d' m2 xs f s)" "at_rest dv reg lag disk k s cl d'"
    "\<forall>i<63. 0 + i < 512 * ?c \<longrightarrow> m2 (?t + of_nat i) = disk (512 * unat (block_lba (first_block ?p m) s) + 0 + i)"
    "\<forall>x. unat x \<notin> ahci_area s cl \<union> span (dl_pool l) (512 * ?c) \<union> span ?t 63 \<longrightarrow> m2 x = m1 x"
    by (rule read_shown [OF r room block_lba_pos(2), where m = m1 and xs = xs and f = f]) (simp only: nat_int)
  have c: "1 \<le> ?c" using l by (simp add: locals_ok_def word_less_nat_alt)
  have in63: "m2 (?t + of_nat i) = disk (blk_pos (BLOCK s) (first_block ?p m) + i)" if "i < 63" for i
    using 1(3) that c by (simp add: block_lba_pos(1))
  have at: "unat (?t + of_nat 63) = unat ?t + 63" by (rule unat_offset [of _ 64]) (use t64 in simp_all)
  have "unat (?t + of_nat 63) \<notin> ahci_area s cl \<union> span (dl_pool l) (512 * ?c) \<union> span ?t 63"
  proof -
    have "unat (?t + of_nat 63) \<in> span ?t 64" using at by (simp add: span_def)
    moreover have "unat (?t + of_nat 63) \<notin> span (dl_pool l) (1024 * ?c)" by (rule local_at(2) [OF l, of _ 64]) (simp_all add: local_bufs_def)
    moreover have "span ?t 64 \<inter> ahci_area s cl = {}" using l unfolding locals_ok_def by blast
    ultimately have "unat (?t + of_nat 63) \<notin> ahci_area s cl" "unat (?t + of_nat 63) \<notin> span (dl_pool l) (512 * ?c)"
      by (blast, auto simp: span_def)
    then show ?thesis using at by (simp add: span_def)
  qed
  then have "m2 (?t + of_nat 63) = m1 (?t + of_nat 63)" using 1(4) by blast
  then have nul: "m2 (?t + of_nat 63) = 0" using m1 by simp
  define tx where "tx = takeWhile (\<lambda>b. b \<noteq> 0) (map (\<lambda>i. m2 (?t + of_nat i)) [0..<63])"
  have H: "holds_str (\<lambda>i. m2 (?t + of_nat i)) tx"
    using holds_takeWhile [of "\<lambda>i. m2 (?t + of_nat i)" 63] nul unfolding tx_def by blast
  have tx: "tx = text_of disk (blk_pos (BLOCK s) (first_block ?p m))"
    unfolding tx_def text_of_def by (rule arg_cong [where f = "takeWhile (\<lambda>b. b \<noteq> 0)"], rule map_cong) (simp_all add: in63)
  have "map (\<lambda>i. m2 (?t + of_nat i)) [0..<length tx] = tx"
    using H by (intro nth_equalityI) (simp_all add: holds_str_def)
  then have "print_text dv l table (shown d m xs f s) = Inr (shown d' m2 (xs @ file_text disk (BLOCK s) table ty n m) True s)"
    using True 1(1) strlen_from_eq [OF H, of 0] fb
    by (simp add: print_text_def file_text_def h file_types narrow_widen Let_def say_mem_shown tx EXT2_FT_REG_FILE_def flip: file_inode_def m1_def)
  then show thesis
  proof (rule that [OF _ 1(2)])
    show "\<forall>x. unat x \<notin> ahci_area s cl \<union> span (dl_pool l) (512 * ?c) \<union> span ?t 64 \<longrightarrow> m2 x = m x"
      using 1(4) m1_out by (auto simp: span_def)
  qed
qed

section \<open>One entry\<close>

datatype dir_tree =
  Dir_tree (de_inode: u32) (de_rec: nat) (de_type: u8) (de_name: "u8 list") (de_sub: "dir_tree list")

definition entry_at :: "(nat \<Rightarrow> u8) \<Rightarrow> nat \<Rightarrow> dir_tree \<Rightarrow> bool" where
  "entry_at disk p e \<longleftrightarrow> 0 < de_rec e \<and> de_rec e < 2 ^ 16 \<and> length (de_name e) < 256 \<and> 0 \<notin> set (de_name e) \<and>
     c_field lde ''inode'' (disk_at disk p) 0 = ucast (de_inode e) \<and>
     c_field lde ''rec_len'' (disk_at disk p) 0 = of_nat (de_rec e) \<and>
     c_field lde ''name_len'' (disk_at disk p) 0 = of_nat (length (de_name e)) \<and>
     c_field lde ''file_type'' (disk_at disk p) 0 = ucast (de_type e) \<and>
     (\<forall>i<length (de_name e). disk (p + 8 + i) = de_name e ! i)"

text \<open>An entry whose directory is listed in turn.\<close>

definition enters :: "dir_tree \<Rightarrow> bool" where
  "enters e \<longleftrightarrow> de_type e = 2 \<and> de_name e \<noteq> [46] \<and> de_name e \<noteq> [46, 46]"

definition entry_out :: "(nat \<Rightarrow> u8) \<Rightarrow> u16 \<Rightarrow> u64 \<Rightarrow> bytemem \<Rightarrow> nat \<Rightarrow> dir_tree \<Rightarrow> u8 list" where
  "entry_out disk c table m d e = dir_line d (de_type e) (de_name e) @
     (if enters e then [] else file_text disk c table (de_type e) (de_inode e) m)"

lemma dir_entry_end:
  assumes r: "at_rest dv reg lag disk k s cl d" and l: "locals_ok (BLOCK s) (ahci_area s cl) l"
    and off: "off + 8 \<le> 512 * unat (BLOCK s) \<and>
        c_field lde ''rec_len'' (disk_at disk (blk_pos (BLOCK s) (first_block (inode_at table idx) m) + off)) 0 = 0 \<or>
      off = 512 * unat (BLOCK s) \<and> (\<forall>x. unat x \<in> dl_tail (BLOCK s) l \<longrightarrow> m x = 0)"
  obtains d' m' where "dir_entry dv l table idx (int e) (int off) (shown d m xs f s) = Inr (Dir_end, shown d' m' xs f s)"
    "at_rest dv reg lag disk k s cl d'" "\<forall>x. unat x \<notin> ahci_area s cl \<union> dl_write (BLOCK s) l \<longrightarrow> m' x = m x"
proof -
  have off': "off + 8 \<le> 512 * unat (BLOCK s) \<or> off = 512 * unat (BLOCK s) \<and> (\<forall>x. unat x \<in> dl_tail (BLOCK s) l \<longrightarrow> m x = 0)"
    using off by blast
  obtain d' m' where 1: "read_lde dv l table idx (int off) (shown d m xs f s) = Inr (shown d' m' xs f s)"
    "at_rest dv reg lag disk k s cl d'"
    "\<And>nm. lde_name nm \<Longrightarrow> c_field lde nm m' (dl_lde l) = (if off + 8 \<le> 512 * unat (BLOCK s)
       then c_field lde nm (disk_at disk (blk_pos (BLOCK s) (first_block (inode_at table idx) m) + off)) 0 else 0)"
    "\<And>x. unat x \<notin> ahci_area s cl \<union> dl_write (BLOCK s) l \<Longrightarrow> m' x = m x"
    using read_lde_spec [OF r l off', where xs = xs and f = f] by metis
  have "c_field lde ''rec_len'' m' (dl_lde l) = 0" using 1(3) [of "''rec_len''"] off by (auto simp: lde_name_def)
  then have "dir_entry dv l table idx (int e) (int off) (shown d m xs f s) = Inr (Dir_end, shown d' m' xs f s)"
    using 1(1) by (simp add: dir_entry_def)
  then show thesis using that 1(2,4) by blast
qed

text \<open>Up to the name; then the entry is entered or its text shown.\<close>

lemma dir_entry_open:
  assumes r: "at_rest dv reg lag disk k s cl d" and l: "locals_ok (BLOCK s) (ahci_area s cl) l"
    and T: "T \<inter> (ahci_area s cl \<union> dl_write (BLOCK s) l) = {}" "inode_in T (inode_at table idx)"
    and t: "entry_at disk (blk_pos (BLOCK s) (first_block (inode_at table idx) m) + off) t"
    and off: "off + 8 + length (de_name t) \<le> 512 * unat (BLOCK s)"
  obtains d' m' where "dir_entry dv l table idx (int e) (int off) (shown d m xs f s) =
      (let s' = shown d' m' (xs @ dir_line e (de_type t) (de_name t)) True s
       in if enters t then and_then (ahci_read_byte dv (dl_pool l) (block_lba (de_inode t) s) (BLOCK s) (dl_i_node l) (int 128) (int 0) s')
            (\<lambda>s. Inr (Dir_sub (sint (ucast (lde_field ''inode'' l s) - 1 :: u32)), s))
          else and_then (print_text dv l table s') (\<lambda>s. Inr (Dir_next, s)))"
    "at_rest dv reg lag disk k s cl d'" "c_field lde ''inode'' m' (dl_lde l) = ucast (de_inode t)"
    "c_field lde ''rec_len'' m' (dl_lde l) = of_nat (de_rec t)" "c_field lde ''file_type'' m' (dl_lde l) = ucast (de_type t)"
    "\<forall>x. unat x \<notin> ahci_area s cl \<union> dl_write (BLOCK s) l \<longrightarrow> m' x = m x"
proof -
  let ?A = "ahci_area s cl" and ?c = "BLOCK s" and ?fb = "first_block (inode_at table idx) m"
  let ?pool = "span (dl_pool l) (512 * unat (BLOCK s))"
  have off': "off + 8 \<le> 512 * unat ?c \<or> off = 512 * unat ?c \<and> (\<forall>x. unat x \<in> dl_tail ?c l \<longrightarrow> m x = 0)" using off by simp
  obtain d1 m1 where 1: "read_lde dv l table idx (int off) (shown d m xs f s) = Inr (shown d1 m1 xs f s)"
    "at_rest dv reg lag disk k s cl d1"
    "\<And>nm. lde_name nm \<Longrightarrow> c_field lde nm m1 (dl_lde l) = (if off + 8 \<le> 512 * unat ?c
       then c_field lde nm (disk_at disk (blk_pos ?c ?fb + off)) 0 else 0)"
    "\<And>x. unat x \<notin> ?A \<union> dl_write ?c l \<Longrightarrow> m1 x = m x"
    using read_lde_spec [OF r l off', where xs = xs and f = f] by metis
  have h1: "c_field lde ''inode'' m1 (dl_lde l) = ucast (de_inode t)" "c_field lde ''rec_len'' m1 (dl_lde l) = of_nat (de_rec t)"
    "c_field lde ''name_len'' m1 (dl_lde l) = of_nat (length (de_name t))" "c_field lde ''file_type'' m1 (dl_lde l) = ucast (de_type t)"
    using 1(3) [of "''inode''"] 1(3) [of "''rec_len''"] 1(3) [of "''name_len''"] 1(3) [of "''file_type''"] t off
    by (simp_all add: lde_name_def entry_at_def)
  have nz: "(of_nat (de_rec t) :: u64) \<noteq> 0"
  proof -
    have "unat (of_nat (de_rec t) :: u64) = de_rec t" using t by (intro unat_of_nat64) (simp add: entry_at_def)
    then show ?thesis using t unfolding entry_at_def by (metis less_irrefl unsigned_0)
  qed
  have fb1: "first_block (inode_at table idx) m1 = ?fb" by (rule inode_keep(1) [OF T(2)]) (use 1(4) T(1) in blast)
  have nm: "length (de_name t) < 256" "0 \<notin> set (de_name t)" "off + 8 + length (de_name t) \<le> 512 * unat ?c"
    "\<forall>i<length (de_name t). disk (blk_pos ?c (first_block (inode_at table idx) m1) + off + 8 + i) = de_name t ! i"
    using t off unfolding fb1 by (simp_all add: entry_at_def)
  let ?xs = "xs @ dir_line e (de_type t) (de_name t)"
  obtain d2 m2 where 2: "print_name dv l table idx (int e) (int off) (shown d1 m1 xs f s) = Inr (shown d2 m2 ?xs True s)"
    "at_rest dv reg lag disk k s cl d2" "holds_str (\<lambda>i. m2 (dl_name l + of_nat i)) (de_name t)"
    "\<forall>x. unat x \<notin> ?A \<union> ?pool \<union> span (dl_name l) 256 \<longrightarrow> m2 x = m1 x"
    by (rule print_name_spec [OF 1(2) l h1(3,4) nm, where xs = xs and f = f])
  have "c_field lde nm m2 (dl_lde l) = c_field lde nm m1 (dl_lde l)" if "lde_name nm" for nm
    by (rule lde_keep [OF l _ 2(4) that]) (use locals_ok_lde [OF l] in blast)
  then have h2: "c_field lde ''inode'' m2 (dl_lde l) = ucast (de_inode t)" "c_field lde ''rec_len'' m2 (dl_lde l) = of_nat (de_rec t)"
    "c_field lde ''file_type'' m2 (dl_lde l) = ucast (de_type t)"
    using h1 by (simp_all add: lde_name_def)
  note nd = not_dots_spec [OF 2(3) nm(1)]
  have "(if lde_field ''file_type'' l (shown d2 m2 ?xs True s) = EXT2_FT_DIR then not_dots l (shown d2 m2 ?xs True s)
      else Inr False) = Inr (enters t)"
    by (simp add: h2(3) file_types enters_def nd)
  then show thesis
    by (intro that [OF _ 2(2) h2]; unfold dir_entry_def 1(1) dl_write_def)
      (use nz h1(2) 2(1,4) 1(4) in \<open>simp_all add: h2 narrow_widen struct_sizes Let_def dl_write_def\<close>)
qed

lemma dir_entry_next:
  assumes r: "at_rest dv reg lag disk k s cl d" and l: "locals_ok (BLOCK s) (ahci_area s cl) l"
    and T: "T \<inter> (ahci_area s cl \<union> dl_write (BLOCK s) l) = {}" "inode_in T (inode_at table idx)"
      "de_type t = 1 \<Longrightarrow> inode_in T (file_inode table (de_inode t))"
    and t: "entry_at disk (blk_pos (BLOCK s) (first_block (inode_at table idx) m) + off) t"
    and off: "off + 8 + length (de_name t) \<le> 512 * unat (BLOCK s)"
  obtains d' m' f' where "dir_entry dv l table idx (int e) (int off) (shown d m xs f s) =
      Inr (if enters t then Dir_sub (sint (de_inode t - 1)) else Dir_next,
        shown d' m' (xs @ entry_out disk (BLOCK s) table m e t) f' s)"
    "at_rest dv reg lag disk k s cl d'" "c_field lde ''rec_len'' m' (dl_lde l) = of_nat (de_rec t)"
    "\<forall>x. unat x \<notin> ahci_area s cl \<union> dl_write (BLOCK s) l \<longrightarrow> m' x = m x"
proof -
  let ?A = "ahci_area s cl" and ?c = "BLOCK s" and ?pool = "span (dl_pool l) (512 * unat (BLOCK s))"
  let ?xs = "xs @ dir_line e (de_type t) (de_name t)"
  obtain d2 m2 where 2: "dir_entry dv l table idx (int e) (int off) (shown d m xs f s) =
      (let s' = shown d2 m2 ?xs True s
       in if enters t then and_then (ahci_read_byte dv (dl_pool l) (block_lba (de_inode t) s) ?c (dl_i_node l) (int 128) (int 0) s')
            (\<lambda>s. Inr (Dir_sub (sint (ucast (lde_field ''inode'' l s) - 1 :: u32)), s))
          else and_then (print_text dv l table s') (\<lambda>s. Inr (Dir_next, s)))"
    "at_rest dv reg lag disk k s cl d2" "c_field lde ''inode'' m2 (dl_lde l) = ucast (de_inode t)"
    "c_field lde ''rec_len'' m2 (dl_lde l) = of_nat (de_rec t)" "c_field lde ''file_type'' m2 (dl_lde l) = ucast (de_type t)"
    "\<forall>x. unat x \<notin> ?A \<union> dl_write ?c l \<longrightarrow> m2 x = m x"
    by (rule dir_entry_open [OF r l T(1,2) t off, where xs = xs and f = f and e = e])
  note L = locals_ok_lde [OF l]
  have names: "lde_name ''inode''" "lde_name ''rec_len''" by (simp_all add: lde_name_def)
  show thesis
  proof (cases "enters t")
    case True
    have room: "pool_room (dl_pool l) ?c (dl_i_node l) (int 128) (int 0)"
      by (rule locals_room [OF l, of _ 128]) (use l in \<open>auto simp: local_bufs_def locals_ok_def word_less_nat_alt\<close>)
    obtain d3 m3 where 3: "ahci_read_byte dv (dl_pool l) (block_lba (de_inode t) s) ?c (dl_i_node l) (int 128) (int 0)
        (shown d2 m2 ?xs True s) = Inr (shown d3 m3 ?xs True s)" "at_rest dv reg lag disk k s cl d3"
      "\<forall>x. unat x \<notin> ?A \<union> ?pool \<union> span (dl_i_node l) 128 \<longrightarrow> m3 x = m2 x"
      by (rule read_shown [OF 2(2) room block_lba_pos(2), where m = m2 and xs = ?xs and f = True]) (simp only: nat_int)
    have h3: "c_field lde nm m3 (dl_lde l) = c_field lde nm m2 (dl_lde l)" if "lde_name nm" for nm
      by (rule lde_keep [OF l _ 3(3) that]) (use L in blast)
    have "dir_entry dv l table idx (int e) (int off) (shown d m xs f s) =
        Inr (if enters t then Dir_sub (sint (de_inode t - 1)) else Dir_next, shown d3 m3 (xs @ entry_out disk ?c table m e t) True s)"
      using 2(1,3) 3(1) True h3 [OF names(1)] by (simp add: entry_out_def narrow_widen)
    then show thesis
      by (rule that [OF _ 3(2)]) (use h3 [OF names(2)] 2(4,6) 3(3) in \<open>simp_all add: dl_write_def\<close>)
  next
    case False
    have T2: "T \<inter> dl_write ?c l = {}" using T(1) by blast
    obtain d3 m3 f3 where 3: "print_text dv l table (shown d2 m2 ?xs True s) =
        Inr (shown d3 m3 (?xs @ file_text disk ?c table (de_type t) (de_inode t) m2) f3 s)" "at_rest dv reg lag disk k s cl d3"
      "\<forall>x. unat x \<notin> ?A \<union> ?pool \<union> span (dl_text l) 64 \<longrightarrow> m3 x = m2 x"
      by (rule print_text_spec [OF 2(2) l 2(3,5) T2 T(3), where xs = ?xs and f = True])
    have "m2 x = m x" if "unat x \<in> T" for x using 2(6) T(1) that by blast
    then have "file_text disk ?c table (de_type t) (de_inode t) m2 = file_text disk ?c table (de_type t) (de_inode t) m"
      using inode_keep [OF T(3), of m2 m] by (cases "de_type t = 1") (simp_all add: file_text_def Let_def)
    then have "dir_entry dv l table idx (int e) (int off) (shown d m xs f s) =
      Inr (if enters t then Dir_sub (sint (de_inode t - 1)) else Dir_next, shown d3 m3 (xs @ entry_out disk ?c table m e t) f3 s)"
      using 2(1) 3(1) False by (simp add: entry_out_def)
    moreover have "c_field lde ''rec_len'' m3 (dl_lde l) = c_field lde ''rec_len'' m2 (dl_lde l)"
      by (rule lde_keep [OF l _ 3(3) names(2)]) (use L in blast)
    ultimately show thesis
      by (intro that [of d3 m3 f3, OF _ 3(2)]) (use 2(4,6) 3(3) in \<open>simp_all add: dl_write_def\<close>)
  qed
qed

section \<open>The tree\<close>

text \<open>The entries of one directory block: each fits, and a header of length 0 or the end of the block
  follows the last.\<close>

primrec dir_at :: "(nat \<Rightarrow> u8) \<Rightarrow> u16 \<Rightarrow> nat \<Rightarrow> nat \<Rightarrow> dir_tree list \<Rightarrow> bool" where
  "dir_at disk c p off [] \<longleftrightarrow> off + 8 \<le> 512 * unat c \<and> c_field lde ''rec_len'' (disk_at disk (p + off)) 0 = 0 \<or> off = 512 * unat c"
| "dir_at disk c p off (t # ts) \<longleftrightarrow> entry_at disk (p + off) t \<and> off + 8 + length (de_name t) \<le> 512 * unat c \<and>
     dir_at disk c p (off + de_rec t) ts"

text \<open>\<open>tree_at n idx ts\<close>: \<open>ts\<close> are the entries of the directory of inode \<open>idx\<close> of the table in memory \<open>m\<close>,
  with at most \<open>n\<close> levels below; all inodes that are looked at lie in \<open>T\<close>.\<close>

primrec tree_at ::
  "(nat \<Rightarrow> u8) \<Rightarrow> u16 \<Rightarrow> u64 \<Rightarrow> nat set \<Rightarrow> bytemem \<Rightarrow> nat \<Rightarrow> int \<Rightarrow> dir_tree list \<Rightarrow> bool" where
  "tree_at disk c table T m 0 idx ts \<longleftrightarrow> False"
| "tree_at disk c table T m (Suc n) idx ts \<longleftrightarrow> inode_in T (inode_at table idx) \<and>
     dir_at disk c (blk_pos c (first_block (inode_at table idx) m)) 0 ts \<and>
     (\<forall>t\<in>set ts. (de_type t = 1 \<longrightarrow> inode_in T (file_inode table (de_inode t))) \<and>
       (enters t \<longrightarrow> tree_at disk c table T m n (sint (de_inode t - 1)) (de_sub t)))"

text \<open>What is printed for the entries of a directory at depth \<open>d\<close>.\<close>

fun listing :: "(nat \<Rightarrow> u8) \<Rightarrow> u16 \<Rightarrow> u64 \<Rightarrow> bytemem \<Rightarrow> nat \<Rightarrow> dir_tree list \<Rightarrow> u8 list" where
  "listing disk c table m d [] = []"
| "listing disk c table m d (Dir_tree i r ty nm sub # ts) = entry_out disk c table m d (Dir_tree i r ty nm sub) @
     (if enters (Dir_tree i r ty nm sub) then listing disk c table m (Suc d) sub else []) @ listing disk c table m d ts"

lemma listing_Cons: "listing disk c table m d (t # ts) = entry_out disk c table m d t @
     (if enters t then listing disk c table m (Suc d) (de_sub t) else []) @ listing disk c table m d ts"
  by (cases t) simp

text \<open>The locals of depths \<open>d\<close> to \<open>n\<close>: none overlaps what must stay, and the ends of the arrays are zero.\<close>

definition frames_ok :: "u16 \<Rightarrow> nat set \<Rightarrow> nat set \<Rightarrow> (int \<Rightarrow> dir_locals) \<Rightarrow> nat \<Rightarrow> bool" where
  "frames_ok c A T loc n \<longleftrightarrow> T \<inter> A = {} \<and>
     (\<forall>d<n. locals_ok c A (loc (int d)) \<and> T \<inter> dl_write c (loc (int d)) = {} \<and>
        (\<forall>d'<n. dl_tail c (loc (int d')) \<inter> dl_write c (loc (int d)) = {} \<and>
          (d < d' \<longrightarrow> span (dl_lde (loc (int d))) 8 \<inter> dl_write c (loc (int d')) = {})))"

definition tails_zero :: "u16 \<Rightarrow> (int \<Rightarrow> dir_locals) \<Rightarrow> nat \<Rightarrow> bytemem \<Rightarrow> bool" where
  "tails_zero c loc n m \<longleftrightarrow> (\<forall>d<n. \<forall>x. unat x \<in> dl_tail c (loc (int d)) \<longrightarrow> m x = 0)"

definition writes :: "u16 \<Rightarrow> nat set \<Rightarrow> (int \<Rightarrow> dir_locals) \<Rightarrow> nat \<Rightarrow> nat \<Rightarrow> nat set" where
  "writes c A loc d n = A \<union> (\<Union>i\<in>{d..<n}. dl_write c (loc (int i)))"

lemma frames_keep:
  assumes "frames_ok c A T loc n" "\<forall>x. unat x \<notin> writes c A loc d n \<longrightarrow> m' x = m x"
  shows "\<forall>x. unat x \<in> T \<longrightarrow> m x = m0 x \<Longrightarrow> \<forall>x. unat x \<in> T \<longrightarrow> m' x = m0 x"
    "tails_zero c loc n m \<Longrightarrow> tails_zero c loc n m'"
proof -
  have "T \<inter> writes c A loc d n = {}" using assms(1) unfolding frames_ok_def writes_def by fastforce
  then show "\<forall>x. unat x \<in> T \<longrightarrow> m x = m0 x \<Longrightarrow> \<forall>x. unat x \<in> T \<longrightarrow> m' x = m0 x" using assms(2) by (metis disjoint_iff)
  have "dl_tail c (loc (int i)) \<inter> writes c A loc d n = {}" if "i < n" for i
  proof -
    have "dl_tail c (loc (int i)) \<inter> A = {}" using assms(1) that unfolding frames_ok_def locals_ok_def by blast
    moreover have "dl_tail c (loc (int i)) \<inter> dl_write c (loc (int j)) = {}" if "j < n" for j
      using assms(1) \<open>i < n\<close> that unfolding frames_ok_def by blast
    ultimately show ?thesis unfolding writes_def by fastforce
  qed
  then show "tails_zero c loc n m \<Longrightarrow> tails_zero c loc n m'"
    using assms(2) unfolding tails_zero_def by (metis disjoint_iff)
qed

lemma entry_out_cong:
  assumes "\<forall>x. unat x \<in> T \<longrightarrow> m x = m0 x" "de_type t = 1 \<Longrightarrow> inode_in T (file_inode table (de_inode t))"
  shows "entry_out disk c table m d t = entry_out disk c table m0 d t"
proof (cases "de_type t = 1")
  case True
  then show ?thesis using inode_keep [OF assms(2), of m m0] assms(1) by (simp add: entry_out_def file_text_def Let_def)
qed (simp add: entry_out_def file_text_def Let_def)

lemma rec_len_step:
  assumes "c_field lde ''rec_len'' m (dl_lde l) = of_nat (de_rec t)" "entry_at disk p t"
  shows "int off + uint (lde_field ''rec_len'' l (shown d m xs f s)) = int (off + de_rec t)"
proof -
  have "unat (of_nat (de_rec t) :: u64) = de_rec t" using assms(2) by (intro unat_of_nat64) (simp add: entry_at_def)
  then show ?thesis using assms(1) by (simp add: uint_nat)
qed

text \<open>A memory in which a listing can go on, and a listing that goes on from there to print \<open>ys\<close>.\<close>

definition stable ::
  "'d hba \<Rightarrow> ('d \<Rightarrow> u64 \<Rightarrow> u32) \<Rightarrow> ('d \<Rightarrow> nat) \<Rightarrow> (nat \<Rightarrow> u8) \<Rightarrow> nat \<Rightarrow> ('d, 'z) ext2_scheme \<Rightarrow> u64 \<Rightarrow>
     (int \<Rightarrow> dir_locals) \<Rightarrow> nat \<Rightarrow> nat set \<Rightarrow> bytemem \<Rightarrow> 'd \<Rightarrow> bytemem \<Rightarrow> bool" where
  "stable dv reg lag disk k s cl loc N T m0 d m \<longleftrightarrow>
     at_rest dv reg lag disk k s cl d \<and> (\<forall>x. unat x \<in> T \<longrightarrow> m x = m0 x) \<and> tails_zero (BLOCK s) loc N m"

definition lists ::
  "'d hba \<Rightarrow> ('d \<Rightarrow> u64 \<Rightarrow> u32) \<Rightarrow> ('d \<Rightarrow> nat) \<Rightarrow> (nat \<Rightarrow> u8) \<Rightarrow> nat \<Rightarrow> ('d, 'z) ext2_scheme \<Rightarrow> u64 \<Rightarrow>
     (int \<Rightarrow> dir_locals) \<Rightarrow> nat \<Rightarrow> u64 \<Rightarrow> int \<Rightarrow> nat \<Rightarrow> nat \<Rightarrow> 'd \<Rightarrow> bytemem \<Rightarrow> u8 list \<Rightarrow> bool" where
  "lists dv reg lag disk k s cl loc N table idx e off d m ys \<longleftrightarrow>
     (\<forall>xs f. \<exists>d' m' f'. read_dir_loop dv loc table idx (int e) (int off) (shown d m xs f s) = Some (Inr (shown d' m' (xs @ ys) f' s)) \<and>
        at_rest dv reg lag disk k s cl d' \<and> (\<forall>x. unat x \<notin> writes (BLOCK s) (ahci_area s cl) loc e N \<longrightarrow> m' x = m x))"

lemma listsE:
  assumes "lists dv reg lag disk k s cl loc N table idx e off d m ys"
  obtains d' m' f' where "read_dir_loop dv loc table idx (int e) (int off) (shown d m xs f s) = Some (Inr (shown d' m' (xs @ ys) f' s))"
    "at_rest dv reg lag disk k s cl d'" "\<forall>x. unat x \<notin> writes (BLOCK s) (ahci_area s cl) loc e N \<longrightarrow> m' x = m x"
  using assms unfolding lists_def by blast

lemma stable_keep:
  assumes F: "frames_ok (BLOCK s) (ahci_area s cl) T loc N" and st: "stable dv reg lag disk k s cl loc N T m0 d m"
    and d': "at_rest dv reg lag disk k s cl d'" and m': "\<forall>x. unat x \<notin> writes (BLOCK s) (ahci_area s cl) loc e N \<longrightarrow> m' x = m x"
  shows "stable dv reg lag disk k s cl loc N T m0 d' m'"
  using st d' frames_keep [OF F m'] unfolding stable_def by blast

text \<open>The first activation among those that are still to come.\<close>

lemma frames_first:
  assumes F: "frames_ok c A T loc N" and e: "e < N"
  shows "locals_ok c A (loc (int e))" "T \<inter> (A \<union> dl_write c (loc (int e))) = {}" "A \<union> dl_write c (loc (int e)) \<subseteq> writes c A loc e N"
    "writes c A loc (Suc e) N \<subseteq> writes c A loc e N" "writes c A loc (Suc e) N \<inter> span (dl_lde (loc (int e))) 8 = {}"
proof -
  show l: "locals_ok c A (loc (int e))" and "T \<inter> (A \<union> dl_write c (loc (int e))) = {}" using F e unfolding frames_ok_def by blast+
  show "A \<union> dl_write c (loc (int e)) \<subseteq> writes c A loc e N" "writes c A loc (Suc e) N \<subseteq> writes c A loc e N"
    using e by (auto simp: writes_def)
  have "span (dl_lde (loc (int e))) 8 \<inter> dl_write c (loc (int i)) = {}" if "i \<in> {Suc e..<N}" for i
    using F e that unfolding frames_ok_def by simp
  moreover have "span (dl_lde (loc (int e))) 8 \<inter> A = {}" using locals_ok_lde [OF l] by blast
  ultimately show "writes c A loc (Suc e) N \<inter> span (dl_lde (loc (int e))) 8 = {}" unfolding writes_def by fastforce
qed

lemma lists_nil:
  assumes F: "frames_ok (BLOCK s) (ahci_area s cl) T loc N" and e: "e < N" and idx: "inode_in T (inode_at table idx)"
    and D: "dir_at disk (BLOCK s) (blk_pos (BLOCK s) (first_block (inode_at table idx) m0)) off []"
    and st: "stable dv reg lag disk k s cl loc N T m0 d m"
  shows "lists dv reg lag disk k s cl loc N table idx e off d m []"
  unfolding lists_def
proof (intro allI)
  fix xs f
  note fr = frames_first [OF F e]
  have r: "at_rest dv reg lag disk k s cl d" using st by (simp add: stable_def)
  have fb: "first_block (inode_at table idx) m = first_block (inode_at table idx) m0"
    using inode_keep(1) [OF idx, of m m0] st by (simp add: stable_def)
  have "off + 8 \<le> 512 * unat (BLOCK s) \<and>
      c_field lde ''rec_len'' (disk_at disk (blk_pos (BLOCK s) (first_block (inode_at table idx) m) + off)) 0 = 0 \<or>
    off = 512 * unat (BLOCK s) \<and> (\<forall>x. unat x \<in> dl_tail (BLOCK s) (loc (int e)) \<longrightarrow> m x = 0)"
    using D st e unfolding fb stable_def tails_zero_def by auto
  from dir_entry_end [OF r fr(1) this, of e xs f] obtain d' m' where 1:
    "dir_entry dv (loc (int e)) table idx (int e) (int off) (shown d m xs f s) = Inr (Dir_end, shown d' m' xs f s)"
    "at_rest dv reg lag disk k s cl d'" "\<forall>x. unat x \<notin> ahci_area s cl \<union> dl_write (BLOCK s) (loc (int e)) \<longrightarrow> m' x = m x" by blast
  have "read_dir_loop dv loc table idx (int e) (int off) (shown d m xs f s) = Some (Inr (shown d' m' (xs @ []) f s))"
    using 1(1) by (subst read_dir_loop.simps) simp
  then show "\<exists>d' m' f'. read_dir_loop dv loc table idx (int e) (int off) (shown d m xs f s) = Some (Inr (shown d' m' (xs @ []) f' s)) \<and>
      at_rest dv reg lag disk k s cl d' \<and> (\<forall>x. unat x \<notin> writes (BLOCK s) (ahci_area s cl) loc e N \<longrightarrow> m' x = m x)"
    using 1(2,3) fr(3) by blast
qed

lemma lists_cons:
  assumes F: "frames_ok (BLOCK s) (ahci_area s cl) T loc N" and e: "e < N" and idx: "inode_in T (inode_at table idx)"
    and t: "entry_at disk (blk_pos (BLOCK s) (first_block (inode_at table idx) m0) + off) t"
      "off + 8 + length (de_name t) \<le> 512 * unat (BLOCK s)" "de_type t = 1 \<Longrightarrow> inode_in T (file_inode table (de_inode t))"
    and st: "stable dv reg lag disk k s cl loc N T m0 d m"
    and sub: "\<And>d m. enters t \<Longrightarrow> stable dv reg lag disk k s cl loc N T m0 d m \<Longrightarrow>
      lists dv reg lag disk k s cl loc N table (sint (de_inode t - 1)) (Suc e) 0 d m zs"
    and rest: "\<And>d m. stable dv reg lag disk k s cl loc N T m0 d m \<Longrightarrow>
      lists dv reg lag disk k s cl loc N table idx e (off + de_rec t) d m ys"
  shows "lists dv reg lag disk k s cl loc N table idx e off d m
    (entry_out disk (BLOCK s) table m0 e t @ (if enters t then zs else []) @ ys)"
  unfolding lists_def
proof (intro allI)
  fix xs f
  let ?W = "writes (BLOCK s) (ahci_area s cl) loc" and ?l = "loc (int e)"
  note fr = frames_first [OF F e]
  have T: "\<forall>x. unat x \<in> T \<longrightarrow> m x = m0 x" and r: "at_rest dv reg lag disk k s cl d" using st by (simp_all add: stable_def)
  have fb: "first_block (inode_at table idx) m = first_block (inode_at table idx) m0" using inode_keep(1) [OF idx, of m m0] T by simp
  let ?x1 = "xs @ entry_out disk (BLOCK s) table m0 e t"
  have eo: "entry_out disk (BLOCK s) table m e t = entry_out disk (BLOCK s) table m0 e t" by (rule entry_out_cong [OF T t(3)])
  note en = dir_entry_next [OF r fr(1,2) idx t(3) t(1) [folded fb] t(2), where e = e and xs = xs and f = f,
    unfolded eo]
  obtain d1 m1 f1 where 1: "dir_entry dv ?l table idx (int e) (int off) (shown d m xs f s) =
      Inr (if enters t then Dir_sub (sint (de_inode t - 1)) else Dir_next, shown d1 m1 ?x1 f1 s)"
    "at_rest dv reg lag disk k s cl d1" "c_field lde ''rec_len'' m1 (dl_lde ?l) = of_nat (de_rec t)"
    "\<forall>x. unat x \<notin> ahci_area s cl \<union> dl_write (BLOCK s) ?l \<longrightarrow> m1 x = m x"
    by (rule en)
  have W1: "\<forall>x. unat x \<notin> ?W e N \<longrightarrow> m1 x = m x" using 1(4) fr(3) by blast
  have st1: "stable dv reg lag disk k s cl loc N T m0 d1 m1" by (rule stable_keep [OF F st 1(2) W1])
  let ?x2 = "?x1 @ (if enters t then zs else [])"
  have "\<exists>d2 m2 f2. read_dir_loop dv loc table idx (int e) (int off) (shown d m xs f s) =
      read_dir_loop dv loc table idx (int e) (int (off + de_rec t)) (shown d2 m2 ?x2 f2 s) \<and>
    at_rest dv reg lag disk k s cl d2 \<and> (\<forall>x. unat x \<notin> ?W e N \<longrightarrow> m2 x = m1 x)"
  proof (cases "enters t")
    case False
    then show ?thesis using 1(1,2) rec_len_step [OF 1(3) t(1), of off d1 ?x1 f1 s]
      by (intro exI [of _ d1] exI [of _ m1] exI [of _ f1], subst read_dir_loop.simps) simp
  next
    case True
    obtain d2 m2 f2 where 2: "read_dir_loop dv loc table (sint (de_inode t - 1)) (int (Suc e)) (int 0) (shown d1 m1 ?x1 f1 s) =
        Some (Inr (shown d2 m2 (?x1 @ zs) f2 s))" "at_rest dv reg lag disk k s cl d2" "\<forall>x. unat x \<notin> ?W (Suc e) N \<longrightarrow> m2 x = m1 x"
      by (rule listsE [OF sub [OF True st1]])
    have rl: "c_field lde ''rec_len'' m2 (dl_lde ?l) = of_nat (de_rec t)"
      using lde_keep [OF fr(1,5) 2(3), of "''rec_len''"] 1(3) by (simp add: lde_name_def)
    have "\<forall>x. unat x \<notin> ?W e N \<longrightarrow> m2 x = m1 x" using 2(3) fr(4) by blast
    moreover have "read_dir_loop dv loc table idx (int e) (int off) (shown d m xs f s) =
        read_dir_loop dv loc table idx (int e) (int (off + de_rec t)) (shown d2 m2 ?x2 f2 s)"
      by (subst read_dir_loop.simps)
        (use 1(1) 2(1) True rec_len_step [OF rl t(1), of off d2 ?x2 f2 s] in \<open>simp add: add.commute\<close>)
    ultimately show ?thesis using 2(2) by blast
  qed
  then obtain d2 m2 f2 where 2: "read_dir_loop dv loc table idx (int e) (int off) (shown d m xs f s) =
      read_dir_loop dv loc table idx (int e) (int (off + de_rec t)) (shown d2 m2 ?x2 f2 s)"
    "at_rest dv reg lag disk k s cl d2" "\<forall>x. unat x \<notin> ?W e N \<longrightarrow> m2 x = m1 x" by blast
  obtain d3 m3 f3 where 3: "read_dir_loop dv loc table idx (int e) (int (off + de_rec t)) (shown d2 m2 ?x2 f2 s) =
      Some (Inr (shown d3 m3 (?x2 @ ys) f3 s))" "at_rest dv reg lag disk k s cl d3" "\<forall>x. unat x \<notin> ?W e N \<longrightarrow> m3 x = m2 x"
    by (rule listsE [OF rest [OF stable_keep [OF F st1 2(2,3)]]])
  have "\<forall>x. unat x \<notin> ?W e N \<longrightarrow> m3 x = m x" using W1 2(3) 3(3) by simp
  then show "\<exists>d' m' f'. read_dir_loop dv loc table idx (int e) (int off) (shown d m xs f s) =
      Some (Inr (shown d' m' (xs @ entry_out disk (BLOCK s) table m0 e t @ (if enters t then zs else []) @ ys) f' s)) \<and>
    at_rest dv reg lag disk k s cl d' \<and> (\<forall>x. unat x \<notin> ?W e N \<longrightarrow> m' x = m x)"
    using 2(1) 3(1,2) by (intro exI [of _ d3] exI [of _ m3] exI [of _ f3]) simp
qed

lemma read_dir_tree:
  assumes F: "frames_ok (BLOCK s) (ahci_area s cl) T loc N"
  shows "tree_at disk (BLOCK s) table T m0 n idx ts \<Longrightarrow> e + n \<le> N \<Longrightarrow> stable dv reg lag disk k s cl loc N T m0 d m \<Longrightarrow>
    lists dv reg lag disk k s cl loc N table idx e 0 d m (listing disk (BLOCK s) table m0 e ts)"
proof (induction n arbitrary: idx ts e d m)
  case (Suc n)
  let ?p = "blk_pos (BLOCK s) (first_block (inode_at table idx) m0)"
  let ?S = "\<lambda>ts. \<forall>t\<in>set ts. (de_type t = 1 \<longrightarrow> inode_in T (file_inode table (de_inode t))) \<and>
       (enters t \<longrightarrow> tree_at disk (BLOCK s) table T m0 n (sint (de_inode t - 1)) (de_sub t))"
  have e: "e < N" "Suc e + n \<le> N" and idx: "inode_in T (inode_at table idx)" and D: "dir_at disk (BLOCK s) ?p 0 ts" "?S ts"
    using Suc.prems(1,2) by simp_all
  have "dir_at disk (BLOCK s) ?p off ts \<Longrightarrow> ?S ts \<Longrightarrow> stable dv reg lag disk k s cl loc N T m0 d m \<Longrightarrow>
    lists dv reg lag disk k s cl loc N table idx e off d m (listing disk (BLOCK s) table m0 e ts)" for off ts d m
  proof (induction ts arbitrary: off d m)
    case Nil
    then show ?case using lists_nil [OF F e(1) idx] by simp
  next
    case (Cons t ts)
    show ?case unfolding listing_Cons
    proof (rule lists_cons [OF F e(1) idx])
      fix d m assume "enters t" "stable dv reg lag disk k s cl loc N T m0 d m"
      then show "lists dv reg lag disk k s cl loc N table (sint (de_inode t - 1)) (Suc e) 0 d m
          (listing disk (BLOCK s) table m0 (Suc e) (de_sub t))"
        using Suc.IH [OF _ e(2)] Cons.prems(2) by simp
    qed (use Cons in simp_all)
  qed
  from this [OF D Suc.prems(3)] show ?case .
qed simp

text \<open>
  C22. Listing a directory tree ends and prints it: every entry on a line of its own, indented by its
  depth, directories with a slash and followed by their own entries (but for \<open>.\<close> and \<open>..\<close>), readable
  regular files followed by the string in their first 63 bytes. The last entry of a directory may
  reach the end of its block; then the bytes behind the sectors in the array on the stack must be 0.
\<close>

theorem read_dir_lists_tree:
  fixes s :: "('d, 'z) ext2_scheme"
  assumes r: "disk_ready dv reg lag disk k s" and F: "frames_ok (BLOCK s) (ahci_area s (cmd_list reg k s)) T loc N"
    and z: "tails_zero (BLOCK s) loc N (bytes s)" and t: "tree_at disk (BLOCK s) table T (bytes s) n idx ts" "e + n \<le> N"
  shows "\<exists>s'. ext2_read_dir_rec_from_inode dv loc table idx (int e) s = Inr s' \<and> disk_ready dv reg lag disk k s' \<and>
    port_out s' = port_out s @ map (Pair (comport s)) (listing disk (BLOCK s) table (bytes s) e ts)"
proof -
  have "at_rest dv reg lag disk k s (cmd_list reg k s) (hba_st s)" using r by (simp add: at_rest_def)
  then have st: "stable dv reg lag disk k s (cmd_list reg k s) loc N T (bytes s) (hba_st s) (bytes s)" using z by (simp add: stable_def)
  obtain d' m' f' where 1: "read_dir_loop dv loc table idx (int e) (int 0) (shown (hba_st s) (bytes s) [] (int_flag s) s) =
      Some (Inr (shown d' m' ([] @ listing disk (BLOCK s) table (bytes s) e ts) f' s))" "at_rest dv reg lag disk k s (cmd_list reg k s) d'"
    by (rule listsE [OF read_dir_tree [OF F t st]])
  let ?s = "shown d' m' (listing disk (BLOCK s) table (bytes s) e ts) f' s"
  have "ext2_read_dir_rec_from_inode dv loc table idx (int e) s = Inr ?s"
    using 1(1) by (simp add: ext2_read_dir_rec_from_inode_def flip: shown_id)
  moreover have "disk_ready dv reg lag disk k ?s" using 1(2) ready_shown [of dv reg lag disk k d' m' "listing disk (BLOCK s) table (bytes s) e ts" f' s "cmd_list reg k s"] by simp
  ultimately show ?thesis by (intro exI [of _ ?s]) simp
qed

section \<open>An example\<close>

text \<open>Blocks of 1 KiB. The root directory in block 5 holds \<open>.\<close>, an empty directory \<open>s\<close> (block 7) and a
  file \<open>a\<close> (block 6) that contains \<open>hi\<close>.\<close>

definition demo_disk :: "nat \<Rightarrow> u8" where
  "demo_disk n = (case map_of
    [(5120, 2), (5124, 12), (5126, 1), (5127, 2), (5128, 46),
     (5132, 13), (5136, 12), (5138, 1), (5139, 2), (5140, 115),
     (5144, 12), (5148, 0xe8), (5149, 3), (5150, 1), (5151, 1), (5152, 97),
     (6144, 104), (6145, 105)] n of Some b \<Rightarrow> b | None \<Rightarrow> 0)"

definition demo_mem :: bytemem where
  "demo_mem a = (if a = 0x4000a8 then 5 else if a = 0x400581 then 0x81 else if a = 0x4005a8 then 6 else if a = 0x400628 then 7 else 0)"

definition demo_tree :: "dir_tree list" where
  "demo_tree = [Dir_tree 2 12 2 [46] [], Dir_tree 13 12 2 [115] [], Dir_tree 12 1000 1 [97] []]"

definition demo_locals :: "int \<Rightarrow> dir_locals" where
  "demo_locals d = (if d = 0 then \<lparr>dl_lde = 0x20000, dl_name = 0x20010, dl_i_node = 0x20200, dl_text = 0x20300, dl_pool = 0x21000\<rparr>
     else \<lparr>dl_lde = 0x30000, dl_name = 0x30010, dl_i_node = 0x30200, dl_text = 0x30300, dl_pool = 0x31000\<rparr>)"

definition demo_ext2 :: "(u64 \<Rightarrow> u32, 'z) ext2_scheme \<Rightarrow> (u64 \<Rightarrow> u32, 'z) ext2_scheme" where
  "demo_ext2 s = s\<lparr>abar := 0xfebf1000, cmd_tbl_base := 0x100000, hba_st := demo_regs, bytes := demo_mem, block_size := 1024\<rparr>"

lemma demo_ext2_ready:
  "disk_ready (demo_hba demo_disk) (\<lambda>d. d) (\<lambda>_. 0) demo_disk 0 (demo_ext2 s)" "cmd_list (\<lambda>d. d) 0 (demo_ext2 s) = 0x200000"
  "BLOCK (demo_ext2 s) = 2" "bytes (demo_ext2 s) = demo_mem" "cmd_tbl_base (demo_ext2 s) = 0x100000"
  using demo_serves [of demo_disk]
  by (simp_all add: disk_ready_def demo_ext2_def idle_def hba_port_def demo_regs_def areas_ok_def cmd_list_def BLOCK_def)

lemma demo_frames: "frames_ok 2 (ahci_area (demo_ext2 s) 0x200000) {0x400000..<0x400800} demo_locals 2"
proof -
  have A: "ahci_area (demo_ext2 s) 0x200000 = {0x200000..<0x200400} \<union> {0x100000..<0x110090}"
    by (simp add: ahci_area_def span_def demo_ext2_ready)
  have two: "(\<forall>d<2. P d) \<longleftrightarrow> P 0 \<and> P (Suc 0)" for P :: "nat \<Rightarrow> bool" by (auto simp: numeral_2_eq_2 less_Suc_eq)
  show ?thesis
    unfolding frames_ok_def A two
    by (simp add: locals_ok_def local_bufs_def dl_write_def dl_tail_def span_def demo_locals_def) auto
qed

lemma demo_tails: "tails_zero 2 demo_locals 2 demo_mem"
proof -
  have "demo_mem x = 0" if "unat x < 0x400000" for x
  proof -
    have "x \<noteq> 0x4000a8" "x \<noteq> 0x400581" "x \<noteq> 0x4005a8" "x \<noteq> 0x400628" using that by auto
    then show ?thesis by (simp add: demo_mem_def)
  qed
  moreover have "unat x < 0x400000" if "unat x \<in> dl_tail 2 (demo_locals d)" for x d
    using that by (auto simp: dl_tail_def demo_locals_def split: if_splits)
  ultimately show ?thesis unfolding tails_zero_def by blast
qed

lemma field_values: "field_off inode_ext2 ''i_block'' = 40" "field_off inode_ext2 ''i_mode'' = 0"
  "field_type inode_ext2 ''i_mode'' = (2, 2)" "field_off lde ''inode'' = 0" "field_off lde ''rec_len'' = 4"
  "field_off lde ''name_len'' = 6" "field_off lde ''file_type'' = 7" "field_type lde ''inode'' = (4, 4)"
  "field_type lde ''rec_len'' = (2, 2)" "field_type lde ''name_len'' = (1, 1)" "field_type lde ''file_type'' = (1, 1)"
  by code_simp+

lemmas load_defs = c_field_def c_elem_def load_val_def load16_def load32_def load_le_def field_values upt_conv_Cons

lemma demo_blocks: "first_block (inode_at 0x400000 1) demo_mem = 5" "first_block (inode_at 0x400000 12) demo_mem = 7"
  "first_block (file_inode 0x400000 12) demo_mem = 6"
  by (simp_all add: first_block_def inode_at_def file_inode_def struct_sizes load_defs demo_mem_def)

lemma demo_dirs: "dir_at demo_disk 2 (blk_pos 2 5) 0 demo_tree" "dir_at demo_disk 2 (blk_pos 2 7) 0 []"
  by (simp_all add: demo_tree_def entry_at_def blk_pos_def load_defs disk_at_def demo_disk_def)

lemma demo_tree_at: "tree_at demo_disk 2 0x400000 {0x400000..<0x400800} demo_mem 2 1 demo_tree"
proof -
  have "inode_in {0x400000..<0x400800} (inode_at 0x400000 1)" "inode_in {0x400000..<0x400800} (inode_at 0x400000 12)"
    "inode_in {0x400000..<0x400800} (file_inode 0x400000 12)"
    by (simp_all add: inode_in_def inode_at_def file_inode_def span_def struct_sizes)
  then show ?thesis using demo_dirs
    by (simp add: numeral_2_eq_2 demo_blocks) (simp add: demo_tree_def enters_def demo_blocks numeral_2_eq_2)
qed

text \<open>The output: \<open>./\<close>, \<open>s/\<close>, \<open>a\<close> and \<open>hi\<close>.\<close>

lemma demo_listing: "listing demo_disk 2 0x400000 demo_mem 0 demo_tree = [46, 47, 10, 115, 47, 10, 97, 10, 104, 105]"
proof -
  have "c_field inode_ext2 ''i_mode'' demo_mem (file_inode 0x400000 12) = 0x8100"
    by (simp add: load_defs file_inode_def struct_sizes demo_mem_def)
  moreover have "text_of demo_disk (blk_pos 2 6) = [104, 105]"
    by (simp add: text_of_def blk_pos_def demo_disk_def upt_conv_Cons)
  ultimately show ?thesis
    by (simp add: demo_tree_def entry_out_def dir_line_def enters_def file_text_def demo_blocks EXT2_S_IRUSR_def)
qed

theorem read_dir_lists_tree_witness:
  "\<forall>s :: (u64 \<Rightarrow> u32) ext2. \<exists>s'. ext2_read_dir_rec_from_inode (demo_hba demo_disk) demo_locals 0x400000 1 0 (demo_ext2 s) = Inr s' \<and>
     port_out s' = port_out s @ map (Pair (comport s)) [46, 47, 10, 115, 47, 10, 97, 10, 104, 105]"
proof
  fix s :: "(u64 \<Rightarrow> u32) ext2"
  note d = demo_ext2_ready [of s]
  have F: "frames_ok (BLOCK (demo_ext2 s)) (ahci_area (demo_ext2 s) (cmd_list (\<lambda>d. d) 0 (demo_ext2 s))) {0x400000..<0x400800} demo_locals 2"
    using demo_frames [of s] by (simp add: d)
  have z: "tails_zero (BLOCK (demo_ext2 s)) demo_locals 2 (bytes (demo_ext2 s))" using demo_tails by (simp add: d)
  have t: "tree_at demo_disk (BLOCK (demo_ext2 s)) 0x400000 {0x400000..<0x400800} (bytes (demo_ext2 s)) 2 1 demo_tree" "0 + 2 \<le> (2::nat)"
    using demo_tree_at by (simp_all add: d)
  have "port_out (demo_ext2 s) = port_out s" "comport (demo_ext2 s) = comport s" by (simp_all add: demo_ext2_def)
  then show "\<exists>s'. ext2_read_dir_rec_from_inode (demo_hba demo_disk) demo_locals 0x400000 1 0 (demo_ext2 s) = Inr s' \<and>
     port_out s' = port_out s @ map (Pair (comport s)) [46, 47, 10, 115, 47, 10, 97, 10, 104, 105]"
    using read_dir_lists_tree [OF d(1) F z t] by (auto simp: d demo_listing)
qed

end
