(* ===== verification/Ext2_Table.thy ===== *)
theory Ext2_Table
  imports Ext2_Dir
begin

text \<open>
  The inode table: \<open>create_inode_table\<close> reads the blocks of the table one after the other and copies
  their inodes to the place the index \<open>i + j + (inodes_per_block - 1) * i\<close> names; the result is the table
  of the disk, in one piece.
\<close>

section \<open>Copying a block\<close>

lemma unat_of_nat32: "n < 2 ^ 32 \<Longrightarrow> unat (of_nat n :: u32) = n"
  by (simp add: unat_of_nat take_bit_nat_eq_self)

lemma table_index:
  fixes i ipb :: u32
  assumes "unat i * unat ipb + j < 2 ^ 32"
  shows "unat (i + of_nat j + (ipb - 1) * i) = unat i * unat ipb + j"
proof -
  have "i + of_nat j + (ipb - 1) * i = of_nat (unat i * unat ipb + j)" by (simp add: algebra_simps)
  then show ?thesis using assms by (simp only: unat_of_nat) (simp add: take_bit_nat_eq_self)
qed

definition copy_inodes :: "u64 \<Rightarrow> u64 \<Rightarrow> u32 \<Rightarrow> u32 \<Rightarrow> nat \<Rightarrow> bytemem \<Rightarrow> bytemem" where
  "copy_inodes table inodes ipb i n m = fold (\<lambda>j m. memcpy_upto m
     (table + of_nat (c_sizeof inode_ext2) * ucast (i + of_nat j + (ipb - 1) * i)) (inodes + of_nat (c_sizeof inode_ext2 * j))
     (c_sizeof inode_ext2)) [0..<n] m"

lemma store_inodes_shown:
  "store_inodes table inodes ipb i (shown d m xs f s) = shown d (copy_inodes table inodes ipb i (unat ipb) m) xs f s"
proof -
  have "fold (\<lambda>j s. s\<lparr>bytes := F j (bytes s)\<rparr>) js (shown d m xs f s) = shown d (fold F js m) xs f s" for F :: "nat \<Rightarrow> bytemem \<Rightarrow> bytemem" and js
    by (induction js arbitrary: m) simp_all
  then show ?thesis by (simp add: store_inodes_def copy_inodes_def)
qed

lemma copy_inodes_spec:
  assumes tab: "unat table + 128 * len \<le> 2 ^ 64" "(unat i + 1) * unat ipb \<le> len" "len < 2 ^ 32"
    and buf: "unat inodes + 128 * unat ipb \<le> 2 ^ 64" "span inodes (128 * unat ipb) \<inter> span table (128 * len) = {}"
    and n: "n \<le> unat ipb"
  shows "(\<forall>y<128 * n. copy_inodes table inodes ipb i n m (table + of_nat (128 * (unat i * unat ipb) + y)) = m (inodes + of_nat y)) \<and>
    (\<forall>x. unat x \<notin> {unat table + 128 * (unat i * unat ipb)..<unat table + 128 * (unat i * unat ipb) + 128 * n} \<longrightarrow>
       copy_inodes table inodes ipb i n m x = m x)"
  using n
proof (induction n)
  case 0
  show ?case by (simp add: copy_inodes_def)
next
  case (Suc n)
  let ?o = "unat i * unat ipb" and ?M = "copy_inodes table inodes ipb i n m"
  have n: "n < unat ipb" using Suc.prems by simp
  have IH: "\<forall>y<128 * n. ?M (table + of_nat (128 * ?o + y)) = m (inodes + of_nat y)"
    "\<forall>x. unat x \<notin> {unat table + 128 * ?o..<unat table + 128 * ?o + 128 * n} \<longrightarrow> ?M x = m x"
    using Suc by simp_all
  have fit: "?o + n < len" "128 * (?o + n) + 128 \<le> 128 * len" using n tab(2) by (simp_all add: algebra_simps)
  have "unat (ucast (i + of_nat n + (ipb - 1) * i) :: u64) = ?o + n"
    using table_index [of i ipb n] fit tab(3) by (simp add: unsigned_ucast_eq take_bit_nat_eq_self)
  then have "(ucast (i + of_nat n + (ipb - 1) * i) :: u64) = of_nat (?o + n)" by (metis of_nat_unat ucast_id)
  then have dst: "table + of_nat (c_sizeof inode_ext2) * ucast (i + of_nat n + (ipb - 1) * i) = table + of_nat (128 * (?o + n))"
    by (simp add: struct_sizes)
  let ?d = "table + of_nat (128 * (?o + n)) :: u64" and ?s = "inodes + of_nat (128 * n) :: u64"
  have eq: "copy_inodes table inodes ipb i (Suc n) m = memcpy_upto ?M ?d ?s 128"
  proof -
    have "copy_inodes table inodes ipb i (Suc n) m = memcpy_upto ?M
        (table + of_nat (c_sizeof inode_ext2) * ucast (i + of_nat n + (ipb - 1) * i)) (inodes + of_nat (c_sizeof inode_ext2 * n))
        (c_sizeof inode_ext2)"
      by (simp add: copy_inodes_def)
    then show ?thesis unfolding dst unfolding struct_sizes .
  qed
  have d: "unat ?d = unat table + 128 * (?o + n)"
    by (rule unat_offset [of _ "128 * len"]) (use fit tab(1) in simp_all)
  have s: "unat ?s = unat inodes + 128 * n" by (rule unat_offset [of _ "128 * unat ipb"]) (use n buf(1) in simp_all)
  have "span ?s 128 \<subseteq> span inodes (128 * unat ipb)" "span ?d 128 \<subseteq> span table (128 * len)"
    unfolding span_def d s using n fit by auto
  then have dis: "span ?s 128 \<inter> span ?d 128 = {}" using buf(2) by blast
  have ap: "unat ?s + 128 \<le> unat ?d \<or> unat ?d + 128 \<le> unat ?s"
  proof (rule ccontr)
    assume "\<not> ?thesis"
    then have "max (unat ?s) (unat ?d) \<in> span ?s 128 \<inter> span ?d 128" by (auto simp: span_def max_def)
    then show False using dis by blast
  qed
  have lim: "unat ?s + 128 \<le> 2 ^ 64" "unat ?d + 128 \<le> 2 ^ 64" unfolding d s using n fit tab(1) buf(1) by simp_all
  note cp = memcpy_apart [OF ap lim zero_less_numeral, where m = ?M, unfolded d]
  show ?case
  proof (intro conjI)
    show "\<forall>y<128 * Suc n. copy_inodes table inodes ipb i (Suc n) m (table + of_nat (128 * ?o + y)) = m (inodes + of_nat y)"
    proof (intro allI impI)
      fix y assume y: "y < 128 * Suc n"
      show "copy_inodes table inodes ipb i (Suc n) m (table + of_nat (128 * ?o + y)) = m (inodes + of_nat y)"
      proof (cases "y < 128 * n")
        case True
        have "unat (table + of_nat (128 * ?o + y)) = unat table + (128 * ?o + y)"
          by (rule unat_offset [of _ "128 * len"]) (use True fit tab(1) in simp_all)
        then have "memcpy_upto ?M ?d ?s 128 (table + of_nat (128 * ?o + y)) = ?M (table + of_nat (128 * ?o + y))"
          by (intro cp(2)) (use True in simp)
        then show ?thesis unfolding eq using IH(1) True by simp
      next
        case False
        define z where "z = y - 128 * n"
        have z: "y = 128 * n + z" "z < 128" using False y by (simp_all add: z_def)
        have "memcpy_upto ?M ?d ?s 128 (?d + of_nat z) = ?M (?s + of_nat z)" by (rule cp(1) [OF z(2)])
        moreover have "?M (?s + of_nat z) = m (?s + of_nat z)"
        proof -
          have "unat (?s + of_nat z) = unat inodes + 128 * n + z"
            unfolding s [symmetric] by (rule unat_offset [of _ 128], rule lim(1), rule z(2))
          then have "unat (?s + of_nat z) \<in> span inodes (128 * unat ipb)" unfolding span_def using n z(2) by simp
          then have "unat (?s + of_nat z) \<notin> span table (128 * len)" using buf(2) by blast
          then show ?thesis using fit by (intro IH(2) [rule_format]) (auto simp: span_def)
        qed
        ultimately show ?thesis unfolding eq z(1) by (simp add: algebra_simps)
      qed
    qed
    show "\<forall>x. unat x \<notin> {unat table + 128 * ?o..<unat table + 128 * ?o + 128 * Suc n} \<longrightarrow>
        copy_inodes table inodes ipb i (Suc n) m x = m x"
    proof (intro allI impI)
      fix x :: u64 assume x: "unat x \<notin> {unat table + 128 * ?o..<unat table + 128 * ?o + 128 * Suc n}"
      have "copy_inodes table inodes ipb i (Suc n) m x = ?M x" unfolding eq by (rule cp(2)) (use x in auto)
      also have "\<dots> = m x" using IH(2) x by auto
      finally show "copy_inodes table inodes ipb i (Suc n) m x = m x" .
    qed
  qed
qed

section \<open>All blocks\<close>

lemma foreach_append: "foreach f (xs @ ys) s = and_then (foreach f xs s) (foreach f ys)"
proof (induction xs arbitrary: s)
  case (Cons x xs)
  then show ?case by (cases "f x s") simp_all
qed simp

lemma u64_to_int_small: "n < 2 ^ 31 \<Longrightarrow> u64_to_int (of_nat n) = int n"
proof -
  assume n: "n < 2 ^ 31"
  have "(ucast (of_nat n :: u64) :: u32) = of_nat n"
    using n by (simp add: word_unat_eq_iff unsigned_ucast_eq unat_of_nat take_bit_nat_eq_self)
  moreover have "sint (of_nat n :: u32) = int n" using n by (simp add: signed_of_nat signed_take_bit_int_eq_self)
  ultimately show ?thesis by (simp add: u64_to_int_def)
qed

text \<open>Where the buffer, the array and the table are.\<close>

definition table_room ::
  "('d, 'z) ext2_scheme \<Rightarrow> u64 \<Rightarrow> u64 \<Rightarrow> u64 \<Rightarrow> u64 \<Rightarrow> nat \<Rightarrow> bool" where
  "table_room s cl pool inodes table len \<longleftrightarrow>
     pool_ok pool (BLOCK s) inodes (int (512 * unat (BLOCK s))) 0 \<and> unat (block_size s) = 512 * unat (BLOCK s) \<and>
     unat table + 128 * len \<le> 2 ^ 64 \<and> len < 2 ^ 32 \<and>
     span table (128 * len) \<inter> (ahci_area s cl \<union> span pool (512 * unat (BLOCK s)) \<union> span inodes (512 * unat (BLOCK s))) = {}"

lemma table_room_ipb:
  assumes "table_room s cl pool inodes table len"
  shows "128 * unat (inodes_per_block s) = 512 * unat (BLOCK s)" "0 < unat (BLOCK s)"
    "u64_to_int (of_nat (c_sizeof inode_ext2) * ucast (inodes_per_block s)) = int (512 * unat (BLOCK s))"
proof -
  have b: "unat (block_size s) = 512 * unat (BLOCK s)" "unat (block_size s) < 65536"
    using assms unat16_lt [of "block_size s"] by (simp_all add: table_room_def)
  then have "unat (inodes_per_block s) = unat (block_size s) div 128"
    unfolding inodes_per_block_def struct_sizes by (intro unat_of_nat32) simp
  then show i: "128 * unat (inodes_per_block s) = 512 * unat (BLOCK s)" using b(1) by simp
  show "0 < unat (BLOCK s)" using assms by (simp add: table_room_def pool_ok_def pool_room_def word_less_nat_alt)
  have "of_nat (c_sizeof inode_ext2) * ucast (inodes_per_block s) = (of_nat (128 * unat (inodes_per_block s)) :: u64)"
    unfolding struct_sizes of_nat_mult by (metis of_nat_unat)
  then show "u64_to_int (of_nat (c_sizeof inode_ext2) * ucast (inodes_per_block s)) = int (512 * unat (BLOCK s))"
    unfolding i by (simp only:) (rule u64_to_int_small, use b in simp)
qed

text \<open>The body of the loop of \<open>create_inode_table\<close>.\<close>

definition table_step :: "'d hba \<Rightarrow> u64 \<Rightarrow> u64 \<Rightarrow> u64 \<Rightarrow> u32 \<Rightarrow> nat \<Rightarrow> ('d, 'z) ext2_scheme \<Rightarrow> ('d, 'z) ext2_scheme outcome" where
  "table_step dv pool inodes table ipb i s =
     and_then (ahci_read_byte dv pool (block_lba (bg_inode_table s + of_nat i) s) (BLOCK s) inodes
       (u64_to_int (of_nat (c_sizeof inode_ext2) * ucast ipb)) 0 s) (\<lambda>s.
     Inr (store_inodes table inodes ipb (of_nat i) (say_num ''inode table read: '' (of_nat i) s)))"

lemma bg_inode_table_shown [simp]: "bg_inode_table (shown d m xs f s) = bg_inode_table s"
  by (simp add: shown_def)

lemma table_step_spec:
  assumes R: "table_room s cl pool inodes table len" and r: "at_rest dv reg lag disk k s cl d"
    and i: "(i + 1) * unat (inodes_per_block s) \<le> len" "(unat (bg_inode_table s) + i) * unat (BLOCK s) < 2 ^ 32"
  obtains d' m' xs' where "table_step dv pool inodes table (inodes_per_block s) i (shown d m xs f s) = Inr (shown d' m' xs' True s)"
    "at_rest dv reg lag disk k s cl d'"
    "\<forall>y<512 * unat (BLOCK s). m' (table + of_nat (512 * unat (BLOCK s) * i + y)) = disk (512 * unat (BLOCK s) * (unat (bg_inode_table s) + i) + y)"
    "\<forall>y<512 * unat (BLOCK s) * i. m' (table + of_nat y) = m (table + of_nat y)"
proof -
  let ?c = "unat (BLOCK s)" and ?ipb = "inodes_per_block s" and ?g = "bg_inode_table s + of_nat i"
  note I = table_room_ipb [OF R]
  have len: "unat table + 128 * len \<le> 2 ^ 64" "len < 2 ^ 32"
    and dis: "span table (128 * len) \<inter> (ahci_area s cl \<union> span pool (512 * ?c) \<union> span inodes (512 * ?c)) = {}"
    and pool: "pool_room pool (BLOCK s) inodes (int (512 * ?c)) 0"
    using R i(1) I(1,2) by (auto simp: table_room_def pool_ok_def)
  have "i * 1 \<le> (i + 1) * unat ?ipb" by (rule mult_le_mono) (use I(1,2) in simp_all)
  then have i32: "i < 2 ^ 32" using i(1) len(2) by simp
  obtain d' m1 where 1: "ahci_read_byte dv pool (block_lba ?g s) (BLOCK s) inodes (int (512 * ?c)) 0 (shown d m xs f s)
      = Inr (shown d' m1 xs f s)" "at_rest dv reg lag disk k s cl d'"
    "\<forall>j<512 * ?c. nat 0 + j < 512 * ?c \<longrightarrow> m1 (inodes + of_nat j) = disk (512 * unat (block_lba ?g s) + nat 0 + j)"
    "\<forall>x. unat x \<notin> ahci_area s cl \<union> span pool (512 * ?c) \<union> span inodes (512 * ?c) \<longrightarrow> m1 x = m x"
    by (rule read_shown [OF r pool block_lba_pos(2), where m = m and xs = xs and f = f]) (simp only: nat_int)
  have "unat (?g * ucast (BLOCK s)) = (unat (bg_inode_table s) + i) * ?c"
  proof -
    have "?g * ucast (BLOCK s) = (of_nat ((unat (bg_inode_table s) + i) * ?c) :: u32)" by simp
    then show ?thesis using i(2) by (simp only: unat_of_nat) (simp add: take_bit_nat_eq_self)
  qed
  then have pos: "512 * unat (block_lba ?g s) = 512 * ?c * (unat (bg_inode_table s) + i)"
    unfolding block_lba_pos(1) blk_pos_def by (simp add: algebra_simps)
  let ?m = "copy_inodes table inodes ?ipb (of_nat i) (unat ?ipb) m1"
  let ?xs = "xs @ ascii ''inode table read: '' @ hex_bytes (of_nat i) @ [13, 10]"
  have ui: "unat (of_nat i :: u32) = i" using i32 by (simp add: unat_of_nat take_bit_nat_eq_self)
  have buf: "unat inodes + 128 * unat ?ipb \<le> 2 ^ 64" "span inodes (128 * unat ?ipb) \<inter> span table (128 * len) = {}"
    using pool dis unfolding I(1) pool_room_def nat_int by auto
  have at: "128 * (i * unat ?ipb) = 512 * ?c * i" using arg_cong [OF I(1), of "(*) i"] by (simp only: mult.left_commute mult.commute)
  have cp: "\<forall>y<512 * ?c. ?m (table + of_nat (512 * ?c * i + y)) = m1 (inodes + of_nat y)"
    "\<forall>x. unat x \<notin> {unat table + 512 * ?c * i..<unat table + 512 * ?c * i + 512 * ?c} \<longrightarrow> ?m x = m1 x"
    using copy_inodes_spec [OF len(1) _ len(2) buf order_refl, of "of_nat i" m1, unfolded ui at I(1)] i(1) by simp_all
  have fit: "512 * ?c * i + 512 * ?c \<le> 128 * len" using i(1) I(1) by (metis (no_types) add.commute mult.assoc mult.commute mult_Suc mult_le_mono2 Suc_eq_plus1)
  show thesis
  proof (rule that)
    show "table_step dv pool inodes table ?ipb i (shown d m xs f s) = Inr (shown d' ?m ?xs True s)"
      using 1(1) I(3) by (simp add: table_step_def say_num_def store_inodes_shown)
    show "\<forall>y<512 * ?c. ?m (table + of_nat (512 * ?c * i + y)) = disk (512 * ?c * (unat (bg_inode_table s) + i) + y)"
      using cp(1) 1(3) pos by simp
    show "\<forall>y<512 * ?c * i. ?m (table + of_nat y) = m (table + of_nat y)"
    proof (intro allI impI)
      fix y assume y: "y < 512 * ?c * i"
      have u: "unat (table + of_nat y) = unat table + y" by (rule unat_offset [OF len(1)]) (use y fit in simp)
      then have "unat (table + of_nat y) \<in> span table (128 * len)" using y fit by (simp add: span_def)
      then have "m1 (table + of_nat y) = m (table + of_nat y)" using 1(4) dis by blast
      moreover have "?m (table + of_nat y) = m1 (table + of_nat y)" by (rule cp(2) [rule_format]) (use y u in simp)
      ultimately show "?m (table + of_nat y) = m (table + of_nat y)" by simp
    qed
  qed (rule 1(2))
qed

lemma table_loop_spec:
  assumes R: "table_room s cl pool inodes table len" and r: "at_rest dv reg lag disk k s cl d"
    and n: "n * unat (inodes_per_block s) \<le> len" "(unat (bg_inode_table s) + n) * unat (BLOCK s) < 2 ^ 32"
  shows "\<exists>d' m' xs' f'. foreach (table_step dv pool inodes table (inodes_per_block s)) [0..<n] (shown d m xs f s) = Inr (shown d' m' xs' f' s) \<and>
    at_rest dv reg lag disk k s cl d' \<and>
    (\<forall>y<512 * unat (BLOCK s) * n. m' (table + of_nat y) = disk (512 * unat (BLOCK s) * unat (bg_inode_table s) + y))"
  using n
proof (induction n)
  case 0
  then show ?case using r by auto
next
  case (Suc n)
  let ?c = "unat (BLOCK s)" and ?t = "unat (bg_inode_table s)"
  have n: "n * unat (inodes_per_block s) \<le> len" "(n + 1) * unat (inodes_per_block s) \<le> len"
    "(?t + n) * ?c < 2 ^ 32" using Suc.prems by (simp_all add: add_mult_distrib)
  obtain d1 m1 xs1 f1 where 1: "foreach (table_step dv pool inodes table (inodes_per_block s)) [0..<n] (shown d m xs f s) = Inr (shown d1 m1 xs1 f1 s)"
    "at_rest dv reg lag disk k s cl d1" "\<forall>y<512 * ?c * n. m1 (table + of_nat y) = disk (512 * ?c * ?t + y)"
    using Suc.IH [OF n(1,3)] by blast
  obtain d' m' xs' where 2: "table_step dv pool inodes table (inodes_per_block s) n (shown d1 m1 xs1 f1 s) = Inr (shown d' m' xs' True s)"
    "at_rest dv reg lag disk k s cl d'"
    "\<forall>y<512 * ?c. m' (table + of_nat (512 * ?c * n + y)) = disk (512 * ?c * (?t + n) + y)"
    "\<forall>y<512 * ?c * n. m' (table + of_nat y) = m1 (table + of_nat y)"
    by (rule table_step_spec [OF R 1(2) n(2,3)])
  have "m' (table + of_nat y) = disk (512 * ?c * ?t + y)" if "y < 512 * ?c * Suc n" for y
  proof (cases "y < 512 * ?c * n")
    case False
    define z where "z = y - 512 * ?c * n"
    have z: "y = 512 * ?c * n + z" "z < 512 * ?c" using False that by (simp_all add: z_def)
    show ?thesis using 2(3) [rule_format, OF z(2)] unfolding z(1) by (simp only: distrib_left add.assoc)
  qed (use 1(3) 2(4) in simp)
  then show ?case using 1(1) 2(1,2) by (auto simp: foreach_append)
qed

section \<open>The table\<close>

text \<open>The sizes, the request for memory, and where everything is.\<close>

definition table_inodes :: "('d, 'z) ext2_scheme \<Rightarrow> nat" where
  "table_inodes s = unat (table_blocks (s_inodes_per_group s) (inodes_per_block s)) * unat (inodes_per_block s)"

lemma heap_has_hi: "heap_has s L k \<Longrightarrow> heap_hi s < 2 ^ 64"
  by (auto simp: heap_has_def heap_ok_def placed_def)

lemma interval_top: "{a..<a + n} \<subseteq> {b..<c} \<Longrightarrow> 0 < n \<Longrightarrow> a + n \<le> (c :: nat)"
  by (simp add: ivl_subset)

lemma kh_request_nat: "n < 2 ^ 31 - 15 \<Longrightarrow> kh_request (int n)"
  by (simp add: kh_request_def)

lemma table_start_spec:
  fixes s :: "('d, 'z) ext2_scheme"
  assumes n: "128 * (unat nblock * unat ipb) < 2 ^ 31 - 15"
    and h: "heap_has s L (units (int (128 * (unat nblock * unat ipb))) + j)"
  obtains table h' fp p where "table_start ipb nblock s = Inr (table, int (unat nblock * unat ipb), s\<lparr>hdr := h', freep := fp, port_out := p, int_flag := True\<rparr>)"
    "heap_has (s\<lparr>hdr := h', freep := fp, port_out := p, int_flag := True\<rparr>) (insert table L) j" "table \<noteq> 0" "table \<notin> L"
    "{unat table..<unat table + 128 * (unat nblock * unat ipb)} \<subseteq> heap_region s"
proof -
  let ?len = "unat nblock * unat ipb"
  define s1 where "s1 = say_num ''table_len: '' (of_nat ?len) (say_num ''nblock_inode_table: '' (ucast nblock)
    (say_num ''inodes_per_block: '' (ucast ipb) s))"
  have "only_prints s s1" unfolding s1_def by (intro only_prints_intros)
  then obtain p f where s1: "s1 = s\<lparr>port_out := p, int_flag := f\<rparr>" unfolding only_prints_def by blast
  have small: "?len < 2 ^ 31" using n by linarith
  have prod: "ipb * nblock = of_nat ?len" unfolding of_nat_mult of_nat_unat ucast_id by (rule mult.commute)
  have len: "sint (ipb * nblock) = int ?len"
    unfolding prod using small by (simp del: of_nat_mult add: signed_of_nat signed_take_bit_int_eq_self)
  have c: "u64_to_int (of_nat (c_sizeof inode_ext2) * of_nat ?len) = int (128 * ?len)"
    unfolding struct_sizes of_nat_mult [symmetric] by (rule u64_to_int_small) (use n in linarith)
  have "heap_has s1 L (units (int (128 * ?len)) + j)" using h heap_has_cong(1) [of s1 s] by (simp add: s1)
  then obtain table s2 where 2: "kmalloc (int (128 * ?len)) s1 = Some (table, s2)" "table \<noteq> 0" "table \<notin> L"
    "heap_has s2 (insert table L) j" "heap_step s1 s2"
    "{unat table..<unat table + nat (int (128 * ?len))} \<subseteq> kh_extent s2 table" "kh_extent s2 table \<subseteq> heap_region s1"
    by (rule kmalloc_has) (rule kh_request_nat [OF n])
  obtain h' fp where s2: "s2 = s1\<lparr>hdr := h', freep := fp\<rparr>" using 2(5) by (auto simp: heap_step_def)
  have reg: "heap_region s1 = heap_region s" by (rule heap_has_cong(2)) (simp_all add: s1)
  let ?s = "say (''inode table read'' @ LF) s2"
  have s: "?s = s\<lparr>hdr := h', freep := fp, port_out := port_out ?s, int_flag := True\<rparr>"
    by (simp add: s2 s1 say_def say_bytes_def sent_def io_sti_def)
  show thesis
  proof (rule that)
    show "table_start ipb nblock s = Inr (table, int ?len, s\<lparr>hdr := h', freep := fp, port_out := port_out ?s, int_flag := True\<rparr>)"
      unfolding table_start_def len Let_def of_int_of_nat_eq c s1_def [symmetric] s [symmetric]
      using 2(1) by simp
    show "heap_has (s\<lparr>hdr := h', freep := fp, port_out := port_out ?s, int_flag := True\<rparr>) (insert table L) j"
      using 2(4) heap_has_cong(1) [of ?s s2] unfolding s [symmetric] by (simp add: say_def say_bytes_def sent_def io_sti_def)
    show "{unat table..<unat table + 128 * ?len} \<subseteq> heap_region s"
      using 2(6,7) unfolding nat_int reg by (rule subset_trans)
  qed (rule 2)+
qed

lemma table_placed:
  assumes n: "128 * table_inodes s < 2 ^ 31 - 15" and h: "heap_has u L k" "heap_region u = heap_region s"
    and t: "{unat table..<unat table + 128 * table_inodes s} \<subseteq> heap_region u"
    and dis: "heap_region s \<inter> A = {}"
  shows "unat table + 128 * table_inodes s \<le> 2 ^ 64" "span table (128 * table_inodes s) \<inter> A = {}"
proof -
  have "heap_hi u < 2 ^ 64" using h(1) by (rule heap_has_hi)
  moreover have "unat table < 2 ^ 64" using unsigned_less [of table, where ?'a = nat] by simp
  moreover have "0 < 128 * table_inodes s \<longrightarrow> unat table + 128 * table_inodes s \<le> heap_hi u" using interval_top [OF t] by blast
  ultimately show "unat table + 128 * table_inodes s \<le> 2 ^ 64" by linarith
  show "span table (128 * table_inodes s) \<inter> A = {}" using t dis unfolding h(2) span_def [of table] by blast
qed


text \<open>Blocks of 1 KiB, 8 inodes, the table in block 5, a new heap at 16 MiB.\<close>

definition demo_fs :: "(u64 \<Rightarrow> u32, 'z) ext2_scheme \<Rightarrow> (u64 \<Rightarrow> u32, 'z) ext2_scheme" where
  "demo_fs s = init_kheap 0x1001000 (s\<lparr>abar := 0xfebf1000, cmd_tbl_base := 0x100000, hba_st := demo_regs, base_at := 0x1000000,
     freep := 0x1000000, block_size := 1024, s_inodes_per_group := 8, bg_inode_table := 5\<rparr>)"

lemma demo_fs:
  "heap_has (demo_fs s) {} 0x40000" "disk_ready (demo_hba disk) (\<lambda>d. d) (\<lambda>_. 0) disk 0 (demo_fs s)"
  "cmd_list (\<lambda>d. d) 0 (demo_fs s) = 0x200000" "cmd_tbl_base (demo_fs s) = 0x100000" "block_size (demo_fs s) = 1024"
  "BLOCK (demo_fs s) = 2" "inodes_per_block (demo_fs s) = 8" "s_inodes_per_group (demo_fs s) = 8" "bg_inode_table (demo_fs s) = 5"
  "heap_region (demo_fs s) = {0x1001000..<0x1401000}"
proof -
  show "heap_has (demo_fs s) {} 0x40000"
    unfolding demo_fs_def by (rule heap_has_boot) (simp_all add: placed_def heap_hi_def)
  show "disk_ready (demo_hba disk) (\<lambda>d. d) (\<lambda>_. 0) disk 0 (demo_fs s)" "cmd_list (\<lambda>d. d) 0 (demo_fs s) = 0x200000"
    using demo_serves [of disk]
    by (simp_all add: disk_ready_def demo_fs_def init_kheap_def set_size_def set_next_def idle_def hba_port_def demo_regs_def areas_ok_def cmd_list_def)
qed (simp_all add: demo_fs_def init_kheap_def set_size_def set_next_def BLOCK_def inodes_per_block_def struct_sizes heap_lo_def heap_hi_def)


end
