(* ===== verification/App.thy ===== *)
theory App
  imports Graphics
begin

text \<open>
  kernel/app: the two demonstration tasks that move a square over the screen (app.c) and the line
  input of the console (console.c, which is not linked into the kernel).
\<close>

section \<open>Squares\<close>

text \<open>\<open>sti; nop; hlt\<close>: the processor goes on after the next interrupt.\<close>

definition stihlt :: "'z cpu_scheme \<Rightarrow> 'z cpu_scheme" where
  "stihlt s = io_sti s"

text \<open>One round of the loop, for a square in \<open>color\<close> on line \<open>y\<close>.\<close>

definition shikaku_round ::
  "u32 \<Rightarrow> pix_format \<Rightarrow> u32 \<Rightarrow> 'z screen_scheme \<Rightarrow> (u32 \<times> 'z screen_scheme) outcome" where
  "shikaku_round y color x g =
     and_then (printstr ((x - 8) mod 400 + 200) y pix_white pix_white (ascii '' '') g) (\<lambda>g.
     and_then (printstr (x mod 400 + 200) y color color (ascii '' '') g) (\<lambda>g.
     let g = stihlt g in Inr (x + 1, g)))"

partial_function (option) shikaku_loop ::
  "u32 \<Rightarrow> pix_format \<Rightarrow> u32 \<Rightarrow> 'z screen_scheme \<Rightarrow> 'z screen_scheme outcome option" where
  "shikaku_loop y color x g =
     (case shikaku_round y color x g of Inl e \<Rightarrow> Some (Inl e) | Inr (x, g) \<Rightarrow> shikaku_loop y color x g)"

definition task_shikaku_aka :: "'z screen_scheme \<Rightarrow> 'z screen_scheme outcome" where
  "task_shikaku_aka g = (case shikaku_loop 80 pix_red 0 g of None \<Rightarrow> Inl Spins | Some r \<Rightarrow> r)"

definition task_shikaku_ao :: "'z screen_scheme \<Rightarrow> 'z screen_scheme outcome" where
  "task_shikaku_ao g = (case shikaku_loop 100 pix_blue 0 g of None \<Rightarrow> Inl Spins | Some r \<Rightarrow> r)"

text \<open>The first \<open>n\<close> rounds.\<close>

primrec shikaku_rounds ::
  "nat \<Rightarrow> u32 \<Rightarrow> pix_format \<Rightarrow> 'z screen_scheme \<Rightarrow> (u32 \<times> 'z screen_scheme) outcome" where
  "shikaku_rounds 0 y color g = Inr (0, g)"
| "shikaku_rounds (Suc n) y color g = and_then (shikaku_rounds n y color g) (\<lambda>(x, g). shikaku_round y color x g)"

section \<open>Line input\<close>

text \<open>\<open>key n\<close> is the variable \<open>key\<close> after the processor has been woken \<open>n\<close> times; \<open>com_handler\<close> sets it.\<close>

partial_function (option) wait_serial_input :: "(nat \<Rightarrow> u8) \<Rightarrow> nat \<Rightarrow> (u8 \<times> nat) option" where
  "wait_serial_input key n = (if key n \<noteq> 0 then Some (key n, n + 1) else wait_serial_input key (n + 1))"

text \<open>\<open>c\<close> starts uninitialised: its first value is a parameter.\<close>

partial_function (option) input_text_loop ::
  "(nat \<Rightarrow> u8) \<Rightarrow> u8 \<Rightarrow> u8 list \<Rightarrow> nat \<Rightarrow> nat \<Rightarrow> (u8 list \<times> nat) outcome option" where
  "input_text_loop key c input i n =
     (if c \<noteq> 0x0d \<and> c \<noteq> 0x0a then
        Option.bind (wait_serial_input key n) (\<lambda>(c, n).
          case array_set input (int i) c of
            Inl e \<Rightarrow> Some (Inl e)
          | Inr input \<Rightarrow> input_text_loop key c input (i + 1) n)
      else Some (Inr (input, n)))"

definition input_text_from_stdin :: "(nat \<Rightarrow> u8) \<Rightarrow> u8 \<Rightarrow> u8 list \<Rightarrow> nat \<Rightarrow> (u8 list \<times> nat) outcome" where
  "input_text_from_stdin key c input n = (case input_text_loop key c input 0 n of None \<Rightarrow> Inl Spins | Some r \<Rightarrow> r)"

definition LINE_SIZE :: nat where "LINE_SIZE = 80"

section \<open>The square\<close>

lemma print_space:
  assumes "screen_ok g"
  obtains g' where "printstr ul_x y c c (ascii '' '') g = Inr g'" "fb_step g g'"
    "\<forall>a b. on_screen g a b \<longrightarrow> pixel g' a b = (if unat (a - ul_x) < 8 \<and> unat (b - y) < 16 then c else pixel g a b)"
proof -
  have "printable 0x20" by (simp add: printable_def)
  from printchar_spec [OF assms this, of ul_x y c c]
  obtain g' where g': "printchar ul_x y c c 0x20 g = Inr g'" "fb_step g g'"
    "\<forall>a b. on_screen g a b \<longrightarrow> pixel g' a b = (if unat (a - ul_x) < 8 \<and> unat (b - y) < 16 then c else pixel g a b)"
    by auto
  show thesis by (rule that [of g']) (use g' in \<open>simp_all add: printstr_def ascii_def\<close>)
qed

text \<open>Where round \<open>x\<close> erases; \<open>2 ^ 32\<close> is 96 modulo 400.\<close>

definition erased :: "nat \<Rightarrow> nat" where
  "erased x = (if x < 8 then 88 + x else (x - 8) mod 400)"

lemma round_columns:
  assumes "x < 2 ^ 32"
  shows "(of_nat x - 8) mod 400 + 200 = (200 + of_nat (erased x) :: u32)" "of_nat x mod 400 + 200 = (200 + of_nat (x mod 400) :: u32)"
proof -
  have m: "of_nat n mod 400 = (of_nat (n mod 400) :: u32)" if "n < 2 ^ 32" for n
    using that by (simp add: word_unat_eq_iff unat_mod unat_of_nat take_bit_nat_eq_self le_less_trans [OF mod_less_eq_dividend])
  have "of_nat x - 8 = (of_nat (if x < 8 then 2 ^ 32 - 8 + x else x - 8) :: u32)" by simp
  moreover have "(2 ^ 32 - 8 + x) mod 400 = 88 + x" if "x < 8"
  proof -
    have "2 ^ 32 - 8 + x = (88 + x) + 10737418 * 400" by simp
    then show ?thesis using that unfolding \<open>2 ^ 32 - 8 + x = _\<close> mod_mult_self1 by simp
  qed
  moreover have "(if x < 8 then 2 ^ 32 - 8 + x else x - 8) < 2 ^ 32" using assms by (cases "x < 8") simp_all
  ultimately have "(of_nat x - 8) mod 400 = (of_nat ((if x < 8 then 2 ^ 32 - 8 + x else x - 8) mod 400) :: u32)"
    using m by presburger
  moreover have "(if x < 8 then 2 ^ 32 - 8 + x else x - 8) mod 400 = erased x"
    using \<open>x < 8 \<Longrightarrow> (2 ^ 32 - 8 + x) mod 400 = 88 + x\<close> by (cases "x < 8") (simp_all only: erased_def if_True if_False)
  ultimately have "(of_nat x - 8) mod 400 = (of_nat (erased x) :: u32)" by (simp only:)
  then show "(of_nat x - 8) mod 400 + 200 = (200 + of_nat (erased x) :: u32)" by simp
  show "of_nat x mod 400 + 200 = (200 + of_nat (x mod 400) :: u32)" using m [OF assms] by simp
qed

text \<open>The colours of the columns of the strip, from column 200 of the screen on.\<close>

definition paint_cell :: "nat \<Rightarrow> 'c \<Rightarrow> (nat \<Rightarrow> 'c) \<Rightarrow> nat \<Rightarrow> 'c" where
  "paint_cell k v col = (\<lambda>c. if k \<le> c \<and> c < k + 8 then v else col c)"

text \<open>What the strip shows after the round with counter \<open>x\<close>, where \<open>k\<close> is the place of the square:
  until the first turn is over only the part up to the square is known.\<close>

definition strip_colour :: "'c \<Rightarrow> 'c \<Rightarrow> nat \<Rightarrow> nat \<Rightarrow> 'c" where
  "strip_colour w v k c = (if k < 8 then if c < k + 8 \<or> 400 + k \<le> c then v else w
     else if k \<le> c \<and> c < k + 8 then v else w)"

definition strip_shows :: "'c \<Rightarrow> 'c \<Rightarrow> nat \<Rightarrow> (nat \<Rightarrow> 'c) \<Rightarrow> bool" where
  "strip_shows w v x col \<longleftrightarrow> (\<forall>c<407. 400 \<le> x \<or> c < x mod 400 + 8 \<longrightarrow> col c = strip_colour w v (x mod 400) c)"

lemma strip_first: "strip_shows w v 0 (paint_cell 0 v (paint_cell (erased 0) w col))"
  by (simp add: strip_shows_def paint_cell_def strip_colour_def)

lemma colour_step:
  assumes "k < 400" "c < 407" "k' = (if k = 399 then 0 else Suc k)" "\<not> (k' \<le> c \<and> c < k' + 8)"
    and "e = (if k' < 8 then k' + 392 else k' - 8)"
  shows "e \<le> c \<and> c < e + 8 \<Longrightarrow> strip_colour w v k' c = w"
    "\<not> (e \<le> c \<and> c < e + 8) \<Longrightarrow> strip_colour w v k' c = strip_colour w v k c"
  using assms unfolding strip_colour_def by (auto split: if_splits)

lemma erased_late:
  assumes "8 \<le> x"
  shows "erased x = (if x mod 400 < 8 then x mod 400 + 392 else x mod 400 - 8)"
proof (cases "x mod 400 < 8")
  case True
  define q where "q = x div 400"
  have x: "x = 400 * q + x mod 400" by (simp add: q_def)
  then have "0 < q" using True assms by (cases q) simp_all
  then have "x - 8 = (x mod 400 + 392) + (q - 1) * 400" using x by (cases q) simp_all
  then have "(x - 8) mod 400 = x mod 400 + 392" using True by (simp only: mod_mult_self1) simp
  then show ?thesis using True assms by (simp add: erased_def)
next
  case False
  have "x - 8 = (x mod 400 - 8) + x div 400 * 400" using False by (simp add: mult.commute)
  then have "(x - 8) mod 400 = (x mod 400 - 8) mod 400" by (simp only: mod_mult_self1)
  then show ?thesis using False assms by (simp add: erased_def less_imp_diff_less)
qed

lemma strip_next:
  assumes s: "strip_shows w v x col"
  shows "strip_shows w v (Suc x) (paint_cell (Suc x mod 400) v (paint_cell (erased (Suc x)) w col))"
proof -
  define k where "k = x mod 400"
  define k' where "k' = Suc x mod 400"
  have k: "k < 400" "k' = (if k = 399 then 0 else Suc k)" by (simp_all add: k_def k'_def mod_Suc)
  have x: "x < 400 \<Longrightarrow> k = x" by (simp add: k_def)
  have big: "erased (Suc x) = (if k' < 8 then k' + 392 else k' - 8)" if "8 \<le> Suc x"
    using that erased_late [of "Suc x"] by (simp add: k'_def)
  have "paint_cell k' v (paint_cell (erased (Suc x)) w col) c = strip_colour w v k' c"
    if c: "c < 407" "400 \<le> Suc x \<or> c < k' + 8" for c
  proof (cases "k' \<le> c \<and> c < k' + 8")
    case True
    then show ?thesis by (auto simp: paint_cell_def strip_colour_def)
  next
    case out: False
    show ?thesis
    proof (cases "Suc x < 8")
      case True
      then have "k = x" "k' = Suc x" using x k by auto
      then have "c < k + 8" "\<not> erased (Suc x) \<le> c" using c out True by (auto simp: erased_def)
      moreover from this have "col c = strip_colour w v k c" using s c(1) by (simp add: strip_shows_def k_def)
      ultimately show ?thesis using out True \<open>k = x\<close> \<open>k' = Suc x\<close> c by (auto simp: paint_cell_def strip_colour_def)
    next
      case False
      have "400 \<le> x \<or> c < k + 8" using c out x k by (cases "x < 400") (auto split: if_splits)
      then have "col c = strip_colour w v k c" using s c(1) unfolding strip_shows_def k_def by blast
      then show ?thesis
        using colour_step [OF k(1) c(1) k(2) out big, of w v] False out by (auto simp: paint_cell_def)
    qed
  qed
  then show ?thesis by (simp add: strip_shows_def k'_def)
qed

text \<open>The same on the screen.\<close>

lemma cell_column:
  fixes a :: u32
  assumes "k < 400"
  shows "unat (a - (200 + of_nat k)) < 8 \<longleftrightarrow> k \<le> unat (a - 200) \<and> unat (a - 200) < k + 8"
proof -
  have k: "unat (of_nat k :: u32) = k" using assms by (simp add: unat_of_nat take_bit_nat_eq_self)
  have lt: "unat (a - 200) < 2 ^ 32" using unsigned_less [of "a - 200", where ?'a = nat] by simp
  have "a - (200 + of_nat k) = (a - 200) - of_nat k" by simp
  moreover have "unat ((a - 200) - of_nat k) = (if k \<le> unat (a - 200) then unat (a - 200) - k else unat (a - 200) + 2 ^ 32 - k)"
    unfolding unat_sub_if' k by simp
  ultimately have "unat (a - (200 + of_nat k)) = (if k \<le> unat (a - 200) then unat (a - 200) - k else unat (a - 200) + 2 ^ 32 - k)"
    by metis
  then show ?thesis using assms lt by (auto split: if_splits)
qed

definition strip_col :: "'z screen_scheme \<Rightarrow> u32 \<Rightarrow> nat \<Rightarrow> pix_format" where
  "strip_col g b c = pixel g (200 + of_nat c) b"

lemma stihlt_screen [simp]:
  "screen_ok (stihlt g) = screen_ok g" "on_screen (stihlt g) a b = on_screen g a b" "pixel (stihlt g) a b = pixel g a b"
  by (simp_all add: stihlt_def io_sti_def screen_ok_def line_width_def scan_lines_def on_screen_def pixel_def dot_index_def)

lemma erased_less: "erased x < 400"
  by (simp add: erased_def)

lemma shikaku_round_spec:
  assumes g: "screen_ok g" and x: "x < 2 ^ 32"
  obtains g' where "shikaku_round y color (of_nat x) g = Inr (of_nat (Suc x), g')" "screen_ok g'"
    "\<forall>a b. on_screen g' a b = on_screen g a b"
    "\<forall>a b. on_screen g a b \<longrightarrow> pixel g' a b = (if unat (b - y) < 16
       then paint_cell (x mod 400) color (paint_cell (erased x) pix_white (\<lambda>_. pixel g a b)) (unat (a - 200)) else pixel g a b)"
proof -
  note at = round_columns [OF x]
  obtain g1 where 1: "printstr (200 + of_nat (erased x)) y pix_white pix_white (ascii '' '') g = Inr g1" "fb_step g g1"
    "\<forall>a b. on_screen g a b \<longrightarrow> pixel g1 a b = (if unat (a - (200 + of_nat (erased x))) < 8 \<and> unat (b - y) < 16 then pix_white else pixel g a b)"
    by (rule print_space [OF g])
  note s1 = fb_step_geometry [OF 1(2)]
  have "screen_ok g1" using g by (simp add: s1)
  then obtain g2 where 2: "printstr (200 + of_nat (x mod 400)) y color color (ascii '' '') g1 = Inr g2" "fb_step g1 g2"
    "\<forall>a b. on_screen g1 a b \<longrightarrow> pixel g2 a b = (if unat (a - (200 + of_nat (x mod 400))) < 8 \<and> unat (b - y) < 16 then color else pixel g1 a b)"
    by (rule print_space)
  note s2 = fb_step_geometry [OF 2(2)]
  have cells: "unat (a - (200 + of_nat (erased x))) < 8 \<longleftrightarrow> erased x \<le> unat (a - 200) \<and> unat (a - 200) < erased x + 8"
    "unat (a - (200 + of_nat (x mod 400))) < 8 \<longleftrightarrow> x mod 400 \<le> unat (a - 200) \<and> unat (a - 200) < x mod 400 + 8" for a :: u32
    by (rule cell_column, simp add: erased_less)+
  show thesis
  proof (rule that)
    show "shikaku_round y color (of_nat x) g = Inr (of_nat (Suc x), stihlt g2)"
      unfolding shikaku_round_def at 1(1) and_then.simps 2(1) Let_def by (simp add: add.commute)
    show "\<forall>a b. on_screen g a b \<longrightarrow> pixel (stihlt g2) a b = (if unat (b - y) < 16
       then paint_cell (x mod 400) color (paint_cell (erased x) pix_white (\<lambda>_. pixel g a b)) (unat (a - 200)) else pixel g a b)"
      using 1(3) 2(3) unfolding cells by (simp add: s1 paint_cell_def)
  qed (use g in \<open>simp_all add: s1 s2\<close>)
qed

text \<open>A round on the strip of lines \<open>y\<close> to \<open>y + 15\<close>: columns 200 to 606 of the screen.\<close>

definition strip_wide :: "'z screen_scheme \<Rightarrow> u32 \<Rightarrow> bool" where
  "strip_wide g b \<longleftrightarrow> (\<forall>c<407. on_screen g (200 + of_nat c) b)"

lemma strip_round:
  assumes px: "\<forall>a b. on_screen g a b \<longrightarrow> pixel g' a b = (if unat (b - y) < 16
       then paint_cell (x mod 400) color (paint_cell (erased x) pix_white (\<lambda>_. pixel g a b)) (unat (a - 200)) else pixel g a b)"
    and b: "unat (b - y) < 16" "strip_wide g b"
  shows "strip_shows w v z (strip_col g' b) = strip_shows w v z (paint_cell (x mod 400) color (paint_cell (erased x) pix_white (strip_col g b)))"
proof -
  have "strip_col g' b c = paint_cell (x mod 400) color (paint_cell (erased x) pix_white (strip_col g b)) c" if "c < 407" for c
  proof -
    have "unat (200 + of_nat c - 200 :: u32) = c" using that by (simp add: unat_of_nat take_bit_nat_eq_self)
    moreover have "on_screen g (200 + of_nat c) b" using b(2) that by (simp add: strip_wide_def)
    ultimately show ?thesis using px b(1) by (simp add: strip_col_def paint_cell_def)
  qed
  then show ?thesis by (simp add: strip_shows_def)
qed

lemma cell_outside: "407 \<le> c \<Longrightarrow> k < 400 \<Longrightarrow> paint_cell k v col c = col c"
  by (simp add: paint_cell_def)

lemma round_outside: "407 \<le> c \<Longrightarrow> paint_cell (x mod 400) v (paint_cell (erased x) w col) c = col c"
  by (simp add: cell_outside erased_less)

lemma shikaku_rounds_spec:
  assumes g: "screen_ok g" and x: "x < 2 ^ 32"
  shows "\<exists>g'. shikaku_rounds (Suc x) y color g = Inr (of_nat (Suc x), g') \<and> screen_ok g' \<and>
    (\<forall>a b. on_screen g' a b = on_screen g a b) \<and>
    (\<forall>a b. on_screen g a b \<longrightarrow> \<not> (unat (b - y) < 16 \<and> unat (a - 200) < 407) \<longrightarrow> pixel g' a b = pixel g a b) \<and>
    (\<forall>b. unat (b - y) < 16 \<longrightarrow> strip_wide g b \<longrightarrow> strip_shows pix_white color x (strip_col g' b))"
  using x
proof (induction x)
  case 0
  obtain g' where 1: "shikaku_round y color (of_nat 0) g = Inr (of_nat (Suc 0), g')" "screen_ok g'"
    "\<forall>a b. on_screen g' a b = on_screen g a b"
    "\<forall>a b. on_screen g a b \<longrightarrow> pixel g' a b = (if unat (b - y) < 16
       then paint_cell (0 mod 400) color (paint_cell (erased 0) pix_white (\<lambda>_. pixel g a b)) (unat (a - 200)) else pixel g a b)"
    by (rule shikaku_round_spec [OF g, of 0]) simp
  have "strip_shows pix_white color 0 (strip_col g' b)" if "unat (b - y) < 16" "strip_wide g b" for b
    using strip_round [OF 1(4) that] strip_first by simp
  then show ?case using 1 round_outside [of _ 0] by (intro exI [of _ g']) (auto simp: not_less)
next
  case (Suc x)
  then obtain g1 where IH: "shikaku_rounds (Suc x) y color g = Inr (of_nat (Suc x), g1)" "screen_ok g1"
    "\<forall>a b. on_screen g1 a b = on_screen g a b"
    "\<forall>a b. on_screen g a b \<longrightarrow> \<not> (unat (b - y) < 16 \<and> unat (a - 200) < 407) \<longrightarrow> pixel g1 a b = pixel g a b"
    "\<forall>b. unat (b - y) < 16 \<longrightarrow> strip_wide g b \<longrightarrow> strip_shows pix_white color x (strip_col g1 b)"
    by auto
  obtain g' where 1: "shikaku_round y color (of_nat (Suc x)) g1 = Inr (of_nat (Suc (Suc x)), g')" "screen_ok g'"
    "\<forall>a b. on_screen g' a b = on_screen g1 a b"
    "\<forall>a b. on_screen g1 a b \<longrightarrow> pixel g' a b = (if unat (b - y) < 16
       then paint_cell (Suc x mod 400) color (paint_cell (erased (Suc x)) pix_white (\<lambda>_. pixel g1 a b)) (unat (a - 200)) else pixel g1 a b)"
    by (rule shikaku_round_spec [OF IH(2) Suc.prems])
  have "strip_shows pix_white color (Suc x) (strip_col g' b)" if b: "unat (b - y) < 16" "strip_wide g b" for b
  proof -
    have wide: "strip_wide g1 b" using b(2) IH(3) by (simp add: strip_wide_def)
    have "strip_shows pix_white color x (strip_col g1 b)" using IH(5) b by blast
    then show ?thesis unfolding strip_round [OF 1(4) b(1) wide] by (rule strip_next)
  qed
  moreover have "pixel g' a b = pixel g a b" if "on_screen g a b" "\<not> (unat (b - y) < 16 \<and> unat (a - 200) < 407)" for a b
  proof -
    have "on_screen g1 a b" using that(1) IH(3) by blast
    then have "pixel g' a b = pixel g1 a b"
      using that(2) 1(4) round_outside [of "unat (a - 200)" "Suc x" color pix_white] by (cases "unat (b - y) < 16") (simp_all add: not_less)
    also have "\<dots> = pixel g a b" by (rule IH(4) [rule_format, OF that])
    finally show ?thesis .
  qed
  moreover have "shikaku_rounds (Suc (Suc x)) y color g = Inr (of_nat (Suc (Suc x)), g')"
    unfolding shikaku_rounds.simps(2) [of "Suc x"] IH(1) and_then.simps prod.case by (rule 1(1))
  ultimately show ?case using 1(2,3) IH(3) by blast
qed

lemma shikaku_round_returns: "\<exists>x' g'. shikaku_round y color x g = Inr (x', g')"
proof -
  have "\<forall>c\<in>set (ascii '' ''). printable c" by (simp add: ascii_def printable_def)
  note p = printstr_from_returns [OF this, of 0, folded printstr_def]
  obtain g1 where 1: "printstr ((x - 8) mod 400 + 200) y pix_white pix_white (ascii '' '') g = Inr g1" using p by blast
  obtain g2 where "printstr (x mod 400 + 200) y color color (ascii '' '') g1 = Inr g2" using p by blast
  with 1 show ?thesis by (simp add: shikaku_round_def)
qed

lemma shikaku_loop_never: "shikaku_loop y color x g = None"
proof -
  have "False" if ret: "shikaku_loop y color x g = Some r" for r
  proof (rule shikaku_loop.raw_induct [where P = "\<lambda>_ _ _ _ _. False", of "(((y, color), x), g)" r, unfolded prod.case, OF _ ret])
    fix f y color x g r
    assume IH: "\<And>y color x g r. f y color x g = Some r \<Longrightarrow> False"
      and eq: "(case shikaku_round y color x (g :: 'a screen_scheme) of Inl e \<Rightarrow> Some (Inl e) | Inr (x, g) \<Rightarrow> f y color x g) = Some r"
    obtain x' g' where "shikaku_round y color x g = Inr (x', g')" using shikaku_round_returns by blast
    then show False using eq IH by simp
  qed
  then show ?thesis by (cases "shikaku_loop y color x g") blast+
qed

section \<open>A line\<close>

text \<open>The nonzero values of \<open>key\<close> from the \<open>n\<close>-th wake-up on are \<open>ks\<close>, up to \<open>n'\<close>.\<close>

fun delivers :: "(nat \<Rightarrow> u8) \<Rightarrow> nat \<Rightarrow> u8 list \<Rightarrow> nat \<Rightarrow> bool" where
  "delivers key n [] n' \<longleftrightarrow> n' = n"
| "delivers key n (k # ks) n' \<longleftrightarrow>
     (\<exists>m. (\<forall>i<m. key (n + i) = 0) \<and> key (n + m) = k \<and> k \<noteq> 0 \<and> delivers key (n + m + 1) ks n')"

lemma wait_serial_input_next:
  "\<forall>i<m. key (n + i) = 0 \<Longrightarrow> key (n + m) \<noteq> 0 \<Longrightarrow> wait_serial_input key n = Some (key (n + m), n + m + 1)"
proof (induction m arbitrary: n)
  case 0
  then show ?case by (simp add: wait_serial_input.simps [of key n])
next
  case (Suc m)
  have "key n = 0" using Suc.prems(1) [rule_format, of 0] by simp
  moreover have "wait_serial_input key (n + 1) = Some (key (n + 1 + m), n + 1 + m + 1)"
    using Suc.prems by (intro Suc.IH) auto
  ultimately show ?case by (simp add: wait_serial_input.simps [of key n])
qed

definition line_end :: "u8 \<Rightarrow> bool" where
  "line_end c \<longleftrightarrow> c = 0x0d \<or> c = 0x0a"

lemma input_text_loop_step:
  "line_end c \<Longrightarrow> input_text_loop key c input i n = Some (Inr (input, n))"
  "\<not> line_end c \<Longrightarrow> wait_serial_input key n = Some (k, n1) \<Longrightarrow> input_text_loop key c input i n =
     (if i < length input then input_text_loop key k (input[i := k]) (i + 1) n1 else Some (Inl Out_of_bounds))"
  by (auto simp: input_text_loop.simps [of key c] line_end_def array_set_def)

lemma input_text_loop_eq:
  assumes "delivers key n (cs @ [e]) n'" "line_end e" "\<forall>c\<in>set cs. \<not> line_end c" "\<not> line_end c" "i \<le> length input"
  shows "input_text_loop key c input i n = Some (if i + length cs < length input
    then Inr (take i input @ cs @ e # drop (Suc (i + length cs)) input, n') else Inl Out_of_bounds)"
  using assms
proof (induction cs arbitrary: n c input i)
  case Nil
  then obtain m where m: "\<forall>j<m. key (n + j) = 0" "key (n + m) = e" "e \<noteq> 0" "n' = n + m + 1" by auto
  have w: "wait_serial_input key n = Some (e, n')" using wait_serial_input_next [OF m(1)] m by simp
  show ?case using input_text_loop_step(2) [OF Nil.prems(4) w, of input i] input_text_loop_step(1) [OF Nil.prems(2)]
    by (simp add: upd_conv_take_nth_drop)
next
  case (Cons k ks)
  then obtain m where m: "\<forall>j<m. key (n + j) = 0" "key (n + m) = k" "k \<noteq> 0" "delivers key (n + m + 1) (ks @ [e]) n'" by auto
  have w: "wait_serial_input key n = Some (k, n + m + 1)" using wait_serial_input_next [OF m(1)] m by simp
  note step = input_text_loop_step(2) [OF Cons.prems(4) w, of input i]
  show ?case
  proof (cases "i < length input")
    case True
    have "input_text_loop key k (input[i := k]) (i + 1) (n + m + 1) = Some (if i + 1 + length ks < length input
        then Inr (take (i + 1) (input[i := k]) @ ks @ e # drop (Suc (i + 1 + length ks)) (input[i := k]), n') else Inl Out_of_bounds)"
      using Cons.IH [OF m(4) Cons.prems(2), of k "i + 1" "input[i := k]"] Cons.prems(3) True by simp
    then show ?thesis using step True by (simp add: take_Suc_conv_app_nth)
  qed (use step in simp)
qed

section \<open>Properties\<close>

text \<open>
  C35. The tasks never return, and the square moves: from the second turn on, when it is at least
  its own width away from the left end, the strip shows the square in its colour at column
  \<open>200 + x mod 400\<close> and white everywhere else, and nothing outside the strip has been touched,
  whatever the screen showed before.
\<close>

theorem square_moves:
  assumes "screen_ok g" "400 \<le> x" "x < 2 ^ 32" "8 \<le> x mod 400" "\<forall>b. unat (b - y) < 16 \<longrightarrow> strip_wide g b"
  shows "task_shikaku_aka g = Inl Spins \<and> task_shikaku_ao g = Inl Spins \<and>
    (\<exists>g'. shikaku_rounds (Suc x) y color g = Inr (of_nat (Suc x), g') \<and>
      (\<forall>a b. on_screen g a b \<longrightarrow> pixel g' a b =
        (if unat (b - y) < 16 \<and> unat (a - 200) < 407
         then if unat (a - (200 + of_nat (x mod 400))) < 8 then color else pix_white
         else pixel g a b)))"
proof -
  obtain g' where g': "shikaku_rounds (Suc x) y color g = Inr (of_nat (Suc x), g')"
    "\<forall>a b. on_screen g a b \<longrightarrow> \<not> (unat (b - y) < 16 \<and> unat (a - 200) < 407) \<longrightarrow> pixel g' a b = pixel g a b"
    "\<forall>b. unat (b - y) < 16 \<longrightarrow> strip_wide g b \<longrightarrow> strip_shows pix_white color x (strip_col g' b)"
    using shikaku_rounds_spec [OF assms(1,3), of y color] by blast
  have "pixel g' a b = (if unat (a - (200 + of_nat (x mod 400))) < 8 then color else pix_white)"
    if "unat (b - y) < 16" "unat (a - 200) < 407" for a b
  proof -
    have "strip_shows pix_white color x (strip_col g' b)" using g'(3) assms(5) that(1) by blast
    then have "strip_col g' b (unat (a - 200)) = strip_colour pix_white color (x mod 400) (unat (a - 200))"
      using assms(2) that(2) by (simp add: strip_shows_def)
    moreover have "200 + of_nat (unat (a - 200)) = a" by simp
    moreover have "unat (a - (200 + of_nat (x mod 400))) < 8 \<longleftrightarrow> x mod 400 \<le> unat (a - 200) \<and> unat (a - 200) < x mod 400 + 8"
      by (rule cell_column) simp
    ultimately show ?thesis using assms(4) by (simp only: strip_col_def strip_colour_def) auto
  qed
  then have "\<forall>a b. on_screen g a b \<longrightarrow> pixel g' a b = (if unat (b - y) < 16 \<and> unat (a - 200) < 407
      then if unat (a - (200 + of_nat (x mod 400))) < 8 then color else pix_white else pixel g a b)"
    using g'(2) by auto
  moreover have "task_shikaku_aka g = Inl Spins" "task_shikaku_ao g = Inl Spins"
    by (simp_all add: task_shikaku_aka_def task_shikaku_ao_def shikaku_loop_never)
  ultimately show ?thesis using g'(1) by blast
qed

theorem square_moves_witness:
  "\<exists>g'. shikaku_rounds 501 80 pix_red screen0 = Inr (501, g') \<and> pixel g' 303 90 = pix_red \<and> pixel g' 310 90 = pix_white"
proof -
  have wide: "\<forall>b. unat (b - 80 :: u32) < 16 \<longrightarrow> strip_wide screen0 b"
    unfolding strip_wide_def on_screen_def screen0_fields
  proof (intro allI impI conjI)
    fix b :: u32 and c :: nat assume b: "unat (b - 80) < 16"
    have "unat (b - 80 + 80) = unat (b - 80) + unat (80 :: u32)" by (rule unat_add_no_wrap) (use b in simp)
    then show "b < 480" using b by (simp add: word_less_nat_alt)
  next
    fix c :: nat assume "c < 407"
    then have "unat (200 + of_nat c :: u32) = 200 + c" by (simp add: unat_word_ariths unat_of_nat take_bit_nat_eq_self)
    then show "200 + of_nat c < (640 :: u32)" using \<open>c < 407\<close> by (simp add: word_less_nat_alt)
  qed
  have on: "on_screen screen0 303 90" "on_screen screen0 310 90" by (simp_all add: on_screen_def screen0_fields)
  obtain g' where g': "shikaku_rounds 501 80 pix_red screen0 = Inr (501, g')"
    "\<forall>a b. on_screen screen0 a b \<longrightarrow> pixel g' a b = (if unat (b - 80) < 16 \<and> unat (a - 200) < 407
       then if unat (a - (200 + of_nat (500 mod 400))) < 8 then pix_red else pix_white else pixel screen0 a b)"
    using square_moves [OF screen0_ok(1), of 500 80 pix_red] wide by auto
  show ?thesis using g'(1) g'(2) [rule_format, OF on(1)] g'(2) [rule_format, OF on(2)] by (intro exI [of _ g']) simp
qed

text \<open>
  C37. Line input: the bytes up to a carriage return or a newline are stored, with it, from the start
  of the buffer on; a line of 80 bytes or more leaves the buffer, there is no check. When the
  uninitialised \<open>c\<close> happens to be one of the two, nothing is read.
\<close>

theorem console_line:
  assumes "delivers key n (cs @ [e]) n'" "line_end e" "\<forall>c\<in>set cs. \<not> line_end c" "length input = LINE_SIZE"
  shows "input_text_from_stdin key c input n =
    (if line_end c then Inr (input, n)
     else if length cs < LINE_SIZE then Inr (cs @ e # drop (Suc (length cs)) input, n') else Inl Out_of_bounds)"
proof (cases "line_end c")
  case True
  then show ?thesis by (simp add: input_text_from_stdin_def input_text_loop_step(1))
next
  case False
  from input_text_loop_eq [OF assms(1-3) this, of 0 input] assms(4) False
  show ?thesis by (simp add: input_text_from_stdin_def)
qed

text \<open>\<open>ls\<close> and return, with a wake-up by the timer between the keys.\<close>

definition demo_keys :: "nat \<Rightarrow> u8" where
  "demo_keys n = (if n = 1 then 0x6c else if n = 2 then 0x73 else if n = 4 then 0x0d else 0)"

theorem console_line_witness:
  "input_text_from_stdin demo_keys 1 (replicate 80 0) 0 = Inr ([0x6c, 0x73, 0x0d] @ replicate 77 0, 5)"
proof -
  have "delivers demo_keys 3 [0x0d] 5"
    unfolding delivers.simps by (intro exI [of _ "1 :: nat"] conjI) (simp_all add: demo_keys_def)
  then have "delivers demo_keys 2 [0x73, 0x0d] 5"
    unfolding delivers.simps(2) [of demo_keys 2] by (intro exI [of _ "0 :: nat"] conjI) (simp_all add: demo_keys_def)
  then have "delivers demo_keys 0 ([0x6c, 0x73] @ [0x0d]) 5"
    unfolding append.simps delivers.simps(2) [of demo_keys 0]
    by (intro exI [of _ "1 :: nat"] conjI) (simp_all add: demo_keys_def flip: numeral_2_eq_2 del: delivers.simps)
  from console_line [OF this, of "replicate 80 0" 1] show ?thesis by (simp add: line_end_def LINE_SIZE_def)
qed

end
