(* ===== verification/Kernel.thy ===== *)
theory Kernel
  imports Ext2 Handlers Pipe Fork Heap_Client Paging
begin

text \<open>
  kernel/kernel.c: the start of the kernel and the demonstration threads. The addresses the linker
  chooses and the hardware are the fields of a \<open>board\<close>. Where a function waits, the processor goes on
  with another thread: such a function is cut after the call, and the second part is what its thread
  does when it is resumed.
\<close>

section \<open>State and surroundings\<close>

record 'd kernel = "'d ext2" +
  s_global :: int

text \<open>The functions that are started as threads.\<close>

datatype task = Init | Shikaku_ao | Check_ext2

record 'd board =
  bss_start :: u64
  bss_end :: u64
  kheap_start :: u64
  handler_at :: "handler \<Rightarrow> u64"
  pci_ports :: ports
  pci_junk :: pci_config_space
  adapter :: "'d hba"
  sector_pool :: u64
  thread_exec_at :: u64
  task_at :: "task \<Rightarrow> u64"

section \<open>Start\<close>

text \<open>
  \<open>init_bss\<close> clears the bytes of \<open>.bss\<close>; the variables of the model that lie there (all without an
  initialiser, or with 0) become 0 with them. \<open>freep\<close>, \<open>tid_index_dict\<close> and \<open>empty_thread\<close> are in
  \<open>.data\<close>.
\<close>

definition zero_entry :: semtable_entry where
  "zero_entry = \<lparr>semstate = 0, semcount = 0, semqueue = \<lparr>qs_head = 0, qs_num = 0, qs_que = replicate NSEMQUEUE 0\<rparr>\<rparr>"

definition clear_bss :: "u64 \<Rightarrow> u64 \<Rightarrow> ('d, 'z) kernel_scheme \<Rightarrow> ('d, 'z) kernel_scheme" where
  "clear_bss lo hi s =
     s\<lparr>bytes := init_bss (bytes s) lo hi,
       hdr := (hdr s)(base_at s := \<lparr>hnext = 0, hsize = 0\<rparr>), kheap := 0,
       fb_size := 0, x_axis := 0, y_axis := 0, ppsl := 0, gpd := 0, comport := 0,
       threads := replicate THREAD_NUM 0, cur_thread_index := 0, tid_global := 0,
       tick := 0, timer_period := 0, previous_interrupt := 0, semtable := replicate NSEM zero_entry,
       abar := 0, cmd_tbl_base := 0,
       block_size := 0, s_first_ino := 0, s_inodes_per_group := 0, bg_inode_table := 0, s_global := 0\<rparr>"

text \<open>Up to the search for devices.\<close>

definition boot_devices ::
  "'d board \<Rightarrow> video_info \<Rightarrow> ('d, 'z) kernel_scheme \<Rightarrow> ('d, 'z) kernel_scheme outcome" where
  "boot_devices b vinfo s =
     (let s = s\<lparr>tick := 0\<rparr>;
          s = clear_bss (bss_start b) (bss_end b) s;
          s = init_graphics vinfo s;
          s = init_serial (gpd s) s;
          s = init_gdt s;
          s = init_kpaging s;
          s = init_idt (handler_at b) s;
          s = init_pic s;
          s = say (''Serial ok'' @ CRLF) s;
          s = paint_background pix_white s;
          s = init_kheap (kheap_start b) s;
          s = say (''heap setting OK'' @ LF) s
      in and_then (printstr 0 0 pix_black pix_white (ascii ''minOSv2 - A minimal operating system version 2'') s) (\<lambda>s.
         Inr (check_all_buses (pci_ports b) (pci_junk b) s)))"

text \<open>The first thread. \<open>ra\<close> is the return address of the call of \<open>switch_context_first\<close>, to which
  nothing ever returns.\<close>

definition launch :: "'d board \<Rightarrow> u64 \<Rightarrow> ('d, 'z) kernel_scheme \<Rightarrow> ('d, 'z) kernel_scheme outcome" where
  "launch b ra s =
     (let s = threads_init s;
          s = schedule_period_init 50 s
      in and_then (create_thread (thread_exec_at b) (task_at b Init) 0 0 s) (\<lambda>(tid, s).
         switch_context_first ra tid s))"

definition entry_point ::
  "'d board \<Rightarrow> video_info \<Rightarrow> u64 \<Rightarrow> ('d, 'z) kernel_scheme \<Rightarrow> ('d, 'z) kernel_scheme outcome" where
  "entry_point b vinfo ra s =
     and_then (boot_devices b vinfo s) (\<lambda>s.
     and_then (check_ahci (adapter b) (sector_pool b) s) (\<lambda>s.
     launch b ra s))"

section \<open>Threads\<close>

definition say_result :: "string \<Rightarrow> int \<Rightarrow> 'z sys_scheme \<Rightarrow> 'z sys_scheme" where
  "say_result msg success s = (if success = 0 then say msg s else s)"

definition forloop :: "u64 \<Rightarrow> ('d, 'z) kernel_scheme \<Rightarrow> ('d, 'z) kernel_scheme outcome" where
  "forloop ra s =
     (let s = fold (\<lambda>i. say_num ''forloop: '' (of_nat i)) [0..<0x200] s
      in and_then (signal_sem ra (s_global s) s) (\<lambda>(success, s).
         Inr (say_result (''signal failed'' @ LF) success s)))"

text \<open>\<open>jikken\<close> up to its \<open>wait\<close>; \<open>None\<close> when it has returned before.\<close>

definition jikken :: "u64 \<Rightarrow> ('d, 'z) kernel_scheme \<Rightarrow> (int option \<times> ('d, 'z) kernel_scheme) outcome" where
  "jikken ra s =
     and_then (create_sem 0 s) (\<lambda>(sid, s).
     let s = s\<lparr>s_global := sid\<rparr>
     in if s_global s < 0 then Inr (None, say (''create_sem failed'' @ LF) s)
        else
          let s = say_num ''s_global: '' (word_of_int (s_global s)) s
          in and_then (wait_sem ra (s_global s) s) (\<lambda>(success, s). Inr (Some success, s)))"

definition jikken_resumed ::
  "'d board \<Rightarrow> int \<Rightarrow> ('d, 'z) kernel_scheme \<Rightarrow> ('d, 'z) kernel_scheme outcome" where
  "jikken_resumed b success s =
     (if success = 0 then Inr (say (''wait failed'' @ LF) s)
      else foreach (\<lambda>f s. and_then (create_thread (thread_exec_at b) (task_at b f) 0 0 s) (\<lambda>(tid, s). Inr s))
        [Shikaku_ao, Shikaku_ao, Check_ext2, Shikaku_ao, Shikaku_ao, Shikaku_ao] s)"

text \<open>The child writes; \<open>msg\<close> is the address of its string. The second part follows \<open>signalp\<close>.\<close>

definition do_child :: "u64 \<Rightarrow> u64 \<Rightarrow> 'z sys_scheme \<Rightarrow> (int \<times> 'z sys_scheme) outcome" where
  "do_child ra msg s =
     (let s = say (''func do_child()'' @ LF) s
      in and_then (cur_thread s) (\<lambda>(t, s).
         and_then (pwrite msg 32 s) (\<lambda>(r, s).
         signalp ra (sid_mem s (t_sid_ptr (thr_mem s t))) s)))"

definition child_resumed :: "int \<Rightarrow> 'z sys_scheme \<Rightarrow> 'z sys_scheme" where
  "child_resumed success s =
     (if success = 0 then say (''signal failed'' @ LF) s else say (''signal success'' @ LF) s)"

text \<open>The parent reads into \<open>buf\<close>, 32 bytes on its stack, which it prints as a string.\<close>

definition do_parent :: "u64 \<Rightarrow> 'z sys_scheme \<Rightarrow> (int \<times> 'z sys_scheme) outcome" where
  "do_parent ra s =
     (let s = say (''func do_parent()'' @ LF) s
      in and_then (cur_thread s) (\<lambda>(t, s).
         waitp ra (sid_mem s (t_sid_ptr (thr_mem s t))) s))"

definition parent_resumed :: "u64 \<Rightarrow> int \<Rightarrow> 'z sys_scheme \<Rightarrow> 'z sys_scheme outcome" where
  "parent_resumed buf success s =
     (if success = 0 then Inr (say (''wait failed'' @ LF) s)
      else
        and_then (pread buf 32 s) (\<lambda>(r, s).
        and_then (heap_call (strlen_from (\<lambda>i. bytes s (buf + of_nat i)) 0)) (\<lambda>n.
        let s = say_mem buf n s
        in Inr (say (''receive OK'' @ LF) s))))"

text \<open>\<open>init\<close> up to the return of \<open>switch_fork\<close> in the child, and from there on for child and parent.\<close>

definition init_thread :: "'d board \<Rightarrow> u64 \<Rightarrow> 'z sys_scheme \<Rightarrow> ('z sys_scheme \<times> int) outcome" where
  "init_thread b ra s =
     and_then (cur_thread s) (\<lambda>(curt, s).
     and_then (gen_pipe curt s) (\<lambda>(success, s).
     if success = 0 then halt
     else fork_thread (thread_exec_at b) ra s))"

definition init_forked ::
  "u64 \<Rightarrow> u64 \<Rightarrow> int \<Rightarrow> int \<Rightarrow> 'z sys_scheme \<Rightarrow> (bool \<times> int \<times> 'z sys_scheme) outcome" where
  "init_forked ra msg index child_tid s =
     and_then (fork_return index child_tid s) (\<lambda>(tid, s).
     let s = say (''fork thread end'' @ LF) s
     in if tid = - 1 then and_then (do_child ra msg s) (\<lambda>(r, s). Inr (True, r, s))
        else and_then (do_parent ra s) (\<lambda>(r, s). Inr (False, r, s)))"

end
