(* ===== verification/Kernel_Boot.thy ===== *)
theory Kernel_Boot
  imports Kernel Ahci_Disk
begin

text \<open>
  What holds when the kernel has booted, and when it never does: the descriptor tables, the page
  tables, the heap and the screen are set up one after the other in the same memory.
\<close>

section \<open>Who writes where\<close>

lemma kpg_outside:
  assumes "unat x < 0x300000"
  shows "kpg m x = m x"
proof -
  have ms: "memset m 0x300000 0 0x405000 x = m x"
    using assms by (simp add: memset_eq word_less_nat_alt unat_sub_if')
  have f: "fill64 f t n m' x = m' x" if "0x300000 \<le> unat t" "unat t + 8 * n \<le> 2 ^ 64" for f t n and m' :: bytemem
    by (rule fill64_outside [OF that(2)]) (use assms that(1) in simp)
  show ?thesis unfolding kpg_eq by (subst f, simp, simp)+ (rule ms)
qed

lemma put_gate_outside:
  assumes "i < 256" "unat x < 0x10000 \<or> 0x11000 \<le> unat x"
  shows "put_gate i g m x = m x"
proof -
  note a = gate_addr [OF assms(1)]
  have o: "store_le m' p k v x = m' x" if "unat p + k \<le> 0x11000" "0x10000 \<le> unat p" "k < 2 ^ 64" for m' p k and v :: "'a::len word"
    by (rule store_le_outside) (use that assms(2) in auto)
  show ?thesis
    unfolding put_gate_def Let_def store32_def store64_def
    by (subst o, use a assms(1) in simp_all)+
qed

lemma init_idt_outside:
  assumes "unat x < 0x10000 \<or> 0x11000 \<le> unat x"
  shows "bytes (init_idt addr s) x = bytes s x"
proof -
  have "fold (\<lambda>(i, g). put_gate i g) ps m x = m x" if "\<forall>p\<in>set ps. fst p < 256" for ps and m :: bytemem
    using that by (induction ps arbitrary: m) (auto simp: put_gate_outside [OF _ assms])
  note f = this
  have "\<forall>p\<in>set (map (\<lambda>(i, h). (i, create_gate_desc (addr h))) idt_table). fst p < 256" by (simp add: idt_table_def)
  moreover have "\<forall>p\<in>set (map (\<lambda>i. (i, z)) [0..<256]). fst p < 256" for z :: gate_desc by (simp del: upt_rec_numeral)
  ultimately show ?thesis
    unfolding init_idt_def Let_def set_idt_def fold_gates(1) fold_gates(2) [of "\<lambda>h. create_gate_desc (addr h)"]
    by (simp add: f del: upt_rec_numeral)
qed

lemma paint_background_fb: "\<exists>f. paint_background c g = g\<lparr>fb := f\<rparr>"
proof -
  have "\<exists>f. paint_upto n c g = g\<lparr>fb := f\<rparr>" for n
  proof (induction n)
    case (Suc n)
    then obtain f where "paint_upto n c g = g\<lparr>fb := f\<rparr>" by blast
    then show ?case by (auto simp: Let_def)
  qed (auto intro: exI [of _ "fb g"])
  then show ?thesis by (simp add: paint_background_def)
qed

section \<open>The booted kernel\<close>

lemma boot_tables:
  assumes "m = bytes (init_idt addr (init_kpaging (init_gdt s)))"
  shows "kpg_tables m" "load64 m gdt = 0" "load64 m (gdt + 8) = 0x00a09a0000000000" "load64 m (gdt + 16) = 0x00a0920000000000"
proof -
  let ?g = "init_gdt s" and ?p = "init_kpaging (init_gdt s)"
  have out: "m x = bytes ?p x" if "unat x < 0x10000 \<or> 0x11000 \<le> unat x" for x
    unfolding assms by (rule init_idt_outside [OF that])
  show "kpg_tables m" by (rule kpg_tables_cong [OF _ init_kpaging_tables(1) [of ?g]]) (use out in simp)
  have low: "m x = bytes ?g x" if "unat x < 0x10000" for x
  proof -
    have "bytes ?p = kpg (bytes ?g)" by (simp add: init_kpaging_def load_pgtable_def kpg_def Let_def)
    then show ?thesis using out kpg_outside [of x "bytes ?g"] that by simp
  qed
  have l: "load64 m a = load64 (bytes ?g) a" if "unat a < 0x1000" for a
  proof -
    have "m (a + of_nat i) = bytes ?g (a + of_nat i)" if "i < 8" for i
    proof (rule low)
      have "unat (a + of_nat i) = unat a + i" using \<open>unat a < 0x1000\<close> that by (intro unat_offset [of a 8]) simp_all
      then show "unat (a + of_nat i) < 0x10000" using \<open>unat a < 0x1000\<close> that by simp
    qed
    then show ?thesis unfolding load64_def by (intro arg_cong [where f = of_nat] load_le_cong) simp
  qed
  have "load64 m 0x80 = load64 (bytes ?g) 0x80" "load64 m 0x88 = load64 (bytes ?g) 0x88" "load64 m 0x90 = load64 (bytes ?g) 0x90"
    by (rule l, simp)+
  then show "load64 m gdt = 0" "load64 m (gdt + 8) = 0x00a09a0000000000" "load64 m (gdt + 16) = 0x00a0920000000000"
    using init_gdt_descriptors [of s] by (simp_all add: gdt_def)
qed

text \<open>Everything after \<open>init_idt\<close> leaves memory and descriptor registers alone.\<close>

definition late_boot :: "('d, 'z) kernel_scheme \<Rightarrow> ('d, 'z) kernel_scheme \<Rightarrow> bool" where
  "late_boot s s' \<longleftrightarrow> s' = s\<lparr>int_flag := int_flag s', port_out := port_out s', fb := fb s', hdr := hdr s', kheap := kheap s',
     out32 := out32 s', abar := abar s'\<rparr>"

lemma late_bootI: "s' = s\<lparr>int_flag := i, port_out := p, fb := f, hdr := h, kheap := k, out32 := w, abar := a\<rparr> \<Longrightarrow> late_boot s s'"
  by (simp add: late_boot_def)

lemma late_boot_trans:
  assumes "late_boot s s'" "late_boot s' s''"
  shows "late_boot s s''"
proof -
  have "s'' = s'\<lparr>int_flag := int_flag s'', port_out := port_out s'', fb := fb s'', hdr := hdr s'', kheap := kheap s'',
     out32 := out32 s'', abar := abar s''\<rparr>" using assms(2) unfolding late_boot_def .
  also have "s' = s\<lparr>int_flag := int_flag s', port_out := port_out s', fb := fb s', hdr := hdr s', kheap := kheap s',
     out32 := out32 s', abar := abar s'\<rparr>" using assms(1) unfolding late_boot_def .
  finally show ?thesis by (intro late_bootI) simp
qed

lemma late_boot_fields:
  assumes "late_boot s s'"
  shows "bytes s' = bytes s" "cr3 s' = cr3 s" "idtr s' = idtr s" "gdtr s' = gdtr s" "seg_cs s' = seg_cs s"
    "base_at s' = base_at s" "freep s' = freep s" "tid_global s' = tid_global s"
proof -
  note e = assms [unfolded late_boot_def]
  show "bytes s' = bytes s" "cr3 s' = cr3 s" "idtr s' = idtr s" "gdtr s' = gdtr s" "seg_cs s' = seg_cs s"
    "base_at s' = base_at s" "freep s' = freep s" "tid_global s' = tid_global s" by (subst e, simp)+
qed

lemma late_boot_steps:
  "late_boot s (init_pic s)" "late_boot s (say msg s)" "late_boot s (paint_background c s)" "late_boot s (init_kheap k s)"
  "fb_step s s' \<Longrightarrow> late_boot s s'"
  "bridge cfg rd \<Longrightarrow> late_boot s (check_all_buses rd junk s)"
proof -
  show "late_boot s (init_pic s)" by (simp add: late_boot_def init_pic_def io_cli_def io_sti_def io_out8_def Let_def)
  show "late_boot s (say msg s)" by (simp add: late_boot_def say_upd)
  obtain f where "paint_background c s = s\<lparr>fb := f\<rparr>" using paint_background_fb by blast
  then show "late_boot s (paint_background c s)" by (simp add: late_boot_def)
  show "late_boot s s'" if st: "fb_step s s'"
  proof -
    obtain f where "s' = s\<lparr>fb := f\<rparr>" using st unfolding fb_step_iff by blast
    then show ?thesis by (simp add: late_boot_def)
  qed
  show "late_boot s (init_kheap k s)"
    by (simp add: late_boot_def init_kheap_def Let_def set_next_def set_size_def)
  show "late_boot s (check_all_buses rd junk s)" if br: "bridge cfg rd"
  proof -
    obtain i p w where "check_all_buses rd junk s = s\<lparr>int_flag := i, port_out := p, out32 := w, abar := abar (check_all_buses rd junk s)\<rparr>"
      using check_all_buses_spec [OF br, of junk s] by blast
    then show ?thesis by (intro late_bootI [where i = i and p = p and f = "fb s" and h = "hdr s" and k = "kheap s" and w = w]) simp
  qed
qed

lemma boot_devices_late:
  fixes s :: "('d, 'z) kernel_scheme"
  assumes br: "bridge cfg (pci_ports b)" and pl: "placed (s\<lparr>kheap := kheap_start b\<rparr>)" "freep s = base_at s"
  obtains s0 s' where "boot_devices b vinfo s = Inr s'"
    "late_boot (init_idt (handler_at b) (init_kpaging (init_gdt s0))) s'" "heap_has s' {} 0x40000"
    "abar s' = (case filter (is_ahci cfg) pci_functions of [] \<Rightarrow> 0 | f # fs \<Rightarrow> ucast (cfg (fun_addr (last (f # fs)) 0x24)))"
    "s0 = (let s = clear_bss (bss_start b) (bss_end b) (s\<lparr>tick := 0\<rparr>); s = init_graphics vinfo s in init_serial (gpd s) s)"
proof -
  define s0 where "s0 = (let s = clear_bss (bss_start b) (bss_end b) (s\<lparr>tick := 0\<rparr>); s = init_graphics vinfo s in init_serial (gpd s) s)"
  have s0_f: "base_at s0 = base_at s" "freep s0 = freep s" "abar s0 = 0"
    by (simp_all add: s0_def Let_def clear_bss_def init_graphics_def init_serial_def io_cli_def io_sti_def io_out8_def)
  define s1 where "s1 = init_idt (handler_at b) (init_kpaging (init_gdt s0))"
  have s1_f: "base_at s1 = base_at s" "freep s1 = freep s" "abar s1 = 0"
    unfolding s1_def using s0_f
    by (simp_all add: init_idt_def set_idt_def init_kpaging_def load_pgtable_def init_gdt_def load_gdt_def intersegment_jump_def
        io_cli_def io_sti_def Let_def)
  define s2 where "s2 = paint_background pix_white (say (''Serial ok'' @ CRLF) (init_pic s1))"
  have l2: "late_boot s1 s2" unfolding s2_def
    by (rule late_boot_trans [OF late_boot_steps(1) late_boot_trans [OF late_boot_steps(2) late_boot_steps(3)]])
  define s3 where "s3 = say (''heap setting OK'' @ LF) (init_kheap (kheap_start b) s2)"
  have "\<forall>c\<in>set (ascii ''minOSv2 - A minimal operating system version 2''). printable c" by code_simp
  from printstr_from_returns [OF this, of 0 0 0 pix_black pix_white s3] obtain s4 where s4:
    "printstr 0 0 pix_black pix_white (ascii ''minOSv2 - A minimal operating system version 2'') s3 = Inr s4" "fb_step s3 s4"
    unfolding printstr_def by blast
  let ?s' = "check_all_buses (pci_ports b) (pci_junk b) s4"
  have run: "boot_devices b vinfo s = Inr ?s'"
    unfolding boot_devices_def Let_def
    using s4(1) unfolding s3_def s2_def s1_def s0_def Let_def by simp
  have hh: "heap_has (init_kheap (kheap_start b) s2) {} 0x40000"
  proof (rule heap_has_boot)
    show "freep s2 = base_at s2" using late_boot_fields [OF l2] s1_f pl(2) by simp
    show "placed (s2\<lparr>kheap := kheap_start b\<rparr>)"
      using pl(1) late_boot_fields [OF l2] s1_f by (simp add: placed_def heap_hi_def)
  qed
  obtain f where f: "s4 = s3\<lparr>fb := f\<rparr>" using s4(2) unfolding fb_step_iff by blast
  have h4: "heap_has s4 {} 0x40000"
    using hh heap_has_cong(1) [of s4 "init_kheap (kheap_start b) s2" "{}"] unfolding f s3_def by (simp add: say_upd)
  have l3: "late_boot s2 s3" unfolding s3_def by (rule late_boot_trans [OF late_boot_steps(4) late_boot_steps(2)])
  have l4: "late_boot s1 s4"
    by (rule late_boot_trans [OF l2 late_boot_trans [OF l3 late_boot_steps(5) [OF s4(2)]]])
  have a4: "abar s4 = 0"
  proof -
    obtain g where "paint_background pix_white (say (''Serial ok'' @ CRLF) (init_pic s1)) = (say (''Serial ok'' @ CRLF) (init_pic s1))\<lparr>fb := g\<rparr>"
      using paint_background_fb by blast
    then show ?thesis using s1_f(3) unfolding f s3_def s2_def
      by (simp add: say_upd init_kheap_def Let_def set_next_def set_size_def init_pic_def io_cli_def io_sti_def io_out8_def)
  qed
  note c = check_all_buses_spec [OF br, of "pci_junk b" s4]
  from c obtain i p w where e: "?s' = s4\<lparr>int_flag := i, port_out := p, out32 := w, abar := abar ?s'\<rparr>" by blast
  have "heap_has ?s' {} 0x40000"
    by (subst e, subst heap_has_cong(1) [of _ s4]) (simp_all add: h4)
  moreover have "late_boot s1 ?s'" by (rule late_boot_trans [OF l4 late_boot_steps(6) [OF br]])
  moreover have "abar ?s' = (case filter (is_ahci cfg) pci_functions of [] \<Rightarrow> 0 | f # fs \<Rightarrow> ucast (cfg (fun_addr (last (f # fs)) 0x24)))"
    using c [THEN conjunct1] unfolding a4 .
  ultimately show thesis using run s0_def unfolding s1_def by (intro that)
qed

text \<open>
  C9. Start-up. With a PCI bridge that answers configuration cycles and a heap area that lies above its base
  header, \<open>entry_point\<close> reaches the search for the disk controller. There every address below 4 GiB is mapped
  to itself and no other address is mapped, every interrupt vector in the table of interrupt.c enters its handler
  in the code segment and the others have no handler, the processor runs in the code segment of the new
  descriptor table, the heap is empty with its 4 MiB in one block, no thread has been created, and \<open>abar\<close> is the
  sixth base address register of the last AHCI controller on the bus or 0 when there is none.
\<close>

theorem boot_devices_ready:
  assumes br: "bridge cfg (pci_ports b)" and pl: "placed (s\<lparr>kheap := kheap_start b\<rparr>)" "freep s = base_at s"
  shows "\<exists>s'. boot_devices b vinfo s = Inr s' \<and>
    (\<forall>v. translate s' v = (if v < 0x100000000 then Some v else None)) \<and>
    (\<forall>v \<in> {0..<256}. dispatch s' v = map_option (\<lambda>h. (8, handler_at b h)) (map_of idt_table v)) \<and>
    seg_cs s' = 8 \<and> gdtr s' = (gdt, 24) \<and> load64 (bytes s') (gdt + 8) = 0x00a09a0000000000 \<and>
    load64 (bytes s') (gdt + 16) = 0x00a0920000000000 \<and>
    heap_has s' {} 0x40000 \<and> tid_global s' = 0 \<and>
    abar s' = (case filter (is_ahci cfg) pci_functions of [] \<Rightarrow> 0 | f # fs \<Rightarrow> ucast (cfg (fun_addr (last (f # fs)) 0x24)))"
proof -
  obtain s0 s' where run: "boot_devices b vinfo s = Inr s'"
    and late: "late_boot (init_idt (handler_at b) (init_kpaging (init_gdt s0))) s'" and heap: "heap_has s' {} 0x40000"
    and ab: "abar s' = (case filter (is_ahci cfg) pci_functions of [] \<Rightarrow> 0 | f # fs \<Rightarrow> ucast (cfg (fun_addr (last (f # fs)) 0x24)))"
    and s0: "s0 = (let s = clear_bss (bss_start b) (bss_end b) (s\<lparr>tick := 0\<rparr>); s = init_graphics vinfo s in init_serial (gpd s) s)"
    by (rule boot_devices_late [OF assms])
  let ?i = "init_idt (handler_at b) (init_kpaging (init_gdt s0))"
  note f = late_boot_fields [OF late] and t = boot_tables [OF refl, of "handler_at b" s0]
  have i: "cr3 ?i = 0x300000" "seg_cs ?i = 8" "gdtr ?i = (gdt, 24)" "tid_global ?i = 0"
    using init_gdt_descriptors [of s0]
    by (simp_all add: s0 gdt_def init_idt_def set_idt_def init_kpaging_def load_pgtable_def init_gdt_def load_gdt_def
        intersegment_jump_def io_cli_def io_sti_def Let_def clear_bss_def init_graphics_def init_serial_def io_out8_def)
  have "translate s' v = (if v < 0x100000000 then Some v else None)" for v
    by (rule translate_tables) (use f t i in simp_all)
  moreover have "dispatch s' v = dispatch ?i v" for v using f by (simp add: dispatch_def)
  ultimately show ?thesis using run heap ab f i t init_idt_dispatch [of _ "handler_at b" "init_kpaging (init_gdt s0)"] by auto
qed

theorem boot_devices_ready_witness:
  "\<forall>(s :: ('d, 'z) kernel_scheme) b vinfo. \<exists>s'.
     boot_devices (b\<lparr>pci_ports := demo_rd, kheap_start := 0x107000\<rparr>) vinfo (s\<lparr>base_at := 0x106000, freep := 0x106000\<rparr>) = Inr s' \<and>
     translate s' 0xfee00000 = Some 0xfee00000 \<and> translate s' 0x100000000 = None \<and>
     dispatch s' 32 = Some (8, handler_at b Timer) \<and> heap_has s' {} 0x40000 \<and> abar s' = 0xfebf1000"
proof (intro allI)
  fix s :: "('d, 'z) kernel_scheme" and b :: "'d board" and vinfo
  let ?s = "s\<lparr>base_at := 0x106000, freep := 0x106000\<rparr>" and ?b = "b\<lparr>pci_ports := demo_rd, kheap_start := 0x107000\<rparr>"
  have "placed (?s\<lparr>kheap := kheap_start ?b\<rparr>)" by (simp add: placed_def heap_hi_def)
  moreover have "bridge demo_cfg (pci_ports ?b)" using demo_bridge by simp
  ultimately obtain s' where s': "boot_devices ?b vinfo ?s = Inr s'"
      "\<forall>v. translate s' v = (if v < 0x100000000 then Some v else None)"
      "\<forall>v \<in> {0..<256}. dispatch s' v = map_option (\<lambda>h. (8, handler_at ?b h)) (map_of idt_table v)" "heap_has s' {} 0x40000"
      "abar s' = (case filter (is_ahci demo_cfg) pci_functions of [] \<Rightarrow> 0 | f # fs \<Rightarrow> ucast (demo_cfg (fun_addr (last (f # fs)) 0x24)))"
    using boot_devices_ready [of demo_cfg ?b ?s vinfo] by auto
  have "abar s' = 0xfebf1000" using s'(5) demo_last_ahci by (auto split: list.splits simp: demo_cfg_def fun_addr_def pci_address_def)
  moreover have "dispatch s' 32 = Some (8, handler_at b Timer)" using s'(3) by (simp add: idt_table_def)
  ultimately show "\<exists>s'. boot_devices ?b vinfo ?s = Inr s' \<and>
     translate s' 0xfee00000 = Some 0xfee00000 \<and> translate s' 0x100000000 = None \<and>
     dispatch s' 32 = Some (8, handler_at b Timer) \<and> heap_has s' {} 0x40000 \<and> abar s' = 0xfebf1000"
    using s' by (intro exI [of _ s']) simp
qed



end
