(* ===== verification/Kernel_Launch.thy ===== *)
theory Kernel_Launch
  imports Kernel Ahci_Disk
begin

text \<open>
  The first thread: what \<open>create_thread\<close> leaves of the caller's processor, and the switch from the boot
  stack into \<open>init\<close>.
\<close>

section \<open>The creator's processor\<close>

text \<open>Whatever the heap looks like, a request that returns has changed headers and \<open>freep\<close> only.\<close>

lemma kmalloc_loop_frame:
  assumes "kmalloc_loop n q p s = Some (r, s')"
  shows "heap_step s s'"
proof -
  have "case y of (r, s') \<Rightarrow> heap_step s s'" if "kmalloc_loop n q p s = Some y" for y
    using that
  proof (rule kmalloc_loop.raw_induct [where P = "\<lambda>n q p s y. case y of (r, s') \<Rightarrow> heap_step s s'", rotated])
    fix loop n q p s y
    assume IH: "\<And>n q p s y. loop n q p s = Some y \<Longrightarrow> case y of (r, s') \<Rightarrow> heap_step s s'"
      and r: "(if n \<le> sz s p then Some (kmalloc_take n q p s) else if p = freep s then Some (0, s) else loop n p (nx s p) s) = Some y"
    show "case y of (r, s') \<Rightarrow> heap_step s s'"
      using r IH kmalloc_take_step [of s n q p] by (auto split: if_splits simp: heap_step_def)
  qed
  then show ?thesis using assms by fastforce
qed

lemma kmalloc_frame: "kmalloc n s = Some (p, s') \<Longrightarrow> heap_step s s'"
  unfolding kmalloc_def by (rule kmalloc_loop_frame)

lemma kmalloc_keeps:
  fixes s :: "'z sys_scheme"
  shows "kmalloc n s = Some (p, s') \<Longrightarrow> sp s' = sp s \<and> kheap s' = kheap s \<and> timer_period s' = timer_period s"
proof -
  assume "kmalloc n s = Some (p, s')"
  from kmalloc_frame [OF this] obtain h f where "s' = s\<lparr>hdr := h, freep := f\<rparr>" by (auto simp: heap_step_def)
  then show ?thesis by simp
qed

lemma thread_stack_init_keeps:
  "sp (thread_stack_init t s) = sp s" "kheap (thread_stack_init t s) = kheap s" "timer_period (thread_stack_init t s) = timer_period s"
  by (simp_all add: thread_stack_init_def Let_def split_beta say_num_upd upd_thread_def)

lemma fill_slot_keeps:
  "fill_slot i t RUNNABLE s = Inr s' \<Longrightarrow> timer_period s' = timer_period s \<and> sp s' = sp s \<and> kheap s' = kheap s"
  by (auto simp: fill_slot_def get_cur_thread_tid_def Let_def and_then_Inr_iff upd_thread_def io_cli_def io_sti_def)

lemma thread_run_keeps:
  "thread_run t s = Inr s' \<Longrightarrow> sp s' = sp s \<and> kheap s' = kheap s \<and> timer_period s' = timer_period s"
  by (auto simp: thread_run_def and_then_Inr_iff Let_def say_num_upd dest: fill_slot_keeps split: option.splits)

lemma thread_gen2_keeps:
  "thread_gen2 te t func argc argv s = Inr s' \<Longrightarrow> sp s' = sp s \<and> kheap s' = kheap s \<and> timer_period s' = timer_period s"
  by (auto simp: thread_gen2_def and_then_Inr_iff Let_def upd_thread_def thread_stack_init_keeps dest!: kmalloc_keeps)

lemma create_thread_keeps:
  assumes "create_thread te func argc argv s = Inr (tid, s')"
  shows "sp s' = sp s" "kheap s' = kheap s" "timer_period s' = timer_period s"
proof -
  obtain t s1 s2 s3 where c: "kmalloc 128 (io_cli s) = Some (t, s1)" "thread_gen2 te t func argc argv s1 = Inr s2"
    "thread_run t s2 = Inr s3" "s' = io_sti s3"
    using assms by (auto simp: create_thread_def and_then_Inr_iff Let_def)
  show "sp s' = sp s" "kheap s' = kheap s" "timer_period s' = timer_period s"
    using kmalloc_keeps [OF c(1)] thread_gen2_keeps [OF c(2)] thread_run_keeps [OF c(3)] c(4) by (simp_all add: io_cli_def io_sti_def)
qed

section \<open>The first switch\<close>

text \<open>\<open>switch_context_first\<close> is a switch whose old thread structure would make \<open>rdi\<close> 0.\<close>

lemma switch_first_eq:
  assumes "search_index_from_tid tid s = (int i, s)" "i < length (threads s)"
  shows "switch_context_first ra tid s =
    Inr (load_context (t_rsp (thr_mem s (threads s ! i))) (store 0 (sp s - 128) (saved ra (- 16) (threads s ! i) s)))"
  using assms by (simp add: switch_context_first_def array_get_def Let_def store_def saved_run saved_def [of ra "- 16", simplified, symmetric])

lemma below_apart:
  fixes a b :: u64
  assumes "128 \<le> unat b" "unat a < unat b - 128 \<or> unat b \<le> unat a"
  shows "128 \<le> a - (b - 128)"
proof -
  have "unat (b - 128) = unat b - 128" using assms(1) by (simp add: unat_sub word_le_nat_alt)
  then show ?thesis using assms unat64_lt [of a] unat64_lt [of b]
    by (auto simp: word_le_nat_alt unat_sub_if')
qed

lemma owned_extent: "kh_owned s F L R \<Longrightarrow> p \<in> L \<Longrightarrow> kh_extent s p \<subseteq> R"
  unfolding owns_def by blast

text \<open>The stack of a new thread survives a switch from a stack elsewhere.\<close>

lemma first_frame:
  fixes s :: "'z sys_scheme"
  assumes fr: "frame_at (stk s) (stack + STACK_LENGTH - 128) rs ra'"
    and new: "{unat stack..<unat stack + 4096} \<subseteq> heap_region s" "heap_hi s < 2 ^ 64" "0 < heap_lo s"
    and old: "128 \<le> unat (sp s)" "{unat (sp s) - 128..<unat (sp s)} \<inter> heap_region s = {}"
  shows "frame_at (stk (store 0 x (saved ra q t s))) (stack + STACK_LENGTH - 128) rs ra'"
proof -
  have same: "stk (store 0 x (saved ra q t s)) (stack + STACK_LENGTH - 128 + 8 * of_nat i) = stk s (stack + STACK_LENGTH - 128 + 8 * of_nat i)"
    if i: "i < 16" for i
  proof -
    let ?a = "stack + STACK_LENGTH - 128 + 8 * of_nat i :: u64"
    have "unat stack + 4096 \<le> heap_hi s" using new(1) by auto
    then have "unat stack + 4096 < 2 ^ 64" using new(2) by simp
    have "?a = stack + of_nat (3968 + 8 * i)" by (simp add: STACK_LENGTH_def algebra_simps)
    also have "unat \<dots> = unat stack + (3968 + 8 * i)"
      by (rule unat_offset [of stack 4096]) (use \<open>unat stack + 4096 < 2 ^ 64\<close> i in simp_all)
    finally have u: "unat ?a = unat stack + (3968 + 8 * i)" .
    then have r: "unat ?a \<in> heap_region s" using new(1) i by (auto simp: subset_iff)
    then have "unat ?a \<notin> {unat (sp s) - 128..<unat (sp s)}" using old(2) by blast
    then have "128 \<le> ?a - (sp s - 128)" using below_apart [OF old(1), of ?a] by (simp add: not_less) linarith
    moreover have "?a \<noteq> 0" using r new(3) by auto
    ultimately show ?thesis using saved_other [of ?a s ra q t] by (simp add: store_def)
  qed
  show ?thesis using fr same [of 15] same unfolding frame_at_def by simp
qed

lemma first_switch:
  fixes s :: "'z sys_scheme"
  assumes tab: "table_ok s" "live s 0" "tid_index_dict s ! 0 = tid" "threads s ! 0 = t"
    and heap: "heap_has s L k" "stack \<in> L" "{unat stack..<unat stack + 4096} \<subseteq> kh_extent s stack" "0 < heap_lo s"
    and new: "t_rsp (thr_mem s t) = stack + STACK_LENGTH - 128" "frame_at (stk s) (stack + STACK_LENGTH - 128) rs ra'"
    and old: "128 \<le> unat (sp s)" "{unat (sp s) - 128..<unat (sp s)} \<inter> heap_region s = {}"
  obtains s' where "switch_context_first ra tid s = Inr s'" "pc s' = ra'" "regs s' = rs" "sp s' = stack + STACK_LENGTH"
    "int_flag s'" "ctx.more s' = ctx.more s"
proof -
  let ?u = "store 0 (sp s - 128) (saved ra (- 16) t s)"
  obtain bs where bs: "heap_ok s bs" "kh_owned s (free_bytes s bs) L (heap_region s)" using heap_hasE [OF heap(1)] .
  have region: "{unat stack..<unat stack + 4096} \<subseteq> heap_region s"
    by (rule subset_trans [OF heap(3) owned_extent [OF bs(2) heap(2)]])
  have hi: "heap_hi s < 2 ^ 64" using heap_ok_placed [OF bs(1)] by (simp add: placed_def)
  have fr: "frame_at (stk ?u) (stack + STACK_LENGTH - 128) rs ra'"
    by (rule first_frame [OF new(2) region hi heap(4) old])
  have "search_index_from_tid tid s = (int 0, s)" using search_live [OF tab(1,2)] tab(3) by simp
  from switch_first_eq [OF this, of ra] table_okD(1) [OF tab(1)] tab(4)
  have sw: "switch_context_first ra tid s = Inr (load_context (stack + STACK_LENGTH - 128) ?u)"
    by (simp add: THREAD_NUM_def new(1))
  show thesis
  proof (rule that [OF sw])
    show "ctx.more (load_context (stack + STACK_LENGTH - 128) ?u) = ctx.more s"
      unfolding load_context_more by (simp add: store_def saved_run)
  qed (unfold load_context_frame [OF fr], simp_all)
qed

text \<open>The empty table, handed to \<open>create_thread\<close>.\<close>

lemma launch_start:
  fixes s :: "'z sys_scheme"
  assumes heap: "heap_has s L (270 + k)"
    and tab: "length (threads s) = THREAD_NUM" "tid_index_dict s = tid_index_dict_init" "cur_thread_index s = 0"
      "tid_global s = 0" "thr_mem s (empty_at s) = empty_thread" "unat (empty_at s) < heap_lo s"
  defines "s1 \<equiv> schedule_period_init 50 (threads_init s)"
  shows "threads_ok s1 L (270 + k)" "find_up THREAD_NUM (slot_dead s1) 0 = Some 0" "\<not> live s1 i"
    "tid_global s1 = 0" "cur_thread_index s1 = 0" "timer_period s1 = 50" "sp s1 = sp s" "kheap s1 = kheap s"
proof -
  have f1: "threads s1 = replicate THREAD_NUM (empty_at s)" "thr_mem s1 = thr_mem s" "empty_at s1 = empty_at s"
    using tab by (simp_all add: s1_def schedule_period_init_def threads_init_def array_fill_all)
  show f: "tid_global s1 = 0" "cur_thread_index s1 = 0" "timer_period s1 = 50" "sp s1 = sp s" "kheap s1 = kheap s"
    using tab by (simp_all add: s1_def schedule_period_init_def threads_init_def)
  have "table_ok (threads_init s)" "\<not> live (threads_init s) i" for i using threads_init_table [OF tab(1-5)] by blast+
  then have t1: "table_ok s1" "\<not> live s1 i" for i
    using table_ok_cong [of s1 "threads_init s"] by (simp_all add: s1_def schedule_period_init_def live_def)
  then show "\<not> live s1 i" by blast
  have "heap_has s1 L (270 + k)"
    using heap heap_has_cong(1) [of s1 s] by (simp add: s1_def schedule_period_init_def threads_init_def)
  then show "threads_ok s1 L (270 + k)" using t1(1) tab(6) f(5) by (auto simp: threads_ok_def f1 heap_lo_def)
  show "find_up THREAD_NUM (slot_dead s1) 0 = Some 0"
    by (rule find_up_first) (simp_all add: slot_dead_def f1 tab(5) empty_thread_def THREAD_NUM_def)
qed

text \<open>
  C11. The first thread. With an empty thread table, room in the heap for the four blocks of a thread and a boot
  stack that is not in the heap, the last steps of \<open>entry_point\<close> leave the boot stack for good: the processor
  enters \<open>thread_exec\<close> on the bottom of a new stack with the structure of thread 0 in \<open>rdi\<close>, every other register 0
  and interrupts on; that structure names \<open>init\<close>, it is the only live one and the current one, it is RUNNABLE, and
  the scheduler will run every 50 ticks.
\<close>

theorem launch_enters_init:
  assumes heap: "heap_has s L (270 + k)"
    and tab: "length (threads s) = THREAD_NUM" "tid_index_dict s = tid_index_dict_init" "cur_thread_index s = 0"
      "tid_global s = 0" "thr_mem s (empty_at s) = empty_thread" "unat (empty_at s) < heap_lo s"
    and stack: "128 \<le> unat (sp s)" "{unat (sp s) - 128..<unat (sp s)} \<inter> heap_region s = {}"
  shows "\<exists>s' t. launch b ra s = Inr s' \<and> t = threads s' ! 0 \<and>
    pc s' = thread_exec_at b \<and> regs s' = (\<lambda>_. 0)(RDI := t) \<and> sp s' = t_stack_btm (thr_mem s' t) \<and> int_flag s' \<and>
    t_func (thr_mem s' t) = task_at b Init \<and> t_tid (thr_mem s' t) = 0 \<and> t_state (thr_mem s' t) = RUNNABLE \<and>
    (\<forall>i. live s' i \<longleftrightarrow> i = 0) \<and> cur_thread_index s' = 0 \<and> tid_global s' = 1 \<and> timer_period s' = 50"
proof -
  define s1 where "s1 = schedule_period_init 50 (threads_init s)"
  note st = launch_start [OF heap tab, folded s1_def]
  show ?thesis
  proof (rule create_thread_spec [OF st(1,2), where te = "thread_exec_at b" and func = "task_at b Init" and argc = 0 and argv = 0])
    fix t stack sid_ptr pstruct s2
    assume c: "create_thread (thread_exec_at b) (task_at b Init) 0 0 s1 = Inr (tid_global s1, s2)"
      "threads_ok s2 ({t, stack, sid_ptr, pstruct} \<union> L) k" "live s2 = (live s1)(0 := True)" "threads s2 = (threads s1)[0 := t]"
      "thr_mem s2 = (thr_mem s1)(t := filled 0 t RUNNABLE
       (s1\<lparr>thr_mem := (thr_mem s1)(t := newborn (thread_exec_at b) stack sid_ptr pstruct (task_at b Init) 0 0 (thr_mem s1 t))\<rparr>))"
      "frame_at (stk s2) (stack + STACK_LENGTH - 128) ((\<lambda>_. 0)(RDI := t)) (thread_exec_at b)"
      "{unat stack..<unat stack + 4096} \<subseteq> kh_extent s2 stack"
      "tid_index_dict s2 = (tid_index_dict s1)[0 := tid_global s1]" "tid_global s2 = tid_global s1 + 1"
      "cur_thread_index s2 = cur_thread_index s1"
    note keep = create_thread_keeps [OF c(1)]
    have t2: "table_ok s2" "heap_has s2 ({t, stack, sid_ptr, pstruct} \<union> L) k" using c(2) by (simp_all add: threads_ok_def)
    have reg: "heap_lo s2 = heap_lo s" "heap_hi s2 = heap_hi s" using keep(2) st(8) by (simp_all add: heap_lo_def heap_hi_def)
    have len: "length (threads s2) = THREAD_NUM" "length (tid_index_dict s1) = THREAD_NUM"
      using table_okD(1,2) st(1) t2(1) unfolding threads_ok_def by blast+
    then have t: "threads s2 ! 0 = t" "tid_index_dict s2 ! 0 = 0" using c(4,8) st(4) by (simp_all add: THREAD_NUM_def)
    have live: "live s2 i \<longleftrightarrow> i = 0" for i using c(3) st(3) by simp
    have x: "t_rsp (thr_mem s2 t) = stack + STACK_LENGTH - 128" "t_stack_btm (thr_mem s2 t) = stack + STACK_LENGTH"
      "t_func (thr_mem s2 t) = task_at b Init" "t_state (thr_mem s2 t) = RUNNABLE" "t_tid (thr_mem s2 t) = 0"
      by (simp_all add: c(5) filled_def newborn_def st(4))
    obtain s' where s': "switch_context_first ra 0 s2 = Inr s'" "pc s' = thread_exec_at b" "regs s' = (\<lambda>_. 0)(RDI := t)"
      "sp s' = stack + STACK_LENGTH" "int_flag s'" "ctx.more s' = ctx.more s2"
      by (rule first_switch [OF t2(1) _ t(2,1) t2(2) _ c(7) _ x(1) c(6)])
        (use live tab(6) stack keep(1) st(7) reg in simp_all)
    note g = sys_of_more [OF s'(6)]
    have "launch b ra s = Inr s'" using c(1) s'(1) st(4) unfolding launch_def by (simp add: s1_def Let_def)
    moreover have "live s' i \<longleftrightarrow> i = 0" for i using live g(2,6) by (simp add: live_def)
    moreover have "t = threads s' ! 0" "thr_mem s' = thr_mem s2" using t g(1,2) by simp_all
    moreover have "cur_thread_index s' = 0" "tid_global s' = 1" "timer_period s' = 50" using g(4,5,11) c(9,10) keep(3) st(4-6) by simp_all
    ultimately show ?thesis using s'(2-5) x by (intro exI [of _ s'] exI [of _ t]) simp
  qed
qed

theorem launch_enters_init_witness:
  "\<forall>(s :: ('d, 'z) kernel_scheme) b ra. \<exists>s'. launch b ra (init_kheap 0x101000 (s\<lparr>base_at := 0x100000, freep := 0x100000,
     threads := replicate 40 0, tid_index_dict := tid_index_dict_init, cur_thread_index := 0, tid_global := 0,
     thr_mem := (\<lambda>_. empty_thread), empty_at := 0xff000, sp := 0x9000\<rparr>)) = Inr s' \<and>
     pc s' = thread_exec_at b \<and> t_func (thr_mem s' (regs s' RDI)) = task_at b Init"
proof (intro allI)
  fix s :: "('d, 'z) kernel_scheme" and b :: "'d board" and ra
  let ?s = "s\<lparr>base_at := 0x100000, freep := 0x100000,
     threads := replicate 40 0, tid_index_dict := tid_index_dict_init, cur_thread_index := 0, tid_global := 0,
     thr_mem := (\<lambda>_. empty_thread), empty_at := 0xff000, sp := 0x9000\<rparr>"
  have "placed (?s\<lparr>kheap := 0x101000\<rparr>)" by (simp add: placed_def heap_hi_def)
  from heap_has_boot [OF this] have heap: "heap_has (init_kheap 0x101000 ?s) {} (270 + 261874)" by simp
  have part: "heap_lo (init_kheap 0x101000 ?s) = 0x101000" "heap_region (init_kheap 0x101000 ?s) = {0x101000..<0x501000}"
    by (simp_all add: init_kheap_def Let_def set_next_def set_size_def heap_lo_def heap_hi_def)
  have "\<exists>s' t. launch b ra (init_kheap 0x101000 ?s) = Inr s' \<and> t = threads s' ! 0 \<and>
    pc s' = thread_exec_at b \<and> regs s' = (\<lambda>_. 0)(RDI := t) \<and> sp s' = t_stack_btm (thr_mem s' t) \<and> int_flag s' \<and>
    t_func (thr_mem s' t) = task_at b Init \<and> t_tid (thr_mem s' t) = 0 \<and> t_state (thr_mem s' t) = RUNNABLE \<and>
    (\<forall>i. live s' i \<longleftrightarrow> i = 0) \<and> cur_thread_index s' = 0 \<and> tid_global s' = 1 \<and> timer_period s' = 50"
    by (rule launch_enters_init [OF heap])
      (simp_all add: part, simp_all add: init_kheap_def Let_def set_next_def set_size_def THREAD_NUM_def)
  then show "\<exists>s'. launch b ra (init_kheap 0x101000 ?s) = Inr s' \<and> pc s' = thread_exec_at b \<and>
      t_func (thr_mem s' (regs s' RDI)) = task_at b Init" by auto
qed

end
