(* ===== verification/Kernel_Demo.thy ===== *)
theory Kernel_Demo
  imports Kernel
begin

text \<open>
  The demonstration of kernel.c: \<open>do_child\<close> puts a message into the pipe, \<open>do_parent\<close> takes it out and prints it
  on the serial line.
\<close>

section \<open>The two sides\<close>

text \<open>A kernel whose current thread \<open>c\<close> shares the pipe \<open>p\<close>.\<close>

lemma do_child_sends:
  assumes ok: "table_ok s" "live s c" "cur_thread_index s = int c" "sems_ok s"
    and sem: "sid_mem s (t_sid_ptr (thr_mem s (threads s ! c))) = sem" "\<not> isbadsem sem"
      "semstate (semtable s ! nat sem) = S_USED" "0 \<le> semcount (semtable s ! nat sem)"
    and p: "t_pstruct (thr_mem s (threads s ! c)) = p" "pstate (pipe_mem s p) = EMPTY"
  shows "do_child ra msg s = Inr (1, s\<lparr>int_flag := True,
    port_out := port_out s @ map (Pair (comport s)) (ascii (''func do_child()'' @ LF)),
    bytes := memcpy (bytes s) (pipe_ptr (pipe_mem s p)) msg 32,
    pipe_mem := (pipe_mem s)(p := (pipe_mem s p)\<lparr>pstate := EXIST\<rparr>)\<rparr>)"
proof -
  let ?s0 = "io_sti (say (''func do_child()'' @ LF) s)"
  let ?s1 = "?s0\<lparr>int_flag := True, bytes := memcpy (bytes ?s0) (pipe_ptr (pipe_mem ?s0 p)) msg 32,
    pipe_mem := (pipe_mem ?s0)(p := (pipe_mem ?s0 p)\<lparr>pstate := EXIST\<rparr>)\<rparr>"
  have t0: "table_ok ?s0" "live ?s0 c" "cur_thread_index ?s0 = int c" "table_ok (say (''func do_child()'' @ LF) s)"
    "live (say (''func do_child()'' @ LF) s) c" "cur_thread_index (say (''func do_child()'' @ LF) s) = int c"
    using ok table_ok_cong [of "say (''func do_child()'' @ LF) s" s] by (simp_all add: say_upd)
  have t1: "table_ok ?s1" "live ?s1 c" "cur_thread_index ?s1 = int c"
    using t0 table_ok_cong [of ?s1 ?s0] by simp_all
  have w: "pwrite msg 32 ?s0 = Inr (1, ?s1)" using pwrite_eq [OF t0(1-3), of msg 32] p by (simp add: Let_def say_upd)
  have "sems_ok (io_sti ?s1)" using ok(4) sems_ok_cong [of "io_sti ?s1" s] by (simp add: say_upd)
  from signal_sem_none [OF this sem(2), of ra] sem(3,4)
  have g: "signal_sem ra sem (io_sti ?s1) = Inr (1, io_sti (io_sti ?s1))" by (simp add: say_upd)
  have "signalp ra sem ?s1 = Inr (1, io_sti (io_sti ?s1))"
    using cur_thread_ok [OF t1] g p(1) by (simp add: signalp_def say_upd)
  then have "do_child ra msg s = Inr (1, io_sti (io_sti ?s1))"
    using cur_thread_ok [OF t0(4-6)] w sem(1) by (simp add: do_child_def say_upd)
  then show ?thesis by (simp add: io_sti_def say_upd)
qed

lemma do_parent_ready:
  assumes ok: "table_ok s" "live s r" "cur_thread_index s = int r"
    and p: "pstate (pipe_mem s (t_pstruct (thr_mem s (threads s ! r)))) = EXIST"
  shows "do_parent ra s = Inr (1, s\<lparr>int_flag := True,
    port_out := port_out s @ map (Pair (comport s)) (ascii (''func do_parent()'' @ LF))\<rparr>)"
proof -
  let ?s0 = "say (''func do_parent()'' @ LF) s"
  have t: "table_ok ?s0" "live ?s0 r" "cur_thread_index ?s0 = int r" "table_ok (io_sti ?s0)" "live (io_sti ?s0) r"
    "cur_thread_index (io_sti ?s0) = int r"
    using ok table_ok_cong [of ?s0 s] by (simp_all add: say_upd)
  show ?thesis using cur_thread_ok [OF t(1-3)] cur_thread_ok [OF t(4-6)] p
    by (simp add: do_parent_def waitp_def say_upd) (simp add: io_sti_def)
qed

lemma parent_prints:
  fixes s :: "'z sys_scheme"
  assumes ok: "table_ok s" "live s r" "cur_thread_index s = int r"
    and p: "t_pstruct (thr_mem s (threads s ! r)) = p" "pipe_cell p 32 s = Some msg" "apart (pipe_ptr (pipe_mem s p)) buf 32"
    and str: "holds_str (\<lambda>i. memcpy (bytes s) buf (pipe_ptr (pipe_mem s p)) 32 (buf + of_nat i)) xs"
  shows "parent_resumed buf 1 s = Inr (s\<lparr>int_flag := True, bytes := memcpy (bytes s) buf (pipe_ptr (pipe_mem s p)) 32,
    pipe_mem := (pipe_mem s)(p := (pipe_mem s p)\<lparr>pstate := EMPTY\<rparr>),
    port_out := port_out s @ map (Pair (comport s)) (xs @ ascii (''receive OK'' @ LF))\<rparr>)"
proof -
  have ex: "pstate (pipe_mem s p) = EXIST" using p(2) by (simp add: pipe_cell_def split: if_splits)
  let ?m = "memcpy (bytes s) buf (pipe_ptr (pipe_mem s p)) 32"
  have e: "map (\<lambda>i. ?m (buf + of_nat i)) [0..<length xs] = xs"
    using str by (intro nth_equalityI) (simp_all add: holds_str_def)
  have "say_mem buf (length xs) t = say_bytes xs t" if "bytes t = ?m" for t :: "'z sys_scheme"
    unfolding say_mem_def that e ..
  then show ?thesis
    using pread_eq [OF ok, of buf 32] p(1) ex strlen_from_eq [OF str, of 0]
    by (simp add: parent_resumed_def Let_def say_upd) (simp add: say_bytes_def sent_def io_sti_def)
qed

text \<open>What the parent's buffer holds as a string: the message and whatever follows the buffer up to a 0.\<close>

lemma delivered_text:
  assumes ap: "apart q msg 32" "apart q buf 32" and msg: "0 \<notin> set (text_at m msg 32)"
    and rest: "holds_str (\<lambda>i. m (buf + 32 + of_nat i)) xs" "length xs < 2 ^ 32"
      "\<forall>i\<le>length xs. 32 \<le> buf + 32 + of_nat i - q"
  shows "holds_str (\<lambda>i. memcpy (memcpy m q msg 32) buf q 32 (buf + of_nat i)) (text_at m msg 32 @ xs)"
proof -
  let ?f = "\<lambda>i :: nat. memcpy (memcpy m q msg 32) buf q 32 (buf + of_nat i)"
  note c1 = memcpy_eq [of q msg 32 m] and c2 = memcpy_eq [of buf q 32 "memcpy m q msg 32"]
  have low: "?f i = m (msg + of_nat i)" if "i < 32" for i
  proof -
    have "(of_nat i :: u64) < 32" using that by (simp add: word_less_nat_alt unat_of_nat take_bit_nat_eq_self)
    then show ?thesis using c1 c2 ap by (simp add: apart_def)
  qed
  have high: "?f (32 + i) = m (buf + 32 + of_nat i)" if i: "i \<le> length xs" for i
  proof -
    have "unat (of_nat (32 + i) :: u64) = 32 + i" using i rest(2) by (simp only: unat_of_nat) (simp add: take_bit_nat_eq_self)
    then have "\<not> (of_nat (32 + i) :: u64) < 32" by (simp add: word_less_nat_alt)
    moreover have "\<not> buf + 32 + of_nat i - q < 32" using rest(3) i by (simp add: not_less)
    ultimately show ?thesis using c1 c2 ap by (simp add: apart_def add.assoc)
  qed
  show ?thesis
    unfolding holds_str_def
  proof (intro conjI allI impI)
    fix i assume i: "i < length (text_at m msg 32 @ xs)"
    show "?f i = (text_at m msg 32 @ xs) ! i"
    proof (cases "i < 32")
      case True
      then show ?thesis using low [OF True] by (simp add: nth_append text_at_def del: upt_rec_numeral)
    next
      case False
      then have j: "i = 32 + (i - 32)" "i - 32 < length xs" using i by (simp_all add: text_at_def)
      have "?f (32 + (i - 32)) = xs ! (i - 32)"
        using high [of "i - 32"] j(2) rest(1) by (simp add: holds_str_def del: of_nat_add)
      then show ?thesis using j False by (simp add: nth_append text_at_def del: of_nat_add)
    qed
  next
    show "?f (length (text_at m msg 32 @ xs)) = 0"
      using high [of "length xs"] rest(1) by (simp add: holds_str_def text_at_def del: of_nat_add)
  qed (use msg rest(1) in \<open>auto simp: holds_str_def\<close>)
qed



end
