(* ===== verification/Loader.thy ===== *)
theory Loader
  imports Graphics Layout
begin

text \<open>
  src/boot/src/MinLoader.c: the UEFI loader. The firmware is a record of functions on its own state
  \<open>'f\<close>, one for each service the loader calls; a status is a 64-bit word whose top bit marks an error.
  Memory is bytes (\<open>ram\<close>); the variables of \<open>UefiMain\<close> that the loops set are fields of \<open>loader\<close>.
  (src/boot/MinLoaderPkg holds a copy of the same file.)
\<close>

section \<open>Data\<close>

definition elf64_ehdr :: c_fields where
  "elf64_ehdr =
    [(''e_ident'', c_array 16 c_u8), (''e_type'', c_u16), (''e_machine'', c_u16), (''e_version'', c_u32),
     (''e_entry'', c_u64), (''e_phoff'', c_u64), (''e_shoff'', c_u64), (''e_flags'', c_u32), (''e_ehsize'', c_u16),
     (''e_phentsize'', c_u16), (''e_phnum'', c_u16), (''e_shentsize'', c_u16), (''e_shnum'', c_u16), (''e_shstrndx'', c_u16)]"

definition elf64_shdr :: c_fields where
  "elf64_shdr =
    [(''sh_name'', c_u32), (''sh_type'', c_u32), (''sh_flags'', c_u64), (''sh_addr'', c_u64), (''sh_offset'', c_u64),
     (''sh_size'', c_u64), (''sh_link'', c_u32), (''sh_info'', c_u32), (''sh_addralign'', c_u64), (''sh_entsize'', c_u64)]"

definition KERNEL_START_QEMU :: u64 where "KERNEL_START_QEMU = 0x100000"

definition BUF_256B :: u64 where "BUF_256B = 256"

definition EFI_ERROR :: "u64 \<Rightarrow> bool" where
  "EFI_ERROR st \<longleftrightarrow> bit st 63"

definition EFI_BUFFER_TOO_SMALL :: u64 where "EFI_BUFFER_TOO_SMALL = 0x8000000000000005"

text \<open>What the loader reads of \<open>gop->Mode\<close>.\<close>

record gop_mode =
  FrameBufferBase :: u64
  FrameBufferSize :: u64
  HorizontalResolution :: u32
  VerticalResolution :: u32
  PixelsPerScanLine :: u32

record bootinfo =
  bi_fb :: u64
  bi_vinfo :: video_info

text \<open>
  The services. Arguments and results are those the loader passes and looks at; a size that is
  passed by reference is both. \<open>fw_read\<close> and \<open>fw_map\<close> write to memory.
\<close>

record 'f firmware =
  fw_locate_gop :: "'f \<Rightarrow> u64 \<times> gop_mode \<times> 'f"
  fw_locate_sfsp :: "'f \<Rightarrow> u64 \<times> 'f"
  fw_open_volume :: "'f \<Rightarrow> u64 \<times> 'f"
  fw_open :: "'f \<Rightarrow> u64 \<times> 'f"
  fw_info :: "u64 \<Rightarrow> 'f \<Rightarrow> u64 \<times> u64 \<times> u64 \<times> 'f"
  fw_read :: "u64 \<Rightarrow> u64 \<Rightarrow> bytemem \<Rightarrow> 'f \<Rightarrow> u64 \<times> u64 \<times> bytemem \<times> 'f"
  fw_copy :: "u64 \<Rightarrow> u64 \<Rightarrow> u64 \<Rightarrow> bytemem \<Rightarrow> bytemem"
  fw_map :: "u64 \<Rightarrow> u64 \<Rightarrow> bytemem \<Rightarrow> 'f \<Rightarrow> u64 \<times> u64 \<times> u64 \<times> bytemem \<times> 'f"
  fw_alloc :: "u64 \<Rightarrow> 'f \<Rightarrow> u64 \<times> u64 \<times> 'f"
  fw_free :: "u64 \<Rightarrow> 'f \<Rightarrow> 'f"
  fw_exit :: "u64 \<Rightarrow> 'f \<Rightarrow> u64 \<times> 'f"

record 'f loader =
  fw :: 'f
  ram :: bytemem
  gop :: gop_mode
  buf_size :: u64
  file_size :: u64
  mmapsize :: u64
  mapkey :: u64
  mmap :: u64

section \<open>Calls and loops\<close>

definition locate_gop :: "'f firmware \<Rightarrow> 'f loader \<Rightarrow> u64 \<times> 'f loader" where
  "locate_gop F l = (let (st, g, f) = fw_locate_gop F (fw l) in (st, l\<lparr>fw := f, gop := g\<rparr>))"

definition locate_sfsp :: "'f firmware \<Rightarrow> 'f loader \<Rightarrow> u64 \<times> 'f loader" where
  "locate_sfsp F l = (let (st, f) = fw_locate_sfsp F (fw l) in (st, l\<lparr>fw := f\<rparr>))"

definition open_kernel :: "'f firmware \<Rightarrow> 'f loader \<Rightarrow> u64 \<times> 'f loader" where
  "open_kernel F l = (let (st, f) = fw_open F (fw l) in (st, l\<lparr>fw := f\<rparr>))"

definition get_info :: "'f firmware \<Rightarrow> 'f loader \<Rightarrow> u64 \<times> 'f loader" where
  "get_info F l = (let (st, n, len, f) = fw_info F (buf_size l) (fw l) in (st, l\<lparr>fw := f, buf_size := n, file_size := len\<rparr>))"

text \<open>\<open>kernel_program\<close> is NULL: the file is read to address 0.\<close>

definition read_kernel :: "'f firmware \<Rightarrow> 'f loader \<Rightarrow> u64 \<times> 'f loader" where
  "read_kernel F l = (let (st, n, m, f) = fw_read F (file_size l) 0 (ram l) (fw l) in (st, l\<lparr>fw := f, file_size := n, ram := m\<rparr>))"

definition get_map :: "'f firmware \<Rightarrow> 'f loader \<Rightarrow> u64 \<times> 'f loader" where
  "get_map F l = (let (st, n, key, m, f) = fw_map F (mmapsize l) (mmap l) (ram l) (fw l)
    in (st, l\<lparr>fw := f, mmapsize := n, mapkey := key, ram := m\<rparr>))"

text \<open>\<open>do { status = call; } while (EFI_ERROR(status));\<close>\<close>

partial_function (option) until_ok :: "('l \<Rightarrow> u64 \<times> 'l) \<Rightarrow> 'l \<Rightarrow> 'l option" where
  "until_ok call l = (let (st, l) = call l in if EFI_ERROR st then until_ok call l else Some l)"

text \<open>The status of \<open>AllocatePool\<close> is overwritten before anything looks at it.\<close>

partial_function (option) grow_map :: "'f firmware \<Rightarrow> u64 \<Rightarrow> 'f loader \<Rightarrow> (u64 \<times> 'f loader) option" where
  "grow_map F st l =
     (if st = EFI_BUFFER_TOO_SMALL then
        (let l = (if mmap l \<noteq> 0 then l\<lparr>fw := fw_free F (mmap l) (fw l)\<rparr> else l);
             l = l\<lparr>mmapsize := mmapsize l + 0x1000\<rparr>;
             (_, p, f) = fw_alloc F (mmapsize l) (fw l);
             l = l\<lparr>fw := f, mmap := p\<rparr>;
             (st, l) = get_map F l
         in grow_map F st l)
      else Some (st, l))"

partial_function (option) exit_services :: "'f firmware \<Rightarrow> 'f loader \<Rightarrow> 'f loader option" where
  "exit_services F l =
     (let (st, l) = get_map F l
      in Option.bind (grow_map F st l) (\<lambda>(_, l).
         let (st, f) = fw_exit F (mapkey l) (fw l);
             l = l\<lparr>fw := f\<rparr>
         in if EFI_ERROR st then exit_services F l else Some l))"

section \<open>The loader\<close>

text \<open>\<open>section_header[1]\<close>; the offset is cut to an \<open>int\<close>.\<close>

definition update_start_addr :: "bytemem \<Rightarrow> u64 \<Rightarrow> u64" where
  "update_start_addr m start_addr =
     (let section_header = start_addr + c_field elf64_ehdr ''e_shoff'' m start_addr;
          off = c_field elf64_shdr ''sh_offset'' m (section_header + of_nat (c_sizeof elf64_shdr))
      in start_addr + scast (ucast off :: u32))"

definition make_bootinfo :: "gop_mode \<Rightarrow> bootinfo" where
  "make_bootinfo g = \<lparr>bi_fb = FrameBufferBase g, bi_vinfo = \<lparr>vi_fb_size = FrameBufferSize g, vi_x_axis = HorizontalResolution g,
     vi_y_axis = VerticalResolution g, vi_ppsl = PixelsPerScanLine g\<rparr>\<rparr>"

definition loop_end :: "'a option \<Rightarrow> 'a outcome" where
  "loop_end x = (case x of None \<Rightarrow> Inl Spins | Some y \<Rightarrow> Inr y)"

text \<open>
  The loop around \<open>OpenVolume\<close> tests the status of the call before it, so it runs once; when the
  volume cannot be opened, \<open>root\<close> is not a pointer. The result is the argument of \<open>jump_to_kernel\<close>
  and the address it jumps to.
\<close>

definition UefiMain :: "'f firmware \<Rightarrow> 'f loader \<Rightarrow> (bootinfo \<times> u64 \<times> 'f loader) outcome" where
  "UefiMain F l =
     and_then (loop_end (until_ok (locate_gop F) l)) (\<lambda>l.
     let binfo = make_bootinfo (gop l)
     in and_then (loop_end (until_ok (locate_sfsp F) l)) (\<lambda>l.
     let (st, f) = fw_open_volume F (fw l);
         l = l\<lparr>fw := f\<rparr>
     in if EFI_ERROR st then Inl Out_of_bounds
        else
          and_then (loop_end (until_ok (open_kernel F) l)) (\<lambda>l.
          and_then (loop_end (until_ok (get_info F) (l\<lparr>buf_size := BUF_256B\<rparr>))) (\<lambda>l.
          and_then (loop_end (until_ok (read_kernel F) l)) (\<lambda>l.
          let start_addr = KERNEL_START_QEMU;
              l = l\<lparr>ram := fw_copy F start_addr 0 (file_size l) (ram l)\<rparr>;
              updated_start_addr = update_start_addr (ram l) start_addr
          in and_then (loop_end (exit_services F (l\<lparr>mmapsize := 0, mmap := 0\<rparr>))) (\<lambda>l.
          let l = l\<lparr>ram := fill64 (\<lambda>_. 0xffffffff) (bi_fb binfo) (unat (vi_fb_size (bi_vinfo binfo))) (ram l)\<rparr>
          in Inr (binfo, updated_start_addr, l)))))))"

end
