(* ===== verification/Loader_Run.thy ===== *)
theory Loader_Run
  imports Loader
begin

text \<open>
  What the loader achieves on a firmware that behaves as the UEFI specification says: it ends, the file is in memory
  from 1 MiB on, and control goes to the first section of the file.
\<close>

section \<open>The firmware\<close>

text \<open>
  \<open>rank f\<close> bounds how often a service still fails in state \<open>f\<close>, \<open>need f\<close> is the size of the memory map
  and \<open>current f\<close> its key. \<open>ExitBootServices\<close> accepts the current key; allocating memory makes the
  map grow by less than a page.
\<close>

definition retries :: "('f \<Rightarrow> nat) \<Rightarrow> 'f \<Rightarrow> u64 \<Rightarrow> 'f \<Rightarrow> bool" where
  "retries rank f st f' \<longleftrightarrow> (EFI_ERROR st \<longrightarrow> rank f' < rank f)"

definition devices_ok :: "'f firmware \<Rightarrow> ('f \<Rightarrow> nat) \<Rightarrow> gop_mode \<Rightarrow> bool" where
  "devices_ok F rank mode \<longleftrightarrow>
     (\<forall>f. case fw_locate_gop F f of (st, g, f') \<Rightarrow> retries rank f st f' \<and> (\<not> EFI_ERROR st \<longrightarrow> g = mode)) \<and>
     (\<forall>f. case fw_locate_sfsp F f of (st, f') \<Rightarrow> retries rank f st f')"

definition files_ok :: "'f firmware \<Rightarrow> ('f \<Rightarrow> nat) \<Rightarrow> u8 list \<Rightarrow> bool" where
  "files_ok F rank file \<longleftrightarrow>
     (\<forall>f. \<not> EFI_ERROR (fst (fw_open_volume F f))) \<and>
     (\<forall>f. case fw_open F f of (st, f') \<Rightarrow> retries rank f st f') \<and>
     (\<forall>f. case fw_info F BUF_256B f of (st, n, len, f') \<Rightarrow>
        retries rank f st f' \<and> (if EFI_ERROR st then n = BUF_256B else len = of_nat (length file))) \<and>
     (\<forall>buf m f. case fw_read F (of_nat (length file)) buf m f of (st, n, m', f') \<Rightarrow>
        retries rank f st f' \<and> n = of_nat (length file) \<and>
        (\<not> EFI_ERROR st \<longrightarrow> (\<forall>i<length file. m' (buf + of_nat i) = file ! i)))"

definition memory_ok :: "'f firmware \<Rightarrow> ('f \<Rightarrow> u64) \<Rightarrow> ('f \<Rightarrow> u64) \<Rightarrow> bool" where
  "memory_ok F need current \<longleftrightarrow>
     (\<forall>dst src n m a. fw_copy F dst src n m a = (if a - dst < n then m (src + (a - dst)) else m a)) \<and>
     (\<forall>n p m f. case fw_map F n p m f of (st, n', key, m', f') \<Rightarrow>
        if n < need f then st = EFI_BUFFER_TOO_SMALL \<and> n' = need f \<and> m' = m \<and> need f' = need f
        else st = 0 \<and> key = current f' \<and> (\<forall>a. n \<le> a - p \<longrightarrow> m' a = m a)) \<and>
     (\<forall>n f. case fw_alloc F n f of (st, p, f') \<Rightarrow> unat (need f') \<le> unat (need f) + 0x1000) \<and>
     (\<forall>f. unat (need f) < 2 ^ 32) \<and>
     (\<forall>f. \<not> EFI_ERROR (fst (fw_exit F (current f) f)))"

text \<open>The file as memory that starts at 0.\<close>

definition image :: "u8 list \<Rightarrow> bytemem" where
  "image file a = (if unat a < length file then file ! unat a else 0)"

definition loaded :: "u8 list \<Rightarrow> bytemem \<Rightarrow> bool" where
  "loaded file m \<longleftrightarrow> (\<forall>i<length file. m (KERNEL_START_QEMU + of_nat i) = file ! i)"

section \<open>Loops that end\<close>

lemma until_ok_ends:
  assumes step: "\<And>l st l'. I l \<Longrightarrow> call l = (st, l') \<Longrightarrow> if EFI_ERROR st then I l' \<and> r l' < (r l :: nat) else Q l'"
    and start: "I l"
  obtains l' where "until_ok call l = Some l'" "Q l'"
proof -
  have "\<exists>l'. until_ok call l = Some l' \<and> Q l'"
    using start
  proof (induction "r l" arbitrary: l rule: less_induct)
    case less
    obtain st k where c: "call l = (st, k)" by fastforce
    show ?case
    proof (cases "EFI_ERROR st")
      case True
      with step [OF less.prems c] less.hyps [of k] show ?thesis by (simp add: until_ok.simps [of call l] c)
    next
      case False
      with step [OF less.prems c] show ?thesis by (simp add: until_ok.simps [of call l] c)
    qed
  qed
  then show thesis using that by blast
qed

lemma locate_ends:
  assumes "devices_ok F rank mode"
  obtains l' where "until_ok (locate_gop F) l = Some l'" "gop l' = mode"
proof (rule until_ok_ends [where I = "\<lambda>_. True" and call = "locate_gop F" and r = "\<lambda>l. rank (fw l)" and Q = "\<lambda>l'. gop l' = mode" and l = l])
  fix l st l'
  assume "locate_gop F l = (st, l')"
  then show "if EFI_ERROR st then True \<and> rank (fw l') < rank (fw l) else gop l' = mode"
    using assms unfolding devices_ok_def retries_def
    by (auto simp: locate_gop_def split: prod.splits dest!: spec [of _ "fw l"])
qed (use that in auto)

lemma sfsp_ends:
  assumes "devices_ok F rank mode"
  obtains l' where "until_ok (locate_sfsp F) l = Some l'"
proof (rule until_ok_ends [where I = "\<lambda>_. True" and call = "locate_sfsp F" and r = "\<lambda>l. rank (fw l)" and Q = "\<lambda>_. True" and l = l])
  fix l st l'
  assume "locate_sfsp F l = (st, l')"
  then show "if EFI_ERROR st then True \<and> rank (fw l') < rank (fw l) else True"
    using assms unfolding devices_ok_def retries_def
    by (auto simp: locate_sfsp_def split: prod.splits dest!: spec [of _ "fw l"])
qed (use that in auto)

lemma open_ends:
  assumes "files_ok F rank file"
  obtains l' where "until_ok (open_kernel F) l = Some l'"
proof (rule until_ok_ends [where I = "\<lambda>_. True" and call = "open_kernel F" and r = "\<lambda>l. rank (fw l)" and Q = "\<lambda>_. True" and l = l])
  fix l st l'
  assume c: "open_kernel F l = (st, l')"
  have "case fw_open F (fw l) of (st, f') \<Rightarrow> retries rank (fw l) st f'" using assms by (simp add: files_ok_def)
  then show "if EFI_ERROR st then True \<and> rank (fw l') < rank (fw l) else True"
    using c by (auto simp: open_kernel_def retries_def split: prod.splits)
qed (use that in auto)

lemma info_ends:
  assumes "files_ok F rank file" "buf_size l = BUF_256B"
  obtains l' where "until_ok (get_info F) l = Some l'" "file_size l' = of_nat (length file)"
proof (rule until_ok_ends [where I = "\<lambda>l. buf_size l = BUF_256B" and call = "get_info F" and r = "\<lambda>l. rank (fw l)"
      and Q = "\<lambda>l'. file_size l' = of_nat (length file)" and l = l])
  fix l st l'
  assume c: "buf_size l = BUF_256B" "get_info F l = (st, l')"
  have "case fw_info F BUF_256B (fw l) of (st, n, len, f') \<Rightarrow>
      retries rank (fw l) st f' \<and> (if EFI_ERROR st then n = BUF_256B else len = of_nat (length file))"
    using assms(1) by (simp add: files_ok_def)
  then show "if EFI_ERROR st then buf_size l' = BUF_256B \<and> rank (fw l') < rank (fw l) else file_size l' = of_nat (length file)"
    using c by (auto simp: get_info_def retries_def split: prod.splits)
qed (use assms(2) that in auto)

lemma read_ends:
  assumes "files_ok F rank file" "file_size l = of_nat (length file)"
  obtains l' where "until_ok (read_kernel F) l = Some l'" "file_size l' = of_nat (length file)"
    "\<forall>i<length file. ram l' (of_nat i) = file ! i"
proof (rule until_ok_ends [where I = "\<lambda>l. file_size l = of_nat (length file)" and call = "read_kernel F" and r = "\<lambda>l. rank (fw l)"
      and Q = "\<lambda>l'. file_size l' = of_nat (length file) \<and> (\<forall>i<length file. ram l' (of_nat i) = file ! i)" and l = l])
  fix l st l'
  assume c: "file_size l = of_nat (length file)" "read_kernel F l = (st, l')"
  have "case fw_read F (of_nat (length file)) 0 (ram l) (fw l) of (st, n, m', f') \<Rightarrow>
      retries rank (fw l) st f' \<and> n = of_nat (length file) \<and> (\<not> EFI_ERROR st \<longrightarrow> (\<forall>i<length file. m' (0 + of_nat i) = file ! i))"
    using assms(1) unfolding files_ok_def
    by (elim conjE) (erule allE [of _ 0], erule allE [of _ "ram l"], erule allE)
  then show "if EFI_ERROR st then file_size l' = of_nat (length file) \<and> rank (fw l') < rank (fw l)
      else file_size l' = of_nat (length file) \<and> (\<forall>i<length file. ram l' (of_nat i) = file ! i)"
    using c by (auto simp: read_kernel_def retries_def split: prod.splits)
qed (use assms(2) that in auto)

section \<open>The memory map\<close>

text \<open>
  One round is enough: after the first answer the buffer is a page larger than the map was, and the
  request for that buffer makes the map grow by less.
\<close>

lemma get_map_fits:
  assumes "memory_ok F need current" "need (fw l) \<le> mmapsize l"
  obtains l' where "get_map F l = (0, l')" "mapkey l' = current (fw l')" "gop l' = gop l"
    "\<forall>a. mmapsize l \<le> a - mmap l \<longrightarrow> ram l' a = ram l a"
proof -
  obtain st n' key m' f' where c: "fw_map F (mmapsize l) (mmap l) (ram l) (fw l) = (st, n', key, m', f')" by (metis prod_cases5)
  have "case fw_map F (mmapsize l) (mmap l) (ram l) (fw l) of (st, n', key, m', f') \<Rightarrow>
      if mmapsize l < need (fw l) then st = EFI_BUFFER_TOO_SMALL \<and> n' = need (fw l) \<and> m' = ram l \<and> need f' = need (fw l)
      else st = 0 \<and> key = current f' \<and> (\<forall>a. mmapsize l \<le> a - mmap l \<longrightarrow> m' a = ram l a)"
    using assms(1) unfolding memory_ok_def
    by (elim conjE) (erule allE [of _ "mmapsize l"], erule allE [of _ "mmap l"], erule allE [of _ "ram l"], erule allE)
  with c assms(2) show thesis
    by (intro that [of "l\<lparr>fw := f', mmapsize := n', mapkey := key, ram := m'\<rparr>"]) (simp_all add: get_map_def not_less [symmetric])
qed

lemma get_map_short:
  assumes "memory_ok F need current" "mmapsize l < need (fw l)"
  obtains l' where "get_map F l = (EFI_BUFFER_TOO_SMALL, l')" "mmapsize l' = need (fw l')" "ram l' = ram l" "mmap l' = mmap l"
proof -
  obtain st n' key m' f' where c: "fw_map F (mmapsize l) (mmap l) (ram l) (fw l) = (st, n', key, m', f')" by (metis prod_cases5)
  have "case fw_map F (mmapsize l) (mmap l) (ram l) (fw l) of (st, n', key, m', f') \<Rightarrow>
      if mmapsize l < need (fw l) then st = EFI_BUFFER_TOO_SMALL \<and> n' = need (fw l) \<and> m' = ram l \<and> need f' = need (fw l)
      else st = 0 \<and> key = current f' \<and> (\<forall>a. mmapsize l \<le> a - mmap l \<longrightarrow> m' a = ram l a)"
    using assms(1) unfolding memory_ok_def
    by (elim conjE) (erule allE [of _ "mmapsize l"], erule allE [of _ "mmap l"], erule allE [of _ "ram l"], erule allE)
  with c assms(2) show thesis
    by (intro that [of "l\<lparr>fw := f', mmapsize := n', mapkey := key, ram := m'\<rparr>"]) (simp_all add: get_map_def not_less [symmetric])
qed

lemma exit_ends:
  assumes mem: "memory_ok F need current" and start: "mmapsize l = 0" "mmap l = 0"
    and pools: "\<forall>n f. unat n < 2 ^ 33 \<longrightarrow> (case fw_alloc F n f of (st, p, f') \<Rightarrow> \<forall>a\<in>A. n \<le> a - p)"
  obtains l' where "exit_services F l = Some l'" "\<forall>a\<in>A. ram l' a = ram l a"
proof -
  have key: "\<not> EFI_ERROR (fst (fw_exit F (current f) f))" for f using mem by (simp add: memory_ok_def)
  have fin: "exit_services F l = Some (k\<lparr>fw := snd (fw_exit F (mapkey k) (fw k))\<rparr>)"
    if "get_map F l = (st, l1)" "grow_map F st l1 = Some (0, k)" "mapkey k = current (fw k)" for st l1 k
    using key [of "fw k"] that by (simp add: exit_services.simps [of F l] split: prod.split) (metis fst_conv)
  show thesis
  proof (cases "need (fw l) \<le> mmapsize l")
    case True
    obtain k where k: "get_map F l = (0, k)" "mapkey k = current (fw k)" "\<forall>a. mmapsize l \<le> a - mmap l \<longrightarrow> ram k a = ram l a"
      by (rule get_map_fits [OF mem True])
    have "grow_map F 0 k = Some (0, k)" by (simp add: grow_map.simps EFI_BUFFER_TOO_SMALL_def)
    from fin [OF k(1) this k(2)] show thesis by (rule that) (use k(3) start in simp)
  next
    case False
    obtain l1 where 1: "get_map F l = (EFI_BUFFER_TOO_SMALL, l1)" "mmapsize l1 = need (fw l1)" "ram l1 = ram l" "mmap l1 = mmap l"
      by (rule get_map_short [OF mem, of l]) (use False in simp)
    let ?n = "need (fw l1) + 0x1000"
    obtain st p f where a: "fw_alloc F ?n (fw l1) = (st, p, f)" by (metis prod_cases3)
    have "unat (need f) \<le> unat (need (fw l1)) + 0x1000"
      using mem a unfolding memory_ok_def by (elim conjE) (erule allE [of _ ?n], erule allE [of _ "fw l1"], simp)
    moreover have "unat ?n = unat (need (fw l1)) + 0x1000"
      using mem by (auto simp: memory_ok_def unat_word_ariths dest!: spec [of _ "fw l1"])
    ultimately have n: "need f \<le> ?n" by (simp add: word_le_nat_alt)
    let ?l = "l1\<lparr>mmapsize := ?n, fw := f, mmap := p\<rparr>"
    obtain k where k: "get_map F ?l = (0, k)" "mapkey k = current (fw k)" "\<forall>x. mmapsize ?l \<le> x - mmap ?l \<longrightarrow> ram k x = ram ?l x"
      by (rule get_map_fits [OF mem, of ?l]) (use n in simp)
    have "grow_map F EFI_BUFFER_TOO_SMALL l1 = grow_map F 0 k"
      using 1 start(2) a k(1) by (simp add: grow_map.simps [of F EFI_BUFFER_TOO_SMALL] Let_def)
    also have "\<dots> = Some (0, k)" by (simp add: grow_map.simps EFI_BUFFER_TOO_SMALL_def)
    finally have g: "grow_map F EFI_BUFFER_TOO_SMALL l1 = Some (0, k)" .
    have "unat (need (fw l1)) < 2 ^ 32" using mem by (simp add: memory_ok_def)
    then have "unat ?n < 2 ^ 33" using \<open>unat ?n = unat (need (fw l1)) + 0x1000\<close> by simp
    then have "\<forall>x\<in>A. ?n \<le> x - p" using pools [THEN spec [of _ ?n], THEN spec [of _ "fw l1"]] a by simp
    then show thesis by (intro that [OF fin [OF 1(1) g k(2)]]) (use k(3) 1(3) in auto)
  qed
qed

section \<open>The file in memory\<close>

lemma image_nth: "i < length file \<Longrightarrow> i < 2 ^ 64 \<Longrightarrow> image file (of_nat i) = file ! i"
  by (simp add: image_def unat_of_nat take_bit_nat_eq_self)

lemma loaded_image:
  assumes "loaded file m" "length file < 2 ^ 31" "unat a + n \<le> length file" "i < n"
  shows "m (KERNEL_START_QEMU + a + of_nat i) = image file (a + of_nat i)"
proof -
  have u: "unat (a + of_nat i) = unat a + i" by (rule unat_offset [of a n]) (use assms in simp_all)
  have e: "a + of_nat i = of_nat (unat a + i)" by simp
  have j: "unat a + i < length file" using assms(3,4) by simp
  have "m (KERNEL_START_QEMU + of_nat (unat a + i)) = file ! (unat a + i)" using assms(1) j unfolding loaded_def by blast
  moreover have "image file (of_nat (unat a + i)) = file ! (unat a + i)" using image_nth [OF j] j assms(2) by simp
  ultimately show ?thesis unfolding add.assoc e by simp
qed

lemma elf_sizes: "c_sizeof elf64_ehdr = 64" "c_sizeof elf64_shdr = 64"
  by code_simp+

lemma small_int: "unat (w :: u64) < 2 ^ 31 \<Longrightarrow> (scast (ucast w :: u32) :: u64) = w"
proof -
  assume w: "unat w < 2 ^ 31"
  have "\<not> bit w n" if "31 \<le> n" for n
  proof -
    have "unat w < 2 ^ n" using w power_increasing [OF that, of "2 :: nat"] by simp
    then have "\<not> bit (unat w) n" by (simp add: bit_iff_odd)
    then show ?thesis by (auto simp: bit_unsigned_iff possible_bit_def)
  qed
  then show ?thesis by (intro bit_word_eqI) (auto simp: bit_simps min_def)
qed

text \<open>The jump goes to the file offset of section 1.\<close>

lemma update_start_addr_loaded:
  assumes img: "loaded file m" "64 \<le> length file" "length file < 2 ^ 31"
    and sh: "shoff = c_field elf64_ehdr ''e_shoff'' (image file) 0" "unat shoff + 128 \<le> length file"
    and off: "off = c_field elf64_shdr ''sh_offset'' (image file) (shoff + 64)" "unat off < 2 ^ 31"
  shows "update_start_addr m KERNEL_START_QEMU = KERNEL_START_QEMU + off"
proof -
  have "c_field elf64_ehdr ''e_shoff'' m KERNEL_START_QEMU = c_field elf64_ehdr ''e_shoff'' (image file) 0"
  proof (rule c_field_agree [where n = 8 and al = 8])
    fix i assume "i < c_sizeof elf64_ehdr"
    then show "m (KERNEL_START_QEMU + of_nat i) = image file (0 + of_nat i)"
      using loaded_image [OF img(1,3), of 0 64 i] img(2) by (simp add: elf_sizes)
  qed (simp_all add: elf64_ehdr_def c_array_def )
  moreover have "c_field elf64_shdr ''sh_offset'' m (KERNEL_START_QEMU + shoff + 64) = off"
    unfolding off(1)
  proof (rule c_field_agree [where n = 8 and al = 8])
    fix i assume i: "i < c_sizeof elf64_shdr"
    have "unat (shoff + 64) = unat shoff + 64" using unat_offset [of shoff 128 64] sh(2) img(3) by simp
    then have "m (KERNEL_START_QEMU + (shoff + 64) + of_nat i) = image file (shoff + 64 + of_nat i)"
      by (intro loaded_image [OF img(1,3), of _ 64]) (use sh(2) i in \<open>simp_all add: elf_sizes\<close>)
    then show "m (KERNEL_START_QEMU + shoff + 64 + of_nat i) = image file (shoff + 64 + of_nat i)" by (simp add: add.assoc)
  qed (simp_all add: elf64_shdr_def )
  ultimately show ?thesis using small_int [OF off(2)] sh(1) by (simp add: update_start_addr_def Let_def elf_sizes)
qed

section \<open>The start of the kernel\<close>

lemma file_bounds:
  assumes "length file < 2 ^ 31" "i < length file"
  shows "(of_nat i :: u64) < of_nat (length file)" "unat (KERNEL_START_QEMU + of_nat i) = 0x100000 + i"
  using assms by (simp_all add: word_less_nat_alt unat_of_nat take_bit_nat_eq_self KERNEL_START_QEMU_def unat_word_ariths)

lemma copy_loaded:
  assumes "memory_ok F need current" "length file < 2 ^ 31" "\<forall>i<length file. m (of_nat i) = file ! i"
  shows "loaded file (fw_copy F KERNEL_START_QEMU 0 (of_nat (length file)) m)"
  unfolding loaded_def
proof (intro allI impI)
  fix i assume i: "i < length file"
  have "fw_copy F KERNEL_START_QEMU 0 (of_nat (length file)) m (KERNEL_START_QEMU + of_nat i) = m (of_nat i)"
    using assms(1) file_bounds(1) [OF assms(2) i] by (simp add: memory_ok_def)
  then show "fw_copy F KERNEL_START_QEMU 0 (of_nat (length file)) m (KERNEL_START_QEMU + of_nat i) = file ! i"
    using assms(3) i by simp
qed

lemma fill_loaded:
  assumes "loaded file m" "length file < 2 ^ 31" "unat b + 8 * n \<le> 2 ^ 64" "0x100000 + length file \<le> unat b"
  shows "loaded file (fill64 g b n m)"
  unfolding loaded_def
proof (intro allI impI)
  fix i assume i: "i < length file"
  have "fill64 g b n m (KERNEL_START_QEMU + of_nat i) = m (KERNEL_START_QEMU + of_nat i)"
    by (rule fill64_outside [OF assms(3)]) (use file_bounds(2) [OF assms(2) i] assms(4) i in simp)
  then show "fill64 g b n m (KERNEL_START_QEMU + of_nat i) = file ! i" using assms(1) i by (simp add: loaded_def)
qed

text \<open>Up to \<open>ExitBootServices\<close>.\<close>

lemma loader_reads:
  assumes "devices_ok F rank mode" "files_ok F rank file"
  obtains l' where "file_size l' = of_nat (length file)" "\<forall>i<length file. ram l' (of_nat i) = file ! i"
    "UefiMain F l = (let m = fw_copy F KERNEL_START_QEMU 0 (file_size l') (ram l')
       in and_then (loop_end (exit_services F (l'\<lparr>ram := m, mmapsize := 0, mmap := 0\<rparr>))) (\<lambda>l.
         Inr (make_bootinfo mode, update_start_addr m KERNEL_START_QEMU,
           l\<lparr>ram := fill64 (\<lambda>_. 0xffffffff) (FrameBufferBase mode) (unat (FrameBufferSize mode)) (ram l)\<rparr>)))"
proof -
  obtain l1 where 1: "until_ok (locate_gop F) l = Some l1" "gop l1 = mode" by (rule locate_ends [OF assms(1)])
  obtain l2 where 2: "until_ok (locate_sfsp F) l1 = Some l2" by (rule sfsp_ends [OF assms(1)])
  obtain st f where v: "fw_open_volume F (fw l2) = (st, f)" by fastforce
  then have nv: "\<not> EFI_ERROR st" using assms(2) unfolding files_ok_def by (metis fst_conv)
  obtain l3 where 3: "until_ok (open_kernel F) (l2\<lparr>fw := f\<rparr>) = Some l3" by (rule open_ends [OF assms(2)])
  obtain l4 where 4: "until_ok (get_info F) (l3\<lparr>buf_size := BUF_256B\<rparr>) = Some l4" "file_size l4 = of_nat (length file)"
    by (rule info_ends [OF assms(2), of "l3\<lparr>buf_size := BUF_256B\<rparr>"]) simp
  obtain l5 where 5: "until_ok (read_kernel F) l4 = Some l5" "file_size l5 = of_nat (length file)" "\<forall>i<length file. ram l5 (of_nat i) = file ! i"
    by (rule read_ends [OF assms(2) 4(2)])
  show thesis
    by (rule that [OF 5(2,3)])
      (use 1 2 v nv 3 4(1) 5(1) in \<open>simp add: UefiMain_def loop_end_def Let_def make_bootinfo_def\<close>)
qed

text \<open>
  C8. The loader. On a firmware whose services succeed after finitely many refusals, that opens the volume and
  that puts no pool into the place of the kernel, the loader ends: it jumps to the place in memory of the first
  section of the kernel file, hands over the frame buffer and mode of the graphics protocol, the whole file is in
  memory from 1 MiB on, the section begins where control goes, and each 64-bit word of the frame buffer is
  0xffffffff (every other pixel white).
\<close>

theorem loader_starts_kernel:
  assumes fw: "devices_ok F rank mode" "files_ok F rank file" "memory_ok F need current"
    and pools: "\<forall>n f. unat n < 2 ^ 33 \<longrightarrow>
      (case fw_alloc F n f of (st, p, f') \<Rightarrow> \<forall>i<length file. n \<le> KERNEL_START_QEMU + of_nat i - p)"
    and len: "64 \<le> length file" "length file < 2 ^ 31"
    and sh: "shoff = c_field elf64_ehdr ''e_shoff'' (image file) 0" "unat shoff + 128 \<le> length file"
    and off: "off = c_field elf64_shdr ''sh_offset'' (image file) (shoff + 64)" "unat off < 2 ^ 31"
    and fb: "unat (FrameBufferBase mode) + 8 * unat (FrameBufferSize mode) \<le> 2 ^ 64" "0x100000 + length file \<le> unat (FrameBufferBase mode)"
  shows "\<exists>b l'. UefiMain F l = Inr (b, KERNEL_START_QEMU + off, l') \<and>
    bi_fb b = FrameBufferBase mode \<and> bi_vinfo b = \<lparr>vi_fb_size = FrameBufferSize mode, vi_x_axis = HorizontalResolution mode,
      vi_y_axis = VerticalResolution mode, vi_ppsl = PixelsPerScanLine mode\<rparr> \<and>
    loaded file (ram l') \<and>
    (\<forall>i. unat off + i < length file \<longrightarrow> ram l' (KERNEL_START_QEMU + off + of_nat i) = file ! (unat off + i)) \<and>
    (\<forall>i<unat (FrameBufferSize mode). load64 (ram l') (FrameBufferBase mode + 8 * of_nat i) = 0xffffffff)"
proof -
  obtain l5 where 5: "file_size l5 = of_nat (length file)" "\<forall>i<length file. ram l5 (of_nat i) = file ! i"
    "UefiMain F l = (let m = fw_copy F KERNEL_START_QEMU 0 (file_size l5) (ram l5)
       in and_then (loop_end (exit_services F (l5\<lparr>ram := m, mmapsize := 0, mmap := 0\<rparr>))) (\<lambda>l.
         Inr (make_bootinfo mode, update_start_addr m KERNEL_START_QEMU,
           l\<lparr>ram := fill64 (\<lambda>_. 0xffffffff) (FrameBufferBase mode) (unat (FrameBufferSize mode)) (ram l)\<rparr>)))"
    by (rule loader_reads [OF fw(1,2)])
  let ?m = "fw_copy F KERNEL_START_QEMU 0 (file_size l5) (ram l5)"
  have m: "loaded file ?m" using copy_loaded [OF fw(3) len(2) 5(2)] 5(1) by simp
  let ?l = "l5\<lparr>ram := ?m, mmapsize := 0, mmap := 0\<rparr>" and ?A = "(\<lambda>i. KERNEL_START_QEMU + of_nat i) ` {..<length file}"
  have "\<forall>n f. unat n < 2 ^ 33 \<longrightarrow> (case fw_alloc F n f of (st, p, f') \<Rightarrow> \<forall>a\<in>?A. n \<le> a - p)"
    using pools unfolding ball_simps unfolding Ball_def lessThan_iff .
  then obtain l6 where 6: "exit_services F ?l = Some l6" "\<forall>a\<in>?A. ram l6 a = ram ?l a"
    by (rule exit_ends [OF fw(3), of ?l ?A, rotated 2]) simp_all
  let ?fb = "FrameBufferBase mode" and ?n = "unat (FrameBufferSize mode)"
  let ?m' = "fill64 (\<lambda>_. 0xffffffff) ?fb ?n (ram l6)"
  have run: "UefiMain F l = Inr (make_bootinfo mode, KERNEL_START_QEMU + off, l6\<lparr>ram := ?m'\<rparr>)"
    using 5(3) 6(1) update_start_addr_loaded [OF m len sh off] by (simp add: loop_end_def Let_def)
  have "loaded file (ram l6)" using 6(2) m by (simp add: loaded_def)
  from fill_loaded [OF this len(2) fb] have m': "loaded file ?m'" .
  have "?m' (KERNEL_START_QEMU + off + of_nat i) = file ! (unat off + i)" if i: "unat off + i < length file" for i
  proof -
    have "?m' (KERNEL_START_QEMU + of_nat (unat off + i)) = file ! (unat off + i)" using m' i unfolding loaded_def by blast
    then show ?thesis by (simp add: add.assoc)
  qed
  moreover have "load64 ?m' (?fb + 8 * of_nat i) = 0xffffffff" if "i < ?n" for i by (rule load64_fill64 [OF fb(1) that])
  ultimately show ?thesis using run m' by (intro exI [of _ "make_bootinfo mode"] exI [of _ "l6\<lparr>ram := ?m'\<rparr>"]) (simp add: make_bootinfo_def)
qed

text \<open>
  A firmware whose state counts how often \<open>LocateProtocol\<close> still fails, with a map of 48 bytes, and a
  file of 320 bytes whose section 1 begins at 0x100.
\<close>

definition demo_file :: "u8 list" where
  "demo_file = map (\<lambda>i. if i = 40 then 64 else if i = 153 then 1 else if 256 \<le> i then 0x90 else 0) [0..<320]"

definition demo_mode :: gop_mode where
  "demo_mode = \<lparr>FrameBufferBase = 0xc0000000, FrameBufferSize = 0x3e8000, HorizontalResolution = 1280, VerticalResolution = 800,
     PixelsPerScanLine = 1280\<rparr>"

definition demo_fw :: "nat firmware" where
  "demo_fw = \<lparr>fw_locate_gop = (\<lambda>f. if f = 0 then (0, demo_mode, f) else (0x800000000000000e, demo_mode, f - 1)),
     fw_locate_sfsp = (\<lambda>f. (0, f)), fw_open_volume = (\<lambda>f. (0, f)), fw_open = (\<lambda>f. (0, f)), fw_info = (\<lambda>n f. (0, n, 320, f)),
     fw_read = (\<lambda>n buf m f. (0, n, \<lambda>a. if a - buf < n then demo_file ! unat (a - buf) else m a, f)),
     fw_copy = (\<lambda>dst src n m a. if a - dst < n then m (src + (a - dst)) else m a),
     fw_map = (\<lambda>n p m f. if n < 48 then (EFI_BUFFER_TOO_SMALL, 48, 0, m, f) else (0, 48, 7, m, f)),
     fw_alloc = (\<lambda>n f. (0, 0x80000000, f)), fw_free = (\<lambda>p f. f),
     fw_exit = (\<lambda>key f. (if key = 7 then 0 else 0x8000000000000002, f))\<rparr>"

lemma demo_file_length: "length demo_file = 320"
  by (simp add: demo_file_def)

lemma demo_fw_ok: "devices_ok demo_fw id demo_mode" "files_ok demo_fw id demo_file" "memory_ok demo_fw (\<lambda>_. 48) (\<lambda>_. 7)"
proof -
  show "devices_ok demo_fw id demo_mode" by (simp add: devices_ok_def retries_def demo_fw_def EFI_ERROR_def)
  show "memory_ok demo_fw (\<lambda>_. 48) (\<lambda>_. 7)" by (simp add: memory_ok_def demo_fw_def EFI_ERROR_def)
  have "(of_nat i :: u64) < 320 \<and> unat (of_nat i :: u64) = i" if "i < 320" for i
    using that by (simp add: word_less_nat_alt unat_of_nat take_bit_nat_eq_self)
  then show "files_ok demo_fw id demo_file" by (simp add: files_ok_def retries_def demo_fw_def EFI_ERROR_def demo_file_length)
qed

theorem loader_starts_kernel_witness:
  "\<forall>l :: nat loader. \<exists>b l'. UefiMain demo_fw l = Inr (b, 0x100100, l') \<and> vi_x_axis (bi_vinfo b) = 1280 \<and> ram l' 0x100100 = 0x90"
proof
  fix l :: "nat loader"
  have e: "64 = c_field elf64_ehdr ''e_shoff'' (image demo_file) 0"
    "256 = c_field elf64_shdr ''sh_offset'' (image demo_file) (64 + 64)" by code_simp+
  have pools: "\<forall>n f. unat n < 2 ^ 33 \<longrightarrow>
      (case fw_alloc demo_fw n f of (st, p, f') \<Rightarrow> \<forall>i<length demo_file. n \<le> KERNEL_START_QEMU + of_nat i - p)"
  proof -
    have "n \<le> KERNEL_START_QEMU + of_nat i - 0x80000000" if n: "unat n < 2 ^ 33" and i: "i < 320" for n i
    proof -
      have "unat (KERNEL_START_QEMU + of_nat i) = 0x100000 + i"
        using file_bounds(2) [of demo_file i] i by (simp add: demo_file_length)
      then show ?thesis using n i by (simp add: word_le_nat_alt unat_sub_if')
    qed
    then show ?thesis by (simp add: demo_fw_def demo_file_length)
  qed
  have "demo_file ! 256 = 0x90" by (simp add: demo_file_def del: upt_rec_numeral)
  with loader_starts_kernel [OF demo_fw_ok pools _ _ e(1) _ e(2), of l]
  show "\<exists>b l'. UefiMain demo_fw l = Inr (b, 0x100100, l') \<and> vi_x_axis (bi_vinfo b) = 1280 \<and> ram l' 0x100100 = 0x90"
    by (fastforce simp: demo_file_length demo_mode_def KERNEL_START_QEMU_def)
qed

end
