(* ===== verification/Spec2Isabelle.thy ===== *)
theory Spec2Isabelle
  imports Prelude Fifo Util Heap Heap_Alloc Heap_Free Heap_Spec Heap_Run Heap_Aligned Fonts Serial
    Graphics Context Threads Scheduler Semaphore Semaphore_Full Bytes Paging Interrupts Handlers
    Heap_Client Thread_Life Fork Pipe Pci Layout Ahci Ahci_Cmd Ahci_Table Ahci_Read Ahci_Disk
    Ext2 Ext2_Read Ext2_Dir Ext2_Table App Kernel Kernel_Boot Kernel_Launch Kernel_Demo
    Loader Loader_Run
begin

text \<open>
  A verification development for minOSv2, a small x86-64 kernel in C (src/kernel): its heap,
  console, screen, descriptor and page tables, interrupt handlers, threads, scheduler, semaphores and
  pipes, its disk, file system and start-up as HOL functions, and the theorems that say what they do.

  \<^bold>\<open>The program.\<close> The UEFI loader (src/boot) reads the kernel into memory and jumps to
  \<open>entry_point\<close> (src/kernel/kernel.c), which sets up the screen, segments, pages, interrupts, the
  serial line and the heap, creates threads and starts the scheduler. From then on the timer
  interrupt calls \<open>thread_scheduler\<close>; threads synchronise with semaphores and talk through pipes;
  the disk is read through PCI, AHCI and ext2 drivers.

  \<^bold>\<open>State.\<close> One record, extended from component to component, so that an operation of a lower
  layer acts on the state of every layer above it: \<open>cpu\<close> (interrupt flag, port output, UART port;
  Util) \<open>heap\<close> (block headers in memory and the \<open>freep\<close> of mm.c; Heap), \<open>screen\<close> (frame buffer
  and video mode of graphics.c; Graphics), \<open>ctx\<close> (registers, stack memory; Context), \<open>sys\<close>
  (thread structures, \<open>threads[]\<close>, \<open>tid_index_dict[]\<close>, \<open>semtable[]\<close>; Threads). C integers are
  words of their width; \<open>int\<close> values are HOL integers where the code keeps them in range (tids,
  indices, counters, sizes of requests), which the invariants state.

  \<^bold>\<open>Errors.\<close> An \<open>outcome\<close> is a value or a \<open>fault\<close>: \<open>Out_of_bounds\<close> where the code leaves an array,
  divides by 0 or shifts by a negative number (undefined in C) and \<open>Spins\<close> where it stays in a loop. Loops whose end is not evident are
  \<open>partial_function (option)\<close>, \<open>None\<close> being the run that never ends; no fuel is used, so termination is
  a theorem wherever it holds.

  \<^bold>\<open>Theories.\<close>
  \<^item> Prelude: machine types, outcomes, array access, circular indices. Fifo: the locale
    \<open>bounded_fifo\<close> of a bounded queue, with interpretations \<open>qc\<close> (Util) and \<open>qs\<close> (Semaphore).
  \<^item> Util (util.c, util_asm.S): the interrupt flag and ports, \<open>mypow\<close>, \<open>memset\<close>, \<open>memcpy\<close>,
    \<open>init_bss\<close>, the string functions, the character queue.
  \<^item> Heap, Heap_Alloc, Heap_Free, Heap_Spec, Heap_Run (mm.c): \<open>init_kheap\<close>, \<open>kmalloc\<close>, \<open>kfree\<close>,
    \<open>count_free_block\<close>; the invariant \<open>heap_ok\<close> of the circular free list; the locale \<open>allocator\<close>,
    the contract a client may rely on, and its interpretation \<open>kh\<close> on the code; runs of requests
    and releases (\<open>kheap_run\<close>) and the theorems about them. Heap_Aligned: \<open>is_aligned\<close>,
    \<open>align_as\<close>, \<open>get_aligned_address\<close>, \<open>kmalloc_alignas\<close>.
  \<^item> Serial (device/serial.c): interrupt controller and UART set-up, output. The UART is a
    parameter: \<open>lsr n\<close> is what the \<open>n\<close>-th read of its line status register returns.
  \<^item> Fonts (fonts.h), Graphics (graphics.c): the font and the drawing routines.
  \<^item> Context (task_asm.S): \<open>init_stack\<close>, \<open>switch_context\<close>, \<open>switch_fork\<close>, instruction by
    instruction. Threads, Scheduler (task.c): the thread table with its invariant \<open>table_ok\<close>,
    registration, look-up, \<open>thread_scheduler\<close>. Heap_Client: the heap as its clients see it
    (\<open>heap_has\<close>). Thread_Life, Fork (task.c): \<open>create_thread\<close>, \<open>thread_end\<close>, \<open>thread_exec\<close>,
    \<open>fork_thread\<close>, with the invariant \<open>threads_ok\<close> that ties the thread table to the heap.
  \<^item> Bytes, Paging (mm.c, mm_asm.S): memory as bytes, segment descriptors, the kernel's page tables and
    the walk of the processor through them. Interrupts (interrupt.c), Handlers (int_handler.c): the
    interrupt descriptor table and the body of every handler.
  \<^item> Semaphore (semaphore.c): the semaphore table, its operations, the invariant \<open>sys_inv\<close> of runs
    \<open>sem_run\<close>; Semaphore_Full: a system with a full queue. Pipe (stdcall/pipe.c): the pipe as a
    refinement of a one-place buffer, and the hand-over of a message from writer to reader.
  \<^item> Pci (device/pci.c): configuration reads and the search for the AHCI controller. Layout: how
    structures are laid out in memory. Ahci, Ahci_Cmd (device/ahci.c, device/ahci.h): registers,
    initialisation, command tables and commands; Ahci_Table, Ahci_Read, Ahci_Disk: what the adapter
    reads in the tables, what a command does (\<open>serves\<close>), and that reading delivers the disk.
  \<^item> Ext2 (fs/ext2.c, fs/ext2.h): the structures on disk and every routine of the reader. Ext2_Read:
    the metadata \<open>check_ext2\<close> takes from the disk; Ext2_Dir: the listing of a directory tree against
    the tree itself (\<open>dir_tree\<close>, \<open>tree_at\<close>, \<open>listing\<close>); Ext2_Table: the inode table in memory
    against the table of the disk.
  \<^item> App (app/app.c, app/console.c): the moving squares and the line input of the console. Kernel
    (kernel.c): \<open>entry_point\<close> in its two halves (\<open>boot_devices\<close>, \<open>launch\<close>) around the disk check, and the
    demonstration threads, each cut where it may hand over the processor. Kernel_Boot: what holds after
    the set-up of tables, heap and devices, and when the disk check never ends; Kernel_Launch: the first
    thread; Kernel_Demo: the message between child and parent.
  \<^item> Loader (boot/src/MinLoader.c): \<open>UefiMain\<close> over a record of firmware services, and the ELF headers it
    reads; Loader_Run: on a firmware that keeps its promises it ends and control reaches the kernel file.

  \<^bold>\<open>Assumptions.\<close> Pointers to thread structures, semaphore identifiers and pipe structures are
  addresses of separate typed stores (no two structures overlap, and none lies on a stack or in the
  frame buffer); heap headers are at 16-byte units. Serial output inside other components is taken
  to terminate (\<open>say\<close>); Serial proves when it does. The address of \<open>empty_thread\<close> is the field
  \<open>empty_at\<close>. The host bridge and the AHCI adapter are parameters: \<open>bridge\<close> says that a configuration
  read answers for the address written last, \<open>serves\<close> that the adapter does what the AHCI
  specification promises of status registers, of stopping a port and of a read command; both have
  an instance in the witnesses. The UEFI firmware is a parameter of the loader (\<open>devices_ok\<close>, \<open>files_ok\<close>, \<open>memory_ok\<close>, with an instance). The addresses of local arrays and structures the disk is read into are parameters. The return address of a call of \<open>thread_scheduler\<close> is the parameter \<open>ra\<close>.

  \<^bold>\<open>Not modelled.\<close> Of the console (app/console.c, not linked) everything after the line input: it calls \<open>parse_input_text\<close>, \<open>execute_command\<close> and
  \<open>output_text_to_stdout\<close>, which the repository does not contain. The host-side test of the heap.
\<close>

end
